(* ===== verification/Prelude.thy ===== *)
theory Prelude
  imports Main "HOL-Library.Word" "HOL-Library.Signed_Division" "HOL-Library.List_Lexorder"
    "HOL-Library.Char_ord"
begin

text \<open>
  What the component theories share: the fixed-width reading of C integers, the two
  pieces of \<^verbatim>\<open>std::string\<close> the code relies on (searching and cutting at a delimiter),
  decimal printing, the loops \<open>for (i = 0; i < n; ++i)\<close> as folds over intervals, and the
  interface of a first-in first-out queue, which the serial input, the power-button events
  and both directions of the BLE link implement.
\<close>

section \<open>C integers\<close>

text \<open>
  A signed C integer is an \<open>int\<close>; converting to a narrower signed type keeps the low bits
  and reads them as two's complement, which is \<^const>\<open>signed_take_bit\<close>.
\<close>

definition s16 :: "int \<Rightarrow> int" where
  "s16 x = signed_take_bit 15 x"

definition s32 :: "int \<Rightarrow> int" where
  "s32 x = signed_take_bit 31 x"

definition in_s16 :: "int \<Rightarrow> bool" where
  "in_s16 x \<longleftrightarrow> - 32768 \<le> x \<and> x < 32768"

lemma s16_id [simp]: "in_s16 x \<Longrightarrow> s16 x = x"
  by (simp add: s16_def in_s16_def signed_take_bit_int_eq_self)

lemma in_s16_s16 [simp]: "in_s16 (s16 x)"
  using signed_take_bit_int_greater_eq_minus_exp [of 15 x]
    signed_take_bit_int_less_exp [of 15 x]
  by (simp add: in_s16_def s16_def)

text \<open>\<open>/\<close> on C integers truncates toward zero, which is the library's \<^const>\<open>signed_divide\<close>.\<close>

definition cdiv :: "int \<Rightarrow> int \<Rightarrow> int" where
  "cdiv a b = a sdiv b"

lemma cdiv_nonneg: "0 \<le> a \<Longrightarrow> 0 \<le> b \<Longrightarrow> cdiv a b = a div b"
  by (cases "a = 0"; cases "b = 0") (simp_all add: cdiv_def signed_divide_int_def sgn_if)

lemma cdiv_neg: "0 \<le> a \<Longrightarrow> 0 \<le> b \<Longrightarrow> cdiv (- a) b = - (a div b)"
  by (cases "a = 0"; cases "b = 0") (simp_all add: cdiv_def signed_divide_int_def sgn_if)

lemma cdiv_mult_cancel: "b \<noteq> 0 \<Longrightarrow> cdiv (a * b) b = a"
proof -
  assume b: "b \<noteq> 0"
  have "cdiv (a * b) b = sgn (a * b) * sgn b * (\<bar>a\<bar> * \<bar>b\<bar> div \<bar>b\<bar>)"
    by (simp add: cdiv_def signed_divide_int_def abs_mult sgn_mult)
  also have "\<dots> = sgn a * (sgn b * sgn b) * \<bar>a\<bar>"
    using b by (simp add: sgn_mult)
  also have "sgn b * sgn b = 1"
    using b by (simp add: sgn_if)
  also have "sgn a * 1 * \<bar>a\<bar> = a"
    by (simp add: sgn_if)
  finally show ?thesis .
qed

lemma cdiv_between:
  assumes "0 < k" and "0 \<le> i" and "i \<le> k"
  shows "min 0 d \<le> cdiv (d * i) k" and "cdiv (d * i) k \<le> max 0 d"
proof -
  have up: "0 \<le> (e * i) div k \<and> (e * i) div k \<le> e" if "0 \<le> e" for e
  proof -
    have "e * i \<le> e * k" using that assms by (intro mult_left_mono) auto
    then have "(e * i) div k \<le> (e * k) div k" using assms by (intro zdiv_mono1) auto
    with that assms show ?thesis by (auto intro: pos_imp_zdiv_nonneg_iff [THEN iffD2])
  qed
  show "min 0 d \<le> cdiv (d * i) k"
  proof (cases "0 \<le> d")
    case True
    with up [OF True] assms show ?thesis by (simp add: cdiv_nonneg)
  next
    case False
    with up [of "- d"] assms cdiv_neg [of "(- d) * i" k] show ?thesis
      by (simp add: mult_nonpos_nonneg)
  qed
  show "cdiv (d * i) k \<le> max 0 d"
  proof (cases "0 \<le> d")
    case True
    with up [OF True] assms show ?thesis by (simp add: cdiv_nonneg)
  next
    case False
    with up [of "- d"] assms cdiv_neg [of "(- d) * i" k] show ?thesis
      by (simp add: mult_nonpos_nonneg)
  qed
qed

section \<open>Strings\<close>

abbreviation nl :: char where
  "nl \<equiv> CHR 0x0A"

abbreviation cr :: char where
  "cr \<equiv> CHR 0x0D"

text \<open>
  \<open>str_find p s\<close> is \<^verbatim>\<open>s.find(p)\<close>: the offset of the first occurrence of \<open>p\<close> in \<open>s\<close>,
  \<^const>\<open>None\<close> standing for \<^verbatim>\<open>npos\<close>.
\<close>

fun starts_with :: "string \<Rightarrow> string \<Rightarrow> bool" where
  "starts_with [] s = True"
| "starts_with (p # ps) [] = False"
| "starts_with (p # ps) (c # cs) = (p = c \<and> starts_with ps cs)"

fun str_find :: "string \<Rightarrow> string \<Rightarrow> nat option" where
  "str_find p [] = (if p = [] then Some 0 else None)"
| "str_find p (c # cs) =
     (if starts_with p (c # cs) then Some 0 else map_option Suc (str_find p cs))"

lemma starts_with_iff: "starts_with p s \<longleftrightarrow> (\<exists>t. s = p @ t)"
  by (induction p s rule: starts_with.induct) auto

lemma starts_with_append [simp]: "starts_with p (p @ t)"
  by (auto simp: starts_with_iff)

lemma str_find_Nil [simp]: "str_find [] s = Some 0"
  by (cases s) auto

lemma str_find_Some:
  "str_find p s = Some n \<longleftrightarrow>
     n \<le> length s \<and> starts_with p (drop n s) \<and> (\<forall>m < n. \<not> starts_with p (drop m s))"
proof (induction s arbitrary: n)
  case Nil
  then show ?case by (cases p) auto
next
  case (Cons c s)
  show ?case
  proof (cases "starts_with p (c # s)")
    case True
    then show ?thesis by (cases n) (auto simp: less_Suc_eq_0_disj)
  next
    case False
    then show ?thesis by (cases n) (auto simp: Cons.IH less_Suc_eq_0_disj)
  qed
qed

lemma str_find_None:
  "str_find p s = None \<longleftrightarrow> (\<forall>n \<le> length s. \<not> starts_with p (drop n s))"
proof
  assume a: "\<forall>n \<le> length s. \<not> starts_with p (drop n s)"
  show "str_find p s = None"
  proof (cases "str_find p s")
    case (Some n)
    with a show ?thesis by (auto simp: str_find_Some)
  qed
next
  assume n: "str_find p s = None"
  show "\<forall>n \<le> length s. \<not> starts_with p (drop n s)"
  proof (rule ccontr)
    assume "\<not> (\<forall>n \<le> length s. \<not> starts_with p (drop n s))"
    then have ex: "\<exists>n. n \<le> length s \<and> starts_with p (drop n s)" by blast
    let ?n = "LEAST n. n \<le> length s \<and> starts_with p (drop n s)"
    have "?n \<le> length s \<and> starts_with p (drop ?n s)" by (rule LeastI_ex [OF ex])
    moreover have "\<not> starts_with p (drop m s)" if "m < ?n" for m
      using not_less_Least [OF that] that calculation by auto
    ultimately have "str_find p s = Some ?n" by (simp add: str_find_Some)
    with n show False by simp
  qed
qed

lemma starts_with_length: "starts_with p s \<Longrightarrow> length p \<le> length s"
  by (auto simp: starts_with_iff)

lemma starts_with_take: "length p \<le> k \<Longrightarrow> starts_with p (take k s) = starts_with p s"
  by (induction p s arbitrary: k rule: starts_with.induct) (auto simp: take_Cons split: nat.splits)

text \<open>Searching a prefix finds the same place, or the match is not complete yet.\<close>

lemma str_find_take:
  assumes "str_find p s = Some n"
  shows "str_find p (take k s) = (if n + length p \<le> k then Some n else None)"
proof -
  have s: "n \<le> length s" "starts_with p (drop n s)" "\<forall>m < n. \<not> starts_with p (drop m s)"
    using assms by (auto simp: str_find_Some)
  have len: "n + length p \<le> length s" using starts_with_length [OF s(2)] s(1) by simp
  have pre: "starts_with p (drop m (take k s)) \<Longrightarrow> starts_with p (drop m s) \<and> m + length p \<le> k"
    if "m \<le> length (take k s)" for m
  proof -
    assume a: "starts_with p (drop m (take k s))"
    then have "length p \<le> k - m" using starts_with_length [OF a] that by simp
    moreover have "starts_with p (take (k - m) (drop m s))" using a by (simp add: drop_take)
    ultimately show ?thesis using that by (auto simp: starts_with_take)
  qed
  show ?thesis
  proof (cases "n + length p \<le> k")
    case True
    then have "starts_with p (drop n (take k s))" using s(2) by (simp add: drop_take starts_with_take)
    moreover have "\<not> starts_with p (drop m (take k s))" if "m < n" for m
      using pre [of m] s(3) that True len by auto
    ultimately show ?thesis using True len by (simp add: str_find_Some)
  next
    case False
    have "\<not> starts_with p (drop m (take k s))" if "m \<le> length (take k s)" for m
      using pre [OF that] s(3) False that by (cases "m < n") auto
    then show ?thesis using False by (simp add: str_find_None)
  qed
qed

lemma str_find_at:
  assumes "\<forall>m < length a. \<not> starts_with p (drop m (a @ p @ b))"
  shows "str_find p (a @ p @ b) = Some (length a)"
  using assms by (simp add: str_find_Some)

lemma str_find_bound: "str_find p s = Some n \<Longrightarrow> n + length p \<le> length s"
  using starts_with_length [of p "drop n s"] by (auto simp: str_find_Some)

text \<open>
  The line discipline every protocol of the program uses: the text before the first
  newline, and what follows it (\<^verbatim>\<open>find('\n')\<close>, \<^verbatim>\<open>substr(0, nl)\<close>, \<^verbatim>\<open>erase(0, nl + 1)\<close>).
\<close>

fun cut_line :: "string \<Rightarrow> (string \<times> string) option" where
  "cut_line [] = None"
| "cut_line (c # cs) =
     (if c = nl then Some ([], cs)
      else map_option (\<lambda>(l, r). (c # l, r)) (cut_line cs))"

lemma cut_line_None [simp]: "cut_line s = None \<longleftrightarrow> nl \<notin> set s"
  by (induction s) auto

lemma cut_line_none [simp]: "nl \<notin> set s \<Longrightarrow> cut_line s = None"
  by simp

lemma cut_line_Some:
  "cut_line s = Some (l, r) \<longleftrightarrow> s = l @ nl # r \<and> nl \<notin> set l"
proof (induction s arbitrary: l)
  case Nil
  then show ?case by simp
next
  case (Cons c cs)
  show ?case
  proof (cases "c = nl")
    case True
    then show ?thesis by (cases l) auto
  next
    case False
    then have "cut_line (c # cs) = Some (l, r) \<longleftrightarrow> (\<exists>l'. l = c # l' \<and> cut_line cs = Some (l', r))"
      by auto
    with False show ?thesis by (cases l) (auto simp: Cons.IH)
  qed
qed

lemma cut_line_append:
  "cut_line s = Some (l, r) \<Longrightarrow> cut_line (s @ t) = Some (l, r @ t)"
  by (simp add: cut_line_Some)

lemma cut_line_length: "cut_line s = Some (l, r) \<Longrightarrow> length r < length s"
  by (auto simp: cut_line_Some)

text \<open>\<^verbatim>\<open>if (!line.empty() && line.back() == '\r') line.pop_back()\<close>\<close>

definition chomp_cr :: "string \<Rightarrow> string" where
  "chomp_cr l = (if l \<noteq> [] \<and> last l = cr then butlast l else l)"

text \<open>What the C string functions see of a buffer.\<close>

definition c_str :: "string \<Rightarrow> string" where
  "c_str s = takeWhile (\<lambda>c. c \<noteq> CHR 0x00) s"

text \<open>ASCII \<^verbatim>\<open>tolower\<close>/\<^verbatim>\<open>toupper\<close> in the C locale.\<close>

definition lower_char :: "char \<Rightarrow> char" where
  "lower_char c = (let n = of_char c :: nat in if 65 \<le> n \<and> n \<le> 90 then char_of (n + 32) else c)"

definition upper_char :: "char \<Rightarrow> char" where
  "upper_char c = (let n = of_char c :: nat in if 97 \<le> n \<and> n \<le> 122 then char_of (n - 32) else c)"

section \<open>Decimal integers\<close>

definition digit_char :: "nat \<Rightarrow> char" where
  "digit_char d = char_of (48 + d)"

fun nat_to_string :: "nat \<Rightarrow> string" where
  "nat_to_string n =
     (if n < 10 then [digit_char n] else nat_to_string (n div 10) @ [digit_char (n mod 10)])"

declare nat_to_string.simps [simp del]

lemma length_nat_to_string: "n < 10 ^ k \<Longrightarrow> 0 < k \<Longrightarrow> length (nat_to_string n) \<le> k"
proof (induction k arbitrary: n)
  case (Suc k)
  show ?case
  proof (cases "n < 10")
    case True
    then show ?thesis by (subst nat_to_string.simps) simp
  next
    case False
    with Suc.prems have "n div 10 < 10 ^ k" and "0 < k"
      by (auto simp: less_mult_imp_div_less mult.commute) (cases k; simp)
    with Suc.IH False show ?thesis by (subst nat_to_string.simps) simp
  qed
qed simp

text \<open>\<^verbatim>\<open>std::to_string\<close> and \<^verbatim>\<open>%d\<close>.\<close>

definition int_to_string :: "int \<Rightarrow> string" where
  "int_to_string i = (if i < 0 then CHR ''-'' # nat_to_string (nat (- i)) else nat_to_string (nat i))"

definition is_digit :: "char \<Rightarrow> bool" where
  "is_digit c \<longleftrightarrow> (of_char c :: nat) \<in> {48..57}"

definition digit_val :: "char \<Rightarrow> nat" where
  "digit_val c = of_char c - 48"

fun digits_val :: "nat \<Rightarrow> string \<Rightarrow> nat" where
  "digits_val acc [] = acc"
| "digits_val acc (c # cs) = digits_val (acc * 10 + digit_val c) cs"

lemma is_digit_digit_char [simp]: "d < 10 \<Longrightarrow> is_digit (digit_char d)"
  by (simp add: is_digit_def digit_char_def)

lemma digit_val_digit_char [simp]: "d < 10 \<Longrightarrow> digit_val (digit_char d) = d"
  by (simp add: digit_val_def digit_char_def)

lemma digits_val_append: "digits_val a (s @ t) = digits_val (digits_val a s) t"
  by (induction s arbitrary: a) auto

lemma digits_val_shift: "digits_val a s = a * 10 ^ length s + digits_val 0 s"
proof (induction s arbitrary: a)
  case Nil
  then show ?case by simp
next
  case (Cons c s)
  show ?case
    using Cons.IH [of "a * 10 + digit_val c"] Cons.IH [of "digit_val c"]
    by (simp add: algebra_simps)
qed

lemma nat_to_string_digits: "\<forall>c \<in> set (nat_to_string n). is_digit c"
proof (induction n rule: nat_to_string.induct)
  case (1 n)
  then show ?case by (subst nat_to_string.simps) auto
qed

lemma nat_to_string_nonempty [simp]: "nat_to_string n \<noteq> []"
  by (subst nat_to_string.simps) simp

lemma digits_val_nat_to_string [simp]: "digits_val 0 (nat_to_string n) = n"
proof (induction n rule: nat_to_string.induct)
  case (1 n)
  then show ?case
    by (subst nat_to_string.simps) (auto simp: digits_val_append)
qed

text \<open>White space in the C locale, and \<^verbatim>\<open>strtol\<close> in base ten: the number before it is
  narrowed and the text after it, \<^const>\<open>None\<close> where no digit follows the optional sign.\<close>

definition c_isspace :: "char \<Rightarrow> bool" where
  "c_isspace c \<longleftrightarrow> (of_char c :: nat) \<in> {32, 9, 10, 11, 12, 13}"

definition c_strtol :: "string \<Rightarrow> (int \<times> string) option" where
  "c_strtol s =
     (let r = dropWhile c_isspace s;
          neg = (case r of c # _ \<Rightarrow> c = CHR ''-'' | [] \<Rightarrow> False);
          r = (case r of c # cs \<Rightarrow> if c = CHR ''-'' \<or> c = CHR ''+'' then cs else r | [] \<Rightarrow> r);
          ds = takeWhile is_digit r; v = int (digits_val 0 ds)
      in if ds = [] then None else Some (if neg then - v else v, drop (length ds) r))"

definition long_ok :: "int \<Rightarrow> bool" where
  "long_ok v \<longleftrightarrow> - (2 ^ 63) \<le> v \<and> v < 2 ^ 63"

lemma c_isspace_digit: "is_digit c \<Longrightarrow> \<not> c_isspace c"
  by (auto simp: is_digit_def c_isspace_def)

lemma c_strtol_shorter: "c_strtol s = Some (v, r) \<Longrightarrow> length r \<le> length s"
proof -
  assume a: "c_strtol s = Some (v, r)"
  let ?d = "dropWhile c_isspace s"
  let ?r = "case ?d of c # cs \<Rightarrow> if c = CHR ''-'' \<or> c = CHR ''+'' then cs else ?d | [] \<Rightarrow> ?d"
  from a have "r = drop (length (takeWhile is_digit ?r)) ?r"
    by (auto simp only: c_strtol_def Let_def split: if_splits)
  then have "length r \<le> length ?r" by simp
  also have "length ?r \<le> length ?d" by (auto split: list.splits)
  also have "length ?d \<le> length s" by (rule length_dropWhile_le)
  finally show ?thesis .
qed

lemma c_strtol_blank: "c_isspace c \<Longrightarrow> c_strtol (c # s) = c_strtol s"
  by (simp add: c_strtol_def)

lemma c_strtol_int:
  assumes "\<And>c cs. r = c # cs \<Longrightarrow> \<not> is_digit c"
  shows "c_strtol (int_to_string v @ r) = Some (v, r)"
proof -
  have sp: "\<not> c_isspace (CHR ''-'')" by (simp add: c_isspace_def)
  let ?n = "nat_to_string (nat \<bar>v\<bar>)"
  obtain d ds where n: "?n = d # ds" by (cases ?n) auto
  have d: "is_digit d" "\<forall>c \<in> set ds. is_digit c" using nat_to_string_digits [of "nat \<bar>v\<bar>"] n by auto
  then have nd: "\<not> c_isspace d" "d \<noteq> CHR ''-''" "d \<noteq> CHR ''+''"
    by (auto simp: c_isspace_digit) (auto simp: is_digit_def)
  have "takeWhile is_digit r = []" using assms by (cases r) auto
  then have tw: "takeWhile is_digit (?n @ r) = ?n" using d n by (simp add: takeWhile_append2)
  have val: "digits_val (digit_val d) ds = nat \<bar>v\<bar>"
    using digits_val_nat_to_string [of "nat \<bar>v\<bar>"] n by simp
  show ?thesis using sp nd n tw val by (auto simp: c_strtol_def int_to_string_def Let_def)
qed

lemma inj_int_to_string: "int_to_string a = int_to_string b \<Longrightarrow> a = b"
  using c_strtol_int [of "[]" a] c_strtol_int [of "[]" b] by simp

section \<open>Loops over an index\<close>

text \<open>
  \<open>for (int i = 0; i < n; ++i) body\<close> runs \<open>body\<close> on the integers \<open>0, \<dots>, n - 1\<close> in order,
  and not at all when \<open>n \<le> 0\<close>.
\<close>

definition for_upto :: "int \<Rightarrow> (int \<Rightarrow> 's \<Rightarrow> 's) \<Rightarrow> 's \<Rightarrow> 's" where
  "for_upto n body s = fold body [0..n - 1] s"

lemma for_upto_empty [simp]: "n \<le> 0 \<Longrightarrow> for_upto n body s = s"
  by (simp add: for_upto_def)

lemma fold_concat_map: "fold (\<lambda>x. fold f (g x)) xs s = fold f (concat (map g xs)) s"
  by (induction xs arbitrary: s) auto

lemma fold_map_comp: "fold f (map g xs) s = fold (\<lambda>x. f (g x)) xs s"
  by (induction xs arbitrary: s) auto

lemma fold_inv:
  assumes "\<And>x s. x \<in> set xs \<Longrightarrow> P s \<Longrightarrow> P (f x s)" and "P s"
  shows "P (fold f xs s)"
  using assms by (induction xs arbitrary: s) auto

lemma funpow_inv:
  assumes "\<And>s. P s \<Longrightarrow> P (f s)" and "P s"
  shows "P ((f ^^ n) s)"
  using assms by (induction n) auto

section \<open>The interface of a first-in first-out queue\<close>

text \<open>
  \<open>contents\<close> is what is waiting, oldest first; \<open>enq\<close> adds at the back where the queue
  accepts (\<open>accepts\<close>), and drops the element where it does not; \<open>deq\<close> takes the oldest.
\<close>

locale fifo =
  fixes contents :: "'q \<Rightarrow> 'a list"
    and accepts :: "'q \<Rightarrow> bool"
    and enq :: "'a \<Rightarrow> 'q \<Rightarrow> 'q"
    and deq :: "'q \<Rightarrow> 'a option \<times> 'q"
  assumes enq_accepted: "accepts q \<Longrightarrow> contents (enq x q) = contents q @ [x]"
    and enq_rejected: "\<not> accepts q \<Longrightarrow> contents (enq x q) = contents q"
    and enq_accepts: "accepts (enq x q) = accepts q"
    and deq_empty: "contents q = [] \<Longrightarrow> deq q = (None, q)"
    and deq_first: "contents q = y # ys \<Longrightarrow> \<exists>q'. deq q = (Some y, q') \<and> contents q' = ys"
begin

text \<open>Taking up to \<open>n\<close> elements.\<close>

fun take_n :: "nat \<Rightarrow> 'q \<Rightarrow> 'a list \<times> 'q" where
  "take_n 0 q = ([], q)"
| "take_n (Suc n) q =
     (case deq q of (None, q') \<Rightarrow> ([], q')
      | (Some x, q') \<Rightarrow> (let (xs, q'') = take_n n q' in (x # xs, q'')))"

lemma contents_fold_enq:
  "accepts q \<Longrightarrow> contents (fold enq xs q) = contents q @ xs"
  by (induction xs arbitrary: q) (auto simp: enq_accepted enq_accepts)

lemma contents_fold_enq_rejected:
  "\<not> accepts q \<Longrightarrow> contents (fold enq xs q) = contents q"
  by (induction xs arbitrary: q) (auto simp: enq_rejected enq_accepts)

lemma fst_take_n: "fst (take_n n q) = take n (contents q)"
proof (induction n arbitrary: q)
  case 0
  then show ?case by simp
next
  case (Suc n)
  show ?case
  proof (cases "contents q")
    case Nil
    then show ?thesis by (simp add: deq_empty)
  next
    case (Cons y ys)
    then obtain q' where "deq q = (Some y, q')" and "contents q' = ys"
      using deq_first by blast
    with Cons Suc.IH [of q'] show ?thesis by (simp add: split_def Let_def)
  qed
qed

lemma contents_take_n: "contents (snd (take_n n q)) = drop n (contents q)"
proof (induction n arbitrary: q)
  case (Suc n)
  show ?case
  proof (cases "contents q")
    case Nil
    then show ?thesis by (simp add: deq_empty)
  next
    case (Cons y ys)
    then obtain q' where "deq q = (Some y, q')" and "contents q' = ys"
      using deq_first by blast
    with Cons Suc.IH [of q'] show ?thesis by (simp add: split_def Let_def)
  qed
qed simp

text \<open>Everything sent to an empty queue that accepts comes out, in the order sent.\<close>

lemma fifo_order:
  "accepts q \<Longrightarrow> contents q = [] \<Longrightarrow> fst (take_n (length xs) (fold enq xs q)) = xs"
  by (simp add: fst_take_n contents_fold_enq)

end

section \<open>The interface of a keyed store\<close>

text \<open>
  Pin levels, saved preferences and request headers are written and read by key. \<open>valid\<close> says
  which keys a write reaches, \<open>val\<close> what a read gives for a value written.
\<close>

locale store =
  fixes get :: "'s \<Rightarrow> 'k \<Rightarrow> 'v"
    and put :: "'k \<Rightarrow> 'w \<Rightarrow> 's \<Rightarrow> 's"
    and ok :: "'s \<Rightarrow> bool"
    and valid :: "'k \<Rightarrow> bool"
    and val :: "'w \<Rightarrow> 'v"
  assumes put_ok: "ok s \<Longrightarrow> ok (put k x s)"
    and get_put: "ok s \<Longrightarrow> get (put k x s) q = (if q = k \<and> valid k then val x else get s q)"
begin

lemma ok_puts: "ok s \<Longrightarrow> ok (fold (\<lambda>(k, x). put k x) ps s)"
  by (rule fold_inv [where P = ok]) (auto simp: put_ok)

lemma get_puts:
  "ok s \<Longrightarrow> get (fold (\<lambda>(k, x). put k x) ps s) q =
     (case map_of (rev ps) q of Some x \<Rightarrow> if valid q then val x else get s q | None \<Rightarrow> get s q)"
proof (induction ps arbitrary: s)
  case (Cons p ps)
  obtain k x where p: "p = (k, x)" by force
  from Cons.prems have "ok (put k x s)" by (rule put_ok)
  from Cons.IH [OF this] Cons.prems show ?case
    by (auto simp: p get_put map_add_def split: option.splits)
qed simp

text \<open>A value that every write to a key agrees on is what the key reads afterwards.\<close>

lemma get_puts_agree:
  assumes "ok s" "valid q" "(q, x) \<in> set ps" "\<And>y. (q, y) \<in> set ps \<Longrightarrow> val y = val x"
  shows "get (fold (\<lambda>(k, x). put k x) ps s) q = val x"
proof -
  obtain y where y: "map_of (rev ps) q = Some y"
    using assms(3) map_of_eq_None_iff [of "rev ps" q] by force
  then have "(q, y) \<in> set ps" using map_of_SomeD [OF y] by simp
  then have "val y = val x" by (rule assms(4))
  with y assms(2) show ?thesis by (simp add: get_puts [OF assms(1)])
qed

end

text \<open>
  \<^verbatim>\<open>std::map\<close> iterates in key order, so it is an association list kept sorted.
\<close>

fun kv_put :: "'k::linorder \<Rightarrow> 'v \<Rightarrow> ('k \<times> 'v) list \<Rightarrow> ('k \<times> 'v) list" where
  "kv_put k v [] = [(k, v)]"
| "kv_put k v ((k', v') # m) =
     (if k = k' then (k, v) # m
      else if k < k' then (k, v) # (k', v') # m
      else (k', v') # kv_put k v m)"

definition kv_ok :: "('k::linorder \<times> 'v) list \<Rightarrow> bool" where
  "kv_ok m \<longleftrightarrow> sorted_wrt (<) (map fst m)"

lemma kv_ok_Nil [simp]: "kv_ok []"
  by (simp add: kv_ok_def)

lemma kv_put_keys: "fst ` set (kv_put k v m) = insert k (fst ` set m)"
  by (induction k v m rule: kv_put.induct) (simp_all add: insert_commute)

lemma kv_put_set: "set (kv_put k v m) \<subseteq> insert (k, v) (set m)"
  by (induction m) (auto split: if_splits)

lemma kv_ok_put: "kv_ok m \<Longrightarrow> kv_ok (kv_put k v m)"
proof (induction m)
  case (Cons p m)
  obtain k' v' where p: "p = (k', v')" by force
  from Cons show ?case
    using kv_put_keys [of k v m] by (auto simp: p kv_ok_def image_iff)
qed (simp add: kv_ok_def)

lemma kv_get_put: "kv_ok m \<Longrightarrow> map_of (kv_put k v m) q = (if q = k then Some v else map_of m q)"
  by (induction m) (auto simp: kv_ok_def)

interpretation kv: store map_of kv_put kv_ok "\<lambda>_. True" Some
  by unfold_locales (auto simp: kv_ok_put kv_get_put)

text \<open>Inserting a sorted list's entries in order rebuilds it.\<close>

lemma kv_put_last: "\<forall>k' \<in> fst ` set m. k' < k \<Longrightarrow> kv_put k v m = m @ [(k, v)]"
  by (induction m) auto

lemma kv_rebuild: "kv_ok (a @ m) \<Longrightarrow> fold (\<lambda>(k, v). kv_put k v) m a = a @ m"
proof (induction m arbitrary: a)
  case (Cons p m)
  obtain k v where p: "p = (k, v)" by force
  have "kv_put k v a = a @ [(k, v)]"
    using Cons.prems by (intro kv_put_last) (auto simp: kv_ok_def p sorted_wrt_append)
  with Cons show ?case by (simp add: p)
qed simp

end
