(* ===== verification/Target.thy ===== *)
theory Target
  imports Complex_Main Prelude
begin

text \<open>
  The board and target descriptions of \<^verbatim>\<open>core/target.h\<close> and the registry of
  \<^verbatim>\<open>core/target.cpp\<close>. A C array given as pointer and length (\<^verbatim>\<open>buttons\<close>,
  \<^verbatim>\<open>button_count\<close>) is one list. A target's \<^verbatim>\<open>setup\<close>/\<^verbatim>\<open>loop\<close> entry points are the
  onboarded firmware's code: parameters of type \<open>'w \<Rightarrow> 'w\<close> on whatever state \<open>'w\<close> the
  simulation runs over, \<^const>\<open>None\<close> for a null pointer. A \<^verbatim>\<open>const SimTarget*\<close> is the
  target's index in the registry.
\<close>

datatype SimInputAction = ACT_PRIMARY | ACT_SECONDARY | ACT_PWR | ACT_GPIO

datatype SimEdge = EDGE_RIGHT | EDGE_LEFT | EDGE_TOP | EDGE_BOTTOM

record SimButton =
  b_label :: string
  b_action :: SimInputAction
  b_gpio :: int
  b_key :: char \<comment> \<open>\<open>CHR 0x00\<close> for no shortcut\<close>
  b_edge :: SimEdge
  b_pos :: rat \<comment> \<open>a float; negative to auto-stack\<close>
  b_active_low :: bool

record BoardDesc =
  bd_name :: string
  bd_width :: int
  bd_height :: int
  bd_has_rotation :: bool
  bd_has_battery :: bool
  bd_has_imu :: bool
  bd_buttons :: "SimButton list"

datatype SimBackendKind = BACKEND_NATIVE | BACKEND_QEMU

record QemuMachineSpec =
  m_machine :: string
  m_arch :: string
  m_agent :: bool
  m_http_guest_port :: int

record 'w SimTarget =
  t_key :: string
  t_description :: string
  t_setup :: "('w \<Rightarrow> 'w) option"
  t_loop :: "('w \<Rightarrow> 'w) option"
  t_board :: "BoardDesc option"
  t_backend :: SimBackendKind
  t_qemu :: "QemuMachineSpec option"

section \<open>The registry\<close>

type_synonym 'w registry = "'w SimTarget list"

definition sim_register_target :: "'w SimTarget \<Rightarrow> 'w registry \<Rightarrow> 'w registry" where
  "sim_register_target t r = r @ [t]"

fun sim_target :: "string \<Rightarrow> 'w registry \<Rightarrow> nat option" where
  "sim_target key [] = None"
| "sim_target key (t # ts) =
     (if key = t_key t then Some 0 else map_option Suc (sim_target key ts))"

definition sim_target_count :: "'w registry \<Rightarrow> int" where
  "sim_target_count r = int (length r)"

definition sim_target_at :: "int \<Rightarrow> 'w registry \<Rightarrow> nat option" where
  "sim_target_at i r = (if 0 \<le> i \<and> i < int (length r) then Some (nat i) else None)"

definition sim_button_gpio_level :: "SimButton \<Rightarrow> bool \<Rightarrow> int" where
  "sim_button_gpio_level b pressed =
     (if b_active_low b then (if pressed then 0 else 1)
      else (if pressed then 1 else 0))"

lemma sim_target_Some:
  "sim_target key r = Some i \<Longrightarrow>
     i < length r \<and> t_key (r ! i) = key \<and> (\<forall>j < i. t_key (r ! j) \<noteq> key)"
proof (induction r arbitrary: i)
  case Nil
  then show ?case by simp
next
  case (Cons t r)
  show ?case
  proof (cases "key = t_key t")
    case True
    with Cons.prems show ?thesis by simp
  next
    case False
    with Cons.prems obtain j where "sim_target key r = Some j" and "i = Suc j"
      by auto
    with Cons.IH False show ?thesis by (auto simp: nth_Cons split: nat.splits)
  qed
qed

lemma sim_target_None: "sim_target key r = None \<longleftrightarrow> (\<forall>t \<in> set r. t_key t \<noteq> key)"
  by (induction r) auto

lemma sim_target_append:
  "sim_target key (r @ r') =
     (case sim_target key r of Some i \<Rightarrow> Some i
      | None \<Rightarrow> map_option (\<lambda>i. i + length r) (sim_target key r'))"
  by (induction r) (auto split: option.splits simp: option.map_comp comp_def option.map_ident)

lemma sim_target_register_new:
  "sim_target (t_key t) r = None \<Longrightarrow>
     sim_target (t_key t) (sim_register_target t r) = Some (length r)"
  by (simp add: sim_register_target_def sim_target_append)

lemma sim_target_register_old:
  "sim_target key r = Some i \<Longrightarrow> sim_target key (sim_register_target t r) = Some i"
  by (simp add: sim_register_target_def sim_target_append)

lemma sim_target_register_other:
  "key \<noteq> t_key t \<Longrightarrow> sim_target key (sim_register_target t r) = sim_target key r"
  by (simp add: sim_register_target_def sim_target_append split: option.splits)

lemma sim_target_at_Some [simp]:
  "sim_target_at i r = Some n \<longleftrightarrow> 0 \<le> i \<and> n = nat i \<and> n < length r"
  by (auto simp: sim_target_at_def)

lemma sim_button_gpio_level_complement:
  "sim_button_gpio_level b (\<not> p) = 1 - sim_button_gpio_level b p"
  by (simp add: sim_button_gpio_level_def)

lemma sim_button_gpio_level_bit: "sim_button_gpio_level b p \<in> {0, 1}"
  by (simp add: sim_button_gpio_level_def)

end
