(* ===== verification/Shims.thy ===== *)
theory Shims
  imports Prelude
begin

text \<open>
  The Arduino core shims of \<^verbatim>\<open>shims/arduino\<close>: the virtual clock, the injected GPIO levels,
  the serial port with its captured output and injected input, and the restart flag. Each
  static of the C++ files is a component of the state; the functions take it and return it
  updated.
\<close>

section \<open>Virtual clock (\<^verbatim>\<open>arduino_clock.cpp\<close>)\<close>

type_synonym clock = "32 word"

definition millis :: "clock \<Rightarrow> 32 word" where
  "millis now = now"

definition delay :: "32 word \<Rightarrow> clock \<Rightarrow> clock" where
  "delay ms now = now + ms"

definition delayMicroseconds :: "32 word \<Rightarrow> clock \<Rightarrow> clock" where
  "delayMicroseconds us now = now + (us + 999) div 1000"

definition sim_clock_reset :: "clock \<Rightarrow> clock" where
  "sim_clock_reset now = 0"

definition sim_clock_advance :: "32 word \<Rightarrow> clock \<Rightarrow> clock" where
  "sim_clock_advance ms now = now + ms"

text \<open>\<^verbatim>\<open>map\<close> and \<^verbatim>\<open>constrain\<close> of \<^verbatim>\<open>Arduino.h\<close>; \<^verbatim>\<open>/\<close> on \<^verbatim>\<open>long\<close> truncates.\<close>

definition arduino_map :: "int \<Rightarrow> int \<Rightarrow> int \<Rightarrow> int \<Rightarrow> int \<Rightarrow> int" where
  "arduino_map x in_min in_max out_min out_max =
     (if in_max = in_min then out_min
      else cdiv ((x - in_min) * (out_max - out_min)) (in_max - in_min) + out_min)"

definition constrain :: "'a::linorder \<Rightarrow> 'a \<Rightarrow> 'a \<Rightarrow> 'a" where
  "constrain v lo hi = (if v < lo then lo else if v > hi then hi else v)"

lemma arduino_map_ends:
  "in_max \<noteq> in_min \<Longrightarrow> arduino_map in_min in_min in_max out_min out_max = out_min"
  "in_max \<noteq> in_min \<Longrightarrow> arduino_map in_max in_min in_max out_min out_max = out_max"
  using cdiv_mult_cancel [of "in_max - in_min" "out_max - out_min"]
  by (auto simp: arduino_map_def cdiv_def mult.commute)

lemma constrain_range: "lo \<le> hi \<Longrightarrow> lo \<le> constrain v lo hi \<and> constrain v lo hi \<le> hi"
  by (auto simp: constrain_def)

lemma unat_delay: "unat now + unat ms < 2 ^ 32 \<Longrightarrow> unat (delay ms now) = unat now + unat ms"
  by (simp add: delay_def unat_word_ariths)

lemma delayMicroseconds_rounds_up:
  assumes "unat us \<le> 4294966296"
  shows "delayMicroseconds us now = now + of_nat ((unat us + 999) div 1000)"
proof -
  have "unat (us + 999) = unat us + 999"
    using assms by (simp add: unat_word_ariths)
  then have "unat ((us + 999) div 1000) = (unat us + 999) div 1000"
    by (simp add: unat_div)
  then have "(us + 999) div 1000 = of_nat ((unat us + 999) div 1000)"
    by (metis of_nat_unat ucast_id)
  then show ?thesis by (simp add: delayMicroseconds_def)
qed

section \<open>Injected GPIO levels\<close>

type_synonym gpio = "int list" \<comment> \<open>\<^verbatim>\<open>static int g_gpio[64]\<close>\<close>

definition gpio_init :: gpio where
  "gpio_init = replicate 64 0"

definition sim_gpio_get :: "int \<Rightarrow> gpio \<Rightarrow> int" where
  "sim_gpio_get pin g = (if 0 \<le> pin \<and> pin < 64 then g ! nat pin else 0)"

definition sim_gpio_set :: "int \<Rightarrow> int \<Rightarrow> gpio \<Rightarrow> gpio" where
  "sim_gpio_set pin level g =
     (if 0 \<le> pin \<and> pin < 64 then g[nat pin := (if level \<noteq> 0 then 1 else 0)] else g)"

definition sim_gpio_reset :: "gpio \<Rightarrow> gpio" where
  "sim_gpio_reset g = map (\<lambda>_. 0) g"

definition digitalWrite :: "int \<Rightarrow> int \<Rightarrow> gpio \<Rightarrow> gpio" where
  "digitalWrite pin level g = sim_gpio_set pin level g"

definition digitalRead :: "int \<Rightarrow> gpio \<Rightarrow> int" where
  "digitalRead pin g = sim_gpio_get pin g"

definition gpio_ok :: "gpio \<Rightarrow> bool" where
  "gpio_ok g \<longleftrightarrow> length g = 64 \<and> set g \<subseteq> {0, 1}"

lemma gpio_ok_init [simp]: "gpio_ok gpio_init"
  by (simp add: gpio_ok_def gpio_init_def)

lemma gpio_ok_set [simp]: "gpio_ok g \<Longrightarrow> gpio_ok (sim_gpio_set pin level g)"
  by (auto simp: gpio_ok_def sim_gpio_set_def dest!: subsetD [OF set_update_subset_insert])

lemma gpio_reset_eq [simp]: "gpio_ok g \<Longrightarrow> sim_gpio_reset g = gpio_init"
  by (simp add: sim_gpio_reset_def gpio_init_def gpio_ok_def map_replicate_const)

lemma sim_gpio_get_init [simp]: "sim_gpio_get pin gpio_init = 0"
  unfolding sim_gpio_get_def gpio_init_def by (auto simp: nat_less_iff)

lemma sim_gpio_get_set:
  assumes "gpio_ok g"
  shows "sim_gpio_get q (sim_gpio_set p level g) =
     (if q = p \<and> 0 \<le> p \<and> p < 64 then (if level \<noteq> 0 then 1 else 0) else sim_gpio_get q g)"
  using assms
  by (auto simp: sim_gpio_get_def sim_gpio_set_def gpio_ok_def nth_list_update)

text \<open>The pins are a keyed store: 64 of them can be written, and a level is read as 0 or 1.\<close>

interpretation gpio: store "\<lambda>g pin. sim_gpio_get pin g" "\<lambda>pin level g. sim_gpio_set pin level g"
  gpio_ok "\<lambda>pin. 0 \<le> pin \<and> pin < 64" "\<lambda>level. if level \<noteq> 0 then 1 else 0"
  by unfold_locales (auto simp: sim_gpio_get_set)

section \<open>Serial port (\<^verbatim>\<open>serial.cpp\<close>)\<close>

record Serial =
  ser_out :: string \<comment> \<open>captured device output, \<^verbatim>\<open>g_out\<close>\<close>
  ser_in :: string \<comment> \<open>injected host-to-device input, \<^verbatim>\<open>g_in\<close>\<close>

definition serial_init :: Serial where
  "serial_init = \<lparr>ser_out = [], ser_in = []\<rparr>"

definition Serial_write :: "char \<Rightarrow> Serial \<Rightarrow> nat \<times> Serial" where
  "Serial_write c s = (1, s\<lparr>ser_out := ser_out s @ [c]\<rparr>)"

definition Serial_write_buf :: "string \<Rightarrow> Serial \<Rightarrow> nat \<times> Serial" where
  "Serial_write_buf buf s = (length buf, s\<lparr>ser_out := ser_out s @ buf\<rparr>)"

definition Serial_print :: "string \<Rightarrow> Serial \<Rightarrow> nat \<times> Serial" where
  "Serial_print t s = (length t, s\<lparr>ser_out := ser_out s @ t\<rparr>)"

definition Serial_print_int :: "int \<Rightarrow> Serial \<Rightarrow> nat \<times> Serial" where
  "Serial_print_int v s =
     (length (int_to_string v), s\<lparr>ser_out := ser_out s @ int_to_string v\<rparr>)"

definition Serial_println :: "string \<Rightarrow> Serial \<Rightarrow> nat \<times> Serial" where
  "Serial_println t s = (length t + 1, s\<lparr>ser_out := (ser_out s @ t) @ [nl]\<rparr>)"

definition Serial_println_int :: "int \<Rightarrow> Serial \<Rightarrow> nat \<times> Serial" where
  "Serial_println_int v s =
     (let (n, s') = Serial_print_int v s in (n + 1, s'\<lparr>ser_out := ser_out s' @ [nl]\<rparr>))"

text \<open>\<^verbatim>\<open>printf\<close> on the text \<^verbatim>\<open>vsnprintf\<close> produces; \<^const>\<open>None\<close> where it reports an error.\<close>

definition Serial_printf :: "string option \<Rightarrow> Serial \<Rightarrow> int \<times> Serial" where
  "Serial_printf formatted s =
     (case formatted of None \<Rightarrow> (-1, s)
      | Some t \<Rightarrow> (if t = [] then (0, s) else (int (length t), s\<lparr>ser_out := ser_out s @ t\<rparr>)))"

definition Serial_available :: "Serial \<Rightarrow> int" where
  "Serial_available s = int (length (ser_in s))"

definition Serial_read :: "Serial \<Rightarrow> int \<times> Serial" where
  "Serial_read s =
     (case ser_in s of [] \<Rightarrow> (-1, s) | c # cs \<Rightarrow> (int (of_char c), s\<lparr>ser_in := cs\<rparr>))"

definition sim_serial_output :: "Serial \<Rightarrow> string" where
  "sim_serial_output s = ser_out s"

definition sim_serial_push :: "char \<Rightarrow> Serial \<Rightarrow> Serial" where
  "sim_serial_push c s = s\<lparr>ser_in := ser_in s @ [c]\<rparr>"

definition sim_serial_inject :: "string \<Rightarrow> Serial \<Rightarrow> Serial" where
  "sim_serial_inject d s = fold sim_serial_push d s"

definition sim_serial_clear :: "Serial \<Rightarrow> Serial" where
  "sim_serial_clear s = s\<lparr>ser_out := [], ser_in := []\<rparr>"

text \<open>The injected input is a queue: what \<^verbatim>\<open>read\<close> returns is the byte, or -1.\<close>

definition serial_deq :: "Serial \<Rightarrow> char option \<times> Serial" where
  "serial_deq s = (let (r, s') = Serial_read s in (if r < 0 then None else Some (char_of (nat r)), s'))"

interpretation serial_in: fifo ser_in "\<lambda>_. True" sim_serial_push serial_deq
proof unfold_locales
  fix s :: Serial and y ys
  assume "ser_in s = y # ys"
  then show "\<exists>q'. serial_deq s = (Some y, q') \<and> ser_in q' = ys"
    by (simp add: serial_deq_def Serial_read_def)
qed (simp_all add: sim_serial_push_def serial_deq_def Serial_read_def)

lemma ser_in_inject: "ser_in (sim_serial_inject d s) = ser_in s @ d"
  unfolding sim_serial_inject_def by (rule serial_in.contents_fold_enq) simp

lemma ser_out_inject [simp]: "ser_out (sim_serial_inject d s) = ser_out s"
  unfolding sim_serial_inject_def
  by (rule fold_inv [where P = "\<lambda>s'. ser_out s' = ser_out s"]) (auto simp: sim_serial_push_def)

section \<open>The ESP object: the sticky restart flag\<close>

definition Esp_restart :: "Serial \<times> bool \<Rightarrow> Serial \<times> bool" where
  "Esp_restart = (\<lambda>(s, flag). (snd (Serial_println ''ESP: restart requested'' s), True))"

definition sim_esp_restart_reset :: "bool \<Rightarrow> bool" where
  "sim_esp_restart_reset flag = False"

section \<open>The Update stub (\<^verbatim>\<open>Update.h\<close>)\<close>

record Update =
  upd_progress :: nat
  upd_started :: bool

definition Update_begin :: "Update \<Rightarrow> bool \<times> Update" where
  "Update_begin u = (True, u\<lparr>upd_progress := 0, upd_started := True\<rparr>)"

definition Update_abort :: "Update \<Rightarrow> Update" where
  "Update_abort u = u\<lparr>upd_started := False\<rparr>"

definition Update_write :: "nat \<Rightarrow> Update \<Rightarrow> nat \<times> Update" where
  "Update_write len u = (len, u\<lparr>upd_progress := upd_progress u + len\<rparr>)"

definition Update_end :: "Update \<Rightarrow> bool" where
  "Update_end u = upd_started u"

end
