(* ===== verification/Input.thy ===== *)
theory Input
  imports Prelude
begin

text \<open>
  The virtual input bus (\<^verbatim>\<open>peripherals/input\<close>): what the CLI injects and the firmware's
  hardware layer polls.
\<close>

record SimInput =
  battery_pct :: int
  charging :: bool
  vbus :: bool
  button :: "bool list" \<comment> \<open>\<^verbatim>\<open>bool button[4]\<close>\<close>
  touch_pressed :: bool
  touch_x :: int
  touch_y :: int
  quadrant :: int
  motion_nudge :: bool
  pwr_events :: "int list" \<comment> \<open>a deque, oldest first: 1 press, 2 long, 3 release\<close>

definition input_init :: SimInput where
  "input_init = \<lparr>battery_pct = 75, charging = False, vbus = True,
     button = replicate 4 False, touch_pressed = False, touch_x = 0, touch_y = 0,
     quadrant = 0, motion_nudge = False, pwr_events = []\<rparr>"

definition sim_input_reset :: "SimInput \<Rightarrow> SimInput" where
  "sim_input_reset i = input_init"

text \<open>\<^verbatim>\<open>sim_touch\<close>: the touch point while a tap is held.\<close>

definition sim_touch :: "SimInput \<Rightarrow> (int \<times> int) option" where
  "sim_touch i = (if touch_pressed i then Some (touch_x i, touch_y i) else None)"

text \<open>
  The agentgauge board's consumers of the bus (\<^verbatim>\<open>firmwares/agentgauge/board_sim\<close>): the
  one-shot motion poll, the held buttons and the touch read.
\<close>

definition board_motion_detected :: "SimInput \<Rightarrow> bool \<times> SimInput" where
  "board_motion_detected s =
     (if \<not> motion_nudge s then (False, s) else (True, s\<lparr>motion_nudge := False\<rparr>))"

datatype InputButton = INPUT_BTN_PRIMARY | INPUT_BTN_SECONDARY | INPUT_BTN_OTHER

definition input_hal_is_held :: "InputButton \<Rightarrow> SimInput \<Rightarrow> bool" where
  "input_hal_is_held b s =
     (if b = INPUT_BTN_PRIMARY then button s ! 0
      else if b = INPUT_BTN_SECONDARY then button s ! 1
      else False)"

definition touch_hal_read :: "SimInput \<Rightarrow> (int \<times> int) option" where
  "touch_hal_read s =
     (if \<not> touch_pressed s then None else Some (s16 (touch_x s), s16 (touch_y s)))"

definition input_ok :: "SimInput \<Rightarrow> bool" where
  "input_ok i \<longleftrightarrow> length (button i) = 4 \<and> 0 \<le> battery_pct i \<and> battery_pct i \<le> 100
     \<and> 0 \<le> quadrant i \<and> quadrant i \<le> 3 \<and> set (pwr_events i) \<subseteq> {1, 2, 3}"

lemma input_ok_init [simp]: "input_ok input_init"
  by (simp add: input_ok_def input_init_def)

text \<open>A nudge fires exactly one poll.\<close>

lemma board_motion_once:
  "motion_nudge s \<Longrightarrow> board_motion_detected s = (True, s') \<Longrightarrow> board_motion_detected s' = (False, s')"
  by (auto simp: board_motion_detected_def)

end
