(* ===== verification/Ble.thy ===== *)
theory Ble
  imports Prelude
begin

text \<open>
  The virtual BLE link (\<^verbatim>\<open>peripherals/ble/sim_ble.cpp\<close>): a line-oriented bus between the
  host (the CLI) and the firmware's BLE adapter, with the link state, pairing and the
  captured HID events. Passkeys and key codes keep their widths.
\<close>

datatype SimBleLinkState = SIM_BLE_IDLE | SIM_BLE_ADVERTISING | SIM_BLE_CONNECTED

record SimBleHidEvent =
  hid_key :: "8 word"
  hid_modifier :: "8 word"
  hid_press :: bool

record BleBus =
  attached :: bool
  ble_state :: SimBleLinkState
  secure :: bool
  passkey :: "32 word"
  to_device :: "string list"
  to_host :: "string list"
  hid :: "SimBleHidEvent list"
  current_line :: string

definition ble_init :: BleBus where
  "ble_init = \<lparr>attached = False, ble_state = SIM_BLE_IDLE, secure = False, passkey = 0,
     to_device = [], to_host = [], hid = [], current_line = []\<rparr>"

section \<open>Device side\<close>

definition sim_ble_attach :: "BleBus \<Rightarrow> BleBus" where
  "sim_ble_attach b =
     (let b = b\<lparr>attached := True\<rparr>
      in if ble_state b = SIM_BLE_IDLE then b\<lparr>ble_state := SIM_BLE_ADVERTISING\<rparr> else b)"

definition sim_ble_device_next_line :: "BleBus \<Rightarrow> string \<times> BleBus" where
  "sim_ble_device_next_line b =
     (case to_device b of [] \<Rightarrow> ([], b)
      | l # ls \<Rightarrow> (l, b\<lparr>current_line := l, to_device := ls\<rparr>))"

definition sim_ble_device_send :: "string \<Rightarrow> BleBus \<Rightarrow> BleBus" where
  "sim_ble_device_send line b =
     (if ble_state b = SIM_BLE_CONNECTED then b\<lparr>to_host := to_host b @ [line]\<rparr> else b)"

definition sim_ble_device_drop_link :: "BleBus \<Rightarrow> BleBus" where
  "sim_ble_device_drop_link b =
     (if \<not> attached b then b
      else b\<lparr>ble_state := SIM_BLE_ADVERTISING, secure := False, passkey := 0\<rparr>)"

definition sim_ble_device_hid_press :: "8 word \<Rightarrow> 8 word \<Rightarrow> BleBus \<Rightarrow> BleBus" where
  "sim_ble_device_hid_press k m b =
     (if ble_state b = SIM_BLE_CONNECTED
      then b\<lparr>hid := hid b @ [\<lparr>hid_key = k, hid_modifier = m, hid_press = True\<rparr>]\<rparr> else b)"

definition sim_ble_device_hid_release :: "BleBus \<Rightarrow> BleBus" where
  "sim_ble_device_hid_release b =
     (if ble_state b = SIM_BLE_CONNECTED
      then b\<lparr>hid := hid b @ [\<lparr>hid_key = 0, hid_modifier = 0, hid_press = False\<rparr>]\<rparr> else b)"

section \<open>Host side\<close>

definition sim_ble_available :: "BleBus \<Rightarrow> bool" where
  "sim_ble_available b = attached b"

definition sim_ble_host_connect :: "32 word \<Rightarrow> BleBus \<Rightarrow> BleBus" where
  "sim_ble_host_connect pk b =
     (if \<not> attached b then b
      else (let b = b\<lparr>ble_state := SIM_BLE_CONNECTED\<rparr>
            in if pk = 0 then b\<lparr>secure := True, passkey := 0\<rparr>
               else b\<lparr>secure := False, passkey := pk\<rparr>))"

definition sim_ble_host_confirm_pairing :: "BleBus \<Rightarrow> BleBus" where
  "sim_ble_host_confirm_pairing b =
     (if ble_state b \<noteq> SIM_BLE_CONNECTED \<or> passkey b = 0 then b
      else b\<lparr>secure := True, passkey := 0\<rparr>)"

definition sim_ble_host_disconnect :: "BleBus \<Rightarrow> BleBus" where
  "sim_ble_host_disconnect b = sim_ble_device_drop_link b"

definition sim_ble_host_send :: "string \<Rightarrow> BleBus \<Rightarrow> BleBus" where
  "sim_ble_host_send line b =
     (if ble_state b = SIM_BLE_CONNECTED then b\<lparr>to_device := to_device b @ [line]\<rparr> else b)"

definition sim_ble_host_drain :: "BleBus \<Rightarrow> string list \<times> BleBus" where
  "sim_ble_host_drain b = (to_host b, b\<lparr>to_host := []\<rparr>)"

definition sim_ble_hid_drain :: "BleBus \<Rightarrow> SimBleHidEvent list \<times> BleBus" where
  "sim_ble_hid_drain b = (hid b, b\<lparr>hid := []\<rparr>)"

definition sim_ble_reset :: "BleBus \<Rightarrow> BleBus" where
  "sim_ble_reset b = ble_init"

section \<open>The operations as steps\<close>

text \<open>
  Every way the firmware and the CLI can change the bus, as one step each; the values the
  operations return do not matter here.
\<close>

inductive ble_step :: "BleBus \<Rightarrow> BleBus \<Rightarrow> bool" where
  attach: "ble_step b (sim_ble_attach b)"
| next_line: "ble_step b (snd (sim_ble_device_next_line b))"
| dev_send: "ble_step b (sim_ble_device_send l b)"
| dev_drop: "ble_step b (sim_ble_device_drop_link b)"
| dev_press: "ble_step b (sim_ble_device_hid_press k m b)"
| dev_release: "ble_step b (sim_ble_device_hid_release b)"
| connect: "ble_step b (sim_ble_host_connect pk b)"
| confirm: "ble_step b (sim_ble_host_confirm_pairing b)"
| disconnect: "ble_step b (sim_ble_host_disconnect b)"
| host_send: "ble_step b (sim_ble_host_send l b)"
| host_drain: "ble_step b (snd (sim_ble_host_drain b))"
| hid_drain: "ble_step b (snd (sim_ble_hid_drain b))"
| reset: "ble_step b (sim_ble_reset b)"

inductive ble_reachable :: "BleBus \<Rightarrow> bool" where
  boot: "ble_reachable ble_init"
| step: "ble_reachable b \<Longrightarrow> ble_step b b' \<Longrightarrow> ble_reachable b'"

lemmas ble_defs = sim_ble_attach_def sim_ble_device_next_line_def sim_ble_device_send_def
  sim_ble_device_drop_link_def sim_ble_device_hid_press_def sim_ble_device_hid_release_def
  sim_ble_host_connect_def sim_ble_host_confirm_pairing_def sim_ble_host_disconnect_def
  sim_ble_host_send_def sim_ble_host_drain_def sim_ble_hid_drain_def sim_ble_reset_def

text \<open>
  The agreement between the fields: no stack means an idle link; only a connection is
  secure or shows a passkey, and never both.
\<close>

definition ble_inv :: "BleBus \<Rightarrow> bool" where
  "ble_inv b \<longleftrightarrow>
     (ble_state b = SIM_BLE_IDLE \<longleftrightarrow> \<not> attached b)
     \<and> (ble_state b \<noteq> SIM_BLE_CONNECTED \<longrightarrow> \<not> secure b \<and> passkey b = 0)
     \<and> (secure b \<longleftrightarrow> ble_state b = SIM_BLE_CONNECTED \<and> passkey b = 0)"

lemma ble_inv_init: "ble_inv ble_init"
  by (simp add: ble_inv_def ble_init_def)

lemma ble_inv_step: "ble_step b b' \<Longrightarrow> ble_inv b \<Longrightarrow> ble_inv b'"
  by (induction rule: ble_step.induct)
    (auto simp: ble_defs ble_inv_def ble_init_def Let_def split: list.splits)

lemma ble_reachable_inv: "ble_reachable b \<Longrightarrow> ble_inv b"
  by (induction rule: ble_reachable.induct) (auto intro: ble_inv_init ble_inv_step)

text \<open>What a step does while nobody is connected.\<close>

lemma ble_step_quiet:
  "ble_step b b' \<Longrightarrow> ble_state b \<noteq> SIM_BLE_CONNECTED \<Longrightarrow>
     length (to_device b') \<le> length (to_device b) \<and> length (to_host b') \<le> length (to_host b)
     \<and> length (hid b') \<le> length (hid b)"
  by (induction rule: ble_step.induct)
    (auto simp: ble_defs ble_init_def Let_def split: list.splits)

section \<open>Both directions are queues\<close>

definition ble_connected :: "BleBus \<Rightarrow> bool" where
  "ble_connected b \<longleftrightarrow> ble_state b = SIM_BLE_CONNECTED"

definition ble_device_deq :: "BleBus \<Rightarrow> string option \<times> BleBus" where
  "ble_device_deq b =
     (if to_device b = [] then (None, b)
      else (let (l, b') = sim_ble_device_next_line b in (Some l, b')))"

interpretation host_to_device: fifo to_device ble_connected sim_ble_host_send ble_device_deq
  by unfold_locales
    (auto simp: ble_connected_def ble_device_deq_def sim_ble_host_send_def
      sim_ble_device_next_line_def)

definition ble_host_deq :: "BleBus \<Rightarrow> string option \<times> BleBus" where
  "ble_host_deq b =
     (case to_host b of [] \<Rightarrow> (None, b) | l # ls \<Rightarrow> (Some l, b\<lparr>to_host := ls\<rparr>))"

interpretation device_to_host: fifo to_host ble_connected sim_ble_device_send ble_host_deq
  by unfold_locales
    (auto simp: ble_connected_def ble_host_deq_def sim_ble_device_send_def split: list.splits)

text \<open>Lines the host sends over a link reach the device in order, and each drain returns
  exactly what the device sent since the last one.\<close>

lemma to_device_sends:
  "ble_connected b \<Longrightarrow> to_device (fold sim_ble_host_send ls b) = to_device b @ ls"
  by (rule host_to_device.contents_fold_enq)

lemma to_device_sends_off:
  "\<not> ble_connected b \<Longrightarrow> to_device (fold sim_ble_host_send ls b) = to_device b"
  by (rule host_to_device.contents_fold_enq_rejected)

lemma drain_after_sends:
  "ble_connected b \<Longrightarrow> to_host b = [] \<Longrightarrow>
     fst (sim_ble_host_drain (fold sim_ble_device_send ls b)) = ls"
  using device_to_host.contents_fold_enq [of b ls] by (simp add: sim_ble_host_drain_def)

lemma sends_frame:
  "ble_state (fold sim_ble_host_send ls b) = ble_state b"
  "attached (fold sim_ble_host_send ls b) = attached b"
  "secure (fold sim_ble_host_send ls b) = secure b"
  "to_host (fold sim_ble_host_send ls b) = to_host b"
  by (induction ls arbitrary: b) (auto simp: sim_ble_host_send_def)

section \<open>Properties\<close>

text \<open>
  Property C15. In every state the firmware and the CLI can bring the link into, by any
  sequence of calls: the link is idle exactly when no BLE stack is attached, it is secure
  exactly when it is connected with no passkey pending, and a pending passkey means connected.
\<close>

theorem ble_link_invariant:
  assumes "ble_reachable b"
  shows "(ble_state b = SIM_BLE_IDLE) = (\<not> attached b) \<and>
    secure b = (ble_state b = SIM_BLE_CONNECTED \<and> passkey b = 0) \<and>
    (passkey b \<noteq> 0 \<longrightarrow> ble_state b = SIM_BLE_CONNECTED)"
  using ble_reachable_inv [OF assms] by (auto simp: ble_inv_def)

theorem ble_link_invariant_witness:
  "\<not> secure (sim_ble_host_connect 123456 (sim_ble_attach ble_init))"
proof -
  have "ble_reachable (sim_ble_host_connect 123456 (sim_ble_attach ble_init))"
    by (intro ble_reachable.step [OF _ ble_step.connect] ble_reachable.step [OF _ ble_step.attach]
        ble_reachable.boot)
  from ble_link_invariant [OF this] show ?thesis
    by (simp add: sim_ble_host_connect_def sim_ble_attach_def ble_init_def)
qed

definition device_reads :: "nat \<Rightarrow> BleBus \<Rightarrow> string list" where
  "device_reads n b = fst (host_to_device.take_n n b)"

text \<open>
  Over a link, the lines the host sends are the lines the device reads, in the
  order sent, and a drain returns what the device sent since the previous one; when nothing is
  connected both are dropped.
\<close>

theorem ble_lines_in_order:
  assumes "to_device b = []" and "to_host b = []"
  shows "device_reads (length ls) (fold sim_ble_host_send ls b)
      = (if ble_state b = SIM_BLE_CONNECTED then ls else []) \<and>
    fst (sim_ble_host_drain (fold sim_ble_device_send ls b))
      = (if ble_state b = SIM_BLE_CONNECTED then ls else [])"
  using assms to_device_sends_off [of b ls] device_to_host.contents_fold_enq_rejected [of b ls]
  by (auto simp: device_reads_def ble_connected_def sim_ble_host_drain_def
      host_to_device.fst_take_n to_device_sends drain_after_sends [unfolded sim_ble_host_drain_def fst_conv])

theorem ble_lines_in_order_witness:
  "fst (sim_ble_host_drain (fold sim_ble_device_send [''a'', ''b'']
     (sim_ble_host_connect 0 (sim_ble_attach ble_init)))) = [''a'', ''b'']"
  using ble_lines_in_order [of "sim_ble_host_connect 0 (sim_ble_attach ble_init)" "[''a'', ''b'']"]
  by (simp add: sim_ble_host_connect_def sim_ble_attach_def ble_init_def)

end
