(* ===== verification/Framebuffer.thy ===== *)
theory Framebuffer
  imports Prelude
begin

unbundle bit_operations_syntax

text \<open>
  The virtual display (\<^verbatim>\<open>peripherals/display/framebuffer.cpp\<close>), the pixel formats, the RGB888
  image \<^verbatim>\<open>screenshot.cpp\<close> hands to the PNG writer, and the interface every drawing surface of
  the program implements: a pixel write that is clipped to the surface and changes nothing else.
\<close>

section \<open>Drawing surfaces\<close>

text \<open>
  \<open>paint\<close> writes one colour at a list of points, \<open>paint_img\<close> a colour of its own at each
  point; every primitive of the graphics shims is one of the two.
\<close>

definition paint :: "(int \<Rightarrow> int \<Rightarrow> 'c \<Rightarrow> 's \<Rightarrow> 's) \<Rightarrow> (int \<times> int) list \<Rightarrow> 'c \<Rightarrow> 's \<Rightarrow> 's" where
  "paint put pts c s = fold (\<lambda>(x, y). put x y c) pts s"

definition paint_img :: "(int \<Rightarrow> int \<Rightarrow> 'c \<Rightarrow> 's \<Rightarrow> 's) \<Rightarrow> ((int \<times> int) \<times> 'c) list \<Rightarrow> 's \<Rightarrow> 's" where
  "paint_img put img s = fold (\<lambda>((x, y), c). put x y c) img s"

lemma paint_append: "paint put (ps @ qs) c s = paint put qs c (paint put ps c s)"
  by (simp add: paint_def)

lemma paint_Nil [simp]: "paint put [] c s = s"
  by (simp add: paint_def)

lemma paint_Cons [simp]: "paint put ((x, y) # ps) c s = paint put ps c (put x y c s)"
  by (simp add: paint_def)

lemma for_upto_paint:
  assumes "\<And>i s. 0 \<le> i \<Longrightarrow> i < n \<Longrightarrow> body i s = paint put (g i) c s"
  shows "for_upto n body s = paint put (concat (map g [0..n - 1])) c s"
proof -
  have "fold body xs s = paint put (concat (map g xs)) c s" if "set xs \<subseteq> {0..n - 1}" for xs s
    using that by (induction xs arbitrary: s) (auto simp: assms paint_append)
  then show ?thesis by (simp add: for_upto_def)
qed

locale pixel_sink =
  fixes put :: "int \<Rightarrow> int \<Rightarrow> 'c \<Rightarrow> 's \<Rightarrow> 's"
    and get :: "'s \<Rightarrow> int \<Rightarrow> int \<Rightarrow> 'c"
    and inside :: "'s \<Rightarrow> int \<Rightarrow> int \<Rightarrow> bool"
    and ok :: "'s \<Rightarrow> bool"
  assumes put_ok: "ok s \<Longrightarrow> ok (put x y c s)"
    and inside_put: "ok s \<Longrightarrow> inside (put x y c s) u v = inside s u v"
    and get_put: "ok s \<Longrightarrow> inside s u v \<Longrightarrow>
      get (put x y c s) u v = (if u = x \<and> v = y then c else get s u v)"
begin

lemma paint_ok: "ok s \<Longrightarrow> ok (paint put pts c s)"
  unfolding paint_def by (rule fold_inv [where P = ok]) (auto simp: put_ok)

lemma inside_paint: "ok s \<Longrightarrow> inside (paint put pts c s) u v = inside s u v"
proof (induction pts arbitrary: s)
  case (Cons p pts)
  then show ?case by (cases p) (simp add: put_ok inside_put)
qed simp

lemma get_paint:
  "ok s \<Longrightarrow> inside s u v \<Longrightarrow>
     get (paint put pts c s) u v = (if (u, v) \<in> set pts then c else get s u v)"
proof (induction pts arbitrary: s)
  case (Cons p pts)
  obtain x y where p: "p = (x, y)" by force
  from Cons.prems have "ok (put x y c s)" and "inside (put x y c s) u v"
    by (simp_all add: put_ok inside_put)
  from Cons.IH [OF this] Cons.prems p show ?case by (auto simp: get_put)
qed simp

lemma get_paint_img:
  "ok s \<Longrightarrow> inside s u v \<Longrightarrow>
     get (paint_img put img s) u v =
       (case map_of (rev img) (u, v) of Some c \<Rightarrow> c | None \<Rightarrow> get s u v)"
proof (induction img arbitrary: s)
  case Nil
  then show ?case by (simp add: paint_img_def)
next
  case (Cons p img)
  obtain x y c where p: "p = ((x, y), c)" by (cases p) auto
  from Cons.prems have "ok (put x y c s)" and "inside (put x y c s) u v"
    by (simp_all add: put_ok inside_put)
  from Cons.IH [OF this] Cons.prems p show ?case
    by (auto simp: paint_img_def get_put map_add_def split: option.splits)
qed

lemma paint_img_ok: "ok s \<Longrightarrow> ok (paint_img put img s)"
  unfolding paint_img_def by (rule fold_inv [where P = ok]) (auto simp: put_ok)

end

section \<open>Pixel formats\<close>

text \<open>
  An RGB565 pixel from three bytes. The display decoder (\<^verbatim>\<open>screendump.cpp\<close>) and the two
  graphics shims (\<^verbatim>\<open>TFT_eSPI::color565\<close>, \<^verbatim>\<open>gfx_rgb565\<close>) write the conversion differently.
\<close>

definition rgb565 :: "8 word \<Rightarrow> 8 word \<Rightarrow> 8 word \<Rightarrow> 16 word" where
  "rgb565 r g b =
     push_bit 11 (drop_bit 3 (ucast r)) OR push_bit 5 (drop_bit 2 (ucast g)) OR drop_bit 3 (ucast b)"

definition color565 :: "8 word \<Rightarrow> 8 word \<Rightarrow> 8 word \<Rightarrow> 16 word" where
  "color565 r g b =
     push_bit 8 (ucast r AND 0xF8) OR push_bit 3 (ucast g AND 0xFC) OR drop_bit 3 (ucast b)"

text \<open>The expansion back to eight bits per channel in \<^verbatim>\<open>screenshot.cpp\<close>.\<close>

definition expand_r :: "16 word \<Rightarrow> 8 word" where
  "expand_r p = (let r5 = ucast (drop_bit 11 p AND 0x1F) :: 8 word
                 in push_bit 3 r5 OR drop_bit 2 r5)"

definition expand_g :: "16 word \<Rightarrow> 8 word" where
  "expand_g p = (let g6 = ucast (drop_bit 5 p AND 0x3F) :: 8 word
                 in push_bit 2 g6 OR drop_bit 4 g6)"

definition expand_b :: "16 word \<Rightarrow> 8 word" where
  "expand_b p = (let b5 = ucast (p AND 0x1F) :: 8 word
                 in push_bit 3 b5 OR drop_bit 2 b5)"

text \<open>Two 16-bit words are compared bit by bit.\<close>

lemma word16_eqI: "(\<And>n. n < 16 \<Longrightarrow> bit a n = bit b n) \<Longrightarrow> a = (b :: 16 word)"
  by (rule bit_word_eqI) simp

lemma bit_index16:
  "n < 16 \<Longrightarrow> n \<in> {15, 14, 13, 12, 11, 10, 9, 8, 7, 6, 5, 4, 3, 2, 1, 0::nat}"
  by (simp, presburger)

lemma bit8_out: "8 \<le> n \<Longrightarrow> \<not> bit (w :: 8 word) n"
  by (rule impossible_bit) simp

lemma masks_as_mask:
  "(0xF8 :: 'a::len word) = push_bit 3 (mask 5)" "(0xFC :: 'a::len word) = push_bit 2 (mask 6)"
  "(0x1F :: 'a::len word) = mask 5" "(0x3F :: 'a::len word) = mask 6"
  by (simp_all add: mask_eq_exp_minus_1 push_bit_eq_mult)

lemma color565_rgb565: "color565 r g b = rgb565 r g b"
  unfolding color565_def rgb565_def masks_as_mask
  by (rule word16_eqI, drule bit_index16, elim insertE emptyE; simp add: bit_simps bit8_out)

lemma rgb565_expand: "rgb565 (expand_r p) (expand_g p) (expand_b p) = p"
  unfolding rgb565_def expand_r_def expand_g_def expand_b_def Let_def masks_as_mask
  by (rule word16_eqI, drule bit_index16, elim insertE emptyE; simp add: bit_simps bit8_out)

section \<open>The framebuffer\<close>

record Framebuffer =
  fb_w :: int
  fb_h :: int
  fb_px :: "16 word list"

definition fb_new :: Framebuffer where
  "fb_new = \<lparr>fb_w = 0, fb_h = 0, fb_px = []\<rparr>"

text \<open>\<^verbatim>\<open>(size_t)w * h\<close>: both operands converted to 64 bits, the product modulo \<open>2 ^ 64\<close>.\<close>

definition size_mul :: "int \<Rightarrow> int \<Rightarrow> nat" where
  "size_mul w h = nat ((w * h) mod 2 ^ 64)"

definition fb_init :: "int \<Rightarrow> int \<Rightarrow> Framebuffer \<Rightarrow> Framebuffer" where
  "fb_init w h fb = \<lparr>fb_w = w, fb_h = h, fb_px = replicate (size_mul w h) 0\<rparr>"

definition fb_pixel :: "Framebuffer \<Rightarrow> int \<Rightarrow> int \<Rightarrow> 16 word" where
  "fb_pixel fb x y =
     (if x < 0 \<or> y < 0 \<or> x \<ge> fb_w fb \<or> y \<ge> fb_h fb then 0
      else fb_px fb ! nat (y * fb_w fb + x))"

definition fb_fill :: "16 word \<Rightarrow> Framebuffer \<Rightarrow> Framebuffer" where
  "fb_fill c fb = fb\<lparr>fb_px := map (\<lambda>_. c) (fb_px fb)\<rparr>"

definition fb_store :: "int \<Rightarrow> int \<Rightarrow> 16 word \<Rightarrow> Framebuffer \<Rightarrow> Framebuffer" where
  "fb_store x y c fb = fb\<lparr>fb_px := (fb_px fb)[nat (y * fb_w fb + x) := c]\<rparr>"

definition fb_blit :: "int \<Rightarrow> int \<Rightarrow> int \<Rightarrow> int \<Rightarrow> 16 word list \<Rightarrow> Framebuffer \<Rightarrow> Framebuffer" where
  "fb_blit x y bw bh src =
     for_upto bh (\<lambda>row fb.
       let py = y + row in
       if py < 0 \<or> py \<ge> fb_h fb then fb
       else for_upto bw (\<lambda>col fb.
         let pxc = x + col in
         if pxc < 0 \<or> pxc \<ge> fb_w fb then fb
         else fb_store pxc py (src ! nat (row * bw + col)) fb) fb)"

definition fb_inside :: "Framebuffer \<Rightarrow> int \<Rightarrow> int \<Rightarrow> bool" where
  "fb_inside fb x y \<longleftrightarrow> 0 \<le> x \<and> x < fb_w fb \<and> 0 \<le> y \<and> y < fb_h fb"

definition fb_ok :: "Framebuffer \<Rightarrow> bool" where
  "fb_ok fb \<longleftrightarrow> 0 \<le> fb_w fb \<and> 0 \<le> fb_h fb \<and> length (fb_px fb) = nat (fb_w fb * fb_h fb)"

text \<open>The clipped single-pixel write that a blit performs at each of its points.\<close>

definition fb_put :: "int \<Rightarrow> int \<Rightarrow> 16 word \<Rightarrow> Framebuffer \<Rightarrow> Framebuffer" where
  "fb_put x y c fb = (if fb_inside fb x y then fb_store x y c fb else fb)"

lemma size_mul_small:
  assumes "0 \<le> w" "w < 2 ^ 31" "0 \<le> h" "h < 2 ^ 31"
  shows "size_mul w h = nat (w * h)"
proof -
  have "w * h \<le> (2 ^ 31) * (2 ^ 31)" using assms by (intro mult_mono) auto
  then have "(w * h) mod 2 ^ 64 = w * h" using assms by (intro mod_pos_pos_trivial) auto
  then show ?thesis by (simp add: size_mul_def)
qed

lemma fb_ok_new [simp]: "fb_ok fb_new"
  by (simp add: fb_ok_def fb_new_def)

lemma fb_ok_init: "0 \<le> w \<Longrightarrow> w < 2 ^ 31 \<Longrightarrow> 0 \<le> h \<Longrightarrow> h < 2 ^ 31 \<Longrightarrow> fb_ok (fb_init w h fb)"
  by (simp add: fb_ok_def fb_init_def size_mul_small)

lemma fb_ok_fill [simp]: "fb_ok fb \<Longrightarrow> fb_ok (fb_fill c fb)"
  by (simp add: fb_ok_def fb_fill_def)

lemma fb_store_dims [simp]:
  "fb_w (fb_store x y c fb) = fb_w fb" "fb_h (fb_store x y c fb) = fb_h fb"
  by (simp_all add: fb_store_def)

lemma fb_put_dims [simp]:
  "fb_w (fb_put x y c fb) = fb_w fb" "fb_h (fb_put x y c fb) = fb_h fb"
  by (simp_all add: fb_put_def)

lemma fb_index_bound:
  assumes "fb_inside fb x y" and "fb_ok fb"
  shows "nat (y * fb_w fb + x) < length (fb_px fb)"
proof -
  have "y * fb_w fb + x < (y + 1) * fb_w fb"
    using assms by (simp add: fb_inside_def distrib_right)
  also have "\<dots> \<le> fb_h fb * fb_w fb"
    using assms by (intro mult_right_mono) (auto simp: fb_inside_def fb_ok_def)
  finally show ?thesis
    using assms by (simp add: fb_ok_def fb_inside_def mult.commute nat_less_iff)
qed

lemma fb_index_inj:
  assumes "fb_inside fb x y" and "fb_inside fb u v"
  shows "nat (y * fb_w fb + x) = nat (v * fb_w fb + u) \<longleftrightarrow> u = x \<and> v = y"
proof -
  have "y * fb_w fb + x = v * fb_w fb + u \<longleftrightarrow> u = x \<and> v = y"
  proof
    assume eq: "y * fb_w fb + x = v * fb_w fb + u"
    have "(y * fb_w fb + x) div fb_w fb = y" and "(v * fb_w fb + u) div fb_w fb = v"
      using assms by (simp_all add: fb_inside_def)
    with eq show "u = x \<and> v = y" by simp
  qed auto
  moreover have "0 \<le> y * fb_w fb + x" "0 \<le> v * fb_w fb + u"
    using assms by (simp_all add: fb_inside_def)
  ultimately show ?thesis using eq_nat_nat_iff by blast
qed

lemma fb_ok_put [simp]: "fb_ok fb \<Longrightarrow> fb_ok (fb_put x y c fb)"
  by (simp add: fb_ok_def fb_put_def fb_store_def)

lemma fb_inside_put [simp]: "fb_inside (fb_put x y c fb) u v = fb_inside fb u v"
  by (simp add: fb_inside_def)

lemma fb_pixel_put:
  assumes "fb_ok fb" and "fb_inside fb u v"
  shows "fb_pixel (fb_put x y c fb) u v = (if u = x \<and> v = y then c else fb_pixel fb u v)"
proof (cases "fb_inside fb x y")
  case True
  then have "fb_pixel (fb_put x y c fb) u v
      = (fb_px fb)[nat (y * fb_w fb + x) := c] ! nat (v * fb_w fb + u)"
    using assms by (simp add: fb_pixel_def fb_put_def fb_store_def fb_inside_def)
  also have "\<dots> = (if u = x \<and> v = y then c else fb_px fb ! nat (v * fb_w fb + u))"
    using fb_index_bound [OF assms(2,1)] fb_index_inj [OF True assms(2)]
    by (auto simp: nth_list_update)
  also have "\<dots> = (if u = x \<and> v = y then c else fb_pixel fb u v)"
    using assms(2) by (auto simp: fb_pixel_def fb_inside_def)
  finally show ?thesis .
next
  case False
  with assms show ?thesis by (auto simp: fb_put_def)
qed

interpretation fb: pixel_sink fb_put fb_pixel fb_inside fb_ok
  by unfold_locales (auto simp: fb_pixel_put)

section \<open>What a blit does\<close>

text \<open>The points of a \<open>bw\<close> by \<open>bh\<close> image at \<open>(x, y)\<close> with the pixel each receives.\<close>

definition img_points :: "int \<Rightarrow> int \<Rightarrow> int \<Rightarrow> int \<Rightarrow> (int \<Rightarrow> int \<Rightarrow> 'c) \<Rightarrow> ((int \<times> int) \<times> 'c) list" where
  "img_points x y bw bh f =
     concat (map (\<lambda>row. map (\<lambda>col. ((x + col, y + row), f row col)) [0..bw - 1]) [0..bh - 1])"

lemma map_of_distinct_rev:
  "distinct (map fst xs) \<Longrightarrow> map_of (rev xs) = map_of xs"
  by (metis map_of_eqI distinct_rev rev_map set_map set_rev map_of_eq_Some_iff not_Some_eq)

lemma distinct_img_points: "distinct (map fst (img_points x y bw bh f))"
proof -
  have "distinct (concat (map (\<lambda>row. map (\<lambda>col. (x + col, y + row)) [0..bw - 1]) ns))"
    if "distinct ns" for ns
    using that by (induction ns) (auto simp: distinct_map inj_on_def)
  then show ?thesis by (simp add: img_points_def map_concat comp_def)
qed

lemma map_of_img_points:
  "map_of (img_points x y bw bh f) (u, v) =
     (if 0 \<le> u - x \<and> u - x < bw \<and> 0 \<le> v - y \<and> v - y < bh then Some (f (v - y) (u - x)) else None)"
proof (cases "0 \<le> u - x \<and> u - x < bw \<and> 0 \<le> v - y \<and> v - y < bh")
  case True
  have "((u, v), f (v - y) (u - x)) \<in> set (img_points x y bw bh f)"
    unfolding img_points_def set_concat set_map image_image
  proof (rule UN_I [of "v - y"])
    show "v - y \<in> set [0..bh - 1]" using True by simp
    show "((u, v), f (v - y) (u - x))
        \<in> (\<lambda>col. ((x + col, y + (v - y)), f (v - y) col)) ` set [0..bw - 1]"
      using True by (intro image_eqI [of _ _ "u - x"]) auto
  qed
  then have "map_of (img_points x y bw bh f) (u, v) = Some (f (v - y) (u - x))"
    by (rule map_of_is_SomeI [OF distinct_img_points])
  with True show ?thesis by simp
next
  case False
  then have "(u, v) \<notin> fst ` set (img_points x y bw bh f)"
    by (auto simp: img_points_def)
  then have "map_of (img_points x y bw bh f) (u, v) = None"
    by (simp add: map_of_eq_None_iff)
  then show ?thesis unfolding if_not_P [OF False] .
qed

lemma fb_blit_paint:
  assumes "fb_ok fb"
  shows "fb_blit x y bw bh src fb
       = paint_img fb_put (img_points x y bw bh (\<lambda>row col. src ! nat (row * bw + col))) fb"
proof -
  let ?f = "\<lambda>row col. src ! nat (row * bw + col)"
  let ?inner = "\<lambda>row col fb. let pxc = x + col in
         if pxc < 0 \<or> pxc \<ge> fb_w fb then fb else fb_store pxc (y + row) (?f row col) fb"
  have inner: "fold (?inner row) cols g =
      paint_img fb_put (map (\<lambda>col. ((x + col, y + row), ?f row col)) cols) g"
    if "0 \<le> y + row" "y + row < fb_h g" for row cols g
    using that
  proof (induction cols arbitrary: g)
    case Nil
    then show ?case by (simp add: paint_img_def)
  next
    case (Cons col cols)
    have eq: "?inner row col g = fb_put (x + col) (y + row) (?f row col) g"
      using Cons.prems by (auto simp: fb_put_def fb_inside_def Let_def)
    show ?case
      using Cons.IH [of "fb_put (x + col) (y + row) (?f row col) g"] Cons.prems
      by (simp add: paint_img_def eq [unfolded Let_def])
  qed
  have skip: "paint_img fb_put (map (\<lambda>col. ((x + col, y + row), ?f row col)) cols) g = g"
    if "\<not> (0 \<le> y + row \<and> y + row < fb_h g)" for row cols g
    using that by (induction cols) (auto simp: paint_img_def fb_put_def fb_inside_def)
  have "fold (\<lambda>row fb. let py = y + row in
       if py < 0 \<or> py \<ge> fb_h fb then fb
       else for_upto bw (\<lambda>col fb.
         let pxc = x + col in
         if pxc < 0 \<or> pxc \<ge> fb_w fb then fb
         else fb_store pxc py (src ! nat (row * bw + col)) fb) fb) rows g
     = paint_img fb_put (concat (map (\<lambda>row. map (\<lambda>col. ((x + col, y + row), ?f row col)) [0..bw - 1]) rows)) g"
    for rows g
  proof (induction rows arbitrary: g)
    case Nil
    then show ?case by (simp add: paint_img_def)
  next
    case (Cons row rows)
    show ?case
      using Cons.IH inner [of row g] skip [of row g "[0..bw - 1]"]
      by (auto simp: paint_img_def for_upto_def Let_def not_less)
  qed
  then show ?thesis by (simp add: fb_blit_def img_points_def for_upto_def [of bh])
qed

lemma fb_ok_blit [simp]: "fb_ok fb \<Longrightarrow> fb_ok (fb_blit x y bw bh src fb)"
  by (simp add: fb_blit_paint fb.paint_img_ok)

lemma paint_img_fb_dims [simp]:
  "fb_w (paint_img fb_put img fb) = fb_w fb" "fb_h (paint_img fb_put img fb) = fb_h fb"
  unfolding paint_img_def by (induction img arbitrary: fb) auto

lemma paint_fb_dims [simp]:
  "fb_w (paint fb_put pts c fb) = fb_w fb" "fb_h (paint fb_put pts c fb) = fb_h fb"
  unfolding paint_def by (induction pts arbitrary: fb) auto

lemma fb_pixel_blit:
  assumes "fb_ok fb" and "fb_inside fb u v"
  shows "fb_pixel (fb_blit x y bw bh src fb) u v =
     (if x \<le> u \<and> u < x + bw \<and> y \<le> v \<and> v < y + bh
      then src ! nat ((v - y) * bw + (u - x)) else fb_pixel fb u v)"
proof -
  let ?img = "img_points x y bw bh (\<lambda>row col. src ! nat (row * bw + col))"
  have "fb_pixel (fb_blit x y bw bh src fb) u v =
      (case map_of ?img (u, v) of Some c \<Rightarrow> c | None \<Rightarrow> fb_pixel fb u v)"
    using fb.get_paint_img [OF assms, of ?img] fb_blit_paint [OF assms(1)]
    by (simp add: map_of_distinct_rev distinct_img_points)
  then show ?thesis by (auto simp: map_of_img_points)
qed

text \<open>A blit of a whole screen at the origin replaces the pixels by the image.\<close>

lemma fb_px_eqI:
  assumes "fb_ok a" "fb_ok b" "fb_w a = fb_w b" "fb_h a = fb_h b"
    and "\<And>u v. fb_inside a u v \<Longrightarrow> fb_pixel a u v = fb_pixel b u v"
  shows "fb_px a = fb_px b"
proof (rule nth_equalityI)
  show "length (fb_px a) = length (fb_px b)" using assms by (simp add: fb_ok_def)
  fix i
  assume i: "i < length (fb_px a)"
  let ?u = "int i mod fb_w a" and ?v = "int i div fb_w a"
  have pos: "0 < fb_w a" using i assms(1) by (cases "fb_w a = 0") (auto simp: fb_ok_def)
  have "int i < fb_h a * fb_w a" using i assms(1) by (auto simp: fb_ok_def mult.commute)
  moreover have "?v * fb_w a \<le> int i"
    using pos by (metis div_mult_mod_eq le_add_same_cancel1 pos_mod_sign)
  ultimately have "?v * fb_w a < fb_h a * fb_w a" by linarith
  then have "?v < fb_h a" using pos by (simp add: mult_less_cancel_right_pos)
  then have ins: "fb_inside a ?u ?v"
    using pos by (simp add: fb_inside_def pos_imp_zdiv_nonneg_iff)
  moreover have "nat (?v * fb_w a + ?u) = i" by simp
  ultimately show "fb_px a ! i = fb_px b ! i"
    using assms(5) [OF ins] assms(3,4) by (simp add: fb_pixel_def fb_inside_def)
qed

lemma fb_blit_full:
  assumes "fb_ok fb" and "length src = nat (fb_w fb * fb_h fb)"
  shows "fb_blit 0 0 (fb_w fb) (fb_h fb) src fb = fb\<lparr>fb_px := src\<rparr>"
proof -
  let ?b = "fb_blit 0 0 (fb_w fb) (fb_h fb) src fb"
  have dims: "fb_w ?b = fb_w fb" "fb_h ?b = fb_h fb"
    using assms by (simp_all add: fb_blit_paint)
  have "fb_px ?b = fb_px (fb\<lparr>fb_px := src\<rparr>)"
  proof (rule fb_px_eqI)
    fix u v assume "fb_inside ?b u v"
    then have "fb_inside fb u v" by (simp add: fb_inside_def dims)
    with assms show "fb_pixel ?b u v = fb_pixel (fb\<lparr>fb_px := src\<rparr>) u v"
      by (simp add: fb_pixel_blit) (auto simp: fb_pixel_def fb_inside_def)
  next
    show "fb_ok (fb\<lparr>fb_px := src\<rparr>)" using assms by (simp add: fb_ok_def)
  qed (use assms dims in simp_all)
  with dims show ?thesis by (cases ?b) simp
qed

lemma fb_pixel_fill: "fb_ok fb \<Longrightarrow> fb_inside fb u v \<Longrightarrow> fb_pixel (fb_fill c fb) u v = c"
  using fb_index_bound [of fb u v] by (auto simp: fb_pixel_def fb_fill_def fb_inside_def)

section \<open>The screenshot (\<^verbatim>\<open>sim_screenshot_png\<close>)\<close>

text \<open>
  The RGB888 bytes for each pixel, in order; \<^const>\<open>None\<close> where the framebuffer is unsized.
  Writing the PNG file is the image library's.
\<close>

definition rgb888 :: "16 word \<Rightarrow> 8 word list" where
  "rgb888 p = [expand_r p, expand_g p, expand_b p]"

definition screenshot_rgb :: "Framebuffer \<Rightarrow> (int \<times> int \<times> 8 word list) option" where
  "screenshot_rgb fb =
     (if fb_w fb \<le> 0 \<or> fb_h fb \<le> 0 then None
      else Some (fb_w fb, fb_h fb,
        concat (map (\<lambda>i. rgb888 (fb_px fb ! nat i)) [0..fb_w fb * fb_h fb - 1])))"

lemma map_nth_upto: "length xs = nat n \<Longrightarrow> map (\<lambda>i. xs ! nat i) [0..n - 1] = xs"
proof (rule nth_equalityI)
  assume "length xs = nat n"
  then show "length (map (\<lambda>i. xs ! nat i) [0..n - 1]) = length xs" by simp
  fix i
  assume "i < length (map (\<lambda>i. xs ! nat i) [0..n - 1])"
  then show "map (\<lambda>i. xs ! nat i) [0..n - 1] ! i = xs ! i" by (simp add: nth_upto)
qed

lemma screenshot_rgb_ok:
  assumes "fb_ok fb" "0 < fb_w fb" "0 < fb_h fb"
  shows "screenshot_rgb fb = Some (fb_w fb, fb_h fb, concat (map rgb888 (fb_px fb)))"
proof -
  have "map (\<lambda>i. fb_px fb ! nat i) [0..fb_w fb * fb_h fb - 1] = fb_px fb"
    using assms by (intro map_nth_upto) (simp add: fb_ok_def)
  then have "map (\<lambda>i. rgb888 (fb_px fb ! nat i)) [0..fb_w fb * fb_h fb - 1] = map rgb888 (fb_px fb)"
    by (metis (no_types, lifting) map_map comp_apply map_eq_conv)
  with assms show ?thesis by (simp add: screenshot_rgb_def)
qed

lemma fb_blit_dims:
  "fb_ok fb \<Longrightarrow> fb_w (fb_blit x y bw bh src fb) = fb_w fb"
  "fb_ok fb \<Longrightarrow> fb_h (fb_blit x y bw bh src fb) = fb_h fb"
  by (simp_all add: fb_blit_paint)

section \<open>Properties\<close>

text \<open>
  Property C9. A blit keeps the framebuffer well formed and its size, writes image pixel
  \<open>(u - x, v - y)\<close> at every screen position the image covers, wherever the image sticks out,
  and leaves every other pixel unchanged.
\<close>

theorem fb_blit_exact:
  assumes "fb_ok fb" and "fb_inside fb u v"
  shows "fb_ok (fb_blit x y bw bh src fb) \<and>
    fb_w (fb_blit x y bw bh src fb) = fb_w fb \<and> fb_h (fb_blit x y bw bh src fb) = fb_h fb \<and>
    fb_pixel (fb_blit x y bw bh src fb) u v =
      (if x \<le> u \<and> u < x + bw \<and> y \<le> v \<and> v < y + bh
       then src ! nat ((v - y) * bw + (u - x)) else fb_pixel fb u v)"
  using fb_pixel_blit [OF assms] assms(1) by (simp add: fb_blit_dims)

theorem fb_blit_exact_witness:
  "fb_pixel (fb_blit (- 1) 2 3 2 [1, 2, 3, 4, 5, 6] (fb_init 4 4 fb_new)) 1 3 = 6"
  using fb_blit_exact [of "fb_init 4 4 fb_new" 1 3 "- 1" 2 3 2 "[1, 2, 3, 4, 5, 6]"]
    fb_ok_init [of 4 4 fb_new]
  by (simp add: fb_inside_def fb_init_def)

end
