(* ===== verification/Screendump.thy ===== *)
theory Screendump
  imports Framebuffer
begin

text \<open>
  The decoder of the P6 image a QMP \<^verbatim>\<open>screendump\<close> writes (\<^verbatim>\<open>backends/qemu/screendump.cpp\<close>).
  A position in the input is the offset the code keeps in \<^verbatim>\<open>pos\<close>; the error text it
  stores in \<^verbatim>\<open>*err\<close> is the left value of the result.
\<close>

section \<open>The header scanner\<close>

definition is_ppm_ws :: "char \<Rightarrow> bool" where
  "is_ppm_ws c \<longleftrightarrow> c = CHR '' '' \<or> c = CHR 0x09 \<or> c = cr \<or> c = nl"

text \<open>White space and comment lines before a token.\<close>

function skip_blank :: "string \<Rightarrow> string" where
  "skip_blank s =
     (case dropWhile is_ppm_ws s of [] \<Rightarrow> []
      | c # cs \<Rightarrow> if c = CHR ''#'' then skip_blank (dropWhile (\<lambda>d. d \<noteq> nl) (c # cs)) else c # cs)"
  by pat_completeness auto
termination
proof (relation "measure length")
  fix s c cs
  assume drop: "dropWhile is_ppm_ws s = c # cs" and c: "c = CHR ''#''"
  have "length (dropWhile (\<lambda>d. d \<noteq> nl) (c # cs)) \<le> length cs"
    using c by (simp add: length_dropWhile_le)
  also have "length cs < length s"
    using drop length_dropWhile_le [of is_ppm_ws s] by simp
  finally show "(dropWhile (\<lambda>d. d \<noteq> nl) (c # cs), s) \<in> measure length" by simp
qed simp

declare skip_blank.simps [simp del]

definition next_token :: "string \<Rightarrow> nat \<Rightarrow> (string \<times> nat) option" where
  "next_token s pos =
     (let r = skip_blank (drop pos s); i = length s - length r
      in if r = [] then None
         else (let tok = takeWhile (\<lambda>c. \<not> is_ppm_ws c) r in Some (tok, i + length tok)))"

fun digits_only :: "nat \<Rightarrow> string \<Rightarrow> nat option" where
  "digits_only v [] = Some v"
| "digits_only v (c # cs) = (if is_digit c then digits_only (v * 10 + digit_val c) cs else None)"

definition parse_dim :: "string \<Rightarrow> int option" where
  "parse_dim tok =
     (if tok = [] \<or> length tok > 5 then None
      else (case digits_only 0 tok of None \<Rightarrow> None
            | Some v \<Rightarrow> if v < 1 \<or> v > 4096 then None else Some (int v)))"

section \<open>The decoder\<close>

definition byte_of :: "char \<Rightarrow> 8 word" where
  "byte_of c = of_nat (of_char c)"

fun decode_px :: "nat \<Rightarrow> string \<Rightarrow> 16 word list" where
  "decode_px 0 p = []"
| "decode_px (Suc n) (r # g # b # p) = rgb565 (byte_of r) (byte_of g) (byte_of b) # decode_px n p"
| "decode_px (Suc n) p = []" \<comment> \<open>not reached: the size was checked\<close>

definition ppm_decode_rgb565 :: "string \<Rightarrow> string + (int \<times> int \<times> 16 word list)" where
  "ppm_decode_rgb565 ppm =
     (case next_token ppm 0 of
        None \<Rightarrow> Inl ''not a binary PPM (P6 magic missing)''
      | Some (tok, pos) \<Rightarrow>
        if tok \<noteq> ''P6'' then Inl ''not a binary PPM (P6 magic missing)''
        else (case next_token ppm pos of
          None \<Rightarrow> Inl ''truncated PPM header''
        | Some (ws, pos) \<Rightarrow> (case next_token ppm pos of
          None \<Rightarrow> Inl ''truncated PPM header''
        | Some (hs, pos) \<Rightarrow> (case next_token ppm pos of
          None \<Rightarrow> Inl ''truncated PPM header''
        | Some (maxval, pos) \<Rightarrow>
          (case (parse_dim ws, parse_dim hs) of
             (Some w, Some h) \<Rightarrow>
               if maxval \<noteq> ''255''
               then Inl (''unsupported PPM maxval '' @ maxval @ '' (only 8-bit supported)'')
               else (let pos = pos + 1; need = nat w * nat h * 3 in
                 if length ppm < pos + need then Inl ''PPM pixel data truncated''
                 else Inr (w, h, decode_px (nat w * nat h) (drop pos ppm)))
           | _ \<Rightarrow> Inl (''PPM dimensions invalid or out of range (1..4096): '' @ ws @ ''x'' @ hs))))))"

section \<open>Scanner lemmas\<close>

lemma skip_blank_ws [simp]: "is_ppm_ws c \<Longrightarrow> skip_blank (c # s) = skip_blank s"
  by (subst (1 2) skip_blank.simps) simp

lemma skip_blank_token [simp]:
  "\<not> is_ppm_ws c \<Longrightarrow> c \<noteq> CHR ''#'' \<Longrightarrow> skip_blank (c # s) = c # s"
  by (subst skip_blank.simps) simp

lemma skip_blank_comment:
  "nl \<notin> set l \<Longrightarrow> skip_blank (CHR ''#'' # l @ nl # s) = skip_blank s"
proof -
  assume l: "nl \<notin> set l"
  then have "dropWhile (\<lambda>d. d \<noteq> nl) (CHR ''#'' # l @ nl # s) = nl # s"
    by (simp add: dropWhile_append)
  moreover have "\<not> is_ppm_ws (CHR ''#'')" by (simp add: is_ppm_ws_def)
  moreover have "is_ppm_ws nl" by (simp add: is_ppm_ws_def)
  ultimately show ?thesis by (subst skip_blank.simps) simp
qed

definition token_ok :: "string \<Rightarrow> bool" where
  "token_ok tok \<longleftrightarrow> tok \<noteq> [] \<and> hd tok \<noteq> CHR ''#'' \<and> (\<forall>c \<in> set tok. \<not> is_ppm_ws c)"

text \<open>One token that white space follows, with at most one white-space byte before it.\<close>

lemma next_token_here:
  assumes "token_ok tok" and "is_ppm_ws d"
  shows "next_token (pre @ tok @ d # rest) (length pre) = Some (tok, length pre + length tok)"
proof -
  obtain c cs where tok: "tok = c # cs" using assms(1) by (cases tok) (auto simp: token_ok_def)
  have "skip_blank (tok @ d # rest) = tok @ d # rest"
    using assms(1) tok by (auto simp: token_ok_def)
  moreover have "takeWhile (\<lambda>c. \<not> is_ppm_ws c) (tok @ d # rest) = tok"
    using assms by (simp add: token_ok_def takeWhile_append)
  ultimately show ?thesis
    using tok by (simp add: next_token_def Let_def)
qed

lemma next_token_after_ws:
  assumes "token_ok tok" and "is_ppm_ws d" and "is_ppm_ws e"
  shows "next_token (pre @ e # tok @ d # rest) (length pre)
       = Some (tok, length pre + 1 + length tok)"
  using next_token_here [OF assms(1,2), of "pre @ [e]" rest] assms(3)
  by (simp add: next_token_def)

lemma digits_only_digits:
  "\<forall>c \<in> set s. is_digit c \<Longrightarrow> digits_only v s = Some (digits_val v s)"
  by (induction s arbitrary: v) auto

lemma digits_not_ws: "is_digit c \<Longrightarrow> \<not> is_ppm_ws c \<and> c \<noteq> CHR ''#''"
  by (auto simp: is_digit_def is_ppm_ws_def)

lemma token_ok_nat [simp]: "token_ok (nat_to_string n)"
  using nat_to_string_digits [of n] digits_not_ws
  unfolding token_ok_def by (metis hd_in_set nat_to_string_nonempty)

lemma parse_dim_nat:
  assumes "1 \<le> w" "w \<le> 4096"
  shows "parse_dim (int_to_string w) = Some w"
proof -
  have "length (nat_to_string (nat w)) \<le> 4"
    using assms by (intro length_nat_to_string) auto
  moreover have "digits_only 0 (nat_to_string (nat w)) = Some (nat w)"
    by (simp add: digits_only_digits nat_to_string_digits)
  ultimately show ?thesis
    using assms by (simp add: parse_dim_def int_to_string_def)
qed

lemma parse_dim_range: "parse_dim tok = Some w \<Longrightarrow> 1 \<le> w \<and> w \<le> 4096"
  by (auto simp: parse_dim_def split: if_splits option.splits)

lemma length_decode_px: "n * 3 \<le> length p \<Longrightarrow> length (decode_px n p) = n"
proof (induction n arbitrary: p)
  case (Suc n)
  then obtain r g b p' where "p = r # g # b # p'"
    by (cases p; cases "tl p"; cases "tl (tl p)") auto
  with Suc show ?case by simp
qed simp

section \<open>Images as QEMU writes them\<close>

definition byte_char :: "8 word \<Rightarrow> char" where
  "byte_char b = char_of (unat b)"

lemma byte_of_byte_char [simp]: "byte_of (byte_char b) = b"
proof -
  have "unat b < 2 ^ LENGTH(8)" by (rule unsigned_less)
  then have "unat b mod 256 = unat b" by simp
  then show ?thesis by (simp add: byte_of_def byte_char_def)
qed

definition ppm_encode :: "int \<Rightarrow> int \<Rightarrow> 8 word list \<Rightarrow> string" where
  "ppm_encode w h bytes =
     ''P6'' @ nl # int_to_string w @ CHR '' '' # int_to_string h @ nl # ''255'' @ nl
       # map byte_char bytes"

lemma decode_px_bytes:
  "decode_px (length ps) (map byte_char (concat (map (\<lambda>(r, g, b). [r, g, b]) ps)) @ t)
     = map (\<lambda>(r, g, b). rgb565 r g b) ps"
  by (induction ps) auto

lemma ppm_decode_encode:
  assumes "1 \<le> w" "w \<le> 4096" "1 \<le> h" "h \<le> 4096" and len: "length bytes = nat w * nat h * 3"
  shows "ppm_decode_rgb565 (ppm_encode w h bytes @ t)
       = Inr (w, h, decode_px (nat w * nat h) (map byte_char bytes @ t))"
proof -
  let ?W = "int_to_string w" and ?H = "int_to_string h" and ?D = "map byte_char bytes @ t"
  let ?s = "ppm_encode w h bytes @ t"
  have ws: "is_ppm_ws nl" "is_ppm_ws (CHR '' '')" by (simp_all add: is_ppm_ws_def)
  have toks: "token_ok ?W" "token_ok ?H" "token_ok ''P6''" "token_ok ''255''"
    using assms by (simp_all add: int_to_string_def) (simp_all add: token_ok_def is_ppm_ws_def)
  have s: "?s = ''P6'' @ nl # ?W @ CHR '' '' # ?H @ nl # ''255'' @ nl # ?D"
    by (simp add: ppm_encode_def)
  let ?p2 = "2 + 1 + length ?W" and ?p3 = "2 + 1 + length ?W + 1 + length ?H"
  have 1: "next_token ?s 0 = Some (''P6'', 2)"
    using next_token_here [OF toks(3) ws(1), of "[]"] by (simp add: s numeral_eq_Suc)
  have 2: "next_token ?s 2 = Some (?W, ?p2)"
    using next_token_after_ws [OF toks(1) ws(2) ws(1), of "''P6''"] by (simp add: s numeral_eq_Suc)
  have 3: "next_token ?s ?p2 = Some (?H, ?p3)"
    using next_token_after_ws [OF toks(2) ws(1) ws(2), of "''P6'' @ nl # ?W"]
    by (simp add: s numeral_eq_Suc)
  have 4: "next_token ?s ?p3 = Some (''255'', ?p3 + 1 + 3)"
    using next_token_after_ws [OF toks(4) ws(1) ws(1), of "''P6'' @ nl # ?W @ CHR '' '' # ?H"]
    by (simp add: s numeral_eq_Suc)
  let ?hdr = "''P6'' @ nl # ?W @ CHR '' '' # ?H @ nl # ''255'' @ [nl]"
  have "?s = ?hdr @ ?D" and "length ?hdr = ?p3 + 1 + 3 + 1" by (simp_all add: s)
  then have data: "drop (?p3 + 1 + 3 + 1) ?s = ?D" by (metis append_eq_conv_conj)
  have size: "\<not> length ?s < ?p3 + 1 + 3 + 1 + nat w * nat h * 3"
    using len by (simp add: s)
  show ?thesis
    unfolding ppm_decode_rgb565_def
    using 1 2 3 4 data size assms
    by (simp add: parse_dim_nat del: One_nat_def)
qed

lemma decode_px_nth:
  "n * 3 \<le> length p \<Longrightarrow> i < n \<Longrightarrow>
     decode_px n p ! i = rgb565 (byte_of (p ! (3 * i))) (byte_of (p ! (3 * i + 1)))
       (byte_of (p ! (3 * i + 2)))"
proof (induction n arbitrary: p i)
  case (Suc n)
  then obtain r g b p' where p: "p = r # g # b # p'"
    by (cases p; cases "tl p"; cases "tl (tl p)") auto
  show ?case
  proof (cases i)
    case (Suc j)
    with Suc.IH [of p' j] Suc.prems p show ?thesis by (simp add: numeral_eq_Suc)
  qed (use p in simp)
qed simp

lemma ppm_decode_InrD:
  assumes "ppm_decode_rgb565 s = Inr (w, h, px)"
  shows "\<exists>pos. 1 \<le> w \<and> w \<le> 4096 \<and> 1 \<le> h \<and> h \<le> 4096 \<and> pos + nat w * nat h * 3 \<le> length s \<and>
    px = decode_px (nat w * nat h) (drop pos s)"
  using assms unfolding ppm_decode_rgb565_def Let_def
  by (auto split: option.splits if_splits prod.splits simp: not_less dest!: parse_dim_range
      intro!: exI [of _ "Suc _"])

section \<open>Properties\<close>



lemma concat_rgb888:
  "concat (map rgb888 ps) = concat (map (\<lambda>(r, g, b). [r, g, b])
     (map (\<lambda>p. (expand_r p, expand_g p, expand_b p)) ps))"
  by (simp add: rgb888_def [abs_def] comp_def)

text \<open>
  Property C32. A capture loses nothing: the RGB888 image the screenshot code produces,
  written as a P6 file and decoded by the QEMU display path, gives back the framebuffer's
  pixels, and blitting them onto a framebuffer of that size restores the framebuffer.
\<close>

theorem capture_lossless:
  assumes "fb_ok fb" and "1 \<le> fb_w fb" "fb_w fb \<le> 4096" "1 \<le> fb_h fb" "fb_h fb \<le> 4096"
  shows "\<exists>rgb. screenshot_rgb fb = Some (fb_w fb, fb_h fb, rgb) \<and>
    ppm_decode_rgb565 (ppm_encode (fb_w fb) (fb_h fb) rgb) = Inr (fb_w fb, fb_h fb, fb_px fb) \<and>
    fb_blit 0 0 (fb_w fb) (fb_h fb) (fb_px fb) (fb_init (fb_w fb) (fb_h fb) fb') = fb"
proof -
  let ?w = "fb_w fb" and ?h = "fb_h fb"
  let ?ps = "map (\<lambda>p. (expand_r p, expand_g p, expand_b p)) (fb_px fb)"
  let ?rgb = "concat (map (\<lambda>(r, g, b). [r, g, b]) ?ps)"
  have n: "length (fb_px fb) = nat ?w * nat ?h" using assms by (simp add: fb_ok_def nat_mult_distrib)
  have "length (concat (map (\<lambda>(r, g, b). [r, g, b]) qs)) = 3 * length qs"
    for qs :: "(8 word \<times> 8 word \<times> 8 word) list" by (induction qs) auto
  from this [of ?ps] have len: "length ?rgb = nat ?w * nat ?h * 3" using n by (simp only: length_map)
  have shot: "screenshot_rgb fb = Some (?w, ?h, ?rgb)"
    using screenshot_rgb_ok [of fb] assms concat_rgb888 [of "fb_px fb"] by simp
  have "ppm_decode_rgb565 (ppm_encode ?w ?h ?rgb @ [])
      = Inr (?w, ?h, decode_px (nat ?w * nat ?h) (map byte_char ?rgb @ []))"
    by (rule ppm_decode_encode) (use assms len in simp_all)
  also have "decode_px (nat ?w * nat ?h) (map byte_char ?rgb @ []) = fb_px fb"
    using decode_px_bytes [of ?ps "[]"] n by (simp add: rgb565_expand comp_def)
  finally have dec: "ppm_decode_rgb565 (ppm_encode ?w ?h ?rgb) = Inr (?w, ?h, fb_px fb)" by simp
  have init: "fb_ok (fb_init ?w ?h fb')" using assms by (intro fb_ok_init) auto
  have "fb_blit 0 0 ?w ?h (fb_px fb) (fb_init ?w ?h fb') = (fb_init ?w ?h fb')\<lparr>fb_px := fb_px fb\<rparr>"
    using fb_blit_full [OF init, of "fb_px fb"] assms(1) by (simp add: fb_init_def fb_ok_def)
  also have "\<dots> = fb" by (simp add: fb_init_def)
  finally show ?thesis using shot dec by blast
qed

theorem capture_lossless_witness:
  "\<exists>rgb. screenshot_rgb (fb_init 3 2 fb_new) = Some (3, 2, rgb)"
  using capture_lossless [of "fb_init 3 2 fb_new" fb_new] fb_ok_init [of 3 2 fb_new]
  by (auto simp: fb_init_def)

end
