(* ===== verification/Tft.thy ===== *)
theory Tft
  imports Framebuffer Input
begin

unbundle bit_operations_syntax

text \<open>
  The TFT_eSPI shim (\<^verbatim>\<open>peripherals/tft_espi\<close>): the drawing primitives, text, touch and sprites
  of the library, onto the shared framebuffer or a sprite's own buffer. An object's state is
  the record \<open>TFT_eSPI\<close>; the operations act on the object and the framebuffer together.
  Coordinates are \<open>int\<close>: the C++ code has no defined result where an \<^verbatim>\<open>int32_t\<close> overflows.
\<close>

section \<open>State and the pixel write\<close>

record TFT_eSPI =
  tf_buf :: "16 word list option" \<comment> \<open>\<^verbatim>\<open>_buf\<close>; \<^const>\<open>None\<close> is null: draw to the framebuffer\<close>
  tf_is_sprite :: bool
  tf_bw :: int
  tf_bh :: int
  tf_w :: int
  tf_h :: int
  tf_rotation :: int
  tf_swap :: bool
  tf_awx :: int
  tf_awy :: int
  tf_aww :: int
  tf_awh :: int
  tf_awi :: "32 word"
  tf_cx :: int
  tf_cy :: int
  tf_fg :: "16 word"
  tf_bg :: "16 word"
  tf_opaque :: bool
  tf_textsize :: int
  tf_datum :: int
  tf_wrap :: bool

type_synonym tft_st = "TFT_eSPI \<times> Framebuffer"

definition tft_new :: "int \<Rightarrow> int \<Rightarrow> TFT_eSPI" where
  "tft_new w h = \<lparr>tf_buf = None, tf_is_sprite = False, tf_bw = 0, tf_bh = 0, tf_w = w, tf_h = h,
     tf_rotation = 0, tf_swap = False, tf_awx = 0, tf_awy = 0, tf_aww = 0, tf_awh = 0, tf_awi = 0,
     tf_cx = 0, tf_cy = 0, tf_fg = 0xFFFF, tf_bg = 0, tf_opaque = False, tf_textsize = 1,
     tf_datum = 0, tf_wrap = True\<rparr>"

definition tft_init :: "tft_st \<Rightarrow> tft_st" where
  "tft_init = (\<lambda>(t, fb). (t, if tf_buf t = None then fb_init (tf_w t) (tf_h t) fb else fb))"

definition setRotation :: "int \<Rightarrow> tft_st \<Rightarrow> tft_st" where
  "setRotation r = (\<lambda>(t, fb).
     let rot = r mod 4;
         s = (if tf_w t < tf_h t then tf_w t else tf_h t);
         l = (if tf_w t < tf_h t then tf_h t else tf_w t);
         t = (if odd rot then t\<lparr>tf_rotation := rot, tf_w := l, tf_h := s\<rparr>
              else t\<lparr>tf_rotation := rot, tf_w := s, tf_h := l\<rparr>)
     in (t, if tf_buf t = None then fb_init (tf_w t) (tf_h t) fb else fb))"

definition putpx :: "int \<Rightarrow> int \<Rightarrow> 16 word \<Rightarrow> tft_st \<Rightarrow> tft_st" where
  "putpx x y color = (\<lambda>(t, fb).
     case tf_buf t of
       Some b \<Rightarrow>
         if x < 0 \<or> y < 0 \<or> x \<ge> tf_bw t \<or> y \<ge> tf_bh t then (t, fb)
         else (t\<lparr>tf_buf := Some (b[nat (y * tf_bw t + x) := color])\<rparr>, fb)
     | None \<Rightarrow>
         if \<not> tf_is_sprite t then
           (let (x, y) = (if tf_rotation t \<ge> 2 then (tf_w t - 1 - x, tf_h t - 1 - y) else (x, y))
            in if x < 0 \<or> y < 0 \<or> x \<ge> fb_w fb \<or> y \<ge> fb_h fb then (t, fb)
               else (t, fb_store x y color fb))
         else (t, fb))"

definition drawPixel :: "int \<Rightarrow> int \<Rightarrow> 16 word \<Rightarrow> tft_st \<Rightarrow> tft_st" where
  "drawPixel x y color = putpx x y color"

definition fillScreen :: "16 word \<Rightarrow> tft_st \<Rightarrow> tft_st" where
  "fillScreen color = (\<lambda>(t, fb).
     case tf_buf t of
       Some b \<Rightarrow> (t\<lparr>tf_buf := Some (map (\<lambda>_. color) b)\<rparr>, fb)
     | None \<Rightarrow> (t, if \<not> tf_is_sprite t then fb_fill color fb else fb))"

section \<open>Primitives\<close>

definition drawFastHLine :: "int \<Rightarrow> int \<Rightarrow> int \<Rightarrow> 16 word \<Rightarrow> tft_st \<Rightarrow> tft_st" where
  "drawFastHLine x y w c = for_upto w (\<lambda>i. putpx (x + i) y c)"

definition drawFastVLine :: "int \<Rightarrow> int \<Rightarrow> int \<Rightarrow> 16 word \<Rightarrow> tft_st \<Rightarrow> tft_st" where
  "drawFastVLine x y h c = for_upto h (\<lambda>i. putpx x (y + i) c)"

definition fillRect :: "int \<Rightarrow> int \<Rightarrow> int \<Rightarrow> int \<Rightarrow> 16 word \<Rightarrow> tft_st \<Rightarrow> tft_st" where
  "fillRect x y w h c = for_upto h (\<lambda>row. drawFastHLine x (y + row) w c)"

definition drawRect :: "int \<Rightarrow> int \<Rightarrow> int \<Rightarrow> int \<Rightarrow> 16 word \<Rightarrow> tft_st \<Rightarrow> tft_st" where
  "drawRect x y w h c s =
     drawFastVLine (x + w - 1) y h c (drawFastVLine x y h c
       (drawFastHLine x (y + h - 1) w c (drawFastHLine x y w c s)))"

partial_function (option) drawLine_loop ::
  "int \<Rightarrow> int \<Rightarrow> int \<Rightarrow> int \<Rightarrow> int \<Rightarrow> int \<Rightarrow> int \<Rightarrow> int \<Rightarrow> int \<Rightarrow> 16 word \<Rightarrow> tft_st \<Rightarrow> tft_st option" where
  "drawLine_loop x0 y0 x1 y1 dx dy sx sy err c s =
     (let s = putpx x0 y0 c s
      in if x0 = x1 \<and> y0 = y1 then Some s
         else (let e2 = 2 * err;
                   (err, x0) = (if e2 \<ge> dy then (err + dy, x0 + sx) else (err, x0));
                   (err, y0) = (if e2 \<le> dx then (err + dx, y0 + sy) else (err, y0))
               in drawLine_loop x0 y0 x1 y1 dx dy sx sy err c s))"

definition drawLine :: "int \<Rightarrow> int \<Rightarrow> int \<Rightarrow> int \<Rightarrow> 16 word \<Rightarrow> tft_st \<Rightarrow> tft_st option" where
  "drawLine x0 y0 x1 y1 c s =
     (let dx = \<bar>x1 - x0\<bar>; dy = - \<bar>y1 - y0\<bar>;
          sx = (if x0 < x1 then 1 else -1); sy = (if y0 < y1 then 1 else -1)
      in drawLine_loop x0 y0 x1 y1 dx dy sx sy (dx + dy) c s)"

partial_function (option) drawCircle_loop ::
  "int \<Rightarrow> int \<Rightarrow> int \<Rightarrow> int \<Rightarrow> int \<Rightarrow> 16 word \<Rightarrow> tft_st \<Rightarrow> tft_st option" where
  "drawCircle_loop x0 y0 x y err c s =
     (let s = putpx (x0 + y) (y0 + x) c (putpx (x0 + x) (y0 - y) c
                (putpx (x0 - y) (y0 - x) c (putpx (x0 - x) (y0 + y) c s)));
          r = err;
          (err, y) = (if r \<le> y then (err + (y + 1) * 2 + 1, y + 1) else (err, y));
          (err, x) = (if r > x \<or> err > y then (err + (x + 1) * 2 + 1, x + 1) else (err, x))
      in if x < 0 then drawCircle_loop x0 y0 x y err c s else Some s)"

definition drawCircle :: "int \<Rightarrow> int \<Rightarrow> int \<Rightarrow> 16 word \<Rightarrow> tft_st \<Rightarrow> tft_st option" where
  "drawCircle x0 y0 r c s = drawCircle_loop x0 y0 (- r) 0 (2 - 2 * r) c s"

definition fillCircle :: "int \<Rightarrow> int \<Rightarrow> int \<Rightarrow> 16 word \<Rightarrow> tft_st \<Rightarrow> tft_st" where
  "fillCircle x0 y0 r c s =
     fold (\<lambda>dy. fold (\<lambda>dx s. if dx * dx + dy * dy \<le> r * r then putpx (x0 + dx) (y0 + dy) c s else s)
       [- r..r]) [- r..r] s"

definition fillRoundRect :: "int \<Rightarrow> int \<Rightarrow> int \<Rightarrow> int \<Rightarrow> int \<Rightarrow> 16 word \<Rightarrow> tft_st \<Rightarrow> tft_st" where
  "fillRoundRect x y w h r c s =
     (let r = (if r > cdiv w 2 then cdiv w 2 else r);
          r = (if r > cdiv h 2 then cdiv h 2 else r);
          s = fillRect (x + r) y (w - 2 * r) h c s;
          s = fillRect x (y + r) r (h - 2 * r) c s;
          s = fillRect (x + w - r) (y + r) r (h - 2 * r) c s;
          s = fillCircle (x + r) (y + r) r c s;
          s = fillCircle (x + w - r - 1) (y + r) r c s;
          s = fillCircle (x + r) (y + h - r - 1) r c s
      in fillCircle (x + w - r - 1) (y + h - r - 1) r c s)"

definition drawRoundRect :: "int \<Rightarrow> int \<Rightarrow> int \<Rightarrow> int \<Rightarrow> int \<Rightarrow> 16 word \<Rightarrow> tft_st \<Rightarrow> tft_st option" where
  "drawRoundRect x y w h r c s =
     (let r = (if r > cdiv w 2 then cdiv w 2 else r);
          r = (if r > cdiv h 2 then cdiv h 2 else r);
          s = drawFastHLine (x + r) y (w - 2 * r) c s;
          s = drawFastHLine (x + r) (y + h - 1) (w - 2 * r) c s;
          s = drawFastVLine x (y + r) (h - 2 * r) c s;
          s = drawFastVLine (x + w - 1) (y + r) (h - 2 * r) c s
      in Option.bind (drawCircle (x + r) (y + r) r c s) (\<lambda>s.
         Option.bind (drawCircle (x + w - r - 1) (y + r) r c s) (\<lambda>s.
         Option.bind (drawCircle (x + r) (y + h - r - 1) r c s) (\<lambda>s.
         drawCircle (x + w - r - 1) (y + h - r - 1) r c s))))"

definition tri_edge :: "int \<Rightarrow> int \<Rightarrow> int \<Rightarrow> int \<Rightarrow> int \<Rightarrow> int \<Rightarrow> int" where
  "tri_edge ax ay bx by px py = (bx - ax) * (py - ay) - (by - ay) * (px - ax)"

definition fillTriangle ::
  "int \<Rightarrow> int \<Rightarrow> int \<Rightarrow> int \<Rightarrow> int \<Rightarrow> int \<Rightarrow> 16 word \<Rightarrow> tft_st \<Rightarrow> tft_st" where
  "fillTriangle x0 y0 x1 y1 x2 y2 c s =
     (let minx = min (min x0 x1) x2; maxx = max (max x0 x1) x2;
          miny = min (min y0 y1) y2; maxy = max (max y0 y1) y2
      in fold (\<lambda>py. fold (\<lambda>px s.
           let w0 = tri_edge x1 y1 x2 y2 px py;
               w1 = tri_edge x2 y2 x0 y0 px py;
               w2 = tri_edge x0 y0 x1 y1 px py
           in if (w0 \<ge> 0 \<and> w1 \<ge> 0 \<and> w2 \<ge> 0) \<or> (w0 \<le> 0 \<and> w1 \<le> 0 \<and> w2 \<le> 0)
              then putpx px py c s else s) [minx..maxx]) [miny..maxy] s)"

definition pushImage :: "int \<Rightarrow> int \<Rightarrow> int \<Rightarrow> int \<Rightarrow> 16 word list \<Rightarrow> tft_st \<Rightarrow> tft_st" where
  "pushImage x y w h data =
     for_upto h (\<lambda>row. for_upto w (\<lambda>col. putpx (x + col) (y + row) (data ! nat (row * w + col))))"

section \<open>The address window\<close>

definition setAddrWindow :: "int \<Rightarrow> int \<Rightarrow> int \<Rightarrow> int \<Rightarrow> tft_st \<Rightarrow> tft_st" where
  "setAddrWindow x y w h = (\<lambda>(t, fb).
     (t\<lparr>tf_awx := x, tf_awy := y, tf_aww := w, tf_awh := h, tf_awi := 0\<rparr>, fb))"

text \<open>The loop of \<^verbatim>\<open>pushColors\<close> from the pixel index \<open>idx\<close> on.\<close>

fun pushColors_loop :: "32 word \<Rightarrow> 16 word list \<Rightarrow> tft_st \<Rightarrow> tft_st" where
  "pushColors_loop idx [] s = s"
| "pushColors_loop idx (c # cs) s =
     (let t = fst s in
      if tf_aww t > 0 \<and> tf_awh t > 0 then
        (let col = s32 (uint idx mod tf_aww t); row = s32 (uint idx div tf_aww t)
         in if row \<ge> tf_awh t then s
            else pushColors_loop (idx + 1) cs (putpx (tf_awx t + col) (tf_awy t + row) c s))
      else s)"

definition pushColors :: "16 word list \<Rightarrow> tft_st \<Rightarrow> tft_st" where
  "pushColors data s =
     (let (t, fb) = pushColors_loop (tf_awi (fst s)) data s
      in (t\<lparr>tf_awi := tf_awi t + of_nat (length data)\<rparr>, fb))"

section \<open>Text\<close>

definition FONT5x7 :: "8 word list list" where
  "FONT5x7 = [
    [0x00,0x00,0x00,0x00,0x00], [0x00,0x00,0x5F,0x00,0x00], [0x00,0x07,0x00,0x07,0x00],
    [0x14,0x7F,0x14,0x7F,0x14], [0x24,0x2A,0x7F,0x2A,0x12], [0x23,0x13,0x08,0x64,0x62],
    [0x36,0x49,0x55,0x22,0x50], [0x00,0x05,0x03,0x00,0x00], [0x00,0x1C,0x22,0x41,0x00],
    [0x00,0x41,0x22,0x1C,0x00], [0x14,0x08,0x3E,0x08,0x14], [0x08,0x08,0x3E,0x08,0x08],
    [0x00,0x50,0x30,0x00,0x00], [0x08,0x08,0x08,0x08,0x08], [0x00,0x60,0x60,0x00,0x00],
    [0x20,0x10,0x08,0x04,0x02], [0x3E,0x51,0x49,0x45,0x3E], [0x00,0x42,0x7F,0x40,0x00],
    [0x42,0x61,0x51,0x49,0x46], [0x21,0x41,0x45,0x4B,0x31], [0x18,0x14,0x12,0x7F,0x10],
    [0x27,0x45,0x45,0x45,0x39], [0x3C,0x4A,0x49,0x49,0x30], [0x01,0x71,0x09,0x05,0x03],
    [0x36,0x49,0x49,0x49,0x36], [0x06,0x49,0x49,0x29,0x1E], [0x00,0x36,0x36,0x00,0x00],
    [0x00,0x56,0x36,0x00,0x00], [0x00,0x08,0x14,0x22,0x41], [0x14,0x14,0x14,0x14,0x14],
    [0x41,0x22,0x14,0x08,0x00], [0x02,0x01,0x51,0x09,0x06], [0x32,0x49,0x79,0x41,0x3E],
    [0x7E,0x11,0x11,0x11,0x7E], [0x7F,0x49,0x49,0x49,0x36], [0x3E,0x41,0x41,0x41,0x22],
    [0x7F,0x41,0x41,0x22,0x1C], [0x7F,0x49,0x49,0x49,0x41], [0x7F,0x09,0x09,0x01,0x01],
    [0x3E,0x41,0x41,0x51,0x32], [0x7F,0x08,0x08,0x08,0x7F], [0x00,0x41,0x7F,0x41,0x00],
    [0x20,0x40,0x41,0x3F,0x01], [0x7F,0x08,0x14,0x22,0x41], [0x7F,0x40,0x40,0x40,0x40],
    [0x7F,0x02,0x04,0x02,0x7F], [0x7F,0x04,0x08,0x10,0x7F], [0x3E,0x41,0x41,0x41,0x3E],
    [0x7F,0x09,0x09,0x09,0x06], [0x3E,0x41,0x51,0x21,0x5E], [0x7F,0x09,0x19,0x29,0x46],
    [0x46,0x49,0x49,0x49,0x31], [0x01,0x01,0x7F,0x01,0x01], [0x3F,0x40,0x40,0x40,0x3F],
    [0x1F,0x20,0x40,0x20,0x1F], [0x7F,0x20,0x18,0x20,0x7F], [0x63,0x14,0x08,0x14,0x63],
    [0x03,0x04,0x78,0x04,0x03], [0x61,0x51,0x49,0x45,0x43], [0x00,0x00,0x7F,0x41,0x41],
    [0x02,0x04,0x08,0x10,0x20], [0x41,0x41,0x7F,0x00,0x00], [0x04,0x02,0x01,0x02,0x04],
    [0x40,0x40,0x40,0x40,0x40], [0x00,0x01,0x02,0x04,0x00], [0x20,0x54,0x54,0x54,0x78],
    [0x7F,0x48,0x44,0x44,0x38], [0x38,0x44,0x44,0x44,0x20], [0x38,0x44,0x44,0x48,0x7F],
    [0x38,0x54,0x54,0x54,0x18], [0x08,0x7E,0x09,0x01,0x02], [0x08,0x14,0x54,0x54,0x3C],
    [0x7F,0x08,0x04,0x04,0x78], [0x00,0x44,0x7D,0x40,0x00], [0x20,0x40,0x44,0x3D,0x00],
    [0x7F,0x10,0x28,0x44,0x00], [0x00,0x41,0x7F,0x40,0x00], [0x7C,0x04,0x18,0x04,0x78],
    [0x7C,0x08,0x04,0x04,0x78], [0x38,0x44,0x44,0x44,0x38], [0x7C,0x14,0x14,0x14,0x08],
    [0x08,0x14,0x14,0x18,0x7C], [0x7C,0x08,0x04,0x04,0x08], [0x48,0x54,0x54,0x54,0x20],
    [0x04,0x3F,0x44,0x40,0x20], [0x3C,0x40,0x40,0x20,0x7C], [0x1C,0x20,0x40,0x20,0x1C],
    [0x3C,0x40,0x30,0x40,0x3C], [0x44,0x28,0x10,0x28,0x44], [0x0C,0x50,0x50,0x50,0x3C],
    [0x44,0x64,0x54,0x4C,0x44], [0x00,0x08,0x36,0x41,0x00], [0x00,0x00,0x7F,0x00,0x00],
    [0x00,0x41,0x36,0x08,0x00], [0x08,0x04,0x08,0x10,0x08]]"

definition drawChar :: "int \<Rightarrow> int \<Rightarrow> char \<Rightarrow> 16 word \<Rightarrow> 16 word \<Rightarrow> int \<Rightarrow> tft_st \<Rightarrow> tft_st" where
  "drawChar x y c fg bg sz =
     (let uc = of_char c :: nat;
          uc = (if uc < 0x20 \<or> uc > 0x7E then of_char (CHR ''?'') else uc);
          g = FONT5x7 ! (uc - 0x20)
      in for_upto 6 (\<lambda>col.
           let bits = (if col < 5 then g ! nat col else 0)
           in for_upto 8 (\<lambda>row s.
                let on = bit bits (nat row)
                in if on then fillRect (x + col * sz) (y + row * sz) sz sz fg s
                   else if tf_opaque (fst s)
                        then fillRect (x + col * sz) (y + row * sz) sz sz bg s
                   else s)))"

definition setCursor :: "int \<Rightarrow> int \<Rightarrow> tft_st \<Rightarrow> tft_st" where
  "setCursor x y = (\<lambda>(t, fb). (t\<lparr>tf_cx := x, tf_cy := y\<rparr>, fb))"

definition setTextColor :: "16 word \<Rightarrow> tft_st \<Rightarrow> tft_st" where
  "setTextColor c = (\<lambda>(t, fb). (t\<lparr>tf_fg := c, tf_opaque := False\<rparr>, fb))"

definition setTextColor2 :: "16 word \<Rightarrow> 16 word \<Rightarrow> tft_st \<Rightarrow> tft_st" where
  "setTextColor2 fg bg = (\<lambda>(t, fb). (t\<lparr>tf_fg := fg, tf_bg := bg, tf_opaque := True\<rparr>, fb))"

definition setTextSize :: "int \<Rightarrow> tft_st \<Rightarrow> tft_st" where
  "setTextSize s = (\<lambda>(t, fb). (t\<lparr>tf_textsize := (if s < 1 then 1 else s)\<rparr>, fb))"

definition setTextDatum :: "int \<Rightarrow> tft_st \<Rightarrow> tft_st" where
  "setTextDatum d = (\<lambda>(t, fb). (t\<lparr>tf_datum := d\<rparr>, fb))"

definition setTextWrap :: "bool \<Rightarrow> tft_st \<Rightarrow> tft_st" where
  "setTextWrap w = (\<lambda>(t, fb). (t\<lparr>tf_wrap := w\<rparr>, fb))"

definition setSwapBytes :: "bool \<Rightarrow> TFT_eSPI \<Rightarrow> TFT_eSPI" where
  "setSwapBytes b t = t\<lparr>tf_swap := b\<rparr>"

definition textWidth :: "string \<Rightarrow> TFT_eSPI \<Rightarrow> int" where
  "textWidth s t = s16 (int (length s) * 6 * tf_textsize t)"

definition fontHeight :: "TFT_eSPI \<Rightarrow> int" where
  "fontHeight t = s16 (8 * tf_textsize t)"

definition tft_newline :: "tft_st \<Rightarrow> tft_st" where
  "tft_newline = (\<lambda>(t, fb). (t\<lparr>tf_cx := 0, tf_cy := tf_cy t + 8 * tf_textsize t\<rparr>, fb))"

definition tft_write :: "char \<Rightarrow> tft_st \<Rightarrow> nat \<times> tft_st" where
  "tft_write c s =
     (let t = fst s in
      if c = nl then (1, tft_newline s)
      else if c = cr then (1, s)
      else (let s = (if tf_wrap t \<and> tf_cx t + 6 * tf_textsize t > tf_w t then tft_newline s else s);
                t = fst s;
                (t', fb) = drawChar (tf_cx t) (tf_cy t) c (tf_fg t) (tf_bg t) (tf_textsize t) s
            in (1, (t'\<lparr>tf_cx := tf_cx t' + 6 * tf_textsize t'\<rparr>, fb))))"

fun tft_print :: "string \<Rightarrow> tft_st \<Rightarrow> nat \<times> tft_st" where
  "tft_print [] s = (0, s)"
| "tft_print (c # cs) s =
     (let (n, s) = tft_write c s; (m, s) = tft_print cs s in (n + m, s))"

definition tft_println :: "string \<Rightarrow> tft_st \<Rightarrow> nat \<times> tft_st" where
  "tft_println str s = (let (n, s) = tft_print str s; (m, s) = tft_write nl s in (n + m, s))"

fun drawString_loop :: "string \<Rightarrow> int \<Rightarrow> int \<Rightarrow> tft_st \<Rightarrow> tft_st" where
  "drawString_loop [] sx sy s = s"
| "drawString_loop (c # cs) sx sy s =
     (let t = fst s; s' = drawChar sx sy c (tf_fg t) (tf_bg t) (tf_textsize t) s
      in drawString_loop cs (sx + 6 * tf_textsize (fst s')) sy s')"

definition drawString :: "string \<Rightarrow> int \<Rightarrow> int \<Rightarrow> tft_st \<Rightarrow> int \<times> tft_st" where
  "drawString str x y s =
     (let t = fst s; tw = textWidth str t; th = fontHeight t; d = tf_datum t;
          sx = (if d = 1 \<or> d = 4 \<or> d = 7 then x - cdiv tw 2
                else if d = 2 \<or> d = 5 \<or> d = 8 then x - tw else x);
          sy = (if d = 3 \<or> d = 4 \<or> d = 5 then y - cdiv th 2
                else if d = 6 \<or> d = 7 \<or> d = 8 then y - th else y)
      in (tw, drawString_loop str sx sy s))"

definition drawCentreString :: "string \<Rightarrow> int \<Rightarrow> int \<Rightarrow> tft_st \<Rightarrow> int \<times> tft_st" where
  "drawCentreString str x y = (\<lambda>(t, fb).
     let d = tf_datum t; (r, (t, fb)) = drawString str x y (t\<lparr>tf_datum := 1\<rparr>, fb)
     in (r, (t\<lparr>tf_datum := d\<rparr>, fb)))"

definition drawRightString :: "string \<Rightarrow> int \<Rightarrow> int \<Rightarrow> tft_st \<Rightarrow> int \<times> tft_st" where
  "drawRightString str x y = (\<lambda>(t, fb).
     let d = tf_datum t; (r, (t, fb)) = drawString str x y (t\<lparr>tf_datum := 2\<rparr>, fb)
     in (r, (t\<lparr>tf_datum := d\<rparr>, fb)))"

section \<open>Touch\<close>

text \<open>The returned flag with the coordinates; \<^const>\<open>None\<close> is the result 0.\<close>

definition getTouch :: "TFT_eSPI \<Rightarrow> SimInput \<Rightarrow> (16 word \<times> 16 word) option" where
  "getTouch t i =
     (case sim_touch i of None \<Rightarrow> None
      | Some (tx, ty) \<Rightarrow>
          (let (tx, ty) = (if tf_rotation t \<ge> 2 then (tf_w t - 1 - tx, tf_h t - 1 - ty) else (tx, ty))
           in Some (word_of_int tx, word_of_int ty)))"

section \<open>Sprites\<close>

definition sprite_new :: "TFT_eSPI" where
  "sprite_new = (tft_new 240 320)\<lparr>tf_is_sprite := True\<rparr>"

definition createSprite :: "int \<Rightarrow> int \<Rightarrow> TFT_eSPI \<Rightarrow> bool \<times> TFT_eSPI" where
  "createSprite w h t =
     (if w \<le> 0 \<or> h \<le> 0 then (False, t)
      else (True, t\<lparr>tf_bw := w, tf_bh := h, tf_w := w, tf_h := h,
                   tf_buf := Some (replicate (size_mul w h) 0)\<rparr>))"

definition deleteSprite :: "TFT_eSPI \<Rightarrow> TFT_eSPI" where
  "deleteSprite t = t\<lparr>tf_buf := None, tf_bw := 0, tf_bh := 0\<rparr>"

text \<open>Blit through the parent, or straight onto the framebuffer where there is none.\<close>

definition pushSprite ::
  "TFT_eSPI \<Rightarrow> int \<Rightarrow> int \<Rightarrow> TFT_eSPI option \<times> Framebuffer \<Rightarrow> TFT_eSPI option \<times> Framebuffer" where
  "pushSprite sp x y = (\<lambda>(parent, fb).
     case tf_buf sp of None \<Rightarrow> (parent, fb)
     | Some b \<Rightarrow>
         (case parent of
            Some p \<Rightarrow> (let (p, fb) = pushImage x y (tf_bw sp) (tf_bh sp) b (p, fb) in (Some p, fb))
          | None \<Rightarrow> (None, fb_blit x y (tf_bw sp) (tf_bh sp) b fb)))"

section \<open>Every target is a pixel sink\<close>

text \<open>
  What an object draws on: a sprite's buffer, the framebuffer, or (a sprite without a buffer)
  nothing; and where a logical point lands there, the two flipped rotations mirroring the panel.
\<close>

definition tft_target :: "tft_st \<Rightarrow> Framebuffer" where
  "tft_target s = (case tf_buf (fst s) of
     Some b \<Rightarrow> \<lparr>fb_w = tf_bw (fst s), fb_h = tf_bh (fst s), fb_px = b\<rparr>
   | None \<Rightarrow> if tf_is_sprite (fst s) then fb_new else snd s)"

definition tft_mirrored :: "TFT_eSPI \<Rightarrow> bool" where
  "tft_mirrored t \<longleftrightarrow> tf_buf t = None \<and> \<not> tf_is_sprite t \<and> tf_rotation t \<ge> 2"

definition tft_x :: "TFT_eSPI \<Rightarrow> int \<Rightarrow> int" where
  "tft_x t x = (if tft_mirrored t then tf_w t - 1 - x else x)"

definition tft_y :: "TFT_eSPI \<Rightarrow> int \<Rightarrow> int" where
  "tft_y t y = (if tft_mirrored t then tf_h t - 1 - y else y)"

definition tft_get :: "tft_st \<Rightarrow> int \<Rightarrow> int \<Rightarrow> 16 word" where
  "tft_get s u v = fb_pixel (tft_target s) (tft_x (fst s) u) (tft_y (fst s) v)"

definition tft_inside :: "tft_st \<Rightarrow> int \<Rightarrow> int \<Rightarrow> bool" where
  "tft_inside s u v = fb_inside (tft_target s) (tft_x (fst s) u) (tft_y (fst s) v)"

definition tft_ok :: "tft_st \<Rightarrow> bool" where
  "tft_ok s = fb_ok (tft_target s)"

text \<open>Everything of an object but its pixels.\<close>

definition tft_cfg :: "TFT_eSPI \<Rightarrow> TFT_eSPI" where
  "tft_cfg t = t\<lparr>tf_buf := map_option (\<lambda>_. []) (tf_buf t)\<rparr>"

lemma tft_target_put:
  "tft_target (putpx x y c s) = fb_put (tft_x (fst s) x) (tft_y (fst s) y) c (tft_target s)"
proof (cases "tf_buf (fst s)")
  case None
  then show ?thesis
    by (cases s; cases "tf_is_sprite (fst s)") (auto simp: tft_target_def putpx_def fb_put_def
        tft_x_def tft_y_def tft_mirrored_def fb_inside_def fb_new_def not_less not_le)
next
  case (Some b)
  then show ?thesis
    by (cases s) (simp add: tft_target_def putpx_def fb_put_def fb_store_def tft_x_def tft_y_def
        tft_mirrored_def fb_inside_def not_less not_le)
qed

lemma tft_cfg_put [simp]: "tft_cfg (fst (putpx x y c s)) = tft_cfg (fst s)"
  by (cases s; cases "tf_buf (fst s)") (simp_all add: tft_cfg_def putpx_def Let_def)

lemma tft_cfg_sel:
  "tf_is_sprite (tft_cfg t) = tf_is_sprite t" "(tf_buf (tft_cfg t) = None) = (tf_buf t = None)"
  "tf_w (tft_cfg t) = tf_w t" "tf_h (tft_cfg t) = tf_h t" "tf_rotation (tft_cfg t) = tf_rotation t"
  "tf_opaque (tft_cfg t) = tf_opaque t" "tf_aww (tft_cfg t) = tf_aww t"
  "tf_awh (tft_cfg t) = tf_awh t" "tf_awx (tft_cfg t) = tf_awx t" "tf_awy (tft_cfg t) = tf_awy t"
  "tf_awi (tft_cfg t) = tf_awi t" "tf_textsize (tft_cfg t) = tf_textsize t"
  by (simp_all add: tft_cfg_def)

lemma tft_cfgD:
  assumes "tft_cfg a = tft_cfg b"
  shows "tft_mirrored a = tft_mirrored b" "tf_w a = tf_w b" "tf_h a = tf_h b"
    "tf_opaque a = tf_opaque b" "tf_aww a = tf_aww b" "tf_awh a = tf_awh b"
    "tf_awx a = tf_awx b" "tf_awy a = tf_awy b"
  unfolding tft_mirrored_def by (metis assms tft_cfg_sel)+

lemma tft_xy_cong: "tft_cfg a = tft_cfg b \<Longrightarrow> tft_x a = tft_x b \<and> tft_y a = tft_y b"
  by (auto simp: fun_eq_iff tft_x_def tft_y_def dest: tft_cfgD)

lemma tft_x_put [simp]: "tft_x (fst (putpx x y c s)) = tft_x (fst s)"
  using tft_xy_cong [OF tft_cfg_put] by blast

lemma tft_y_put [simp]: "tft_y (fst (putpx x y c s)) = tft_y (fst s)"
  using tft_xy_cong [OF tft_cfg_put] by blast

interpretation tft: pixel_sink putpx tft_get tft_inside tft_ok
proof
  show "tft_ok s \<Longrightarrow> tft_ok (putpx x y c s)" for s x y c
    by (simp add: tft_ok_def tft_target_put)
  show "tft_inside (putpx x y c s) u v = tft_inside s u v" for s x y c u v
    by (simp add: tft_inside_def tft_target_put)
  show "tft_ok s \<Longrightarrow> tft_inside s u v \<Longrightarrow>
      tft_get (putpx x y c s) u v = (if u = x \<and> v = y then c else tft_get s u v)" for s x y c u v
    by (auto simp: tft_get_def tft_inside_def tft_ok_def tft_target_put fb_pixel_put)
      (auto simp: tft_x_def tft_y_def split: if_splits)
qed

section \<open>Rectangles, discs and images\<close>

lemma fold_paint:
  assumes "\<And>i s. i \<in> set xs \<Longrightarrow> body i s = paint put (g i) c s"
  shows "fold body xs s = paint put (concat (map g xs)) c s"
  using assms by (induction xs arbitrary: s) (auto simp: paint_append)

lemma fold_if_paint:
  "fold (\<lambda>x s. if P x then putpx (f x) (g x) c s else s) xs s
     = paint putpx (map (\<lambda>x. (f x, g x)) (filter P xs)) c s"
  by (induction xs arbitrary: s) (auto simp: paint_def)

lemma drawFastHLine_paint:
  "drawFastHLine x y w c s = paint putpx (map (\<lambda>i. (x + i, y)) [0..w - 1]) c s"
  by (simp add: drawFastHLine_def for_upto_def paint_def fold_map_comp)

lemma drawFastVLine_paint:
  "drawFastVLine x y h c s = paint putpx (map (\<lambda>i. (x, y + i)) [0..h - 1]) c s"
  by (simp add: drawFastVLine_def for_upto_def paint_def fold_map_comp)

definition rect_pts :: "int \<Rightarrow> int \<Rightarrow> int \<Rightarrow> int \<Rightarrow> (int \<times> int) list" where
  "rect_pts x y w h = concat (map (\<lambda>row. map (\<lambda>i. (x + i, y + row)) [0..w - 1]) [0..h - 1])"

lemma set_shift_upto: "(\<lambda>i. x + i) ` {0..n - 1} = {x..<x + (n :: int)}"
  by (auto simp: image_iff intro: bexI [of _ "_ - x"])

lemma set_rect_pts:
  "(u, v) \<in> set (rect_pts x y w h) \<longleftrightarrow> x \<le> u \<and> u < x + w \<and> y \<le> v \<and> v < y + h"
proof
  assume "x \<le> u \<and> u < x + w \<and> y \<le> v \<and> v < y + h"
  then show "(u, v) \<in> set (rect_pts x y w h)"
    by (auto simp: rect_pts_def intro!: bexI [of _ "v - y"] image_eqI [of _ _ "u - x"])
qed (auto simp: rect_pts_def)

lemma fillRect_paint: "fillRect x y w h c s = paint putpx (rect_pts x y w h) c s"
  unfolding fillRect_def rect_pts_def by (rule for_upto_paint) (simp add: drawFastHLine_paint)

definition rect_border :: "int \<Rightarrow> int \<Rightarrow> int \<Rightarrow> int \<Rightarrow> (int \<times> int) list" where
  "rect_border x y w h =
     map (\<lambda>i. (x + i, y)) [0..w - 1] @ map (\<lambda>i. (x + i, y + h - 1)) [0..w - 1]
     @ map (\<lambda>i. (x, y + i)) [0..h - 1] @ map (\<lambda>i. (x + w - 1, y + i)) [0..h - 1]"

lemma drawRect_paint: "drawRect x y w h c s = paint putpx (rect_border x y w h) c s"
  by (simp add: drawRect_def rect_border_def drawFastHLine_paint drawFastVLine_paint paint_append)

definition disc_pts :: "int \<Rightarrow> int \<Rightarrow> int \<Rightarrow> (int \<times> int) list" where
  "disc_pts x0 y0 r = concat (map (\<lambda>dy. map (\<lambda>dx. (x0 + dx, y0 + dy))
     (filter (\<lambda>dx. dx * dx + dy * dy \<le> r * r) [- r..r])) [- r..r])"

lemma fillCircle_paint: "fillCircle x0 y0 r c s = paint putpx (disc_pts x0 y0 r) c s"
  unfolding fillCircle_def disc_pts_def
  by (rule fold_paint) (rule fold_if_paint)

lemma square_le_bound:
  fixes a b r :: int
  assumes "a * a + b * b \<le> r * r" and "0 \<le> r"
  shows "- r \<le> a \<and> a \<le> r"
proof -
  have "a * a \<le> r * r" using assms by (smt (verit) zero_le_square)
  then have "\<bar>a\<bar> \<le> \<bar>r\<bar>" by (simp add: abs_le_square_iff power2_eq_square)
  with assms(2) show ?thesis by linarith
qed

lemma set_disc_pts:
  assumes "0 \<le> r"
  shows "(u, v) \<in> set (disc_pts x0 y0 r) \<longleftrightarrow> (u - x0) * (u - x0) + (v - y0) * (v - y0) \<le> r * r"
    (is "_ \<longleftrightarrow> ?D")
proof
  assume D: ?D
  have "- r \<le> u - x0 \<and> u - x0 \<le> r" by (rule square_le_bound [OF D assms])
  moreover have "- r \<le> v - y0 \<and> v - y0 \<le> r"
    by (rule square_le_bound [OF _ assms, of _ "u - x0"]) (use D in \<open>simp add: add.commute\<close>)
  ultimately show "(u, v) \<in> set (disc_pts x0 y0 r)"
    using D by (auto simp: disc_pts_def intro!: bexI [of _ "v - y0"] image_eqI [of _ _ "u - x0"])
qed (auto simp: disc_pts_def)

definition tri_covers ::
  "int \<Rightarrow> int \<Rightarrow> int \<Rightarrow> int \<Rightarrow> int \<Rightarrow> int \<Rightarrow> int \<Rightarrow> int \<Rightarrow> bool" where
  "tri_covers x0 y0 x1 y1 x2 y2 px py \<longleftrightarrow>
     (let w0 = tri_edge x1 y1 x2 y2 px py;
          w1 = tri_edge x2 y2 x0 y0 px py;
          w2 = tri_edge x0 y0 x1 y1 px py
      in (w0 \<ge> 0 \<and> w1 \<ge> 0 \<and> w2 \<ge> 0) \<or> (w0 \<le> 0 \<and> w1 \<le> 0 \<and> w2 \<le> 0))"

definition tri_pts :: "int \<Rightarrow> int \<Rightarrow> int \<Rightarrow> int \<Rightarrow> int \<Rightarrow> int \<Rightarrow> (int \<times> int) list" where
  "tri_pts x0 y0 x1 y1 x2 y2 = concat (map (\<lambda>py. map (\<lambda>px. (px, py))
     (filter (\<lambda>px. tri_covers x0 y0 x1 y1 x2 y2 px py)
       [min (min x0 x1) x2..max (max x0 x1) x2])) [min (min y0 y1) y2..max (max y0 y1) y2])"

lemma fillTriangle_paint:
  "fillTriangle x0 y0 x1 y1 x2 y2 c s = paint putpx (tri_pts x0 y0 x1 y1 x2 y2) c s"
proof -
  have "fillTriangle x0 y0 x1 y1 x2 y2 c s =
      fold (\<lambda>py. fold (\<lambda>px s. if tri_covers x0 y0 x1 y1 x2 y2 px py then putpx px py c s else s)
        [min (min x0 x1) x2..max (max x0 x1) x2]) [min (min y0 y1) y2..max (max y0 y1) y2] s"
    unfolding fillTriangle_def tri_covers_def Let_def ..
  also have "\<dots> = paint putpx (tri_pts x0 y0 x1 y1 x2 y2) c s"
    unfolding tri_pts_def by (rule fold_paint) (simp add: fold_if_paint)
  finally show ?thesis .
qed

lemma set_filtered_grid:
  "(u, v) \<in> set (concat (map (\<lambda>y. map (\<lambda>x. (x, y)) (filter (P y) [a..b])) [c..d])) \<longleftrightarrow>
     a \<le> u \<and> u \<le> b \<and> c \<le> v \<and> v \<le> d \<and> P v u"
  by auto

lemma set_tri_pts:
  "(u, v) \<in> set (tri_pts x0 y0 x1 y1 x2 y2) \<longleftrightarrow>
     min (min x0 x1) x2 \<le> u \<and> u \<le> max (max x0 x1) x2 \<and>
     min (min y0 y1) y2 \<le> v \<and> v \<le> max (max y0 y1) y2 \<and> tri_covers x0 y0 x1 y1 x2 y2 u v"
  unfolding tri_pts_def by (rule set_filtered_grid)

lemma pushImage_paint:
  "pushImage x y w h data s
     = paint_img putpx (img_points x y w h (\<lambda>row col. data ! nat (row * w + col))) s"
  by (simp add: pushImage_def paint_img_def img_points_def for_upto_def [abs_def] fold_map
      comp_def flip: fold_concat_map)

lemma tft_get_pushImage:
  assumes "tft_ok s" and "tft_inside s u v"
  shows "tft_get (pushImage x y w h data s) u v =
     (if x \<le> u \<and> u < x + w \<and> y \<le> v \<and> v < y + h
      then data ! nat ((v - y) * w + (u - x)) else tft_get s u v)"
proof -
  let ?img = "img_points x y w h (\<lambda>row col. data ! nat (row * w + col))"
  have "tft_get (pushImage x y w h data s) u v =
      (case map_of ?img (u, v) of Some c \<Rightarrow> c | None \<Rightarrow> tft_get s u v)"
    using tft.get_paint_img [OF assms, of ?img]
    by (simp add: pushImage_paint map_of_distinct_rev distinct_img_points)
  then show ?thesis by (auto simp: map_of_img_points)
qed

end
