(* ===== verification/TftShapes.thy ===== *)
theory TftShapes
  imports Tft
begin

text \<open>
  The two loops of the TFT_eSPI shim whose end is not evident: Bresenham's line and the
  midpoint circle. Both are shown to end, and what they paint is characterised. Then the
  properties of the drawing primitives, over the surface interface of \<open>Framebuffer\<close>.
\<close>

section \<open>The line\<close>

text \<open>
  After \<open>i\<close> steps along \<open>x\<close> and \<open>j\<close> along \<open>y\<close> of a line with extents \<open>a\<close> and \<open>b\<close> the error
  variable holds \<open>(j + 1) * a - (i + 1) * b\<close>, and the point is within half a pixel of the
  line, measured along the shorter axis.
\<close>

definition line_inv :: "int \<Rightarrow> int \<Rightarrow> int \<Rightarrow> int \<Rightarrow> bool" where
  "line_inv a b i j \<longleftrightarrow> 0 \<le> i \<and> i \<le> a \<and> 0 \<le> j \<and> j \<le> b \<and> \<bar>2 * (j * a - i * b)\<bar> \<le> max a b"

lemma line_inv_swap: "line_inv a b i j \<longleftrightarrow> line_inv b a j i"
  by (auto simp: line_inv_def max_def)

lemma line_minor_bound:
  fixes a b i j :: int
  assumes "2 * (j * a - i * b) \<le> a" "i \<le> a" "0 \<le> b" "0 < a"
  shows "j \<le> b"
proof (rule ccontr)
  assume "\<not> j \<le> b"
  then have "(b + 1) * a \<le> j * a" using assms by (intro mult_right_mono) auto
  moreover have "i * b \<le> a * b" using assms by (intro mult_right_mono) auto
  ultimately have "2 * a \<le> a" using assms(1) by (simp add: algebra_simps)
  with assms show False by simp
qed

lemma line_major_end:
  fixes a b j :: int
  assumes "2 * (j * a - a * b) \<le> a" "- a \<le> 2 * (j * a - a * b)" "0 < a"
  shows "j = b"
proof (rule antisym; rule ccontr)
  assume "\<not> j \<le> b"
  then have "(b + 1) * a \<le> j * a" using assms by (intro mult_right_mono) auto
  with assms show False by (simp add: algebra_simps)
next
  assume "\<not> b \<le> j"
  then have "(j + 1) * a \<le> b * a" using assms by (intro mult_right_mono) auto
  with assms show False by (simp add: algebra_simps)
qed

lemma line_step_major:
  fixes a b i j :: int
  assumes inv: "line_inv a b i j" and ba: "b \<le> a" and ne: "(i, j) \<noteq> (a, b)"
  defines "E \<equiv> (j + 1) * a - (i + 1) * b"
  shows "- b \<le> 2 * E" and "i < a"
    and "2 * E \<le> a \<Longrightarrow> line_inv a b (i + 1) (j + 1)"
    and "\<not> 2 * E \<le> a \<Longrightarrow> line_inv a b (i + 1) j"
proof -
  define D where "D = j * a - i * b"
  have E: "E = D + a - b" and D1: "(j + 1) * a - (i + 1) * b = D + a - b"
    and D2: "j * a - (i + 1) * b = D - b"
    by (simp_all add: E_def D_def algebra_simps)
  have b0: "0 \<le> b" and I: "0 \<le> i" "i \<le> a" "0 \<le> j" "j \<le> b" "2 * D \<le> a" "- a \<le> 2 * D"
    using inv ba by (auto simp: line_inv_def D_def abs_le_iff)
  have a0: "0 < a" using ne I ba b0 by (cases "a = 0") auto
  have "i \<noteq> a" using line_major_end [of j a b] I ne a0 by (auto simp: D_def)
  with I show ia: "i < a" by simp
  show "- b \<le> 2 * E" using I ba by (simp add: E)
  have max_a: "max a b = a" using ba by simp
  show "line_inv a b (i + 1) (j + 1)" if e: "2 * E \<le> a"
  proof -
    have k: "2 * (D + a - b) \<le> a" "- a \<le> 2 * (D + a - b)"
      using e I(6) ba by (simp_all add: E)
    have "j + 1 \<le> b"
      by (rule line_minor_bound [of _ a "i + 1" b]) (use k(1) ia b0 a0 in \<open>simp_all add: D1\<close>)
    with k I ia show ?thesis unfolding line_inv_def max_a D1 by simp
  qed
  show "line_inv a b (i + 1) j" if e: "\<not> 2 * E \<le> a"
  proof -
    have "2 * (D - b) \<le> a" "- a \<le> 2 * (D - b)" using I(5) e b0 by (simp_all add: E)
    with I ia show ?thesis unfolding line_inv_def max_a D2 by simp
  qed
qed

text \<open>One step of the loop, for both shapes of line.\<close>

definition line_next :: "int \<Rightarrow> int \<Rightarrow> int \<times> int \<Rightarrow> int \<times> int" where
  "line_next a b = (\<lambda>(i, j). let e2 = 2 * ((j + 1) * a - (i + 1) * b) in
     (if e2 \<ge> - b then i + 1 else i, if e2 \<le> a then j + 1 else j))"

definition line_left :: "int \<Rightarrow> int \<Rightarrow> int \<times> int \<Rightarrow> nat" where
  "line_left a b = (\<lambda>(i, j). nat (if b \<le> a then a - i else b - j))"

lemma line_next_inv:
  assumes "line_inv a b i j" and "(i, j) \<noteq> (a, b)" and n: "line_next a b (i, j) = (i', j')"
  shows "line_inv a b i' j'" and "line_left a b (i, j) = Suc (line_left a b (i', j'))"
    and "\<bar>i' - i\<bar> \<le> 1 \<and> \<bar>j' - j\<bar> \<le> 1 \<and> (i', j') \<noteq> (i, j)"
proof -
  have "line_inv a b i' j' \<and> line_left a b (i, j) = Suc (line_left a b (i', j')) \<and>
      \<bar>i' - i\<bar> \<le> 1 \<and> \<bar>j' - j\<bar> \<le> 1 \<and> (i', j') \<noteq> (i, j)"
  proof (cases "b \<le> a")
    case True
    note m = line_step_major [OF assms(1) True assms(2)]
    from m n True show ?thesis
      by (auto simp: line_next_def line_left_def Let_def split: if_splits)
  next
    case False
    have "line_inv b a j i" using assms(1) by (simp add: line_inv_swap)
    moreover have "a \<le> b" "(j, i) \<noteq> (b, a)" using False assms(2) by auto
    ultimately have m: "- a \<le> 2 * ((i + 1) * b - (j + 1) * a)" "j < b"
      "2 * ((i + 1) * b - (j + 1) * a) \<le> b \<Longrightarrow> line_inv b a (j + 1) (i + 1)"
      "\<not> 2 * ((i + 1) * b - (j + 1) * a) \<le> b \<Longrightarrow> line_inv b a (j + 1) i"
      using line_step_major [of b a j i] by blast+
    have c: "(2 * ((j + 1) * a - (i + 1) * b) \<ge> - b) = (2 * ((i + 1) * b - (j + 1) * a) \<le> b)"
      by (auto simp: algebra_simps)
    have d: "2 * ((j + 1) * a - (i + 1) * b) \<le> a" using m(1) by (simp add: algebra_simps)
    from m c d n False show ?thesis
      by (auto simp: line_next_def line_left_def Let_def line_inv_swap [of a b] split: if_splits)
  qed
  then show "line_inv a b i' j'" and "line_left a b (i, j) = Suc (line_left a b (i', j'))"
    and "\<bar>i' - i\<bar> \<le> 1 \<and> \<bar>j' - j\<bar> \<le> 1 \<and> (i', j') \<noteq> (i, j)" by blast+
qed

lemma abs_sgn_mult: "k = 1 \<or> k = - 1 \<Longrightarrow> \<bar>2 * (k * d)\<bar> = \<bar>2 * (d :: int)\<bar>"
  by auto

definition adjacent :: "int \<times> int \<Rightarrow> int \<times> int \<Rightarrow> bool" where
  "adjacent p q \<longleftrightarrow> \<bar>fst q - fst p\<bar> \<le> 1 \<and> \<bar>snd q - snd p\<bar> \<le> 1 \<and> q \<noteq> p"

lemma drawLine_loop_next:
  assumes "line_next a b (i, j) = (i', j')" and "(i, j) \<noteq> (a, b)"
    and "sx = 1 \<or> sx = - 1" and "sy = 1 \<or> sy = - 1"
  shows "drawLine_loop (x + sx * i) (y + sy * j) (x + sx * a) (y + sy * b) a (- b) sx sy
      ((j + 1) * a - (i + 1) * b) c s =
    drawLine_loop (x + sx * i') (y + sy * j') (x + sx * a) (y + sy * b) a (- b) sx sy
      ((j' + 1) * a - (i' + 1) * b) c (putpx (x + sx * i) (y + sy * j) c s)"
proof -
  have "\<not> (x + sx * i = x + sx * a \<and> y + sy * j = y + sy * b)" using assms(2-4) by auto
  with assms(1) show ?thesis
    by (subst drawLine_loop.simps)
      (auto simp: line_next_def Let_def algebra_simps split: if_splits)
qed

lemma line_walk:
  assumes "line_inv a b i j" and "sx = 1 \<or> sx = - 1" and "sy = 1 \<or> sy = - 1"
  shows "\<exists>ps. (\<forall>c s. drawLine_loop (x + sx * i) (y + sy * j) (x + sx * a) (y + sy * b) a (- b) sx sy
        ((j + 1) * a - (i + 1) * b) c s
          = Some (paint putpx (map (\<lambda>(i, j). (x + sx * i, y + sy * j)) ps) c s)) \<and>
      ps \<noteq> [] \<and> hd ps = (i, j) \<and> last ps = (a, b) \<and> length ps = Suc (line_left a b (i, j)) \<and>
      (\<forall>(k, l) \<in> set ps. line_inv a b k l) \<and> successively adjacent ps"
  using assms(1)
proof (induction "line_left a b (i, j)" arbitrary: i j)
  case 0
  have "(i, j) = (a, b)"
  proof (rule ccontr)
    assume "(i, j) \<noteq> (a, b)"
    moreover obtain i' j' where "line_next a b (i, j) = (i', j')" by force
    ultimately show False using line_next_inv(2) [OF 0(2)] 0(1) by fastforce
  qed
  with 0 show ?case
    by (intro exI [of _ "[(a, b)]"]) (auto simp: drawLine_loop.simps)
next
  case (Suc n)
  have ne: "(i, j) \<noteq> (a, b)"
    using Suc(2) by (auto simp: line_left_def split: if_splits)
  obtain i' j' where n: "line_next a b (i, j) = (i', j')" by force
  note s = line_next_inv [OF Suc(3) ne n]
  from s(2) Suc(2) have left: "n = line_left a b (i', j')" by simp
  from Suc(1) [OF left s(1)] obtain ps where ps:
    "\<And>c s. drawLine_loop (x + sx * i') (y + sy * j') (x + sx * a) (y + sy * b) a (- b) sx sy
        ((j' + 1) * a - (i' + 1) * b) c s
          = Some (paint putpx (map (\<lambda>(i, j). (x + sx * i, y + sy * j)) ps) c s)"
    "ps \<noteq> []" "hd ps = (i', j')" "last ps = (a, b)" "length ps = Suc n"
    "\<forall>(k, l) \<in> set ps. line_inv a b k l" "successively adjacent ps"
    by (auto simp: left)
  have "adjacent (i, j) (hd ps)" using s(3) ps(3) by (simp add: adjacent_def)
  with ps Suc(2,3) show ?case
    by (intro exI [of _ "(i, j) # ps"])
      (auto simp: drawLine_loop_next [OF n ne assms(2,3)] successively_Cons)
qed

section \<open>The circle\<close>

text \<open>
  The state of the loop of \<^verbatim>\<open>drawCircle\<close>: \<open>x\<close> climbs from \<open>-r\<close> to 0 while \<open>y\<close> climbs from 0
  to at most \<open>r\<close>, the error variable is that of the next diagonal point, and the current
  point is off the circle by at most \<open>r\<close> in the square of its distance.
\<close>

definition circle_inv :: "int \<Rightarrow> int \<Rightarrow> int \<Rightarrow> int \<Rightarrow> bool" where
  "circle_inv r x y e \<longleftrightarrow> - r \<le> x \<and> x < 0 \<and> 0 \<le> y \<and> y \<le> r \<and>
     e = x * x + y * y - r * r + 2 * x + 2 * y + 2 \<and> \<bar>x * x + y * y - r * r\<bar> \<le> r"

definition circle_next :: "int \<times> int \<times> int \<Rightarrow> int \<times> int \<times> int" where
  "circle_next = (\<lambda>(x, y, err).
     let r = err;
         (err, y) = (if r \<le> y then (err + (y + 1) * 2 + 1, y + 1) else (err, y));
         (err, x) = (if r > x \<or> err > y then (err + (x + 1) * 2 + 1, x + 1) else (err, x))
     in (x, y, err))"

lemma circle_y_bound:
  fixes x y r :: int
  assumes "x * x + y * y - r * r + 2 * x + 2 * y + 2 \<le> y" and "0 \<le> y" and "0 \<le> r"
  shows "y < r"
proof (rule ccontr)
  assume "\<not> y < r"
  then have "r * r \<le> y * y" using assms by (intro mult_mono) auto
  moreover have "0 \<le> (x + 1) * (x + 1)" by simp
  ultimately show False using assms by (simp add: algebra_simps)
qed

lemma circle_next_inv:
  assumes inv: "circle_inv r x y e" and n: "circle_next (x, y, e) = (x', y', e')"
  shows "x' < 0 \<Longrightarrow> circle_inv r x' y' e'"
    and "nat (- x') + nat (r - y') < nat (- x) + nat (r - y)"
proof -
  have I: "- r \<le> x" "x < 0" "0 \<le> y" "y \<le> r"
    "e = x * x + y * y - r * r + 2 * x + 2 * y + 2"
    "x * x + y * y - r * r \<le> r" "- r \<le> x * x + y * y - r * r"
    using inv by (auto simp: circle_inv_def)
  have yr: "e \<le> y \<Longrightarrow> y < r" using circle_y_bound [of x y r] I by auto
  define d where "d = x * x + y * y - r * r"
  have e: "e = d + 2 * x + 2 * y + 2" and d: "d \<le> r" "- r \<le> d" using I by (simp_all add: d_def)
  have sq: "(x + 1) * (x + 1) + y * y - r * r = d + 2 * x + 1"
    "x * x + (y + 1) * (y + 1) - r * r = d + 2 * y + 1"
    "(x + 1) * (x + 1) + (y + 1) * (y + 1) - r * r = d + 2 * x + 2 * y + 2"
    by (simp_all add: d_def algebra_simps)
  have cases: "(x', y', e') = (x, y + 1, e + 2 * y + 3) \<and> e \<le> y \<and> e \<le> x \<and> e + 2 * y + 3 \<le> y + 1
    \<or> (x', y', e') = (x + 1, y + 1, e + 2 * y + 3 + 2 * x + 3) \<and> e \<le> y \<and> (e > x \<or> e + 2 * y + 3 > y + 1)
    \<or> (x', y', e') = (x + 1, y, e + 2 * x + 3) \<and> e > y"
    using n by (auto simp: circle_next_def Let_def split: if_splits)
  from cases show "nat (- x') + nat (r - y') < nat (- x) + nat (r - y)"
    using I yr by auto
  from cases show "circle_inv r x' y' e'" if "x' < 0"
    using I(1-4) yr e d that unfolding circle_inv_def
    by (elim disjE conjE; simp add: sq abs_le_iff; linarith)
qed

definition quad :: "int \<Rightarrow> int \<Rightarrow> int \<Rightarrow> int \<Rightarrow> (int \<times> int) list" where
  "quad x0 y0 x y = [(x0 - x, y0 + y), (x0 - y, y0 - x), (x0 + x, y0 - y), (x0 + y, y0 + x)]"

lemma drawCircle_loop_next:
  "drawCircle_loop x0 y0 x y e c s =
     (let (x', y', e') = circle_next (x, y, e); s' = paint putpx (quad x0 y0 x y) c s
      in if x' < 0 then drawCircle_loop x0 y0 x' y' e' c s' else Some s')"
  by (subst drawCircle_loop.simps) (simp add: circle_next_def quad_def Let_def)

lemma circle_walk:
  assumes "circle_inv r x y e"
  shows "\<exists>ps. (\<forall>c s. drawCircle_loop x0 y0 x y e c s
      = Some (paint putpx (concat (map (\<lambda>(x, y). quad x0 y0 x y) ps)) c s)) \<and> (x, y) \<in> set ps \<and>
      (\<forall>(u, v) \<in> set ps. - r \<le> u \<and> u \<le> 0 \<and> 0 \<le> v \<and> v \<le> r \<and> \<bar>u * u + v * v - r * r\<bar> \<le> r)"
  using assms
proof (induction "nat (- x) + nat (r - y)" arbitrary: x y e rule: less_induct)
  case less
  obtain x' y' e' where n: "circle_next (x, y, e) = (x', y', e')" by (metis prod_cases3)
  note s = circle_next_inv [OF less.prems n]
  have here: "- r \<le> x \<and> x \<le> 0 \<and> 0 \<le> y \<and> y \<le> r \<and> \<bar>x * x + y * y - r * r\<bar> \<le> r"
    using less.prems by (auto simp: circle_inv_def)
  show ?case
  proof (cases "x' < 0")
    case True
    from less.hyps [OF s(2) s(1) [OF True]] obtain ps where
      "\<And>c s. drawCircle_loop x0 y0 x' y' e' c s
        = Some (paint putpx (concat (map (\<lambda>(x, y). quad x0 y0 x y) ps)) c s)"
      "\<forall>(u, v) \<in> set ps. - r \<le> u \<and> u \<le> 0 \<and> 0 \<le> v \<and> v \<le> r \<and> \<bar>u * u + v * v - r * r\<bar> \<le> r"
      by blast
    with True here show ?thesis
      by (intro exI [of _ "(x, y) # ps"])
        (auto simp: drawCircle_loop_next [of x0 y0 x] n Let_def paint_append)
  next
    case False
    with here show ?thesis
      by (intro exI [of _ "[(x, y)]"]) (auto simp: drawCircle_loop_next [of x0 y0 x] n Let_def)
  qed
qed

lemma circle_start:
  assumes "0 < r"
  shows "circle_inv r (- r) 0 (2 - 2 * r)"
  using assms by (simp add: circle_inv_def)

section \<open>Streaming into the address window\<close>

lemma pushColors_loop_cfg [simp]: "tft_cfg (fst (pushColors_loop idx cs s)) = tft_cfg (fst s)"
  by (induction idx cs s rule: pushColors_loop.induct) (auto simp: Let_def)

lemma pushColors_loop_win [simp]:
  "tf_aww (fst (pushColors_loop idx cs s)) = tf_aww (fst s)"
  "tf_awh (fst (pushColors_loop idx cs s)) = tf_awh (fst s)"
  "tf_awx (fst (pushColors_loop idx cs s)) = tf_awx (fst s)"
  "tf_awy (fst (pushColors_loop idx cs s)) = tf_awy (fst s)"
  by (simp_all add: tft_cfgD [OF pushColors_loop_cfg])

lemma s32_id: "0 \<le> x \<Longrightarrow> x < 2 ^ 31 \<Longrightarrow> s32 x = x"
  by (simp add: s32_def signed_take_bit_int_eq_self)

lemma div_small: "0 < (w :: int) \<Longrightarrow> 0 \<le> k \<Longrightarrow> k < b \<Longrightarrow> 0 \<le> k div w \<and> k div w < b"
  using zdiv_mono2 [of k 1 w] by (auto simp: pos_imp_zdiv_nonneg_iff)

lemma uint_add_small:
  "uint (a :: 32 word) + int n < 2 ^ 32 \<Longrightarrow> uint (a + of_nat n) = uint a + int n"
proof -
  assume b: "uint a + int n < 2 ^ 32"
  then have "uint a + int n < 4294967296" by simp
  moreover have "0 \<le> uint a" by simp
  ultimately have "int n < 4294967296" by linarith
  then have "n < 2 ^ 32" by simp
  then have "take_bit 32 n = n" by (rule take_bit_nat_eq_self)
  with b show ?thesis by (simp add: uint_plus_if' unsigned_of_nat)
qed

text \<open>Once the index is past the window nothing more is drawn.\<close>

lemma pushColors_loop_past:
  assumes "uint idx < 2 ^ 31" and "tf_awh (fst s) \<le> uint idx div tf_aww (fst s)"
  shows "pushColors_loop idx cs s = s"
proof (cases cs)
  case (Cons c cs')
  have "0 < tf_aww (fst s) \<Longrightarrow> s32 (uint idx div tf_aww (fst s)) = uint idx div tf_aww (fst s)"
    using div_small [of "tf_aww (fst s)" "uint idx" "2 ^ 31"] assms(1) by (intro s32_id) auto
  with Cons assms(2) show ?thesis by (simp add: Let_def)
qed simp

lemma pushColors_loop_append:
  assumes "uint idx + int (length as + length bs) < 2 ^ 31"
  shows "pushColors_loop idx (as @ bs) s
       = pushColors_loop (idx + of_nat (length as)) bs (pushColors_loop idx as s)"
  using assms
proof (induction as arbitrary: idx s)
  case (Cons a as)
  have u1: "uint (idx + 1) = uint idx + 1" using Cons.prems uint_add_small [of idx 1] by simp
  have un: "uint (idx + of_nat (length (a # as))) = uint idx + int (length (a # as))"
    using Cons.prems by (intro uint_add_small) simp
  let ?w = "tf_aww (fst s)" and ?h = "tf_awh (fst s)"
  consider "\<not> (?w > 0 \<and> ?h > 0)" | "?w > 0" "?h > 0" "?h \<le> uint idx div ?w"
    | "?w > 0" "?h > 0" "uint idx div ?w < ?h" by linarith
  then show ?case
  proof cases
    case 1
    then show ?thesis by (cases bs) (auto simp: Let_def)
  next
    case 2
    have "uint idx div ?w \<le> uint (idx + of_nat (length (a # as))) div ?w"
      unfolding un using 2(1) by (intro zdiv_mono1) auto
    with 2 have "?h \<le> uint (idx + of_nat (length (a # as))) div ?w" by linarith
    then have "pushColors_loop (idx + of_nat (length (a # as))) bs s = s"
      by (rule pushColors_loop_past [rotated]) (use Cons.prems un in simp)
    moreover have "pushColors_loop idx xs s = s" for xs
      by (rule pushColors_loop_past) (use 2 Cons.prems in simp_all)
    ultimately show ?thesis by (simp del: pushColors_loop.simps append_Cons)
  next
    case 3
    have "s32 (uint idx div ?w) = uint idx div ?w"
      using div_small [of ?w "uint idx" "2 ^ 31"] Cons.prems 3 by (intro s32_id) auto
    moreover have "uint (idx + 1) + int (length as + length bs) < 2 ^ 31"
      using Cons.prems u1 by simp
    note Cons.IH [OF this]
    ultimately show ?thesis using 3 by (simp add: Let_def add.assoc)
  qed
qed simp

text \<open>The object's index is not read while drawing.\<close>

lemma putpx_awi:
  "putpx x y c (t\<lparr>tf_awi := k\<rparr>, fb) = (let (t', fb') = putpx x y c (t, fb) in (t'\<lparr>tf_awi := k\<rparr>, fb'))"
  by (cases "tf_buf t") (simp_all add: putpx_def Let_def)

lemma pushColors_loop_awi:
  "pushColors_loop idx cs (t\<lparr>tf_awi := k\<rparr>, fb)
     = (let (t', fb') = pushColors_loop idx cs (t, fb) in (t'\<lparr>tf_awi := k\<rparr>, fb'))"
proof (induction cs arbitrary: idx t fb)
  case (Cons c cs)
  obtain t' fb' where "putpx (tf_awx t + s32 (uint idx mod tf_aww t))
      (tf_awy t + s32 (uint idx div tf_aww t)) c (t, fb) = (t', fb')" by force
  with Cons.IH [of "idx + 1" t' fb'] show ?case by (auto simp: Let_def putpx_awi)
qed simp

lemma tf_awi_putpx [simp]: "tf_awi (fst (putpx x y c s)) = tf_awi (fst s)"
  by (cases s; cases "tf_buf (fst s)") (simp_all add: putpx_def Let_def)

lemma tf_awi_pushColors_loop [simp]: "tf_awi (fst (pushColors_loop idx cs s)) = tf_awi (fst s)"
  by (induction idx cs s rule: pushColors_loop.induct) (auto simp: Let_def)

lemma pushColors_append:
  assumes "uint (tf_awi (fst s)) + int (length as + length bs) < 2 ^ 31"
  shows "pushColors (as @ bs) s = pushColors bs (pushColors as s)"
proof -
  let ?i = "tf_awi (fst s)"
  obtain t fb where s1: "pushColors_loop ?i as s = (t, fb)" by force
  have i: "tf_awi t = ?i" using tf_awi_pushColors_loop [of ?i as s] s1 by simp
  obtain t' fb' where s2: "pushColors_loop (?i + of_nat (length as)) bs (t, fb) = (t', fb')" by force
  have i': "tf_awi t' = ?i"
    using tf_awi_pushColors_loop [of "?i + of_nat (length as)" bs "(t, fb)"] s2 i by simp
  show ?thesis
    using s1 s2 i i' pushColors_loop_append [OF assms, of s]
    by (simp add: pushColors_def pushColors_loop_awi add.assoc)
qed

lemma int_div_less_mult:
  assumes "k < w * (h :: int)" and "0 < w"
  shows "k div w < h"
proof (rule ccontr)
  assume "\<not> k div w < h"
  then have "w * h \<le> w * (k div w)" using assms(2) by (intro mult_left_mono) auto
  also have "\<dots> = k - k mod w" by (simp add: minus_mod_eq_mult_div)
  also have "\<dots> \<le> k" using assms(2) by simp
  finally show False using assms(1) by simp
qed

lemma pushColors_loop_paint:
  assumes "0 < tf_aww (fst s)" and "0 < tf_awh (fst s)"
    and "uint idx + int (length cs) \<le> tf_aww (fst s) * tf_awh (fst s)"
    and "tf_aww (fst s) * tf_awh (fst s) < 2 ^ 31"
  shows "pushColors_loop idx cs s = paint_img putpx
    (map (\<lambda>k. ((tf_awx (fst s) + (uint idx + int k) mod tf_aww (fst s),
                tf_awy (fst s) + (uint idx + int k) div tf_aww (fst s)), cs ! k)) [0..<length cs]) s"
  using assms
proof (induction cs arbitrary: idx s)
  case Nil
  then show ?case by (simp add: paint_img_def)
next
  case (Cons c cs)
  let ?w = "tf_aww (fst s)" and ?h = "tf_awh (fst s)"
  let ?s = "putpx (tf_awx (fst s) + uint idx mod ?w) (tf_awy (fst s) + uint idx div ?w) c s"
  have lt: "uint idx < ?w * ?h" using Cons.prems by simp
  then have row: "uint idx div ?w < ?h"
    using Cons.prems(1) by (simp add: int_div_less_mult)
  have u1: "uint (idx + 1) = uint idx + 1" using Cons.prems uint_add_small [of idx 1] by simp
  have cfg: "tf_aww (fst ?s) = ?w" "tf_awh (fst ?s) = ?h" "tf_awx (fst ?s) = tf_awx (fst s)"
    "tf_awy (fst ?s) = tf_awy (fst s)" by (rule tft_cfgD, simp)+
  have "uint idx mod ?w \<le> uint idx" by (simp add: zmod_le_nonneg_dividend)
  then have s32s: "s32 (uint idx mod ?w) = uint idx mod ?w" "s32 (uint idx div ?w) = uint idx div ?w"
    using lt Cons.prems div_small [of ?w "uint idx" "2 ^ 31"] by (simp_all add: s32_id)
  have "pushColors_loop idx (c # cs) s = pushColors_loop (idx + 1) cs ?s"
    using Cons.prems(1,2) row by (simp add: Let_def s32s)
  also have "\<dots> = paint_img putpx
    (map (\<lambda>k. ((tf_awx (fst s) + (uint idx + 1 + int k) mod ?w,
                tf_awy (fst s) + (uint idx + 1 + int k) div ?w), cs ! k)) [0..<length cs]) ?s"
    using Cons.IH [of ?s "idx + 1"] Cons.prems by (simp add: cfg u1)
  also have "\<dots> = paint_img putpx
    (map (\<lambda>k. ((tf_awx (fst s) + (uint idx + int k) mod ?w,
                tf_awy (fst s) + (uint idx + int k) div ?w), (c # cs) ! k)) [0..<length (c # cs)]) s"
    by (simp add: paint_img_def upt_conv_Cons map_Suc_upt [symmetric] comp_def add.assoc
        del: upt_Suc map_Suc_upt)
  finally show ?case .
qed

lemma concat_grid:
  fixes F :: "int \<Rightarrow> 'z"
  assumes "0 < w"
  shows "concat (map (\<lambda>r. map (\<lambda>c. F (r * w + c)) [0..w - 1]) [0..int h - 1])
       = map (\<lambda>k. F (int k)) [0..<h * nat w]"
proof (induction h)
  case (Suc h)
  have "[0..int (Suc h) - 1] = [0..int h - 1] @ [int h]"
    by (simp add: upto_rec2)
  moreover have "map (\<lambda>c. F (int h * w + c)) [0..w - 1]
      = map (\<lambda>k. F (int k)) [h * nat w..<h * nat w + nat w]"
  proof (rule nth_equalityI)
    fix i
    assume "i < length (map (\<lambda>c. F (int h * w + c)) [0..w - 1])"
    moreover have "int (h * nat w + i) = int h * w + int i" using assms by simp
    ultimately show "map (\<lambda>c. F (int h * w + c)) [0..w - 1] ! i
        = map (\<lambda>k. F (int k)) [h * nat w..<h * nat w + nat w] ! i"
      by (simp add: nth_upto del: of_nat_add of_nat_mult)
  qed simp
  moreover have "[0..<Suc h * nat w] = [0..<h * nat w] @ [h * nat w..<h * nat w + nat w]"
    using upt_add_eq_append [of 0 "h * nat w" "nat w"] by (simp add: add.commute)
  ultimately show ?case
    using Suc by (simp only: map_append concat_append list.map concat.simps append_Nil2)
qed simp

lemma stream_img_points:
  assumes "0 < w" "0 < h" "length data = nat (w * h)"
  shows "map (\<lambda>k. ((x + int k mod w, y + int k div w), data ! k)) [0..<length data]
       = img_points x y w h (\<lambda>row col. data ! nat (row * w + col))"
proof -
  let ?F = "\<lambda>n. ((x + n mod w, y + n div w), data ! nat n)"
  have n: "length data = nat h * nat w" using assms by (simp add: nat_mult_distrib mult.commute)
  have "map (\<lambda>k. ((x + int k mod w, y + int k div w), data ! k)) [0..<length data]
      = map (\<lambda>k. ?F (int k)) [0..<nat h * nat w]" by (simp add: n)
  also have "\<dots> = concat (map (\<lambda>r. map (\<lambda>c. ?F (r * w + c)) [0..w - 1]) [0..h - 1])"
    using concat_grid [OF assms(1), of ?F "nat h"] assms(2) by simp
  also have "\<dots> = img_points x y w h (\<lambda>row col. data ! nat (row * w + col))"
    unfolding img_points_def
  proof (intro arg_cong [where f = concat] map_cong refl)
    fix r c
    assume "c \<in> set [0..w - 1]"
    then have "(r * w + c) mod w = c" "(r * w + c) div w = r"
      using assms(1) by simp_all
    then show "?F (r * w + c) = ((x + c, y + r), data ! nat (r * w + c))" by simp
  qed
  finally show ?thesis .
qed

lemma tft_mirrored_window:
  "tft_mirrored (t\<lparr>tf_awi := k\<rparr>) = tft_mirrored t"
  "tft_mirrored (fst (setAddrWindow x y w h s)) = tft_mirrored (fst s)"
  by (simp_all add: tft_mirrored_def setAddrWindow_def split_def)

lemma tft_view_window:
  "tft_target (t\<lparr>tf_awi := k\<rparr>, fb) = tft_target (t, fb)"
  "tft_x (t\<lparr>tf_awi := k\<rparr>) = tft_x t" "tft_y (t\<lparr>tf_awi := k\<rparr>) = tft_y t"
  "tft_target (setAddrWindow x y w h s) = tft_target s"
  "tft_x (fst (setAddrWindow x y w h s)) = tft_x (fst s)"
  "tft_y (fst (setAddrWindow x y w h s)) = tft_y (fst s)"
  by (simp_all add: fun_eq_iff tft_x_def tft_y_def tft_mirrored_window)
    (simp_all add: tft_target_def setAddrWindow_def split_def cong: option.case_cong)

lemma tft_view_awi [simp]:
  "tft_get (t\<lparr>tf_awi := k\<rparr>, fb) = tft_get (t, fb)"
  "tft_get (setAddrWindow x y w h s) = tft_get s"
  "tft_inside (setAddrWindow x y w h s) = tft_inside s"
  "tft_ok (setAddrWindow x y w h s) = tft_ok s"
  by (simp_all add: tft_get_def tft_inside_def tft_ok_def tft_view_window fun_eq_iff)

lemma tft_get_pushColors:
  assumes "tft_ok s" "tft_inside s u v"
    and "0 < w" "0 < h" "w * h < 2 ^ 31" "length data = nat (w * h)"
  shows "tft_get (pushColors data (setAddrWindow x y w h s)) u v =
    (if x \<le> u \<and> u < x + w \<and> y \<le> v \<and> v < y + h
     then data ! nat ((v - y) * w + (u - x)) else tft_get s u v)"
proof -
  let ?s = "setAddrWindow x y w h s"
  let ?img = "img_points x y w h (\<lambda>row col. data ! nat (row * w + col))"
  have win: "tf_aww (fst ?s) = w" "tf_awh (fst ?s) = h" "tf_awx (fst ?s) = x" "tf_awy (fst ?s) = y"
    "tf_awi (fst ?s) = 0"
    by (simp_all add: setAddrWindow_def split_def)
  have n: "uint (0 :: 32 word) + int (length data) \<le> w * h" using assms(3,4,6) by simp
  have "pushColors_loop 0 data ?s = paint_img putpx ?img ?s"
    unfolding stream_img_points [OF assms(3,4,6), symmetric]
    using pushColors_loop_paint [of ?s 0 data, unfolded win, OF assms(3,4) n assms(5)]
    by (simp only: uint_0_eq add_0)
  then have "tft_get (pushColors data ?s) u v = tft_get (paint_img putpx ?img ?s) u v"
    by (cases "paint_img putpx ?img ?s") (simp add: pushColors_def win)
  also have "\<dots> = (case map_of ?img (u, v) of Some c \<Rightarrow> c | None \<Rightarrow> tft_get ?s u v)"
    using tft.get_paint_img [of ?s u v ?img] assms(1,2)
    by (simp add: map_of_distinct_rev distinct_img_points)
  finally show ?thesis by (auto simp: map_of_img_points)
qed

section \<open>Properties\<close>

text \<open>
  \<^verbatim>\<open>drawLine\<close> always returns, and what it paints depends on the end points only:
  a path of adjacent pixels from one end to the other, as long as the longer extent, inside the
  bounding box, every pixel within half a pixel of the ideal line along the shorter axis.
\<close>

theorem drawLine_path:
  "\<exists>pts. (\<forall>c s. drawLine x0 y0 x1 y1 c s = Some (paint putpx pts c s)) \<and>
     hd pts = (x0, y0) \<and> last pts = (x1, y1) \<and>
     int (length pts) = max \<bar>x1 - x0\<bar> \<bar>y1 - y0\<bar> + 1 \<and> successively adjacent pts \<and>
     (\<forall>(u, v) \<in> set pts. min x0 x1 \<le> u \<and> u \<le> max x0 x1 \<and> min y0 y1 \<le> v \<and> v \<le> max y0 y1 \<and>
        \<bar>2 * ((v - y0) * (x1 - x0) - (u - x0) * (y1 - y0))\<bar> \<le> max \<bar>x1 - x0\<bar> \<bar>y1 - y0\<bar>)"
proof -
  define sx :: int where "sx = (if x0 < x1 then 1 else - 1)"
  define sy :: int where "sy = (if y0 < y1 then 1 else - 1)"
  let ?a = "\<bar>x1 - x0\<bar>" and ?b = "\<bar>y1 - y0\<bar>"
  let ?f = "\<lambda>(i, j). (x0 + sx * i, y0 + sy * j)"
  have sgn: "sx = 1 \<or> sx = - 1" "sy = 1 \<or> sy = - 1" and ends: "x0 + sx * ?a = x1" "y0 + sy * ?b = y1"
    by (auto simp: sx_def sy_def)
  have "line_inv ?a ?b 0 0" by (simp add: line_inv_def)
  from line_walk [OF this sgn, of x0 y0] obtain ps where
    run: "\<And>c s. drawLine_loop x0 y0 x1 y1 ?a (- ?b) sx sy (?a - ?b) c s
            = Some (paint putpx (map ?f ps) c s)"
    and ps: "ps \<noteq> []" "hd ps = (0, 0)" "last ps = (?a, ?b)" "length ps = Suc (line_left ?a ?b (0, 0))"
      "\<forall>(k, l) \<in> set ps. line_inv ?a ?b k l" "successively adjacent ps"
    by (auto simp: ends)
  have "drawLine x0 y0 x1 y1 c s = Some (paint putpx (map ?f ps) c s)" for c s
    using run [of c s] by (simp add: drawLine_def sx_def sy_def)
  moreover have "hd (map ?f ps) = (x0, y0)" "last (map ?f ps) = (x1, y1)"
    using ps ends by (simp_all add: hd_map last_map)
  moreover have "int (length (map ?f ps)) = max ?a ?b + 1"
    using ps(4) by (simp add: line_left_def)
  moreover have "successively adjacent (map ?f ps)"
    unfolding successively_map
    by (rule successively_mono [OF ps(6)]) (use sgn in \<open>auto simp: adjacent_def\<close>)
  moreover have "min x0 x1 \<le> u \<and> u \<le> max x0 x1 \<and> min y0 y1 \<le> v \<and> v \<le> max y0 y1 \<and>
        \<bar>2 * ((v - y0) * (x1 - x0) - (u - x0) * (y1 - y0))\<bar> \<le> max ?a ?b"
    if uv: "(u, v) \<in> set (map ?f ps)" for u v
  proof -
    from uv obtain i j where ij: "(i, j) \<in> set ps" and u: "u = x0 + sx * i" and v: "v = y0 + sy * j"
      by auto
    have I: "line_inv ?a ?b i j" using ps(5) ij by blast
    obtain a b where ab: "a = ?a" "b = ?b" by blast
    have "x1 - x0 = sx * a" "y1 - y0 = sy * b" "u - x0 = sx * i" "v - y0 = sy * j"
      using ends u v by (simp_all add: ab)
    then have "(v - y0) * (x1 - x0) - (u - x0) * (y1 - y0) = (sx * sy) * (j * a - i * b)"
      by (simp add: algebra_simps)
    moreover have "sx * sy = 1 \<or> sx * sy = - 1" using sgn by auto
    ultimately have "\<bar>2 * ((v - y0) * (x1 - x0) - (u - x0) * (y1 - y0))\<bar> = \<bar>2 * (j * ?a - i * ?b)\<bar>"
      by (simp only: ab abs_sgn_mult)
    with I show ?thesis
      unfolding u v line_inv_def by (auto simp: sx_def sy_def)
  qed
  ultimately show ?thesis by (intro exI [of _ "map ?f ps"]) blast
qed

theorem drawLine_path_witness:
  "\<exists>pts. (\<forall>c s. drawLine 0 0 3 1 c s = Some (paint putpx pts c s)) \<and> length pts = 4"
  using drawLine_path [of 0 0 3 1] by force

text \<open>
  \<^verbatim>\<open>drawCircle\<close> returns for every radius that is not negative; its pixels lie in
  the box of the circle, at a distance whose square is within \<open>r\<close> of \<open>r * r\<close>, are the same
  after a quarter turn about the centre, and contain the four extreme points.
\<close>

theorem drawCircle_outline:
  assumes "0 \<le> r"
  shows "\<exists>pts. (\<forall>c s. drawCircle x0 y0 r c s = Some (paint putpx pts c s)) \<and>
     (\<forall>(u, v) \<in> set pts. x0 - r \<le> u \<and> u \<le> x0 + r \<and> y0 - r \<le> v \<and> v \<le> y0 + r \<and>
        \<bar>(u - x0) * (u - x0) + (v - y0) * (v - y0) - r * r\<bar> \<le> r \<and>
        (x0 - (v - y0), y0 + (u - x0)) \<in> set pts) \<and>
     {(x0 + r, y0), (x0, y0 + r), (x0 - r, y0), (x0, y0 - r)} \<subseteq> set pts"
proof -
  have "\<exists>ps. (\<forall>c s. drawCircle x0 y0 r c s
      = Some (paint putpx (concat (map (\<lambda>(x, y). quad x0 y0 x y) ps)) c s)) \<and> (- r, 0) \<in> set ps \<and>
      (\<forall>(u, v) \<in> set ps. - r \<le> u \<and> u \<le> 0 \<and> 0 \<le> v \<and> v \<le> r \<and> \<bar>u * u + v * v - r * r\<bar> \<le> r)"
  proof (cases "r = 0")
    case True
    then show ?thesis
      by (intro exI [of _ "[(0, 0)]"]) (simp add: drawCircle_def drawCircle_loop.simps quad_def)
  next
    case False
    with assms have "0 < r" by simp
    from circle_walk [OF circle_start [OF this], of x0 y0] show ?thesis by (simp add: drawCircle_def)
  qed
  then obtain ps where
    run: "\<And>c s. drawCircle x0 y0 r c s
      = Some (paint putpx (concat (map (\<lambda>(x, y). quad x0 y0 x y) ps)) c s)"
    and ext: "(- r, 0) \<in> set ps"
    and ps: "\<And>u v. (u, v) \<in> set ps \<Longrightarrow>
      - r \<le> u \<and> u \<le> 0 \<and> 0 \<le> v \<and> v \<le> r \<and> \<bar>u * u + v * v - r * r\<bar> \<le> r"
    by blast
  let ?pts = "concat (map (\<lambda>(x, y). quad x0 y0 x y) ps)"
  have "x0 - r \<le> u \<and> u \<le> x0 + r \<and> y0 - r \<le> v \<and> v \<le> y0 + r \<and>
        \<bar>(u - x0) * (u - x0) + (v - y0) * (v - y0) - r * r\<bar> \<le> r \<and>
        (x0 - (v - y0), y0 + (u - x0)) \<in> set ?pts" if uv: "(u, v) \<in> set ?pts" for u v
  proof -
    from uv obtain x y where xy: "(x, y) \<in> set ps" and q: "(u, v) \<in> set (quad x0 y0 x y)" by auto
    have "(x0 - (v - y0), y0 + (u - x0)) \<in> set (quad x0 y0 x y)" using q by (auto simp: quad_def)
    with xy have "(x0 - (v - y0), y0 + (u - x0)) \<in> set ?pts" by auto
    with q ps [OF xy] show ?thesis by (auto simp: quad_def add.commute)
  qed
  moreover have "{(x0 + r, y0), (x0, y0 + r), (x0 - r, y0), (x0, y0 - r)} \<subseteq> set ?pts"
    using ext by (auto simp: quad_def intro!: bexI [of _ "(- r, 0)"])
  ultimately show ?thesis using run by (intro exI [of _ ?pts]) blast
qed

theorem drawCircle_outline_witness:
  "\<exists>pts. (\<forall>c s. drawCircle 10 10 4 c s = Some (paint putpx pts c s)) \<and> (14, 10) \<in> set pts"
  using drawCircle_outline [of 4 10 10] by auto

text \<open>
  On any target (the screen in each rotation, a sprite with or without a
  buffer) \<^verbatim>\<open>fillRect\<close> colours the pixels of the rectangle that are on the target and
  leaves every other pixel as it was.
\<close>

theorem fillRect_exact:
  assumes "tft_ok s" and "tft_inside s u v"
  shows "tft_get (fillRect x y w h c s) u v =
    (if x \<le> u \<and> u < x + w \<and> y \<le> v \<and> v < y + h then c else tft_get s u v)"
  using tft.get_paint [OF assms] by (simp add: fillRect_paint set_rect_pts)

definition demo_tft :: "int \<Rightarrow> tft_st" where
  "demo_tft rot = setRotation rot (tft_init (tft_new 8 6, fb_new))"

lemma demo_tft_ok: "tft_ok (demo_tft 2)"
  by (simp add: demo_tft_def tft_ok_def tft_target_def setRotation_def tft_init_def tft_new_def
      Let_def fb_ok_init)

lemma demo_tft_inside: "0 \<le> u \<Longrightarrow> u < 6 \<Longrightarrow> 0 \<le> v \<Longrightarrow> v < 8 \<Longrightarrow> tft_inside (demo_tft 2) u v"
  by (simp add: demo_tft_def tft_inside_def tft_target_def setRotation_def tft_init_def tft_new_def
      Let_def fb_inside_def fb_init_def tft_x_def tft_y_def tft_mirrored_def)

theorem fillRect_exact_witness:
  "tft_get (fillRect 1 1 3 2 0xF800 (demo_tft 2)) 2 2 = 0xF800"
  using fillRect_exact [OF demo_tft_ok demo_tft_inside, of 2 2 1 1 3 2 "0xF800"] by simp

lemma tri_edge_flip: "tri_edge bx b' ax a' px py = - tri_edge ax a' bx b' px py"
  by (simp add: tri_edge_def algebra_simps)

lemma tri_covers_swap: "tri_covers x1 y1 x0 y0 x2 y2 = tri_covers x0 y0 x1 y1 x2 y2"
  unfolding tri_covers_def Let_def tri_edge_flip [of x1 y1 x0 y0] tri_edge_flip [of x0 y0 x2 y2]
    tri_edge_flip [of x2 y2 x1 y1] by (intro ext) auto

lemma tri_covers_rotate: "tri_covers x1 y1 x2 y2 x0 y0 = tri_covers x0 y0 x1 y1 x2 y2"
  unfolding tri_covers_def Let_def by (intro ext) auto

lemma tri_pts_swap: "tri_pts x1 y1 x0 y0 x2 y2 = tri_pts x0 y0 x1 y1 x2 y2"
  by (simp add: tri_pts_def tri_covers_swap min.commute max.commute)

lemma tri_pts_rotate: "tri_pts x1 y1 x2 y2 x0 y0 = tri_pts x0 y0 x1 y1 x2 y2"
  by (simp add: tri_pts_def tri_covers_rotate min.commute max.commute min.left_commute
      max.left_commute min.assoc max.assoc)

lemma tri_vertex: "(x0, y0) \<in> set (tri_pts x0 y0 x1 y1 x2 y2)"
proof -
  have "tri_edge x2 y2 x0 y0 x0 y0 = 0" "tri_edge x0 y0 x1 y1 x0 y0 = 0"
    by (simp_all add: tri_edge_def algebra_simps)
  then have "tri_covers x0 y0 x1 y1 x2 y2 x0 y0"
    by (simp add: tri_covers_def Let_def linear)
  then show ?thesis by (simp add: set_tri_pts min_le_iff_disj le_max_iff_disj)
qed

text \<open>
  \<^verbatim>\<open>fillTriangle\<close> colours exactly the points on one side of (or on) all three
  edges, the vertices among them, and the order in which the vertices are given is irrelevant.
\<close>

theorem fillTriangle_vertex_order:
  "fillTriangle x1 y1 x0 y0 x2 y2 c s = fillTriangle x0 y0 x1 y1 x2 y2 c s \<and>
   fillTriangle x1 y1 x2 y2 x0 y0 c s = fillTriangle x0 y0 x1 y1 x2 y2 c s \<and>
   fillTriangle x0 y0 x1 y1 x2 y2 c s = paint putpx (tri_pts x0 y0 x1 y1 x2 y2) c s \<and>
   {(x0, y0), (x1, y1), (x2, y2)} \<subseteq> set (tri_pts x0 y0 x1 y1 x2 y2)"
proof -
  have "(x1, y1) \<in> set (tri_pts x0 y0 x1 y1 x2 y2)"
    using tri_vertex [of x1 y1 x2 y2 x0 y0] by (simp only: tri_pts_rotate [of x1 y1 x2 y2 x0 y0])
  moreover have "(x2, y2) \<in> set (tri_pts x0 y0 x1 y1 x2 y2)"
    using tri_vertex [of x2 y2 x0 y0 x1 y1]
    by (simp only: tri_pts_rotate [of x2 y2 x0 y0 x1 y1] tri_pts_rotate [of x1 y1 x2 y2 x0 y0])
  ultimately show ?thesis
    using tri_vertex [of x0 y0 x1 y1 x2 y2]
    by (simp add: fillTriangle_paint tri_pts_swap [of x1 y1 x0 y0] tri_pts_rotate [of x1 y1 x2 y2 x0 y0])
qed

text \<open>
  Streaming: with an address window of \<open>w\<close> by \<open>h\<close> pixels set, pushing exactly
  \<open>w * h\<close> colours, in any two pieces, puts them row by row into the window and changes nothing
  else that can be seen.
\<close>

theorem pushColors_streams_image:
  assumes "tft_ok s" and "tft_inside s u v"
    and "0 < w" and "0 < h" and "w * h < 2 ^ 31" and "length (as @ bs) = nat (w * h)"
  shows "tft_get (pushColors bs (pushColors as (setAddrWindow x y w h s))) u v =
    (if x \<le> u \<and> u < x + w \<and> y \<le> v \<and> v < y + h
     then (as @ bs) ! nat ((v - y) * w + (u - x)) else tft_get s u v)"
proof -
  have "tf_awi (fst (setAddrWindow x y w h s)) = 0" by (simp add: setAddrWindow_def split_def)
  moreover have "int (length as + length bs) < 2 ^ 31" using assms(3-6) by simp
  ultimately have "pushColors (as @ bs) (setAddrWindow x y w h s)
      = pushColors bs (pushColors as (setAddrWindow x y w h s))"
    by (intro pushColors_append) simp
  with tft_get_pushColors [OF assms, of x y] show ?thesis by simp
qed

theorem pushColors_streams_image_witness:
  "tft_get (pushColors [3, 4] (pushColors [1, 2] (setAddrWindow 1 1 2 2 (demo_tft 2)))) 1 2 = 3"
  using pushColors_streams_image [OF demo_tft_ok demo_tft_inside, of 1 2 2 2 "[1, 2]" "[3, 4]" 1 1]
  by simp

text \<open>
  Property C31. Touch and drawing agree in every rotation: on a display object that owns the
  screen, a pixel drawn at the coordinates \<^verbatim>\<open>getTouch\<close> reports is the framebuffer pixel
  where the finger is.
\<close>

theorem touch_draw_agree:
  assumes "tf_buf t = None" and "\<not> tf_is_sprite t" and "fb_ok fb"
    and "fb_w fb = tf_w t" and "fb_h fb = tf_h t" and "tf_w t < 2 ^ 15" and "tf_h t < 2 ^ 15"
    and "sim_touch i = Some (tx, ty)" and "fb_inside fb tx ty"
  shows "\<exists>px py. getTouch t i = Some (px, py) \<and>
    fb_pixel (snd (drawPixel (uint px) (uint py) c (t, fb))) tx ty = c"
proof -
  let ?x = "if tf_rotation t \<ge> 2 then tf_w t - 1 - tx else tx"
  let ?y = "if tf_rotation t \<ge> 2 then tf_h t - 1 - ty else ty"
  have r: "0 \<le> ?x \<and> ?x < 2 ^ 15" "0 \<le> ?y \<and> ?y < 2 ^ 15"
    using assms(4-7,9) by (auto simp: fb_inside_def)
  have u: "uint (word_of_int k :: 16 word) = k" if "0 \<le> k \<and> k < 2 ^ 15" for k
    using that by (simp add: unsigned_of_int take_bit_int_eq_self)
  have "getTouch t i = Some (word_of_int ?x, word_of_int ?y)"
    using assms(8) by (simp add: getTouch_def)
  moreover have "fb_pixel (snd (putpx ?x ?y c (t, fb))) tx ty = c"
    using assms(1-5,9) fb_pixel_put [of fb tx ty tx ty c]
    by (auto simp: putpx_def fb_put_def fb_inside_def Let_def)
  ultimately show ?thesis by (auto simp: drawPixel_def u [OF r(1)] u [OF r(2)] simp del: split_paired_Ex)
qed

theorem touch_draw_agree_witness:
  "\<exists>px py. getTouch (fst (demo_tft 2)) (input_init\<lparr>touch_pressed := True, touch_x := 2, touch_y := 3\<rparr>)
      = Some (px, py) \<and>
    fb_pixel (snd (drawPixel (uint px) (uint py) 7 (fst (demo_tft 2), snd (demo_tft 2)))) 2 3 = 7"
  by (rule touch_draw_agree)
    (simp_all add: demo_tft_def setRotation_def tft_init_def tft_new_def Let_def fb_ok_init
      fb_init_def sim_touch_def input_init_def fb_inside_def fb_ok_def size_mul_def)

end
