(* ===== verification/Gfx.thy ===== *)
theory Gfx
  imports TftShapes
begin

text \<open>
  The Arduino_GFX shim (\<^verbatim>\<open>peripherals/gfx\<close>). Its parameters and loop counters are
  \<^verbatim>\<open>int16_t\<close>, so a coordinate passed on is narrowed with \<^const>\<open>s16\<close>; the object's fields
  are its width and height, and everything else it touches is the framebuffer.
\<close>

section \<open>Operations\<close>

record Arduino_GFX =
  gfx_w :: int
  gfx_h :: int

definition gfx_begin :: "Arduino_GFX \<Rightarrow> Framebuffer \<Rightarrow> bool \<times> Framebuffer" where
  "gfx_begin g fb = (True, fb_init (gfx_w g) (gfx_h g) fb)"

definition gfx_fillScreen :: "16 word \<Rightarrow> Framebuffer \<Rightarrow> Framebuffer" where
  "gfx_fillScreen color fb = fb_fill color fb"

definition gfx_drawPixel :: "int \<Rightarrow> int \<Rightarrow> 16 word \<Rightarrow> Framebuffer \<Rightarrow> Framebuffer" where
  "gfx_drawPixel x y color fb = fb_blit x y 1 1 [color] fb"

definition gfx_drawFastHLine :: "int \<Rightarrow> int \<Rightarrow> int \<Rightarrow> 16 word \<Rightarrow> Framebuffer \<Rightarrow> Framebuffer" where
  "gfx_drawFastHLine x y w color = for_upto w (\<lambda>i. gfx_drawPixel (s16 (x + i)) y color)"

definition gfx_drawFastVLine :: "int \<Rightarrow> int \<Rightarrow> int \<Rightarrow> 16 word \<Rightarrow> Framebuffer \<Rightarrow> Framebuffer" where
  "gfx_drawFastVLine x y h color = for_upto h (\<lambda>i. gfx_drawPixel x (s16 (y + i)) color)"

definition gfx_fillRect ::
  "int \<Rightarrow> int \<Rightarrow> int \<Rightarrow> int \<Rightarrow> 16 word \<Rightarrow> Framebuffer \<Rightarrow> Framebuffer" where
  "gfx_fillRect x y w h color =
     for_upto h (\<lambda>row. gfx_drawFastHLine x (s16 (y + row)) w color)"

definition gfx_drawRect ::
  "int \<Rightarrow> int \<Rightarrow> int \<Rightarrow> int \<Rightarrow> 16 word \<Rightarrow> Framebuffer \<Rightarrow> Framebuffer" where
  "gfx_drawRect x y w h color fb =
     gfx_drawFastVLine (s16 (x + w - 1)) y h color (gfx_drawFastVLine x y h color
       (gfx_drawFastHLine x (s16 (y + h - 1)) w color (gfx_drawFastHLine x y w color fb)))"

text \<open>\<^verbatim>\<open>for (int16_t i = lo; i <= hi; ++i)\<close>: the increment wraps, so the loop may not end.\<close>

partial_function (option) for16 ::
  "int \<Rightarrow> int \<Rightarrow> (int \<Rightarrow> 's \<Rightarrow> 's option) \<Rightarrow> 's \<Rightarrow> 's option" where
  "for16 i hi body s =
     (if i \<le> hi then Option.bind (body i s) (for16 (s16 (i + 1)) hi body) else Some s)"

definition gfx_fillCircle ::
  "int \<Rightarrow> int \<Rightarrow> int \<Rightarrow> 16 word \<Rightarrow> Framebuffer \<Rightarrow> Framebuffer option" where
  "gfx_fillCircle x0 y0 r color =
     for16 (s16 (- r)) r (\<lambda>dy. for16 (s16 (- r)) r (\<lambda>dx fb.
       Some (if dx * dx + dy * dy \<le> r * r
             then gfx_drawPixel (s16 (x0 + dx)) (s16 (y0 + dy)) color fb else fb)))"

definition draw16bitRGBBitmap ::
  "int \<Rightarrow> int \<Rightarrow> 16 word list \<Rightarrow> int \<Rightarrow> int \<Rightarrow> Framebuffer \<Rightarrow> Framebuffer" where
  "draw16bitRGBBitmap x y bmp w h fb = fb_blit x y w h bmp fb"

section \<open>A pixel is a clipped write\<close>

lemma gfx_drawPixel_put: "gfx_drawPixel x y c fb = fb_put x y c fb"
  by (auto simp: gfx_drawPixel_def fb_blit_def for_upto_def fb_put_def fb_inside_def Let_def)

lemma for16_end: "hi < i \<Longrightarrow> for16 i hi body s = Some s"
  by (subst for16.simps) simp

text \<open>Below the largest counter value the loop is the fold over the interval.\<close>

lemma for16_fold:
  assumes "\<And>i s. body i s = Some (f i s)" and "in_s16 lo" and "in_s16 hi" and "hi < 32767"
  shows "for16 lo hi body s = Some (fold f [lo..hi] s)"
  using assms(2)
proof (induction "nat (hi + 1 - lo)" arbitrary: lo s)
  case 0
  then show ?case by (simp add: for16_end)
next
  case (Suc n)
  then have le: "lo \<le> hi" by linarith
  then have "in_s16 (lo + 1)" using Suc.prems assms(4) by (simp add: in_s16_def)
  moreover have "n = nat (hi + 1 - (lo + 1))" using Suc.hyps(2) by linarith
  ultimately have "for16 (lo + 1) hi body (f lo s) = Some (fold f [lo + 1..hi] (f lo s))"
    by (rule Suc.hyps(1) [rotated])
  then show ?case
    using le \<open>in_s16 (lo + 1)\<close> assms(1) by (subst for16.simps) (simp add: upto_rec1)
qed

text \<open>With the largest counter value as the bound it never ends.\<close>

lemma for16_diverges:
  assumes "in_s16 lo"
  shows "for16 lo 32767 body s = None"
proof -
  have never: "in_s16 i \<longrightarrow> hi = 32767 \<longrightarrow> False" if run: "for16 i hi body s = Some t" for i hi t s
  proof (rule for16.raw_induct [OF _ run])
    fix loop :: "int \<Rightarrow> int \<Rightarrow> (int \<Rightarrow> 'a \<Rightarrow> 'a option) \<Rightarrow> 'a \<Rightarrow> 'a option" and i hi body s t
    assume IH: "\<And>i hi body s t. loop i hi body s = Some t \<Longrightarrow> in_s16 i \<longrightarrow> hi = 32767 \<longrightarrow> False"
      and eq: "(if i \<le> hi then Option.bind (body i s) (loop (s16 (i + 1)) hi body) else Some s) = Some t"
    show "in_s16 i \<longrightarrow> hi = 32767 \<longrightarrow> False"
    proof (intro impI)
      assume i: "in_s16 i" and hi: "hi = 32767"
      then have "i \<le> hi" by (simp add: in_s16_def)
      with eq obtain s' where "loop (s16 (i + 1)) hi body s' = Some t"
        by (auto simp: bind_eq_Some_conv)
      from IH [OF this] hi show False by simp
    qed
  qed
  with assms show ?thesis by (cases "for16 lo 32767 body s") auto
qed

section \<open>Properties\<close>

lemma putpx_screen:
  assumes "tf_buf t = None" and "\<not> tf_is_sprite t" and "tf_rotation t < 2"
  shows "putpx x y c (t, fb) = (t, fb_put x y c fb)"
  using assms by (auto simp: putpx_def fb_put_def fb_inside_def Let_def)

lemma paint_screen:
  assumes "tf_buf t = None" and "\<not> tf_is_sprite t" and "tf_rotation t < 2"
  shows "paint putpx pts c (t, fb) = (t, paint fb_put pts c fb)"
  by (induction pts arbitrary: fb) (auto simp: putpx_screen [OF assms])

lemma gfx_drawFastHLine_paint:
  assumes "in_s16 x" and "x + w \<le> 32768"
  shows "gfx_drawFastHLine x y w c fb = paint fb_put (map (\<lambda>i. (x + i, y)) [0..w - 1]) c fb"
proof -
  have "gfx_drawFastHLine x y w c fb
      = paint fb_put (concat (map (\<lambda>i. [(x + i, y)]) [0..w - 1])) c fb"
    unfolding gfx_drawFastHLine_def
  proof (rule for_upto_paint)
    fix i s
    assume "0 \<le> i" "i < w"
    then have "in_s16 (x + i)" using assms by (simp add: in_s16_def)
    then show "gfx_drawPixel (s16 (x + i)) y c s = paint fb_put [(x + i, y)] c s"
      by (simp add: gfx_drawPixel_put)
  qed
  then show ?thesis by simp
qed

lemma gfx_fillRect_paint:
  assumes "in_s16 x" "in_s16 y" "x + w \<le> 32768" "y + h \<le> 32768"
  shows "gfx_fillRect x y w h c fb = paint fb_put (rect_pts x y w h) c fb"
  unfolding gfx_fillRect_def rect_pts_def
proof (rule for_upto_paint)
  fix row s
  assume "0 \<le> row" "row < h"
  then have "in_s16 (y + row)" using assms by (simp add: in_s16_def)
  then show "gfx_drawFastHLine x (s16 (y + row)) w c s
      = paint fb_put (map (\<lambda>i. (x + i, y + row)) [0..w - 1]) c s"
    using assms by (simp add: gfx_drawFastHLine_paint)
qed

lemma gfx_fillCircle_fold:
  assumes "0 \<le> r" "r < 32767"
  shows "gfx_fillCircle x y r c fb = Some (fold (\<lambda>dy. fold (\<lambda>dx fb. if dx * dx + dy * dy \<le> r * r
      then gfx_drawPixel (s16 (x + dx)) (s16 (y + dy)) c fb else fb) [- r..r]) [- r..r] fb)"
proof -
  have r16: "in_s16 (- r)" "in_s16 r" using assms by (simp_all add: in_s16_def)
  have "for16 (- r) r (\<lambda>dx fb. Some (if dx * dx + dy * dy \<le> r * r
      then gfx_drawPixel (s16 (x + dx)) (s16 (y + dy)) c fb else fb)) fb
    = Some (fold (\<lambda>dx fb. if dx * dx + dy * dy \<le> r * r
      then gfx_drawPixel (s16 (x + dx)) (s16 (y + dy)) c fb else fb) [- r..r] fb)" for dy fb
    by (rule for16_fold) (use assms r16 in simp_all)
  then show ?thesis
    unfolding gfx_fillCircle_def s16_id [OF r16(1)]
    by (intro for16_fold) (use assms r16 in simp_all)
qed

lemma gfx_fillCircle_paint:
  assumes "0 \<le> r" "r < 32767" "- 32768 \<le> x - r" "x + r < 32768" "- 32768 \<le> y - r" "y + r < 32768"
  shows "gfx_fillCircle x y r c fb = Some (paint fb_put (disc_pts x y r) c fb)"
  unfolding gfx_fillCircle_fold [OF assms(1,2)] disc_pts_def option.inject
proof (rule fold_paint)
  let ?row = "\<lambda>dy dx fb. if dx * dx + dy * dy \<le> r * r
      then gfx_drawPixel (s16 (x + dx)) (s16 (y + dy)) c fb else fb"
  fix dy fb
  assume dy: "dy \<in> set [- r..r]"
  have "fold (?row dy) xs fb = paint fb_put (map (\<lambda>dx. (x + dx, y + dy))
      (filter (\<lambda>dx. dx * dx + dy * dy \<le> r * r) xs)) c fb" if "set xs \<subseteq> {- r..r}" for xs fb
    using that
  proof (induction xs arbitrary: fb)
    case (Cons dx xs)
    have "in_s16 (x + dx)" "in_s16 (y + dy)" using Cons.prems dy assms by (auto simp: in_s16_def)
    with Cons show ?case by (simp add: gfx_drawPixel_put)
  qed simp
  then show "fold (?row dy) [- r..r] fb = paint fb_put (map (\<lambda>dx. (x + dx, y + dy))
      (filter (\<lambda>dx. dx * dx + dy * dy \<le> r * r) [- r..r])) c fb" by simp
qed

lemma gfx_drawFastVLine_paint:
  assumes "in_s16 y" and "y + h \<le> 32768"
  shows "gfx_drawFastVLine x y h c fb = paint fb_put (map (\<lambda>i. (x, y + i)) [0..h - 1]) c fb"
proof -
  have "gfx_drawFastVLine x y h c fb
      = paint fb_put (concat (map (\<lambda>i. [(x, y + i)]) [0..h - 1])) c fb"
    unfolding gfx_drawFastVLine_def
  proof (rule for_upto_paint)
    fix i s
    assume "0 \<le> i" "i < h"
    then have "in_s16 (y + i)" using assms by (simp add: in_s16_def)
    then show "gfx_drawPixel x (s16 (y + i)) c s = paint fb_put [(x, y + i)] c s"
      by (simp add: gfx_drawPixel_put)
  qed
  then show ?thesis by simp
qed

lemma gfx_drawRect_paint:
  assumes "in_s16 x" "in_s16 y" "x + w \<le> 32768" "y + h \<le> 32768" "0 < w" "0 < h"
  shows "gfx_drawRect x y w h c fb = paint fb_put (rect_border x y w h) c fb"
proof -
  have "in_s16 (x + w - 1)" "in_s16 (y + h - 1)" using assms by (auto simp: in_s16_def)
  with assms show ?thesis
    by (simp add: gfx_drawRect_def rect_border_def gfx_drawFastHLine_paint gfx_drawFastVLine_paint paint_append)
qed

text \<open>
  The two graphics shims draw the same: on an unrotated display, with no
  coordinate beyond the range of \<^verbatim>\<open>int16_t\<close>, \<^verbatim>\<open>Arduino_GFX::fillRect\<close> leaves the framebuffer
  exactly as \<^verbatim>\<open>TFT_eSPI::fillRect\<close> does, and so does \<^verbatim>\<open>fillCircle\<close>, which then returns.
\<close>

theorem gfx_tft_agree:
  assumes "tf_buf t = None" "\<not> tf_is_sprite t" "tf_rotation t < 2"
    and "in_s16 x" "in_s16 y" "x + w \<le> 32768" "y + h \<le> 32768"
    and "0 \<le> r" "r < 32767" "- 32768 \<le> x - r" "x + r < 32768" "- 32768 \<le> y - r" "y + r < 32768"
  shows "snd (fillRect x y w h c (t, fb)) = gfx_fillRect x y w h c fb \<and>
    gfx_fillCircle x y r c fb = Some (snd (fillCircle x y r c (t, fb)))"
  using assms
  by (simp add: fillRect_paint paint_screen gfx_fillRect_paint fillCircle_paint gfx_fillCircle_paint)

theorem gfx_tft_agree_witness:
  "snd (fillRect 1 2 3 1 9 (tft_new 8 8, fb_init 8 8 fb_new)) = gfx_fillRect 1 2 3 1 9 (fb_init 8 8 fb_new)"
  using gfx_tft_agree [of "tft_new 8 8" 1 2 3 1 2 9 "fb_init 8 8 fb_new"]
  by (simp add: tft_new_def in_s16_def)

text \<open>
  \<^verbatim>\<open>Arduino_GFX::fillCircle\<close> never returns for the largest radius its parameter
  can hold: the 16-bit loop counter never exceeds it.
\<close>

theorem gfx_fillCircle_diverges: "gfx_fillCircle x y 32767 c fb = None"
  unfolding gfx_fillCircle_def by (rule for16_diverges) simp

end
