(* ===== verification/Wire.thy ===== *)
theory Wire
  imports Prelude
begin

text \<open>
  The byte streams the program reads and writes: what one \<^verbatim>\<open>poll\<close>/\<^verbatim>\<open>recv\<close> or
  \<^verbatim>\<open>poll\<close>/\<^verbatim>\<open>send\<close> of a socket can give, as a list of events that the peer and the operating
  system decide, and the line discipline on top. The code's deadline is the event \<open>TimedOut\<close>;
  a list that ends stands for a peer that stays silent until the deadline.
\<close>

section \<open>Events\<close>

datatype net_event =
    Chunk string        \<comment> \<open>\<^verbatim>\<open>recv\<close> returned these bytes\<close>
  | Retry               \<comment> \<open>\<^verbatim>\<open>EINTR\<close> or \<^verbatim>\<open>EAGAIN\<close>: the loop goes round\<close>
  | TimedOut
  | PollFailed string   \<comment> \<open>the \<^verbatim>\<open>strerror\<close> text\<close>
  | RecvFailed string
  | PeerClosed

datatype send_event =
    Accepts nat         \<comment> \<open>\<^verbatim>\<open>send\<close> took this many bytes\<close>
  | SendRetry
  | SendTimedOut
  | SendPollFailed string
  | SendFailed string

section \<open>Cutting a text into lines\<close>

text \<open>The loop \<^verbatim>\<open>while ((nl = buf.find('\n')) != npos)\<close>: the complete lines and the rest.\<close>

function split_lines :: "string \<Rightarrow> string list \<times> string" where
  "split_lines s = (case cut_line s of None \<Rightarrow> ([], s)
     | Some (l, r) \<Rightarrow> (let (ls, t) = split_lines r in (l # ls, t)))"
  by pat_completeness auto
termination by (relation "measure length") (auto dest: cut_line_length)

declare split_lines.simps [simp del]

lemma split_lines_none: "nl \<notin> set s \<Longrightarrow> split_lines s = ([], s)"
  by (subst split_lines.simps) (simp del: cut_line_None add: cut_line_None [THEN iffD2])

lemma split_lines_line:
  "nl \<notin> set l \<Longrightarrow> split_lines (l @ nl # r) = (let (ls, t) = split_lines r in (l # ls, t))"
  using cut_line_Some [of "l @ nl # r" l r] by (subst split_lines.simps) simp

lemma split_lines_rest: "nl \<notin> set (snd (split_lines s))"
proof (induction s rule: split_lines.induct)
  case (1 s)
  show ?case
  proof (cases "cut_line s")
    case None
    then show ?thesis by (simp add: split_lines_none)
  next
    case (Some p)
    obtain l r where p: "p = (l, r)" by force
    with Some have s: "s = l @ nl # r" "nl \<notin> set l" by (simp_all add: cut_line_Some)
    from 1 [OF Some p [symmetric]] show ?thesis using split_lines_line [OF s(2), of r] s(1)
      by (simp add: split_def Let_def)
  qed
qed

text \<open>Bytes that arrive later never change how the earlier ones were cut.\<close>

lemma split_lines_append:
  "split_lines (a @ b) =
     (fst (split_lines a) @ fst (split_lines (snd (split_lines a) @ b)),
      snd (split_lines (snd (split_lines a) @ b)))"
proof (induction a rule: split_lines.induct)
  case (1 a)
  show ?case
  proof (cases "cut_line a")
    case None
    then show ?thesis by (simp add: split_lines_none)
  next
    case (Some p)
    obtain l r where p: "p = (l, r)" by force
    with Some have a: "a = l @ nl # r" "nl \<notin> set l" by (simp_all add: cut_line_Some)
    have "split_lines (a @ b) = (let (ls, t) = split_lines (r @ b) in (l # ls, t))"
      using split_lines_line [OF a(2), of "r @ b"] by (simp add: a(1))
    with 1 [OF Some p [symmetric]] show ?thesis
      using split_lines_line [OF a(2), of r] a(1) by (simp add: split_def Let_def)
  qed
qed

lemma split_lines_join:
  "\<forall>l \<in> set ls. nl \<notin> set l \<Longrightarrow> split_lines (concat (map (\<lambda>l. l @ [nl]) ls) @ r)
     = (ls @ fst (split_lines r), snd (split_lines r))"
  by (induction ls) (simp_all add: split_lines_line split_def Let_def)

section \<open>Writing\<close>

text \<open>
  \<open>write_out stop es s\<close> sends \<open>s\<close>, going on where a send was short. \<open>stop\<close> says which results
  end the attempt and with which error; the peer has the bytes of the second component.
\<close>

fun write_out :: "(send_event \<Rightarrow> string option) \<Rightarrow> send_event list \<Rightarrow> string
    \<Rightarrow> string option \<times> string \<times> send_event list" where
  "write_out stop es [] = (None, [], es)"
| "write_out stop [] s = (None, s, [])"
| "write_out stop (e # es) s =
     (case stop e of Some m \<Rightarrow> (Some m, [], es)
      | None \<Rightarrow> (case e of
          Accepts n \<Rightarrow> (let (m, t, r) = write_out stop es (drop n s) in (m, take n s @ t, r))
        | _ \<Rightarrow> write_out stop es s))"

text \<open>A write that reports success sent the whole text, in order; one that fails, a prefix.\<close>

lemma write_out_sent:
  "write_out stop es s = (m, t, r) \<Longrightarrow> (\<exists>u. s = t @ u) \<and> (m = None \<longrightarrow> t = s)"
proof (induction stop es s arbitrary: m t r rule: write_out.induct)
  case (3 stop e es c s)
  note prems = 3(6)
  show ?case
  proof (cases "stop e")
    case None
    note stop = None
    show ?thesis
    proof (cases e)
      case (Accepts n)
      obtain m' t' r' where w: "write_out stop es (drop n (c # s)) = (m', t', r')" by (metis prod_cases3)
      with prems None Accepts have t: "t = take n (c # s) @ t'" "m = m'" by simp_all
      from 3(1) [OF None Accepts w] obtain u where u: "drop n (c # s) = t' @ u"
        and full: "m' = None \<longrightarrow> t' = drop n (c # s)" by blast
      have "c # s = t @ u" using t(1) u append_take_drop_id [of n "c # s"] by (metis append.assoc)
      moreover have "m = None \<longrightarrow> t = c # s" using full t append_take_drop_id [of n "c # s"] by metis
      ultimately show ?thesis by blast
    qed (use 3 None in auto)
  next
    case (Some m')
    with prems have "m = Some m'" "t = []" by simp_all
    then show ?thesis by simp
  qed
qed simp_all

text \<open>
  \<open>stream_holds text tail rx es\<close>: a reader with buffer \<open>rx\<close> will see \<open>text\<close>, however it is cut into
  chunks, before the events \<open>tail\<close>.
\<close>

definition stream_holds :: "string \<Rightarrow> net_event list \<Rightarrow> string \<Rightarrow> net_event list \<Rightarrow> bool" where
  "stream_holds text tail rx es \<longleftrightarrow> (\<exists>cs. es = map Chunk cs @ tail \<and> rx @ concat cs = text)"

lemma stream_holds_chunks: "stream_holds (rx @ concat cs) tail rx (map Chunk cs @ tail)"
  by (auto simp: stream_holds_def)

lemma stream_holds_start: "stream_holds (concat cs) tail [] (map Chunk cs @ tail)"
  by (auto simp: stream_holds_def)

section \<open>The interface of a line reader\<close>

text \<open>
  Both protocol clients keep a carry buffer and read line by line. What they share: a line
  that is already in the buffer is returned (cleaned) without touching the socket, and a chunk
  is appended to the buffer when there is none.
\<close>

locale line_reader =
  fixes rd :: "net_event list \<Rightarrow> string \<Rightarrow> (string + string) \<times> string \<times> net_event list"
    and clean :: "string \<Rightarrow> string"
  assumes rd_buffered: "cut_line rx = Some (l, r) \<Longrightarrow> rd es rx = (Inr (clean l), r, es)"
    and rd_chunk: "cut_line rx = None \<Longrightarrow> rd (Chunk c # es) rx = rd es (rx @ c)"
begin

text \<open>The next line is read whole and the reader is then placed right behind it.\<close>

lemma rd_line:
  assumes "stream_holds (l @ nl # text) tail rx es" and "nl \<notin> set l"
  shows "\<exists>rx' es'. rd es rx = (Inr (clean l), rx', es') \<and> stream_holds text tail rx' es'"
proof -
  obtain cs where "es = map Chunk cs @ tail" "rx @ concat cs = l @ nl # text"
    using assms(1) by (auto simp: stream_holds_def)
  then show ?thesis
  proof (induction cs arbitrary: rx es)
    case Nil
    then have "cut_line rx = Some (l, text)" using assms(2) by (simp add: cut_line_Some)
    from rd_buffered [OF this, of es] Nil show ?case by (auto simp: stream_holds_def)
  next
    case (Cons c cs)
    show ?case
    proof (cases "cut_line rx")
      case None
      with Cons.IH [of "map Chunk cs @ tail" "rx @ c"] Cons.prems show ?thesis
        by (simp add: rd_chunk)
    next
      case (Some p)
      obtain l' r where p: "p = (l', r)" by force
      with Some have rx: "rx = l' @ nl # r" "nl \<notin> set l'" by (simp_all add: cut_line_Some)
      have "cut_line (rx @ concat (c # cs)) = Some (l', r @ concat (c # cs))"
        using cut_line_append Some p by blast
      moreover have "cut_line (l @ nl # text) = Some (l, text)" using assms(2) by (simp add: cut_line_Some)
      ultimately have "l' = l" "r @ concat (c # cs) = text" using Cons.prems(2) by simp_all
      with rd_buffered [of rx l' r es] Some p Cons.prems(1) show ?thesis
        by (auto simp: stream_holds_def intro!: exI [of _ "c # cs"])
    qed
  qed
qed

end

end
