(* ===== verification/AgentLink.thy ===== *)
theory AgentLink
  imports Wire
begin

text \<open>
  The line-protocol client of the guest input agent (\<^verbatim>\<open>backends/qemu/agent_link.cpp\<close>): one
  request line out, one reply line back. What the guest will send and how the socket will
  take our bytes are event lists in the record.
\<close>

record AgentLink =
  al_open :: bool \<comment> \<open>\<^verbatim>\<open>fd >= 0\<close>\<close>
  al_rx :: string \<comment> \<open>partial-line carry\<close>
  al_in :: "net_event list"
  al_out :: "send_event list"
  al_sent :: string \<comment> \<open>the bytes the guest has\<close>

definition agent_link_new :: AgentLink where
  "agent_link_new = \<lparr>al_open = False, al_rx = [], al_in = [], al_out = [], al_sent = []\<rparr>"

definition agent_close :: "AgentLink \<Rightarrow> AgentLink" where
  "agent_close a = a\<lparr>al_open := False, al_rx := []\<rparr>"

text \<open>\<^verbatim>\<open>sizeof(sun_path)\<close> on Linux.\<close>

definition sun_path_size :: nat where
  "sun_path_size = 108"

text \<open>
  \<open>agent_connect path sock conn ins outs\<close>: \<open>sock\<close> and \<open>conn\<close> are the error texts of
  \<^verbatim>\<open>socket\<close> and \<^verbatim>\<open>connect\<close>, \<open>ins\<close> and \<open>outs\<close> the traffic of the new socket. The result is
  the error, \<^const>\<open>None\<close> for success.
\<close>

definition agent_connect :: "string \<Rightarrow> string option \<Rightarrow> string option \<Rightarrow> net_event list
    \<Rightarrow> send_event list \<Rightarrow> AgentLink \<Rightarrow> string option \<times> AgentLink" where
  "agent_connect path sock conn ins outs a =
     (let a = agent_close a
      in case sock of Some m \<Rightarrow> (Some (''socket: '' @ m), a)
       | None \<Rightarrow>
          if sun_path_size \<le> length path
          then (Some (''agent socket path too long: '' @ path), agent_close a)
          else (case conn of
              Some m \<Rightarrow> (Some (''agent connect '' @ path @ '': '' @ m), agent_close a)
            | None \<Rightarrow> (None, a\<lparr>al_open := True, al_in := ins, al_out := outs, al_sent := []\<rparr>)))"

section \<open>Reading a line\<close>

fun agent_read_line :: "net_event list \<Rightarrow> string \<Rightarrow> (string + string) \<times> string \<times> net_event list" where
  "agent_read_line es rx = (case cut_line rx of
     Some (l, r) \<Rightarrow> (Inr (chomp_cr l), r, es)
   | None \<Rightarrow> (case es of
       [] \<Rightarrow> (Inl ''agent reply timeout'', rx, [])
     | e # es' \<Rightarrow> (case e of
         Chunk c \<Rightarrow> agent_read_line es' (rx @ c)
       | Retry \<Rightarrow> (Inl ''poll: Interrupted system call'', rx, es')
       | TimedOut \<Rightarrow> (Inl ''agent reply timeout'', rx, es')
       | PollFailed m \<Rightarrow> (Inl (''poll: '' @ m), rx, es')
       | RecvFailed m \<Rightarrow> (Inl ''agent disconnected'', rx, es')
       | PeerClosed \<Rightarrow> (Inl ''agent disconnected'', rx, es'))))"

declare agent_read_line.simps [simp del]

interpretation agent: line_reader agent_read_line chomp_cr
proof
  fix rx l r es c
  show "cut_line rx = Some (l, r) \<Longrightarrow> agent_read_line es rx = (Inr (chomp_cr l), r, es)"
    by (subst agent_read_line.simps) simp
  show "cut_line rx = None \<Longrightarrow> agent_read_line (Chunk c # es) rx = agent_read_line es (rx @ c)"
    by (subst agent_read_line.simps) (simp del: cut_line_None)
qed

section \<open>A request\<close>

definition agent_stop :: "send_event \<Rightarrow> string option" where
  "agent_stop e = (case e of
     Accepts n \<Rightarrow> if n = 0 then Some ''agent send: Success'' else None
   | SendRetry \<Rightarrow> Some ''agent send: Interrupted system call''
   | SendTimedOut \<Rightarrow> Some ''agent send: Resource temporarily unavailable''
   | SendPollFailed m \<Rightarrow> Some (''agent send: '' @ m)
   | SendFailed m \<Rightarrow> Some (''agent send: '' @ m))"

definition agent_read :: "AgentLink \<Rightarrow> (string + string) \<times> AgentLink" where
  "agent_read a = (case agent_read_line (al_in a) (al_rx a) of
     (r, rx, es) \<Rightarrow> (r, a\<lparr>al_rx := rx, al_in := es\<rparr>))"

definition agent_verdict :: "string \<Rightarrow> string option" where
  "agent_verdict got =
     (if starts_with ''ok'' got then None
      else if starts_with ''err '' got then Some (drop 4 got)
      else Some (''agent replied with an unrecognized line: '' @ got))"

text \<open>The result: the error (\<^const>\<open>None\<close> for true), the text of \<^verbatim>\<open>*reply\<close> when it was set,
  and the link. Reading the answer, after one banner at most, is a definition of its own.\<close>

definition agent_answer :: "AgentLink \<Rightarrow> string option \<times> string option \<times> AgentLink" where
  "agent_answer a = (case agent_read a of
      (Inl e, a) \<Rightarrow> (Some e, None, a)
    | (Inr got, a) \<Rightarrow>
       (case (if starts_with ''esprite-agent'' got \<and> \<not> starts_with ''ok'' got
              then agent_read a else (Inr got, a)) of
          (Inl e, a) \<Rightarrow> (Some e, None, a)
        | (Inr got, a) \<Rightarrow> (agent_verdict got, Some got, a)))"

definition agent_request :: "string \<Rightarrow> AgentLink \<Rightarrow> string option \<times> string option \<times> AgentLink" where
  "agent_request line a =
     (if \<not> al_open a then (Some ''agent not connected'', None, a)
      else (case write_out agent_stop (al_out a) (line @ [nl]) of (m, t, outs) \<Rightarrow>
        (let a = a\<lparr>al_out := outs, al_sent := al_sent a @ t\<rparr>
         in case m of Some e \<Rightarrow> (Some e, None, a) | None \<Rightarrow> agent_answer a)))"

lemma agent_read_line_held:
  assumes "stream_holds (l @ nl # rest) tail (al_rx a) (al_in a)" and "nl \<notin> set l"
  shows "\<exists>rx es. agent_read a = (Inr (chomp_cr l), a\<lparr>al_rx := rx, al_in := es\<rparr>) \<and>
    stream_holds rest tail rx es"
  using agent.rd_line [OF assms] by (force simp: agent_read_def)

lemma not_ok_banner: "starts_with ''esprite-agent'' l \<Longrightarrow> \<not> starts_with ''ok'' l"
  by (auto simp: starts_with_iff)

lemma agent_read_frame: "agent_read a = (r, a') \<Longrightarrow> al_open a' = al_open a \<and> al_sent a' = al_sent a"
  by (auto simp: agent_read_def split: prod.splits)

lemma agent_answer_frame:
  assumes "agent_answer a = (e, reply, a')"
  shows "al_open a' = al_open a \<and> al_sent a' = al_sent a"
proof -
  obtain r a2 where r: "agent_read a = (r, a2)" by force
  show ?thesis
  proof (cases "\<exists>got. r = Inr got \<and> starts_with ''esprite-agent'' got \<and> \<not> starts_with ''ok'' got")
    case True
    then obtain got where got: "r = Inr got" "starts_with ''esprite-agent'' got" "\<not> starts_with ''ok'' got" by blast
    obtain r3 a3 where r3: "agent_read a2 = (r3, a3)" by force
    with assms r got have "a' = a3" by (cases r3) (simp_all add: agent_answer_def)
    with agent_read_frame [OF r] agent_read_frame [OF r3] show ?thesis by simp
  next
    case False
    with assms r have "a' = a2" unfolding agent_answer_def by (cases r) (simp_all split: if_splits)
    with agent_read_frame [OF r] show ?thesis by simp
  qed
qed

lemma agent_request_frame:
  assumes "agent_request line a = (e, reply, a')"
  shows "al_open a' = al_open a \<and> (e = None \<longrightarrow> al_sent a' = al_sent a @ line @ [nl])"
proof (cases "al_open a")
  case True
  obtain m t outs where w: "write_out agent_stop (al_out a) (line @ [nl]) = (m, t, outs)" by (metis prod_cases3)
  show ?thesis
  proof (cases m)
    case None
    with assms True w have "agent_answer (a\<lparr>al_out := outs, al_sent := al_sent a @ t\<rparr>) = (e, reply, a')"
      by (simp add: agent_request_def)
    from agent_answer_frame [OF this] write_out_sent [OF w] None show ?thesis by simp
  next
    case (Some e')
    with assms True w show ?thesis by (auto simp: agent_request_def)
  qed
qed (use assms in \<open>auto simp: agent_request_def\<close>)

definition banner :: "string \<Rightarrow> bool" where
  "banner l \<longleftrightarrow> starts_with ''esprite-agent'' (chomp_cr l)"

definition demo_link :: "net_event list \<Rightarrow> AgentLink" where
  "demo_link es = \<lparr>al_open = True, al_rx = [], al_in = es, al_out = [], al_sent = []\<rparr>"

lemma agent_reply_line:
  assumes "al_open a" and "al_out a = []" and "nl \<notin> set b" and "nl \<notin> set l"
    and "banner b" and "\<not> banner l"
    and "stream_holds ((if booted then b @ [nl] else []) @ l @ nl # rest) tail (al_rx a) (al_in a)"
  shows "\<exists>rx es. agent_request line a = (agent_verdict (chomp_cr l), Some (chomp_cr l),
      a\<lparr>al_out := [], al_sent := al_sent a @ line @ [nl], al_rx := rx, al_in := es\<rparr>) \<and>
    stream_holds rest tail rx es"
proof -
  let ?a = "a\<lparr>al_out := [], al_sent := al_sent a @ line @ [nl]\<rparr>"
  have w: "write_out agent_stop (al_out a) (line @ [nl]) = (None, line @ [nl], [])"
    using assms(2) by (cases "line @ [nl]") auto
  show ?thesis
  proof (cases booted)
    case True
    then obtain rx es where
      r: "agent_read ?a = (Inr (chomp_cr b), ?a\<lparr>al_rx := rx, al_in := es\<rparr>)"
      and h: "stream_holds (l @ nl # rest) tail rx es"
      using agent_read_line_held [of b "l @ nl # rest" tail ?a] assms by auto
    obtain rx' es' where
      r': "agent_read (?a\<lparr>al_rx := rx, al_in := es\<rparr>) = (Inr (chomp_cr l), ?a\<lparr>al_rx := rx', al_in := es'\<rparr>)"
      and h': "stream_holds rest tail rx' es'"
      using agent_read_line_held [of l rest tail "?a\<lparr>al_rx := rx, al_in := es\<rparr>"] h assms(4) by auto
    show ?thesis
      using w r r' h' assms(1,5) not_ok_banner [of "chomp_cr b"]
      by (auto simp: agent_request_def agent_answer_def Let_def banner_def intro!: exI [of _ rx'] exI [of _ es'])
  next
    case False
    then obtain rx es where
      "agent_read ?a = (Inr (chomp_cr l), ?a\<lparr>al_rx := rx, al_in := es\<rparr>)" "stream_holds rest tail rx es"
      using agent_read_line_held [of l rest tail ?a] assms by auto
    then show ?thesis
      using w assms(1,6)
      by (auto simp: agent_request_def agent_answer_def Let_def banner_def intro!: exI [of _ rx] exI [of _ es])
  qed
qed

section \<open>Properties\<close>

text \<open>
  However the guest's bytes are cut into reads, a request sends its line whole and
  is answered by the guest's next line, one start-up banner in front of it skipped: true for
  \<open>ok\<close>, the guest's message for \<open>err\<close>; and what follows the reply stays for the next request.
\<close>

theorem agent_reply_exact:
  assumes "al_open a" and "al_out a = []" and "nl \<notin> set b" and "nl \<notin> set l"
    and "banner b" and "\<not> banner l"
    and "stream_holds ((if booted then b @ [nl] else []) @ l @ nl # rest) tail (al_rx a) (al_in a)"
  shows "\<exists>rx es. agent_request line a = (agent_verdict (chomp_cr l), Some (chomp_cr l),
      a\<lparr>al_out := [], al_sent := al_sent a @ line @ [nl], al_rx := rx, al_in := es\<rparr>) \<and>
    stream_holds rest tail rx es"
  by (rule agent_reply_line) (fact assms)+

theorem agent_reply_exact_witness:
  "fst (agent_request ''tap'' (demo_link
     [Chunk ''esprite-agent'', Chunk (nl # ''er''), Chunk (''r bad pin'' @ [nl])])) = Some ''bad pin''"
proof -
  let ?a = "demo_link [Chunk ''esprite-agent'', Chunk (nl # ''er''), Chunk (''r bad pin'' @ [nl])]"
  have "stream_holds ((if True then ''esprite-agent'' @ [nl] else []) @ ''err bad pin'' @ nl # []) []
      (al_rx ?a) (al_in ?a)"
    using stream_holds_start [of "[''esprite-agent'', nl # ''er'', ''r bad pin'' @ [nl]]" "[]"]
    by (simp add: demo_link_def)
  moreover have "banner ''esprite-agent''" "\<not> banner ''err bad pin''"
    by (simp_all add: banner_def chomp_cr_def)
  moreover have "agent_verdict (chomp_cr ''err bad pin'') = Some ''bad pin''"
    by (simp add: agent_verdict_def chomp_cr_def)
  ultimately show ?thesis
    using agent_reply_exact [of ?a "''esprite-agent''" "''err bad pin''" True "[]" "[]" "''tap''"]
    by (auto simp: demo_link_def)
qed

text \<open>
  A request that times out leaves the link open, so its late reply is taken for the
  reply to the next request, whatever that one asks: the client answers with the text meant
  for its predecessor and is one reply behind from then on.
\<close>

theorem agent_late_reply_desync:
  assumes "al_open a" and "al_out a = []" and "al_rx a = []"
    and "al_in a = [TimedOut, Chunk (late @ [nl]), Chunk (own @ [nl])]"
    and "nl \<notin> set late" and "\<not> banner late"
  shows "fst (agent_request first a) = Some ''agent reply timeout'' \<and>
    (\<exists>rx es. agent_request second (snd (snd (agent_request first a)))
       = (agent_verdict (chomp_cr late), Some (chomp_cr late),
          a\<lparr>al_out := [], al_sent := al_sent a @ first @ [nl] @ second @ [nl], al_rx := rx, al_in := es\<rparr>) \<and>
     stream_holds (own @ [nl]) [] rx es)"
proof -
  let ?a = "a\<lparr>al_sent := al_sent a @ first @ [nl], al_in := [Chunk (late @ [nl]), Chunk (own @ [nl])]\<rparr>"
  have w: "write_out agent_stop [] (first @ [nl]) = (None, first @ [nl], [])" by (cases "first @ [nl]") auto
  have rd: "agent_read_line [TimedOut, Chunk (late @ [nl]), Chunk (own @ [nl])] []
      = (Inl ''agent reply timeout'', [], [Chunk (late @ [nl]), Chunk (own @ [nl])])"
    by (subst agent_read_line.simps) simp
  have one: "agent_request first a = (Some ''agent reply timeout'', None, ?a)"
    using assms w rd by (simp add: agent_request_def agent_answer_def agent_read_def)
  have "stream_holds (late @ nl # own @ [nl]) [] (al_rx ?a) (al_in ?a)"
    using assms(3) by (auto simp: stream_holds_def intro!: exI [of _ "[late @ [nl], own @ [nl]]"])
  moreover have "banner ''esprite-agent''" by (simp add: banner_def chomp_cr_def)
  ultimately show ?thesis
    using agent_reply_line [of ?a "''esprite-agent''" late False "own @ [nl]" "[]" second] assms one
    by simp
qed

theorem agent_late_reply_desync_witness:
  "fst (snd (agent_request ''gpio 4 1'' (snd (snd (agent_request ''ping''
     (demo_link [TimedOut, Chunk (''ok pong'' @ [nl]), Chunk (''err bad pin'' @ [nl])]))))))
   = Some ''ok pong''"
proof -
  let ?a = "demo_link [TimedOut, Chunk (''ok pong'' @ [nl]), Chunk (''err bad pin'' @ [nl])]"
  have "\<not> banner ''ok pong''" "chomp_cr ''ok pong'' = ''ok pong''"
    by (simp_all add: banner_def chomp_cr_def)
  then show ?thesis
    using agent_late_reply_desync [of ?a "''ok pong''" "''err bad pin''" "''ping''" "''gpio 4 1''"]
    by (auto simp: demo_link_def)
qed

end
