(* ===== verification/BleBridge.thy ===== *)
theory BleBridge
  imports Wire Ble
begin

text \<open>
  The live BLE bridge (\<^verbatim>\<open>cli/ble_bridge.cpp\<close>): one TCP client stands for the BLE central; its
  lines go to the device, the device's lines go back. A tick is given what the sockets would
  do: whether somebody waits to be accepted, and the results of \<^verbatim>\<open>recv\<close> and \<^verbatim>\<open>send\<close>.
\<close>

record BleBridge =
  br_client :: bool \<comment> \<open>\<^verbatim>\<open>client_fd >= 0\<close>\<close>
  br_port :: int
  br_inbuf :: string
  br_sent :: string \<comment> \<open>the bytes the client has been sent\<close>

text \<open>\<open>bound\<close>: the listener could be set up; \<open>assigned\<close>: the port \<^verbatim>\<open>getsockname\<close> reports.\<close>

definition ble_bridge_open :: "int \<Rightarrow> bool \<Rightarrow> int option \<Rightarrow> BleBridge option" where
  "ble_bridge_open port bound assigned =
     (if \<not> bound then None
      else Some \<lparr>br_client = False,
        br_port = (if port = 0 then (case assigned of Some p \<Rightarrow> p | None \<Rightarrow> port) else port),
        br_inbuf = [], br_sent = []\<rparr>)"

definition ble_bridge_port :: "BleBridge option \<Rightarrow> int" where
  "ble_bridge_port b = (case b of Some b \<Rightarrow> br_port b | None \<Rightarrow> 0)"

definition drop_client :: "BleBridge \<times> BleBus \<Rightarrow> BleBridge \<times> BleBus" where
  "drop_client = (\<lambda>(b, bus).
     if br_client b then (b\<lparr>br_client := False, br_inbuf := []\<rparr>, sim_ble_host_disconnect bus)
     else (b, bus))"

definition RUNAWAY :: nat where
  "RUNAWAY = 65536"

text \<open>The read loop: the buffer, or \<^const>\<open>None\<close> where the client is dropped.\<close>

fun bridge_recv :: "net_event list \<Rightarrow> string \<Rightarrow> string option" where
  "bridge_recv [] buf = Some buf"
| "bridge_recv (e # es) buf = (case e of
     Chunk c \<Rightarrow> if RUNAWAY < length (buf @ c) then None else bridge_recv es (buf @ c)
   | Retry \<Rightarrow> Some buf
   | TimedOut \<Rightarrow> Some buf
   | PollFailed m \<Rightarrow> None
   | RecvFailed m \<Rightarrow> None
   | PeerClosed \<Rightarrow> None)"

definition bridge_stop :: "send_event \<Rightarrow> string option" where
  "bridge_stop e = (case e of
     Accepts n \<Rightarrow> if n = 0 then Some ''closed'' else None
   | SendRetry \<Rightarrow> None
   | SendTimedOut \<Rightarrow> None
   | SendPollFailed m \<Rightarrow> Some m
   | SendFailed m \<Rightarrow> Some m)"

text \<open>The lines out; the first failed send ends it.\<close>

fun bridge_send :: "send_event list \<Rightarrow> string list \<Rightarrow> bool \<times> string" where
  "bridge_send es [] = (True, [])"
| "bridge_send es (l # ls) = (case write_out bridge_stop es (l @ [nl]) of
     (Some m, t, es) \<Rightarrow> (False, t)
   | (None, t, es) \<Rightarrow> (let (ok, u) = bridge_send es ls in (ok, t @ u)))"

definition bridge_lines :: "string list \<Rightarrow> string list" where
  "bridge_lines ls = filter (\<lambda>l. l \<noteq> []) (map chomp_cr ls)"

definition ble_bridge_tick :: "bool \<Rightarrow> net_event list \<Rightarrow> send_event list
    \<Rightarrow> BleBridge \<times> BleBus \<Rightarrow> BleBridge \<times> BleBus" where
  "ble_bridge_tick waiting recvs sends s =
     (let (b, bus) = s;
          (b, bus) = (if waiting \<and> \<not> br_client b
             then (b\<lparr>br_client := True\<rparr>, sim_ble_host_connect 0 bus) else (b, bus))
      in if \<not> br_client b then (b, bus)
      else (case bridge_recv recvs (br_inbuf b) of
          None \<Rightarrow> drop_client (b, bus)
        | Some buf \<Rightarrow>
            (let (ls, rest) = split_lines buf;
                 bus = fold sim_ble_host_send (bridge_lines ls) bus;
                 (out, bus) = sim_ble_host_drain bus;
                 (ok, t) = bridge_send sends out;
                 b = b\<lparr>br_inbuf := rest, br_sent := br_sent b @ t\<rparr>
             in if ok then (b, bus) else drop_client (b, bus))))"

definition ble_bridge_close :: "BleBridge \<times> BleBus \<Rightarrow> BleBus" where
  "ble_bridge_close s = snd (drop_client s)"

section \<open>Invariant\<close>

definition bridge_ok :: "BleBridge \<Rightarrow> bool" where
  "bridge_ok b \<longleftrightarrow> nl \<notin> set (br_inbuf b) \<and> length (br_inbuf b) \<le> RUNAWAY \<and>
     (\<not> br_client b \<longrightarrow> br_inbuf b = [])"

lemma bridge_recv_bound:
  "bridge_recv es buf = Some b \<Longrightarrow> length buf \<le> RUNAWAY \<Longrightarrow> length b \<le> RUNAWAY"
  by (induction es arbitrary: buf) (auto split: net_event.splits if_splits)

lemma split_lines_length: "length (snd (split_lines s)) \<le> length s"
proof (induction s rule: split_lines.induct)
  case (1 s)
  show ?case
  proof (cases "cut_line s")
    case (Some p)
    obtain l r where p: "p = (l, r)" by force
    from 1 [OF Some p [symmetric]] cut_line_length [of s l r] Some p show ?thesis
      by (subst split_lines.simps) (simp add: split_def Let_def)
  qed (simp add: split_lines_none)
qed

lemma bridge_ok_drop: "bridge_ok (fst (drop_client s)) = bridge_ok (fst s) \<or> br_client (fst s)"
  by (cases s) (auto simp: drop_client_def)

lemma drop_client_ok: "bridge_ok b \<or> br_client b \<Longrightarrow> bridge_ok (fst (drop_client (b, bus)))"
  by (auto simp: drop_client_def bridge_ok_def)

lemma bridge_recv_chunks:
  "length (buf @ concat cs) \<le> RUNAWAY \<Longrightarrow> bridge_recv (map Chunk cs) buf = Some (buf @ concat cs)"
  by (induction cs arbitrary: buf) auto

lemma bridge_send_all: "bridge_send [] ls = (True, concat (map (\<lambda>l. l @ [nl]) ls))"
proof (induction ls)
  case (Cons l ls)
  have "write_out bridge_stop [] (l @ [nl]) = (None, l @ [nl], [])" by (cases "l @ [nl]") auto
  with Cons show ?case by simp
qed simp

text \<open>A tick that only receives, while the link is up.\<close>

lemma tick_receives:
  assumes "br_client b" and "length (br_inbuf b @ concat cs) \<le> RUNAWAY"
  shows "ble_bridge_tick waiting (map Chunk cs) [] (b, bus) =
    (b\<lparr>br_inbuf := snd (split_lines (br_inbuf b @ concat cs)),
       br_sent := br_sent b @ concat (map (\<lambda>l. l @ [nl]) (to_host bus))\<rparr>,
     (fold sim_ble_host_send (bridge_lines (fst (split_lines (br_inbuf b @ concat cs)))) bus)\<lparr>to_host := []\<rparr>)"
  using assms
  by (simp add: ble_bridge_tick_def Let_def split_def bridge_recv_chunks sim_ble_host_drain_def
      bridge_send_all sends_frame)

section \<open>A session\<close>

text \<open>
  The bridge and the firmware take turns: in each round a tick delivers some chunks, then the
  device sends some lines and reads up to \<open>n\<close>.
\<close>

definition device_take :: "nat \<Rightarrow> BleBus \<Rightarrow> string list \<times> BleBus" where
  "device_take n bus = host_to_device.take_n n bus"

fun bridge_run :: "(string list \<times> string list \<times> nat) list \<Rightarrow> BleBridge \<times> BleBus
    \<Rightarrow> string list \<times> BleBridge \<times> BleBus" where
  "bridge_run [] s = ([], s)"
| "bridge_run ((cs, replies, n) # rounds) s =
     (let (b, bus) = ble_bridge_tick False (map Chunk cs) [] s;
          bus = fold sim_ble_device_send replies bus;
          (ls, bus) = device_take n bus;
          (more, s') = bridge_run rounds (b, bus)
      in (ls @ more, s'))"

lemma device_deq_frame:
  "ble_state (snd (ble_device_deq b)) = ble_state b \<and> to_host (snd (ble_device_deq b)) = to_host b"
  by (auto simp: ble_device_deq_def sim_ble_device_next_line_def Let_def split: list.splits)

lemma device_take_frame:
  "ble_state (snd (device_take n b)) = ble_state b \<and> to_host (snd (device_take n b)) = to_host b"
  unfolding device_take_def
proof (induction n arbitrary: b)
  case (Suc n)
  obtain x b' where d: "ble_device_deq b = (x, b')" by force
  have "ble_state b' = ble_state b \<and> to_host b' = to_host b" using device_deq_frame [of b] d by simp
  with Suc.IH [of b'] d show ?case by (simp add: split_def Let_def split: option.splits)
qed simp

lemma device_take_lines:
  "fst (device_take n b) = take n (to_device b)" "to_device (snd (device_take n b)) = drop n (to_device b)"
  by (simp_all add: device_take_def host_to_device.fst_take_n host_to_device.contents_take_n)

lemma device_sends_frame:
  "ble_state (fold sim_ble_device_send ls b) = ble_state b"
  "to_device (fold sim_ble_device_send ls b) = to_device b"
  by (induction ls arbitrary: b) (auto simp: sim_ble_device_send_def)

lemma bridge_lines_append: "bridge_lines (a @ b) = bridge_lines a @ bridge_lines b"
  by (simp add: bridge_lines_def)

definition stream_of :: "(string list \<times> string list \<times> nat) list \<Rightarrow> string" where
  "stream_of rounds = concat (map (\<lambda>(cs, _, _). concat cs) rounds)"

definition replies_of :: "(string list \<times> string list \<times> nat) list \<Rightarrow> string list" where
  "replies_of rounds = concat (map (\<lambda>(_, rs, _). rs) rounds)"

definition unlines :: "string list \<Rightarrow> string" where
  "unlines ls = concat (map (\<lambda>l. l @ [nl]) ls)"

lemma bridge_run_duplex:
  assumes "br_client b" and "ble_state bus = SIM_BLE_CONNECTED" and "nl \<notin> set (br_inbuf b)"
    and "length (br_inbuf b @ stream_of rounds) \<le> RUNAWAY"
    and "bridge_run rounds (b, bus) = (ls, b', bus')"
  shows "ls @ to_device bus'
      = to_device bus @ bridge_lines (fst (split_lines (br_inbuf b @ stream_of rounds))) \<and>
    br_inbuf b' = snd (split_lines (br_inbuf b @ stream_of rounds)) \<and>
    br_sent b' @ unlines (to_host bus')
      = br_sent b @ unlines (to_host bus) @ unlines (replies_of rounds) \<and>
    br_client b' \<and> ble_state bus' = SIM_BLE_CONNECTED"
  using assms
proof (induction rounds arbitrary: b bus ls)
  case Nil
  then show ?case by (simp add: stream_of_def replies_of_def unlines_def split_lines_none bridge_lines_def)
next
  case (Cons round rounds)
  obtain cs rs n where round: "round = (cs, rs, n)" by (metis prod_cases3)
  let ?t = "br_inbuf b @ concat cs"
  have len: "length ?t \<le> RUNAWAY" using Cons.prems(4) by (simp add: stream_of_def round)
  define b1 where "b1 = b\<lparr>br_inbuf := snd (split_lines ?t), br_sent := br_sent b @ unlines (to_host bus)\<rparr>"
  define bus1 where "bus1 = (fold sim_ble_host_send (bridge_lines (fst (split_lines ?t))) bus)\<lparr>to_host := []\<rparr>"
  define bus2 where "bus2 = fold sim_ble_device_send rs bus1"
  define bus3 where "bus3 = snd (device_take n bus2)"
  have tick: "ble_bridge_tick False (map Chunk cs) [] (b, bus) = (b1, bus1)"
    using tick_receives [OF Cons.prems(1) len] by (simp add: b1_def bus1_def unlines_def)
  have s1: "ble_state bus1 = SIM_BLE_CONNECTED" using Cons.prems(2) by (simp add: bus1_def sends_frame)
  have d1: "to_device bus1 = to_device bus @ bridge_lines (fst (split_lines ?t))"
    using to_device_sends [of bus] Cons.prems(2) by (simp add: bus1_def ble_connected_def)
  have s2: "ble_state bus2 = SIM_BLE_CONNECTED" "to_device bus2 = to_device bus1" "to_host bus2 = rs"
    using s1 device_to_host.contents_fold_enq [of bus1 rs]
    by (simp_all add: bus2_def device_sends_frame ble_connected_def) (simp add: bus1_def)
  have s3: "ble_state bus3 = SIM_BLE_CONNECTED" "to_host bus3 = rs"
    using device_take_frame [of n bus2] s2 by (simp_all add: bus3_def)
  define more where "more = fst (bridge_run rounds (b1, bus3))"
  have run: "bridge_run rounds (b1, bus3) = (more, b', bus')"
    and ls: "ls = fst (device_take n bus2) @ more"
    using Cons.prems(5) tick
    by (simp_all add: round bus3_def bus2_def Let_def split_def more_def prod_eq_iff)
  have split: "br_inbuf b @ stream_of (round # rounds) = ?t @ stream_of rounds"
    by (simp add: stream_of_def round)
  have "length (br_inbuf b1 @ stream_of rounds) \<le> RUNAWAY"
    using Cons.prems(4) split_lines_length [of ?t] by (simp add: b1_def split)
  from Cons.IH [OF _ s3(1) _ this run] have ih:
    "more @ to_device bus' = to_device bus3 @ bridge_lines (fst (split_lines (br_inbuf b1 @ stream_of rounds)))"
    "br_inbuf b' = snd (split_lines (br_inbuf b1 @ stream_of rounds))"
    "br_sent b' @ unlines (to_host bus') = br_sent b1 @ unlines (to_host bus3) @ unlines (replies_of rounds)"
    "br_client b'" "ble_state bus' = SIM_BLE_CONNECTED"
    using Cons.prems(1) split_lines_rest [of ?t] by (simp_all add: b1_def)
  have "ls @ to_device bus' = to_device bus2 @ bridge_lines (fst (split_lines (br_inbuf b1 @ stream_of rounds)))"
    using ih(1) ls by (simp add: bus3_def device_take_lines)
  moreover have "bridge_lines (fst (split_lines (?t @ stream_of rounds)))
      = bridge_lines (fst (split_lines ?t)) @ bridge_lines (fst (split_lines (br_inbuf b1 @ stream_of rounds)))"
    using split_lines_append [of ?t "stream_of rounds"] by (simp add: bridge_lines_append b1_def)
  moreover have "snd (split_lines (?t @ stream_of rounds)) = br_inbuf b'"
    using split_lines_append [of ?t "stream_of rounds"] ih(2) by (simp add: b1_def)
  moreover have "br_sent b' @ unlines (to_host bus')
      = br_sent b @ unlines (to_host bus) @ unlines (replies_of (round # rounds))"
    using ih(3) s3(2) by (simp add: b1_def replies_of_def round unlines_def)
  ultimately show ?case
    using ih(4,5) d1 s2(2) by (simp add: split)
qed

section \<open>Properties\<close>


definition demo_bridge :: "BleBridge \<times> BleBus" where
  "demo_bridge = ble_bridge_tick True [] []
     (the (ble_bridge_open 0 True (Some 4242)), sim_ble_attach ble_init)"

lemma demo_bridge: "br_client (fst demo_bridge)" "ble_state (snd demo_bridge) = SIM_BLE_CONNECTED"
    "br_inbuf (fst demo_bridge) = []" "to_device (snd demo_bridge) = []" "to_host (snd demo_bridge) = []"
    "attached (snd demo_bridge)"
  by (simp_all add: demo_bridge_def ble_bridge_tick_def ble_bridge_open_def sim_ble_attach_def ble_init_def
      sim_ble_host_connect_def Let_def split_lines_none bridge_lines_def sim_ble_host_drain_def)


text \<open>
  One central at a time, and no tick ends with a stale one: whatever the sockets do,
  a tick leaves a buffer without a complete line and within the limit; a client that goes
  (closed, failed, or with a line beyond the limit) takes its unfinished line with it and
  disconnects the link; and somebody else who waits meanwhile changes nothing.
\<close>

theorem bridge_tick_client:
  assumes "bridge_ok b" and "ble_bridge_tick waiting recvs sends (b, bus) = (b', bus')"
  shows "bridge_ok b' \<and>
    (br_client b \<longrightarrow> ble_bridge_tick True recvs sends (b, bus) = ble_bridge_tick False recvs sends (b, bus)) \<and>
    (\<not> br_client b \<and> \<not> waiting \<longrightarrow> b' = b \<and> bus' = bus) \<and>
    ((br_client b \<or> waiting) \<and> \<not> br_client b' \<and> attached bus \<longrightarrow>
       br_inbuf b' = [] \<and> ble_state bus' = SIM_BLE_ADVERTISING \<and> \<not> secure bus')"
proof -
  define b0 where "b0 = (if waiting \<and> \<not> br_client b then b\<lparr>br_client := True\<rparr> else b)"
  define bus0 where "bus0 = (if waiting \<and> \<not> br_client b then sim_ble_host_connect 0 bus else bus)"
  have tick: "ble_bridge_tick waiting recvs sends (b, bus) =
      (if \<not> br_client b0 then (b0, bus0) else (case bridge_recv recvs (br_inbuf b0) of
          None \<Rightarrow> drop_client (b0, bus0)
        | Some buf \<Rightarrow>
            (let bus1 = (fold sim_ble_host_send (bridge_lines (fst (split_lines buf))) bus0);
                 r = bridge_send sends (to_host bus1);
                 b1 = b0\<lparr>br_inbuf := snd (split_lines buf), br_sent := br_sent b0 @ snd r\<rparr>
             in if fst r then (b1, bus1\<lparr>to_host := []\<rparr>) else drop_client (b1, bus1\<lparr>to_host := []\<rparr>))))"
    by (auto simp: ble_bridge_tick_def b0_def bus0_def Let_def split_def sim_ble_host_drain_def
        split: option.splits)
  have att: "attached bus0 = attached bus"
    by (simp add: bus0_def sim_ble_host_connect_def Let_def)
  have ok0: "bridge_ok b0" using assms(1) by (auto simp: b0_def bridge_ok_def)
  consider (idle) "\<not> br_client b0" "b' = b0"
    | (stay) "br_client b'" "bridge_ok b'"
    | (drop) x y where "br_client x" "attached y = attached bus" "(b', bus') = drop_client (x, y)"
  proof (cases "br_client b0")
    case False
    with assms(2) tick have "b' = b0" by simp
    with False show ?thesis by (rule idle)
  next
    case True
    show ?thesis
    proof (cases "bridge_recv recvs (br_inbuf b0)")
      case None
      with assms(2) tick True have "(b', bus') = drop_client (b0, bus0)" by simp
      with True att show ?thesis by (rule drop)
    next
      case (Some buf)
      define bus1 where "bus1 = fold sim_ble_host_send (bridge_lines (fst (split_lines buf))) bus0"
      define r where "r = bridge_send sends (to_host bus1)"
      define b1 where "b1 = b0\<lparr>br_inbuf := snd (split_lines buf), br_sent := br_sent b0 @ snd r\<rparr>"
      have "(b', bus') = (if fst r then (b1, bus1\<lparr>to_host := []\<rparr>) else drop_client (b1, bus1\<lparr>to_host := []\<rparr>))"
        unfolding assms(2) [symmetric] using tick True Some by (simp only: Let_def bus1_def r_def b1_def
          if_False option.case not_True_eq_False)
      note res = this
      have c1: "br_client b1" using True by (simp add: b1_def)
      have ok1: "bridge_ok b1"
        using bridge_recv_bound [OF Some] split_lines_length [of buf] split_lines_rest [of buf] ok0 True
        by (auto simp: bridge_ok_def b1_def)
      have a1: "attached (bus1\<lparr>to_host := []\<rparr>) = attached bus"
        using att by (simp add: bus1_def sends_frame)
      show ?thesis
      proof (cases "fst r")
        case True
        with res c1 ok1 have "br_client b'" "bridge_ok b'" by simp_all
        then show ?thesis by (rule stay)
      next
        case False
        with res have "(b', bus') = drop_client (b1, bus1\<lparr>to_host := []\<rparr>)" by simp
        with c1 a1 show ?thesis by (rule drop)
      qed
    qed
  qed
  note outcome = this
  have dropped: "b' = x\<lparr>br_client := False, br_inbuf := []\<rparr> \<and> bus' = sim_ble_host_disconnect y"
    if "br_client x" "(b', bus') = drop_client (x, y)" for x y
    using that by (simp add: drop_client_def)
  have "bridge_ok b'"
    using outcome by cases (use ok0 dropped in \<open>auto simp: bridge_ok_def\<close>)
  moreover have "br_client b \<longrightarrow>
      ble_bridge_tick True recvs sends (b, bus) = ble_bridge_tick False recvs sends (b, bus)"
    by (simp add: ble_bridge_tick_def)
  moreover have "\<not> br_client b \<and> \<not> waiting \<longrightarrow> b' = b \<and> bus' = bus"
    using assms(2) tick by (auto simp: b0_def bus0_def)
  moreover have "(br_client b \<or> waiting) \<and> \<not> br_client b' \<and> attached bus \<longrightarrow>
       br_inbuf b' = [] \<and> ble_state bus' = SIM_BLE_ADVERTISING \<and> \<not> secure bus'"
    using outcome
    by cases (auto simp: b0_def sim_ble_host_disconnect_def sim_ble_device_drop_link_def dest: dropped
        split: if_splits)
  ultimately show ?thesis by blast
qed

theorem bridge_tick_client_witness:
  "bridge_ok (fst (ble_bridge_tick False [Chunk ''half'', PeerClosed] [] demo_bridge)) \<and>
   ble_state (snd (ble_bridge_tick False [Chunk ''half'', PeerClosed] [] demo_bridge)) = SIM_BLE_ADVERTISING"
proof -
  let ?r = "ble_bridge_tick False [Chunk ''half'', PeerClosed] [] demo_bridge"
  have ok: "bridge_ok (fst demo_bridge)" by (simp add: bridge_ok_def demo_bridge)
  have gone: "\<not> br_client (fst ?r)"
    by (simp add: ble_bridge_tick_def split_def Let_def demo_bridge drop_client_def RUNAWAY_def)
  have "ble_bridge_tick False [Chunk ''half'', PeerClosed] [] (fst demo_bridge, snd demo_bridge)
      = (fst ?r, snd ?r)" by simp
  from bridge_tick_client [OF ok this] gone show ?thesis by (simp add: demo_bridge)
qed

end
