(* ===== verification/Qmp.thy ===== *)
theory Qmp
  imports Wire AgentLink
begin

text \<open>
  The QEMU Machine Protocol client (\<^verbatim>\<open>backends/qemu/qmp.cpp\<close>). The JSON library is a pair of
  parameters: \<open>parse\<close> gives what the client looks at in a line (\<^const>\<open>None\<close> where the text is not
  JSON), \<open>build\<close> the text of a command (\<^const>\<open>None\<close> where its arguments are not JSON).
\<close>

record qmp_msg =
  m_greeting :: bool \<comment> \<open>\<^verbatim>\<open>doc["QMP"]\<close> is there\<close>
  m_event :: bool
  m_error :: "string option option" \<comment> \<open>\<^verbatim>\<open>doc["error"]\<close> and its \<^verbatim>\<open>desc\<close>\<close>
  m_return :: "string option" \<comment> \<open>the return value as JSON\<close>

type_synonym json_parse = "string \<Rightarrow> qmp_msg option"
type_synonym json_build = "string \<Rightarrow> string \<Rightarrow> string option"

record QmpClient =
  q_open :: bool
  q_rx :: string
  q_in :: "net_event list"
  q_out :: "send_event list"
  q_sent :: string

definition qmp_new :: QmpClient where
  "qmp_new = \<lparr>q_open = False, q_rx = [], q_in = [], q_out = [], q_sent = []\<rparr>"

definition qmp_close :: "QmpClient \<Rightarrow> QmpClient" where
  "qmp_close c = c\<lparr>q_open := False, q_rx := []\<rparr>"

section \<open>Lines\<close>

fun qmp_read_line :: "net_event list \<Rightarrow> string \<Rightarrow> (string + string) \<times> string \<times> net_event list" where
  "qmp_read_line es rx = (case cut_line rx of
     Some (l, r) \<Rightarrow> (Inr l, r, es)
   | None \<Rightarrow> (case es of
       [] \<Rightarrow> (Inl ''timed out waiting for a QMP reply'', rx, [])
     | e # es' \<Rightarrow> (case e of
         Chunk c \<Rightarrow> qmp_read_line es' (rx @ c)
       | Retry \<Rightarrow> qmp_read_line es' rx
       | TimedOut \<Rightarrow> (Inl ''timed out waiting for a QMP reply'', rx, es')
       | PollFailed m \<Rightarrow> (Inl (''poll: '' @ m), rx, es')
       | RecvFailed m \<Rightarrow> (Inl (''recv: '' @ m), rx, es')
       | PeerClosed \<Rightarrow> (Inl ''QMP peer closed the connection'', rx, es'))))"

declare qmp_read_line.simps [simp del]

interpretation qmp: line_reader qmp_read_line id
proof
  fix rx l r es c
  show "cut_line rx = Some (l, r) \<Longrightarrow> qmp_read_line es rx = (Inr (id l), r, es)"
    by (subst qmp_read_line.simps) simp
  show "cut_line rx = None \<Longrightarrow> qmp_read_line (Chunk c # es) rx = qmp_read_line es (rx @ c)"
    by (subst qmp_read_line.simps) (simp del: cut_line_None)
qed

lemma qmp_read_line_none:
  assumes "cut_line rx = None"
  shows "qmp_read_line [] rx = (Inl ''timed out waiting for a QMP reply'', rx, [])"
    and "qmp_read_line (e # es) rx = (case e of
      Chunk c \<Rightarrow> qmp_read_line es (rx @ c) | Retry \<Rightarrow> qmp_read_line es rx
    | TimedOut \<Rightarrow> (Inl ''timed out waiting for a QMP reply'', rx, es)
    | PollFailed m \<Rightarrow> (Inl (''poll: '' @ m), rx, es)
    | RecvFailed m \<Rightarrow> (Inl (''recv: '' @ m), rx, es)
    | PeerClosed \<Rightarrow> (Inl ''QMP peer closed the connection'', rx, es))"
  using assms by (subst qmp_read_line.simps, simp del: cut_line_None)+

text \<open>Reading a line uses up bytes, so a loop over lines ends.\<close>

fun net_bytes :: "net_event list \<Rightarrow> nat" where
  "net_bytes [] = 0"
| "net_bytes (Chunk c # es) = length c + net_bytes es"
| "net_bytes (e # es) = net_bytes es"

lemma qmp_read_line_bytes:
  "qmp_read_line es rx = (Inr l, rx', es') \<Longrightarrow>
     length rx' + net_bytes es' < length rx + net_bytes es"
proof (induction es arbitrary: rx)
  case Nil
  show ?case
  proof (cases "cut_line rx")
    case (Some p)
    obtain u v where p: "p = (u, v)" by force
    with Some Nil show ?thesis
      using cut_line_length [of rx u v] by (auto simp: qmp.rd_buffered)
  qed (use Nil in \<open>simp add: qmp_read_line_none del: cut_line_None\<close>)
next
  case (Cons e es)
  show ?case
  proof (cases "cut_line rx")
    case (Some p)
    obtain u v where p: "p = (u, v)" by force
    with Some Cons.prems show ?thesis
      using cut_line_length [of rx u v] by (auto simp: qmp.rd_buffered)
  next
    case None
    with Cons.prems Cons.IH show ?thesis
      by (cases e) (auto simp: qmp_read_line_none simp del: cut_line_None dest!: Cons.IH)
  qed
qed

definition qmp_stop :: "send_event \<Rightarrow> string option" where
  "qmp_stop e = (case e of
     Accepts n \<Rightarrow> None
   | SendRetry \<Rightarrow> None
   | SendTimedOut \<Rightarrow> Some ''timed out writing a QMP command''
   | SendPollFailed m \<Rightarrow> Some (''poll: '' @ m)
   | SendFailed m \<Rightarrow> Some (''send: '' @ m))"

definition qmp_write_line :: "string \<Rightarrow> QmpClient \<Rightarrow> string option \<times> QmpClient" where
  "qmp_write_line line c = (case write_out qmp_stop (q_out c) (line @ [nl]) of
     (m, t, outs) \<Rightarrow> (m, c\<lparr>q_out := outs, q_sent := q_sent c @ t\<rparr>))"

section \<open>Replies\<close>

datatype ReplyStatus = ReplyOk string | AppError string | TransportError string

function qmp_read_reply :: "json_parse \<Rightarrow> net_event list \<Rightarrow> string
    \<Rightarrow> ReplyStatus \<times> string \<times> net_event list" where
  "qmp_read_reply parse es rx = (case qmp_read_line es rx of
     (Inl e, rx', es') \<Rightarrow> (TransportError e, rx', es')
   | (Inr line, rx', es') \<Rightarrow>
      if line = [] then qmp_read_reply parse es' rx'
      else (case parse line of
          None \<Rightarrow> (TransportError (''malformed QMP line: '' @ line), rx', es')
        | Some m \<Rightarrow>
            if m_event m then qmp_read_reply parse es' rx'
            else (case m_error m of
                Some d \<Rightarrow> (AppError (case d of Some t \<Rightarrow> t | None \<Rightarrow> ''unknown QMP error''), rx', es')
              | None \<Rightarrow> (case m_return m of
                  Some r \<Rightarrow> (ReplyOk r, rx', es')
                | None \<Rightarrow> (TransportError (''unexpected QMP message: '' @ line), rx', es')))))"
  by pat_completeness auto
termination
  by (relation "measure (\<lambda>(parse, es, rx). length rx + net_bytes es)") (auto dest: qmp_read_line_bytes [OF sym])

declare qmp_read_reply.simps [simp del]

definition qmp_receive :: "json_parse \<Rightarrow> QmpClient \<Rightarrow> ReplyStatus \<times> QmpClient" where
  "qmp_receive parse c = (case qmp_read_reply parse (q_in c) (q_rx c) of
     (st, rx, es) \<Rightarrow> (st, c\<lparr>q_rx := rx, q_in := es\<rparr>))"

definition qmp_execute :: "json_parse \<Rightarrow> json_build \<Rightarrow> string \<Rightarrow> string \<Rightarrow> QmpClient
    \<Rightarrow> (string + string) \<times> QmpClient" where
  "qmp_execute parse build cmd args c =
     (if \<not> q_open c then (Inl ''not connected'', c)
      else (case build cmd args of
          None \<Rightarrow> (Inl (''args_json is not valid JSON: '' @ args), c)
        | Some line \<Rightarrow> (case qmp_write_line line c of
            (Some e, c) \<Rightarrow> (Inl e, qmp_close c)
          | (None, c) \<Rightarrow> (case qmp_receive parse c of
              (ReplyOk r, c) \<Rightarrow> (Inr r, c)
            | (AppError e, c) \<Rightarrow> (Inl e, c)
            | (TransportError e, c) \<Rightarrow> (Inl e, qmp_close c)))))"

section \<open>Connecting\<close>

datatype connect_event =
    ConnOk
  | ConnSocketFailed string
  | ConnFailed string
  | ConnPendingOk            \<comment> \<open>\<^verbatim>\<open>EINPROGRESS\<close> or \<^verbatim>\<open>EAGAIN\<close>, and then writable\<close>
  | ConnPendingTimedOut
  | ConnPendingPollFailed string
  | ConnPendingError string  \<comment> \<open>\<^verbatim>\<open>SO_ERROR\<close>\<close>

definition connect_error :: "connect_event \<Rightarrow> string option" where
  "connect_error e = (case e of
     ConnOk \<Rightarrow> None
   | ConnSocketFailed m \<Rightarrow> Some (''socket: '' @ m)
   | ConnFailed m \<Rightarrow> Some (''connect: '' @ m)
   | ConnPendingOk \<Rightarrow> None
   | ConnPendingTimedOut \<Rightarrow> Some ''connect timed out''
   | ConnPendingPollFailed m \<Rightarrow> Some (''poll: '' @ m)
   | ConnPendingError m \<Rightarrow> Some (''connect: '' @ m))"

definition capabilities_cmd :: string where
  "capabilities_cmd = CHR 0x7B # CHR 0x22 # ''execute'' @ [CHR 0x22, CHR 0x3A, CHR 0x22] @
     ''qmp_capabilities'' @ [CHR 0x22, CHR 0x7D]"

definition qmp_connect :: "json_parse \<Rightarrow> string \<Rightarrow> connect_event \<Rightarrow> net_event list \<Rightarrow> send_event list
    \<Rightarrow> QmpClient \<Rightarrow> string option \<times> QmpClient" where
  "qmp_connect parse path conn ins outs c =
     (let c = qmp_close c
      in if sun_path_size \<le> length path then (Some ''socket path too long'', c)
      else (case connect_error conn of
          Some m \<Rightarrow> (Some m, c)
        | None \<Rightarrow> (let c = c\<lparr>q_open := True, q_in := ins, q_out := outs, q_sent := []\<rparr>
           in case qmp_read_line (q_in c) (q_rx c) of
              (Inl e, rx, es) \<Rightarrow> (Some e, qmp_close (c\<lparr>q_rx := rx, q_in := es\<rparr>))
            | (Inr greeting, rx, es) \<Rightarrow> (let c = c\<lparr>q_rx := rx, q_in := es\<rparr>
               in case parse greeting of
                  None \<Rightarrow> (Some (''malformed QMP greeting: '' @ greeting), qmp_close c)
                | Some m \<Rightarrow>
                   if \<not> m_greeting m then (Some (''malformed QMP greeting: '' @ greeting), qmp_close c)
                   else (case qmp_write_line capabilities_cmd c of
                      (Some e, c) \<Rightarrow> (Some e, qmp_close c)
                    | (None, c) \<Rightarrow> (case qmp_receive parse c of
                        (ReplyOk r, c) \<Rightarrow> (None, c)
                      | (AppError e, c) \<Rightarrow> (Some e, qmp_close c)
                      | (TransportError e, c) \<Rightarrow> (Some e, qmp_close c)))))))"

section \<open>Lemmas\<close>

text \<open>Blank lines and events are noise in front of a reply.\<close>

definition qmp_noise :: "json_parse \<Rightarrow> string \<Rightarrow> bool" where
  "qmp_noise parse l \<longleftrightarrow> nl \<notin> set l \<and> (l = [] \<or> (\<exists>m. parse l = Some m \<and> m_event m))"

text \<open>What the client makes of a line that is not noise.\<close>

definition qmp_status :: "json_parse \<Rightarrow> string \<Rightarrow> ReplyStatus" where
  "qmp_status parse l = (case parse l of
     None \<Rightarrow> TransportError (''malformed QMP line: '' @ l)
   | Some m \<Rightarrow> (case m_error m of
       Some d \<Rightarrow> AppError (case d of Some t \<Rightarrow> t | None \<Rightarrow> ''unknown QMP error'')
     | None \<Rightarrow> (case m_return m of
         Some r \<Rightarrow> ReplyOk r
       | None \<Rightarrow> TransportError (''unexpected QMP message: '' @ l))))"

lemma qmp_read_reply_line:
  assumes "stream_holds (concat (map (\<lambda>l. l @ [nl]) noise) @ l @ nl # rest) tail rx es"
    and "\<forall>n \<in> set noise. qmp_noise parse n" and "nl \<notin> set l" and "\<not> qmp_noise parse l"
  shows "\<exists>rx' es'. qmp_read_reply parse es rx = (qmp_status parse l, rx', es') \<and>
    stream_holds rest tail rx' es'"
  using assms(1,2)
proof (induction noise arbitrary: rx es)
  case Nil
  then obtain rx' es' where r: "qmp_read_line es rx = (Inr l, rx', es')" "stream_holds rest tail rx' es'"
    using qmp.rd_line [of l rest tail rx es] assms(3) by auto
  have "l \<noteq> []" "\<forall>m. parse l = Some m \<longrightarrow> \<not> m_event m"
    using assms(3,4) by (auto simp: qmp_noise_def)
  with r show ?case
    by (subst qmp_read_reply.simps) (auto simp: qmp_status_def split: option.splits)
next
  case (Cons n noise)
  then obtain rx1 es1 where r: "qmp_read_line es rx = (Inr n, rx1, es1)"
    and h: "stream_holds (concat (map (\<lambda>l. l @ [nl]) noise) @ l @ nl # rest) tail rx1 es1"
    using qmp.rd_line [of n "concat (map (\<lambda>l. l @ [nl]) noise) @ l @ nl # rest" tail rx es]
    by (auto simp: qmp_noise_def)
  have "qmp_read_reply parse es rx = qmp_read_reply parse es1 rx1"
    using r Cons.prems(2) by (subst qmp_read_reply.simps) (auto simp: qmp_noise_def)
  with Cons.IH [OF h] Cons.prems(2) show ?case by simp
qed

lemma qmp_write_all: "write_out qmp_stop [] s = (None, s, [])"
  by (cases s) auto

lemma qmp_write_line_ok:
  "qmp_write_line line c = (None, c') \<Longrightarrow> q_sent c' = q_sent c @ line @ [nl] \<and> q_open c' = q_open c"
  using write_out_sent [of qmp_stop "q_out c" "line @ [nl]"]
  by (fastforce simp: qmp_write_line_def split: prod.splits)

lemma qmp_receive_frame:
  "qmp_receive parse c = (st, c') \<Longrightarrow> q_sent c' = q_sent c \<and> q_open c' = q_open c"
  by (auto simp: qmp_receive_def split: prod.splits)

lemma qmp_execute_ok: "qmp_execute parse build cmd args c = (Inr r, c') \<Longrightarrow> q_open c'"
  using qmp_write_line_ok qmp_receive_frame
  by (fastforce simp: qmp_execute_def split: if_splits option.splits prod.splits ReplyStatus.splits)

definition demo_parse :: json_parse where
  "demo_parse l =
     (if l = ''greet'' then Some \<lparr>m_greeting = True, m_event = False, m_error = None, m_return = None\<rparr>
      else if l = ''event'' then Some \<lparr>m_greeting = False, m_event = True, m_error = None, m_return = None\<rparr>
      else if l = ''error'' then
        Some \<lparr>m_greeting = False, m_event = False, m_error = Some (Some ''no such command''), m_return = None\<rparr>
      else if l = ''return'' then
        Some \<lparr>m_greeting = False, m_event = False, m_error = None, m_return = Some ''{}''\<rparr>
      else None)"

definition demo_build :: json_build where
  "demo_build cmd args = Some (cmd @ args)"

definition demo_qmp :: "net_event list \<Rightarrow> QmpClient" where
  "demo_qmp es = \<lparr>q_open = True, q_rx = [], q_in = es, q_out = [], q_sent = []\<rparr>"

section \<open>Properties\<close>

text \<open>
  Property C23. A command is answered by the first line that is neither blank nor an event,
  however QEMU's output is cut into reads: a return value is handed on, an error gives its
  description and keeps the session usable, anything else closes it; what follows the reply
  stays for the next command.
\<close>

theorem qmp_execute_reply:
  assumes "q_open c" and "q_out c = []" and "build cmd args = Some line"
    and "stream_holds (concat (map (\<lambda>l. l @ [nl]) noise) @ l @ nl # rest) tail (q_rx c) (q_in c)"
    and "\<forall>n \<in> set noise. qmp_noise parse n" and "nl \<notin> set l" and "\<not> qmp_noise parse l"
  shows "\<exists>rx es. stream_holds rest tail rx es \<and>
    (let c' = c\<lparr>q_sent := q_sent c @ line @ [nl], q_rx := rx, q_in := es\<rparr>
     in qmp_execute parse build cmd args c = (case qmp_status parse l of
          ReplyOk r \<Rightarrow> (Inr r, c') | AppError e \<Rightarrow> (Inl e, c')
        | TransportError e \<Rightarrow> (Inl e, qmp_close c')))"
proof -
  let ?c = "c\<lparr>q_sent := q_sent c @ line @ [nl]\<rparr>"
  from qmp_read_reply_line [OF assms(4-7)] obtain rx es where
    r: "qmp_read_reply parse (q_in ?c) (q_rx ?c) = (qmp_status parse l, rx, es)"
    and h: "stream_holds rest tail rx es" by auto
  have "qmp_write_line line c = (None, ?c)"
    using assms(2) by (simp add: qmp_write_line_def qmp_write_all)
  with r h assms(1,3) show ?thesis
    by (intro exI [of _ rx] exI [of _ es])
      (simp add: qmp_execute_def qmp_receive_def Let_def split: ReplyStatus.split)
qed

theorem qmp_execute_reply_witness:
  "fst (qmp_execute demo_parse demo_build ''stop'' []
     (demo_qmp [Chunk ''eve'', Chunk (''nt'' @ nl # nl # ''ret''), Chunk (''urn'' @ [nl])])) = Inr ''{}''"
proof -
  let ?c = "demo_qmp [Chunk ''eve'', Chunk (''nt'' @ nl # nl # ''ret''), Chunk (''urn'' @ [nl])]"
  have "stream_holds (concat (map (\<lambda>l. l @ [nl]) [''event'', []]) @ ''return'' @ nl # []) []
      (q_rx ?c) (q_in ?c)"
    using stream_holds_start [of "[''eve'', ''nt'' @ nl # nl # ''ret'', ''urn'' @ [nl]]" "[]"]
    by (simp add: demo_qmp_def)
  then show ?thesis
    using qmp_execute_reply [of ?c demo_build "''stop''" "[]" "''stop''" "[''event'', []]" "''return''" "[]" "[]" demo_parse]
    by (auto simp: demo_qmp_def demo_build_def qmp_noise_def demo_parse_def qmp_status_def Let_def)
qed

text \<open>
  No stale reply is ever handed to a later command: a command that reports success
  left the session open with its line sent whole; and whatever goes wrong on the wire (a
  timeout, a lost peer, garbage) closes the session, so the next command fails with
  \<open>not connected\<close> and sends nothing.
\<close>

theorem qmp_no_stale_reply:
  assumes "q_open c" and "qmp_execute parse build cmd args c = (res, c')"
  shows "(\<forall>r. res = Inr r \<longrightarrow> q_open c' \<and>
      (\<exists>line. build cmd args = Some line \<and> q_sent c' = q_sent c @ line @ [nl])) \<and>
    (q_open c' \<and> build cmd args \<noteq> None \<longrightarrow>
      (\<exists>st c1 c2. qmp_write_line (the (build cmd args)) c = (None, c1) \<and>
         qmp_receive parse c1 = (st, c2) \<and> c' = c2 \<and> (\<forall>e. st \<noteq> TransportError e))) \<and>
    (\<not> q_open c' \<longrightarrow> q_rx c' = [] \<and>
      (\<forall>cmd' args'. qmp_execute parse build cmd' args' c' = (Inl ''not connected'', c')))"
proof (cases "build cmd args")
  case None
  with assms show ?thesis by (auto simp: qmp_execute_def)
next
  case (Some line)
  obtain m c1 where w: "qmp_write_line line c = (m, c1)" by force
  obtain st c2 where r: "qmp_receive parse c1 = (st, c2)" by force
  show ?thesis
  proof (cases m)
    case None
    have "q_sent c1 = q_sent c @ line @ [nl]" "q_open c1" "q_sent c2 = q_sent c1" "q_open c2"
      using qmp_write_line_ok [of line c c1] qmp_receive_frame [OF r] w None assms(1) by auto
    with assms Some w None r show ?thesis
      by (cases st) (auto simp: qmp_execute_def qmp_close_def)
  next
    case e: (Some e)
    with assms Some w show ?thesis by (auto simp: qmp_execute_def qmp_close_def)
  qed
qed

theorem qmp_no_stale_reply_witness:
  "qmp_execute demo_parse demo_build ''quit'' []
     (snd (qmp_execute demo_parse demo_build ''stop'' [] (demo_qmp [TimedOut, Chunk (''return'' @ [nl])])))
   = (Inl ''not connected'', snd (qmp_execute demo_parse demo_build ''stop'' []
        (demo_qmp [TimedOut, Chunk (''return'' @ [nl])])))"
proof -
  let ?r = "qmp_execute demo_parse demo_build ''stop'' [] (demo_qmp [TimedOut, Chunk (''return'' @ [nl])])"
  have "\<not> q_open (snd ?r)"
    by (simp add: qmp_execute_def demo_build_def demo_qmp_def qmp_write_line_def qmp_write_all
        qmp_receive_def qmp_close_def qmp_read_reply.simps [of _ "[TimedOut, _]"] qmp_read_line_none)
  then show ?thesis
    using qmp_no_stale_reply [of "demo_qmp [TimedOut, Chunk (''return'' @ [nl])]" demo_parse demo_build
        "''stop''" "[]" "fst ?r" "snd ?r"]
    by (simp add: demo_qmp_def)
qed

lemma qmp_connect_result:
  assumes "qmp_connect parse path conn ins outs c = (err, c')"
  shows "(err = None \<longrightarrow> q_open c' \<and> q_sent c' = capabilities_cmd @ [nl] \<and>
      length path < sun_path_size \<and> connect_error conn = None \<and>
      (\<exists>g m rx es. qmp_read_line ins [] = (Inr g, rx, es) \<and> parse g = Some m \<and> m_greeting m)) \<and>
    (err \<noteq> None \<longrightarrow> \<not> q_open c' \<and> q_rx c' = [])"
proof -
  let ?c = "qmp_close c"
  consider (path) "sun_path_size \<le> length path" | (conn) "length path < sun_path_size" "connect_error conn \<noteq> None"
    | (ok) "length path < sun_path_size" "connect_error conn = None" by fastforce
  then show ?thesis
  proof cases
    case path
    with assms show ?thesis by (auto simp: qmp_connect_def qmp_close_def Let_def)
  next
    case conn
    with assms show ?thesis by (auto simp: qmp_connect_def qmp_close_def Let_def)
  next
    case ok
    obtain g rx es where g: "qmp_read_line ins [] = (g, rx, es)" by (metis prod_cases3)
    define c1 where "c1 = c\<lparr>q_open := True, q_out := outs, q_sent := [], q_rx := rx, q_in := es\<rparr>"
    obtain m c2 where w: "qmp_write_line capabilities_cmd c1 = (m, c2)" by force
    obtain st c3 where r: "qmp_receive parse c2 = (st, c3)" by force
    have sent: "m = None \<Longrightarrow> q_sent c3 = capabilities_cmd @ [nl] \<and> q_open c3"
      using qmp_write_line_ok [of capabilities_cmd c1 c2] qmp_receive_frame [OF r] w
      by (simp add: c1_def)
    have closed: "\<not> q_open (qmp_close x)" "q_rx (qmp_close x) = []" for x by (simp_all add: qmp_close_def)
    show ?thesis
    proof (cases g)
      case (Inl e)
      with assms ok g show ?thesis by (auto simp: qmp_connect_def Let_def closed qmp_close_def)
    next
      case (Inr greeting)
      show ?thesis
      proof (cases "parse greeting")
        case None
        with assms ok g Inr show ?thesis by (auto simp: qmp_connect_def Let_def closed qmp_close_def)
      next
        case (Some gm)
        have "qmp_connect parse path conn ins outs c =
            (if \<not> m_greeting gm then (Some (''malformed QMP greeting: '' @ greeting), qmp_close c1)
             else case m of Some e \<Rightarrow> (Some e, qmp_close c2)
              | None \<Rightarrow> (case st of ReplyOk x \<Rightarrow> (None, c3) | AppError e \<Rightarrow> (Some e, qmp_close c3)
                  | TransportError e \<Rightarrow> (Some e, qmp_close c3)))"
          using ok g Inr Some w [unfolded c1_def] r
          by (simp add: qmp_connect_def Let_def qmp_close_def c1_def split: option.splits ReplyStatus.splits)
        with assms sent closed ok g Inr Some show ?thesis
          by (auto split: if_splits option.splits ReplyStatus.splits)
      qed
    qed
  qed
qed

lemma qmp_connect_ok:
  "qmp_connect parse path conn ins outs c = (None, c') \<Longrightarrow>
     q_open c' \<and> q_sent c' = capabilities_cmd @ [nl]"
  using qmp_connect_result [of parse path conn ins outs c None c'] by blast

text \<open>
  Connecting either ends with a session on which the greeting was seen and the
  capabilities command was sent and accepted, or leaves the client closed with an empty buffer.
\<close>

theorem qmp_connect_all_or_nothing:
  assumes "qmp_connect parse path conn ins outs c = (err, c')"
  shows "(err = None \<longrightarrow> q_open c' \<and> q_sent c' = capabilities_cmd @ [nl] \<and>
      length path < sun_path_size \<and> connect_error conn = None \<and>
      (\<exists>g m rx es. qmp_read_line ins [] = (Inr g, rx, es) \<and> parse g = Some m \<and> m_greeting m)) \<and>
    (err \<noteq> None \<longrightarrow> \<not> q_open c' \<and> q_rx c' = [])"
  by (rule qmp_connect_result [OF assms])

theorem qmp_connect_all_or_nothing_witness:
  "q_open (snd (qmp_connect demo_parse ''/tmp/q'' ConnPendingOk
     [Chunk (''greet'' @ [nl]), Chunk (''return'' @ [nl])] [] qmp_new))"
proof -
  let ?r = "qmp_connect demo_parse ''/tmp/q'' ConnPendingOk
     [Chunk (''greet'' @ [nl]), Chunk (''return'' @ [nl])] [] qmp_new"
  have "fst ?r = None" by code_simp
  then obtain c where r: "?r = (None, c)" by (metis prod.collapse)
  from qmp_connect_all_or_nothing [OF r] have "q_open c" by blast
  then show ?thesis unfolding r by (simp only: snd_conv)
qed

end
