(* ===== verification/QemuProcess.thy ===== *)
theory QemuProcess
  imports Qmp
begin

text \<open>
  One QEMU child end to end (\<^verbatim>\<open>backends/qemu/qemu_process.cpp\<close>): its command line, the pipes and
  file actions of the spawn, the bounded capture of its output, the bounded write to its
  input, the connect loop and the escalating stop. What the kernel answers is given: pipe and
  \<^verbatim>\<open>fcntl\<close> results, the events on the output pipe, and what each non-blocking \<^verbatim>\<open>waitpid\<close>
  says about the child.
\<close>

section \<open>The command line\<close>

record QemuSpec =
  qs_bin :: string
  qs_machine :: string
  qs_image :: string
  qs_icount :: bool
  qs_qmp_socket :: string
  qs_agent_socket :: string
  qs_host_port :: int
  qs_guest_port :: int

definition qemu_build_argv :: "QemuSpec \<Rightarrow> string list" where
  "qemu_build_argv s =
     [qs_bin s, ''-machine'', qs_machine s, ''-nographic''] @
     (if qs_agent_socket s \<noteq> []
      then [''-serial'', ''mon:stdio'', ''-serial'', ''unix:'' @ qs_agent_socket s @ '',server=on,wait=off'']
      else []) @
     [''-drive'', ''file='' @ qs_image s @ '',if=mtd,format=raw,snapshot=on'',
      ''-qmp'', ''unix:'' @ qs_qmp_socket s @ '',server=on,wait=off''] @
     (if 0 < qs_host_port s \<and> 0 < qs_guest_port s
      then [''-nic'', ''user,model=open_eth,hostfwd=tcp:127.0.0.1:'' @ int_to_string (qs_host_port s) @
              ''-:'' @ int_to_string (qs_guest_port s)]
      else []) @
     (if qs_icount s then [''-icount'', ''shift=3,align=off,sleep=off''] else [])"

section \<open>Spawning\<close>

definition qemu_needs_fd_normalize :: "int \<Rightarrow> bool" where
  "qemu_needs_fd_normalize fd \<longleftrightarrow> 0 \<le> fd \<and> fd \<le> 2"

text \<open>The parent's open descriptors are a set; \<open>close_if_open\<close> also stands for \<^verbatim>\<open>close\<close>.\<close>

definition close_if_open :: "int \<Rightarrow> int set \<Rightarrow> int set" where
  "close_if_open fd fds = (if 0 \<le> fd then fds - {fd} else fds)"

definition close_all :: "int list \<Rightarrow> int set \<Rightarrow> int set" where
  "close_all l fds = fold close_if_open l fds"

text \<open>\<open>dup\<close>: what \<^verbatim>\<open>fcntl(fd, F_DUPFD, 3)\<close> gives, an error text or the new descriptor.\<close>

definition normalize_fd :: "(int \<Rightarrow> string + int) \<Rightarrow> int \<Rightarrow> int set \<Rightarrow> (string + int) \<times> int set" where
  "normalize_fd dup fd fds =
     (if \<not> qemu_needs_fd_normalize fd then (Inr fd, fds)
      else (case dup fd of
          Inl m \<Rightarrow> (Inl (''fcntl(F_DUPFD): '' @ m), fds)
        | Inr moved \<Rightarrow> (Inr moved, close_if_open fd (insert moved fds))))"

text \<open>The loop over the four pipe ends; on an error the ends moved so far have their new numbers.\<close>

fun normalize_all :: "(int \<Rightarrow> string + int) \<Rightarrow> int list \<Rightarrow> int list \<Rightarrow> int set
    \<Rightarrow> string option \<times> int list \<times> int set" where
  "normalize_all dup [] moved fds = (None, moved, fds)"
| "normalize_all dup (fd # rest) moved fds = (case normalize_fd dup fd fds of
     (Inl m, fds) \<Rightarrow> (Some m, moved @ fd # rest, fds)
   | (Inr fd', fds) \<Rightarrow> normalize_all dup rest (moved @ [fd']) fds)"

text \<open>The file actions the child runs, on its descriptor table.\<close>

datatype file_action = Dup2 int int | CloseFd int

fun run_action :: "file_action \<Rightarrow> (int \<rightharpoonup> 'f) \<Rightarrow> (int \<rightharpoonup> 'f)" where
  "run_action (Dup2 a b) t = t(b := t a)"
| "run_action (CloseFd a) t = t(a := None)"

definition child_actions :: "int \<Rightarrow> int \<Rightarrow> int \<Rightarrow> int \<Rightarrow> file_action list" where
  "child_actions in0 in1 out0 out1 =
     [Dup2 in0 0, Dup2 out1 1, Dup2 out1 2, CloseFd in0, CloseFd in1, CloseFd out0, CloseFd out1]"

definition action_names :: "string list" where
  "action_names = [''adddup2(stdin)'', ''adddup2(stdout)'', ''adddup2(stderr)'', ''addclose(in_pipe[0])'',
     ''addclose(in_pipe[1])'', ''addclose(out_pipe[0])'', ''addclose(out_pipe[1])'']"

record spawn_env =
  sp_pipe_in :: "string + (int \<times> int)"
  sp_pipe_out :: "string + (int \<times> int)"
  sp_dup :: "int \<Rightarrow> string + int"
  sp_action_error :: "(nat \<times> string) option" \<comment> \<open>the first file action that failed\<close>
  sp_spawn_error :: "string option"
  sp_nonblock_error :: "string option"

text \<open>The result: an error, or the read end of the child's output and the write end of its input;
  with it the parent's open descriptors and the file actions of the child, if one was spawned.\<close>

definition spawn_pipes :: "string list \<Rightarrow> spawn_env \<Rightarrow> int set
    \<Rightarrow> (string + int \<times> int) \<times> int set \<times> file_action list option" where
  "spawn_pipes argv env fds =
     (if argv = [] then (Inl ''empty argv'', fds, None)
      else (case sp_pipe_in env of
        Inl m \<Rightarrow> (Inl (''pipe(stdin): '' @ m), fds, None)
      | Inr (in0, in1) \<Rightarrow> (let fds = insert in0 (insert in1 fds)
         in case sp_pipe_out env of
          Inl m \<Rightarrow> (Inl (''pipe(stdout): '' @ m), close_all [in0, in1] fds, None)
        | Inr (out0, out1) \<Rightarrow> (let fds = insert out0 (insert out1 fds)
           in case normalize_all (sp_dup env) [in0, in1, out0, out1] [] fds of
            (Some m, ends, fds) \<Rightarrow> (Inl m, close_all ends fds, None)
          | (None, ends, fds) \<Rightarrow>
             (case sp_action_error env of
                Some (i, m) \<Rightarrow> (Inl (''posix_spawn_file_actions_'' @ action_names ! i @ '': '' @ m),
                                close_all ends fds, None)
              | None \<Rightarrow> (case sp_spawn_error env of
                  Some m \<Rightarrow> (Inl (''posix_spawn '' @ hd argv @ '': '' @ m), close_all ends fds, None)
                | None \<Rightarrow> (let fds = close_all [ends ! 0, ends ! 3] fds
                    in (Inr (ends ! 2, ends ! 1), fds,
                        Some (child_actions (ends ! 0) (ends ! 1) (ends ! 2) (ends ! 3))))))))))"

section \<open>The process object\<close>

datatype wait_event = StillRunning | WaitInterrupted | Reaped

datatype sent_signal = QmpQuit | SigTerm | SigKill

record QemuProcess =
  qp_pid :: bool \<comment> \<open>\<^verbatim>\<open>pid >= 0\<close>\<close>
  qp_out_open :: bool
  qp_in_open :: bool
  qp_captured :: string
  qp_qmp :: QmpClient
  qp_out_events :: "net_event list" \<comment> \<open>what reading the output pipe will give\<close>
  qp_wait :: "wait_event list" \<comment> \<open>what \<^verbatim>\<open>waitpid\<close> will say\<close>

definition qp_new :: QemuProcess where
  "qp_new = \<lparr>qp_pid = False, qp_out_open = False, qp_in_open = False, qp_captured = [],
     qp_qmp = qmp_new, qp_out_events = [], qp_wait = []\<rparr>"

definition kSerialCaptureCap :: nat where
  "kSerialCaptureCap = 1024 * 1024"

text \<open>\<^verbatim>\<open>captured.append\<close>, then the front is dropped where the cap is exceeded.\<close>

definition capture :: "string \<Rightarrow> string \<Rightarrow> string" where
  "capture old c =
     (let s = old @ c
      in if kSerialCaptureCap < length s then drop (length s - kSerialCaptureCap div 2) s else s)"

text \<open>The read loop: \<open>TimedOut\<close> is \<^verbatim>\<open>EAGAIN\<close>, \<open>Retry\<close> is \<^verbatim>\<open>EINTR\<close>.\<close>

fun pump_loop :: "net_event list \<Rightarrow> string \<Rightarrow> string \<times> bool \<times> net_event list" where
  "pump_loop [] s = (s, True, [])"
| "pump_loop (e # es) s = (case e of
     Chunk c \<Rightarrow> pump_loop es (capture s c)
   | Retry \<Rightarrow> pump_loop es s
   | TimedOut \<Rightarrow> (s, True, es)
   | PollFailed m \<Rightarrow> (s, False, es)
   | RecvFailed m \<Rightarrow> (s, False, es)
   | PeerClosed \<Rightarrow> (s, False, es))"

definition qp_pump :: "QemuProcess \<Rightarrow> QemuProcess" where
  "qp_pump p =
     (if \<not> qp_out_open p then p
      else (case pump_loop (qp_out_events p) (qp_captured p) of
        (s, up, es) \<Rightarrow> p\<lparr>qp_captured := s, qp_out_open := up, qp_out_events := es\<rparr>))"

text \<open>
  \<open>serial_write\<close>: each round of the loop first looks at the interrupt flag, then polls and
  writes. The result says whether all was written; the child has the bytes of the second part.
\<close>

fun serial_write_loop :: "(bool \<times> send_event) list \<Rightarrow> string \<Rightarrow> bool \<times> string" where
  "serial_write_loop rounds [] = (True, [])"
| "serial_write_loop [] s = (True, s)"
| "serial_write_loop ((intr, e) # rounds) s =
     (if intr then (False, [])
      else (case e of
          Accepts n \<Rightarrow> if n = 0 then (False, [])
            else (let (ok, t) = serial_write_loop rounds (drop n s) in (ok, take n s @ t))
        | SendRetry \<Rightarrow> serial_write_loop rounds s
        | SendTimedOut \<Rightarrow> (False, [])
        | SendPollFailed m \<Rightarrow> (False, [])
        | SendFailed m \<Rightarrow> (False, [])))"

definition serial_write :: "(bool \<times> send_event) list \<Rightarrow> string \<Rightarrow> QemuProcess \<Rightarrow> bool \<times> string" where
  "serial_write rounds data p = (if \<not> qp_in_open p then (False, []) else serial_write_loop rounds data)"

section \<open>Running and stopping\<close>

fun wait_nohang :: "wait_event list \<Rightarrow> bool \<times> wait_event list" where
  "wait_nohang [] = (True, [])"
| "wait_nohang (e # es) = (case e of
     StillRunning \<Rightarrow> (True, es) | WaitInterrupted \<Rightarrow> wait_nohang es | Reaped \<Rightarrow> (False, es))"

definition qp_running :: "QemuProcess \<Rightarrow> bool \<times> QemuProcess" where
  "qp_running p =
     (if \<not> qp_pid p then (False, p)
      else (case wait_nohang (qp_wait p) of (alive, es) \<Rightarrow>
        (alive, p\<lparr>qp_pid := alive, qp_wait := es\<rparr>)))"

text \<open>\<^verbatim>\<open>wait_for_exit\<close> with the number of polls that fit before its deadline.\<close>

fun wait_for_exit :: "nat \<Rightarrow> QemuProcess \<Rightarrow> bool \<times> QemuProcess" where
  "wait_for_exit n p = (case qp_running p of (alive, p) \<Rightarrow>
     if \<not> alive then (True, p) else (case n of 0 \<Rightarrow> (False, p) | Suc n \<Rightarrow> wait_for_exit n p))"

declare wait_for_exit.simps [simp del]

definition qp_close_fds :: "QemuProcess \<Rightarrow> QemuProcess" where
  "qp_close_fds p = p\<lparr>qp_out_open := False, qp_in_open := False\<rparr>"

text \<open>\<open>polls\<close>: the polls of the two waits. The result lists what was sent to the child.\<close>

definition qp_stop :: "json_parse \<Rightarrow> json_build \<Rightarrow> nat \<times> nat \<Rightarrow> QemuProcess
    \<Rightarrow> sent_signal list \<times> QemuProcess" where
  "qp_stop parse build polls p =
     (if \<not> qp_pid p then ([], qp_close_fds (p\<lparr>qp_qmp := qmp_close (qp_qmp p)\<rparr>))
      else
       (let (quit, q) = (if q_open (qp_qmp p)
              then ([QmpQuit], snd (qmp_execute parse build ''quit'' [] (qp_qmp p)))
              else ([], qp_qmp p));
            p = p\<lparr>qp_qmp := qmp_close q\<rparr>;
            (alive, p) = qp_running p;
            (sigs, p) =
              (if \<not> alive then ([], p)
               else (case wait_for_exit (fst polls) p of (exited, p) \<Rightarrow>
                 if exited then ([SigTerm], p)
                 else ([SigTerm, SigKill], snd (wait_for_exit (snd polls) p))));
            p = p\<lparr>qp_pid := False\<rparr>
        in (quit @ sigs, qp_close_fds p)))"

section \<open>Starting\<close>

text \<open>One attempt of the connect loop: what the socket does, and what the interrupt flag and the
  clock say after it. A list of attempts that ends stands for the clock running out.\<close>

record attempt =
  at_conn :: connect_event
  at_in :: "net_event list"
  at_out :: "send_event list"
  at_interrupted :: bool
  at_deadline :: bool

fun start_loop :: "json_parse \<Rightarrow> json_build \<Rightarrow> nat \<times> nat \<Rightarrow> string \<Rightarrow> attempt list \<Rightarrow> string
    \<Rightarrow> QemuProcess \<Rightarrow> string option \<times> QemuProcess" where
  "start_loop parse build polls path [] err p =
     (Some (''timed out waiting for QMP to become ready: '' @ err), snd (qp_stop parse build polls p))"
| "start_loop parse build polls path (a # as) err p =
     (case qmp_connect parse path (at_conn a) (at_in a) (at_out a) (qp_qmp p) of
        (None, q) \<Rightarrow> (None, p\<lparr>qp_qmp := q\<rparr>)
      | (Some err, q) \<Rightarrow> (case qp_running (p\<lparr>qp_qmp := q\<rparr>) of (alive, p) \<Rightarrow>
          if \<not> alive then (Some (''qemu exited before the QMP socket became ready: '' @ err),
                           snd (qp_stop parse build polls p))
          else if at_interrupted a then (Some ''interrupted'', snd (qp_stop parse build polls p))
          else if at_deadline a
          then (Some (''timed out waiting for QMP to become ready: '' @ err), snd (qp_stop parse build polls p))
          else start_loop parse build polls path as err p))"

text \<open>\<open>spawn_only\<close> and \<open>start\<close>: the environment gives the new child's pipe and wait events.\<close>

definition qp_spawn_only :: "json_parse \<Rightarrow> json_build \<Rightarrow> nat \<times> nat \<Rightarrow> string list \<Rightarrow> spawn_env
    \<Rightarrow> net_event list \<Rightarrow> wait_event list \<Rightarrow> int set \<Rightarrow> QemuProcess
    \<Rightarrow> string option \<times> QemuProcess" where
  "qp_spawn_only parse build polls argv env outs waits fds p =
     (case spawn_pipes argv env fds of
        (Inl m, _) \<Rightarrow> (Some m, p)
      | (Inr _, _) \<Rightarrow>
         (let p = p\<lparr>qp_pid := True, qp_in_open := True, qp_out_open := True, qp_captured := [],
                    qp_out_events := outs, qp_wait := waits\<rparr>
          in case sp_nonblock_error env of
              Some m \<Rightarrow> (Some m, snd (qp_stop parse build polls p))
            | None \<Rightarrow> (None, p)))"

definition qp_start :: "json_parse \<Rightarrow> json_build \<Rightarrow> nat \<times> nat \<Rightarrow> QemuSpec \<Rightarrow> spawn_env
    \<Rightarrow> net_event list \<Rightarrow> wait_event list \<Rightarrow> int set \<Rightarrow> attempt list \<Rightarrow> QemuProcess
    \<Rightarrow> string option \<times> QemuProcess" where
  "qp_start parse build polls spec env outs waits fds attempts p =
     (case qp_spawn_only parse build polls (qemu_build_argv spec) env outs waits fds p of
        (Some m, p) \<Rightarrow> (Some m, p)
      | (None, p) \<Rightarrow> start_loop parse build polls (qs_qmp_socket spec) attempts [] p)"

section \<open>Lemmas\<close>

lemma close_all_minus: "\<forall>x \<in> set l. 0 \<le> x \<Longrightarrow> close_all l fds = fds - set l"
  by (induction l arbitrary: fds) (auto simp: close_all_def close_if_open_def)

lemma normalize_all_ends:
  assumes "normalize_all dup l M (B \<union> set M \<union> set l) = (err, ends, fds')"
    and "distinct (M @ l)" and "B \<inter> set (M @ l) = {}" and "\<forall>x \<in> set l. 0 \<le> x" and "\<forall>x \<in> set M. 2 < x"
    and "\<forall>fd \<in> set l. \<forall>m. dup fd = Inr m \<longrightarrow> 2 < m \<and> m \<notin> B \<union> set M \<union> set l"
    and "\<forall>fd \<in> set l. \<forall>fd' \<in> set l. \<forall>m. dup fd = Inr m \<and> dup fd' = Inr m \<longrightarrow> fd = fd'"
  shows "fds' = B \<union> set ends \<and> distinct ends \<and> length ends = length M + length l \<and>
    B \<inter> set ends = {} \<and> (\<forall>x \<in> set ends. 0 \<le> x) \<and> (err = None \<longrightarrow> (\<forall>x \<in> set ends. 2 < x))"
  using assms
proof (induction l arbitrary: M)
  case Nil
  then show ?case by fastforce
next
  case (Cons fd l)
  let ?fds = "B \<union> set M \<union> set (fd # l)"
  show ?case
  proof (cases "normalize_fd dup fd ?fds")
    case (Pair r fds1)
    show ?thesis
    proof (cases r)
      case (Inl m)
      with Pair have "fds1 = ?fds" by (auto simp: normalize_fd_def split: if_splits sum.splits)
      with Cons.prems(1) Pair Inl have "err = Some m" "ends = M @ fd # l" "fds' = ?fds" by auto
      with Cons.prems(2-5) show ?thesis by auto
    next
      case (Inr new)
      have "2 < new \<and> new \<notin> B \<union> set M \<union> set l \<and> fds1 = B \<union> set (M @ [new]) \<union> set l \<and>
          (new = fd \<or> dup fd = Inr new)"
      proof (cases "qemu_needs_fd_normalize fd")
        case True
        then have d: "dup fd = Inr new" "fds1 = close_if_open fd (insert new ?fds)"
          using Pair Inr by (auto simp: normalize_fd_def split: sum.splits)
        moreover have "2 < new" "new \<notin> ?fds" using Cons.prems(6) d(1) by auto
        moreover have "fd \<notin> B \<union> set M \<union> set l" "0 \<le> fd" using Cons.prems(2-4) by auto
        ultimately show ?thesis by (auto simp: close_if_open_def)
      next
        case False
        then have d: "new = fd" "fds1 = ?fds" using Pair Inr by (auto simp: normalize_fd_def)
        moreover have "2 < fd" using False Cons.prems(4) by (auto simp: qemu_needs_fd_normalize_def)
        ultimately show ?thesis using Cons.prems(2,3) by auto
      qed
      then have new: "2 < new" "new \<notin> B \<union> set M \<union> set l" "fds1 = B \<union> set (M @ [new]) \<union> set l"
        "new = fd \<or> dup fd = Inr new" by simp_all
      have run: "normalize_all dup l (M @ [new]) (B \<union> set (M @ [new]) \<union> set l) = (err, ends, fds')"
        using Cons.prems(1) Pair Inr new(3) by simp
      have fresh: "\<forall>fd' \<in> set l. \<forall>m. dup fd' = Inr m \<longrightarrow> 2 < m \<and> m \<notin> B \<union> set (M @ [new]) \<union> set l"
      proof (intro ballI allI impI)
        fix fd' m
        assume fd': "fd' \<in> set l" "dup fd' = Inr m"
        then have m: "2 < m" "m \<notin> B \<union> set M \<union> set (fd # l)" using Cons.prems(6) by auto
        moreover have "m \<noteq> new"
        proof
          assume "m = new"
          then have "dup fd = Inr m" using new(4) m(2) by auto
          then have "fd = fd'" using Cons.prems(7) fd' by auto
          then show False using Cons.prems(2) fd'(1) by simp
        qed
        ultimately show "2 < m \<and> m \<notin> B \<union> set (M @ [new]) \<union> set l" by auto
      qed
      have "distinct ((M @ [new]) @ l)" using Cons.prems(2) new(2) by simp
      moreover have "B \<inter> set ((M @ [new]) @ l) = {}" using Cons.prems(3) new(2) by auto
      moreover have "\<forall>x \<in> set l. 0 \<le> x" using Cons.prems(4) by simp
      moreover have "\<forall>x \<in> set (M @ [new]). 2 < x" using Cons.prems(5) new(1) by simp
      moreover have "\<forall>fd \<in> set l. \<forall>fd' \<in> set l. \<forall>m. dup fd = Inr m \<and> dup fd' = Inr m \<longrightarrow> fd = fd'"
        using Cons.prems(7) by (meson list.set_intros(2))
      moreover have "length (M @ [new]) + length l = length M + length (fd # l)" by simp
      ultimately show ?thesis
        using Cons.IH [OF run _ _ _ _ fresh] by presburger
    qed
  qed
qed

text \<open>What the kernel promises: descriptors it hands out are not in use.\<close>

definition kernel_ok :: "spawn_env \<Rightarrow> int set \<Rightarrow> bool" where
  "kernel_ok env fds \<longleftrightarrow>
     (\<forall>in0 in1. sp_pipe_in env = Inr (in0, in1) \<longrightarrow> distinct [in0, in1] \<and> 0 \<le> in0 \<and> 0 \<le> in1 \<and>
        fds \<inter> {in0, in1} = {} \<and>
        (\<forall>out0 out1. sp_pipe_out env = Inr (out0, out1) \<longrightarrow>
           distinct [in0, in1, out0, out1] \<and> 0 \<le> out0 \<and> 0 \<le> out1 \<and> fds \<inter> {out0, out1} = {} \<and>
           (\<forall>fd \<in> {in0, in1, out0, out1}. \<forall>m. sp_dup env fd = Inr m \<longrightarrow>
              2 < m \<and> m \<notin> fds \<union> {in0, in1, out0, out1} \<and>
              (\<forall>fd' \<in> {in0, in1, out0, out1}. sp_dup env fd' = Inr m \<longrightarrow> fd' = fd))))"

lemma child_stdio:
  assumes "distinct [in0, in1, out0, out1]" and "\<forall>x \<in> {in0, in1, out0, out1}. 2 < x"
  shows "fold run_action (child_actions in0 in1 out0 out1) t = (\<lambda>fd.
    if fd = 0 then t in0 else if fd = 1 \<or> fd = 2 then t out1
    else if fd \<in> {in0, in1, out0, out1} then None else t fd)"
proof
  fix fd
  have ne: "in0 \<noteq> 0" "in1 \<noteq> 0" "out0 \<noteq> 0" "out1 \<noteq> 0" "in0 \<noteq> 1" "in1 \<noteq> 1" "out0 \<noteq> 1" "out1 \<noteq> 1"
    "in0 \<noteq> 2" "in1 \<noteq> 2" "out0 \<noteq> 2" "out1 \<noteq> 2" using assms(2) by auto
  have "fold run_action (child_actions in0 in1 out0 out1) t =
      t(0 := t in0, 1 := t out1, 2 := t out1, in0 := None, in1 := None, out0 := None, out1 := None)"
    by (simp only: child_actions_def fold_simps run_action.simps fun_upd_apply ne if_False
        one_neq_zero numeral_neq_zero)
  note run = this
  show "fold run_action (child_actions in0 in1 out0 out1) t fd = (
    if fd = 0 then t in0 else if fd = 1 \<or> fd = 2 then t out1
    else if fd \<in> {in0, in1, out0, out1} then None else t fd)"
  proof (cases "fd \<in> {in0, in1, out0, out1}")
    case True
    then have "fd \<noteq> 0" "fd \<noteq> 1" "fd \<noteq> 2" using ne by auto
    with True show ?thesis unfolding run fun_upd_apply by auto
  next
    case False
    then show ?thesis unfolding run fun_upd_apply by simp
  qed
qed

text \<open>Every byte the pump reads before the loop stops.\<close>

fun pump_bytes :: "net_event list \<Rightarrow> string" where
  "pump_bytes [] = []"
| "pump_bytes (e # es) = (case e of Chunk c \<Rightarrow> c @ pump_bytes es | Retry \<Rightarrow> pump_bytes es | _ \<Rightarrow> [])"

lemma capture_tail:
  assumes "u = drop j w" and "min (length w) (kSerialCaptureCap div 2) \<le> length u"
  shows "\<exists>k. capture u c = drop k (w @ c) \<and> length (capture u c) \<le> kSerialCaptureCap \<and>
    min (length (w @ c)) (kSerialCaptureCap div 2) \<le> length (capture u c)"
proof (cases "kSerialCaptureCap < length (u @ c)")
  case False
  have "u @ c = drop (min j (length w)) (w @ c)" using assms(1) by (simp add: min_def)
  moreover have "capture u c = u @ c" using False by (simp add: capture_def Let_def)
  moreover have "min (length (w @ c)) (kSerialCaptureCap div 2) \<le> length (u @ c)"
    using assms(2) by (simp add: min_def split: if_splits)
  ultimately show ?thesis using False by (metis not_less)
next
  case True
  let ?i = "length (u @ c) - kSerialCaptureCap div 2"
  have "u @ c = drop (min j (length w)) (w @ c)" using assms(1) by (simp add: min_def)
  then have "drop ?i (u @ c) = drop (?i + min j (length w)) (w @ c)" by (metis drop_drop)
  moreover have "capture u c = drop ?i (u @ c)" using True by (simp add: capture_def Let_def)
  moreover have "length (drop ?i (u @ c)) = kSerialCaptureCap div 2" using True by simp
  ultimately show ?thesis by (intro exI [of _ "?i + min j (length w)"]) simp
qed

lemma pump_loop_tail:
  assumes "pump_loop es s = (s', ok, es')" and "s = drop j w" and "length s \<le> kSerialCaptureCap"
    and "min (length w) (kSerialCaptureCap div 2) \<le> length s"
  shows "\<exists>k. s' = drop k (w @ pump_bytes es) \<and> length s' \<le> kSerialCaptureCap \<and>
    min (length (w @ pump_bytes es)) (kSerialCaptureCap div 2) \<le> length s'"
  using assms
proof (induction es arbitrary: s w j)
  case (Cons e es)
  show ?case
  proof (cases e)
    case (Chunk c)
    obtain k where "capture s c = drop k (w @ c)" "length (capture s c) \<le> kSerialCaptureCap"
      "min (length (w @ c)) (kSerialCaptureCap div 2) \<le> length (capture s c)"
      using capture_tail [OF Cons.prems(2,4)] by blast
    from Cons.IH [OF _ this] Cons.prems(1) Chunk show ?thesis by simp
  next
    case Retry
    with Cons.IH [OF _ Cons.prems(2-4)] Cons.prems(1) show ?thesis by simp
  qed (use Cons.prems in auto)
qed auto

lemma qp_running_frame:
  "qp_running p = (alive, p') \<Longrightarrow> qp_qmp p' = qp_qmp p \<and> (alive \<longrightarrow> qp_pid p') \<and>
     qp_out_open p' = qp_out_open p \<and> qp_in_open p' = qp_in_open p \<and> alive = (qp_pid p \<and> fst (wait_nohang (qp_wait p)))"
  by (auto simp: qp_running_def split: if_splits prod.splits)

lemma wait_for_exit_frame:
  "qp_qmp (snd (wait_for_exit n p)) = qp_qmp p"
proof (induction n arbitrary: p)
  case 0
  obtain a q where "qp_running p = (a, q)" by force
  with qp_running_frame [OF this] show ?case by (subst wait_for_exit.simps) auto
next
  case (Suc n)
  obtain a q where "qp_running p = (a, q)" by force
  with qp_running_frame [OF this] Suc [of q] show ?case by (subst wait_for_exit.simps) auto
qed

definition qp_clean :: "QemuProcess \<Rightarrow> bool" where
  "qp_clean p \<longleftrightarrow> \<not> qp_pid p \<and> \<not> qp_out_open p \<and> \<not> qp_in_open p \<and>
     \<not> q_open (qp_qmp p) \<and> q_rx (qp_qmp p) = []"

lemma qmp_close_idle [simp]: "\<not> q_open q \<Longrightarrow> q_rx q = [] \<Longrightarrow> qmp_close q = q"
  by (simp add: qmp_close_def)

lemma qp_stop_result:
  obtains p0 where "qp_qmp p0 = qmp_close (qp_qmp p0)"
    and "snd (qp_stop parse build polls p) = qp_close_fds (p0\<lparr>qp_pid := False\<rparr>)"
proof (cases "qp_pid p")
  case False
  then have "snd (qp_stop parse build polls p)
      = qp_close_fds ((p\<lparr>qp_qmp := qmp_close (qp_qmp p)\<rparr>)\<lparr>qp_pid := False\<rparr>)"
    by (cases p) (simp add: qp_stop_def)
  then show ?thesis by (rule that [rotated]) (simp add: qmp_close_def)
next
  case True
  define q where "q = (if q_open (qp_qmp p) then snd (qmp_execute parse build ''quit'' [] (qp_qmp p)) else qp_qmp p)"
  define p1 where "p1 = p\<lparr>qp_qmp := qmp_close q\<rparr>"
  obtain alive p2 where r: "qp_running p1 = (alive, p2)" by force
  obtain ex p3 where w: "wait_for_exit (fst polls) p2 = (ex, p3)" by force
  define p4 where "p4 = (if \<not> alive then p2 else if ex then p3 else snd (wait_for_exit (snd polls) p3))"
  have "qp_qmp p2 = qmp_close q" using qp_running_frame [OF r] by (simp add: p1_def)
  moreover have "qp_qmp p3 = qp_qmp p2" using wait_for_exit_frame [of "fst polls" p2] w by simp
  ultimately have "qp_qmp p4 = qmp_close q" using wait_for_exit_frame by (simp add: p4_def)
  then have "qp_qmp p4 = qmp_close (qp_qmp p4)" by (simp add: qmp_close_def)
  moreover have "snd (qp_stop parse build polls p) = qp_close_fds (p4\<lparr>qp_pid := False\<rparr>)"
    using True r w by (auto simp: qp_stop_def Let_def split_def q_def p1_def p4_def)
  ultimately show ?thesis by (rule that)
qed

lemma qp_stop_clean: "qp_clean (snd (qp_stop parse build polls p))"
proof -
  obtain p0 where "qp_qmp p0 = qmp_close (qp_qmp p0)"
    "snd (qp_stop parse build polls p) = qp_close_fds (p0\<lparr>qp_pid := False\<rparr>)"
    by (rule qp_stop_result)
  moreover have "\<not> q_open (qmp_close q)" "q_rx (qmp_close q) = []" for q by (simp_all add: qmp_close_def)
  ultimately have "\<not> q_open (qp_qmp p0)" "q_rx (qp_qmp p0) = []" by metis+
  then show ?thesis unfolding \<open>snd (qp_stop parse build polls p) = _\<close>
    by (simp add: qp_clean_def qp_close_fds_def)
qed

definition demo_spawn :: "string option \<Rightarrow> spawn_env" where
  "demo_spawn m = \<lparr>sp_pipe_in = Inr (0, 4), sp_pipe_out = Inr (5, 6), sp_dup = (\<lambda>fd. Inr (fd + 7)),
     sp_action_error = None, sp_spawn_error = m, sp_nonblock_error = None\<rparr>"

lemma demo_spawn_ok: "kernel_ok (demo_spawn m) {1, 2, 3}"
  by (auto simp: kernel_ok_def demo_spawn_def)

definition demo_process :: "wait_event list \<Rightarrow> QemuProcess" where
  "demo_process es = qp_new\<lparr>qp_pid := True, qp_out_open := True, qp_in_open := True, qp_wait := es\<rparr>"

section \<open>Properties\<close>

text \<open>
  Property C20. A spawn leaks no descriptor and wires the child right, also where the caller runs
  with its standard streams closed: on any failure the parent has exactly the descriptors it
  had before and no child; on success exactly two more, neither a standard stream, and the
  child's standard input is one pipe, its output and error the other, the four pipe ends are
  closed in it and nothing else changed.
\<close>

theorem spawn_exact:
  assumes "kernel_ok env fds" and "spawn_pipes argv env fds = (res, fds', acts)"
  shows "case res of
      Inl m \<Rightarrow> fds' = fds \<and> acts = None
    | Inr (r, w) \<Rightarrow> 2 < r \<and> 2 < w \<and> r \<noteq> w \<and> r \<notin> fds \<and> w \<notin> fds \<and> fds' = insert r (insert w fds) \<and>
        (\<exists>in0 out1 as. acts = Some as \<and> {in0, out1} \<inter> {r, w} = {} \<and> (\<forall>t. fold run_action as t = (\<lambda>fd.
           if fd = 0 then t in0 else if fd = 1 \<or> fd = 2 then t out1
           else if fd \<in> {in0, w, r, out1} then None else t fd)))"
proof (cases "argv = [] \<or> (\<exists>m. sp_pipe_in env = Inl m)")
  case True
  then have "\<exists>m. spawn_pipes argv env fds = (Inl m, fds, None)"
    by (elim disjE exE) (simp_all add: spawn_pipes_def)
  with assms(2) show ?thesis by auto
next
  case False
  then obtain in0 in1 where i: "argv \<noteq> []" "sp_pipe_in env = Inr (in0, in1)" by (cases "sp_pipe_in env") auto
  have ki: "in0 \<noteq> in1" "0 \<le> in0" "0 \<le> in1" "fds \<inter> {in0, in1} = {}"
    using assms(1) i(2) by (auto simp: kernel_ok_def)
  show ?thesis
  proof (cases "sp_pipe_out env")
    case (Inl m)
    have "close_all [in0, in1] (insert in0 (insert in1 fds)) = fds"
      using ki by (subst close_all_minus) auto
    then have "\<exists>m. spawn_pipes argv env fds = (Inl m, fds, None)"
      using i Inl by (simp add: spawn_pipes_def Let_def)
    with assms(2) show ?thesis by auto
  next
    case (Inr p)
    obtain out0 out1 where p: "p = (out0, out1)" by force
    let ?l = "[in0, in1, out0, out1]"
    have k: "distinct ?l" "0 \<le> out0" "0 \<le> out1" "fds \<inter> set ?l = {}"
      and fresh: "\<forall>fd \<in> set ?l. \<forall>m. sp_dup env fd = Inr m \<longrightarrow> 2 < m \<and> m \<notin> fds \<union> set [] \<union> set ?l"
      and inj: "\<forall>fd \<in> set ?l. \<forall>fd' \<in> set ?l. \<forall>m. sp_dup env fd = Inr m \<and> sp_dup env fd' = Inr m \<longrightarrow> fd = fd'"
      using assms(1) i(2) Inr p ki by (auto simp: kernel_ok_def)
    have nonneg: "\<forall>x \<in> set ?l. 0 \<le> x" using ki k by simp
    obtain err ends fds1 where n: "normalize_all (sp_dup env) ?l [] (fds \<union> set [] \<union> set ?l) = (err, ends, fds1)"
      by (metis prod_cases3)
    have e: "fds1 = fds \<union> set ends" "distinct ends" "length ends = 4" "fds \<inter> set ends = {}"
      "\<forall>x \<in> set ends. 0 \<le> x" "err = None \<longrightarrow> (\<forall>x \<in> set ends. 2 < x)"
      using normalize_all_ends [OF n _ _ nonneg _ fresh inj] k(1,4) by auto
    have sets: "insert out0 (insert out1 (insert in0 (insert in1 fds))) = fds \<union> set [] \<union> set ?l" by auto
    have restored: "close_all ends fds1 = fds" using e(1,4,5) by (subst close_all_minus) auto
    show ?thesis
    proof (cases "err = None \<and> sp_action_error env = None \<and> sp_spawn_error env = None")
      case False
      then have "(\<exists>m. res = Inl m) \<and> fds' = fds \<and> acts = None"
        using assms(2) i Inr p n restored
        by (auto simp: spawn_pipes_def Let_def sets split: option.splits)
      then show ?thesis by auto
    next
      case True
      obtain a b c d where ends: "ends = [a, b, c, d]"
        using e(3) by (auto simp: numeral_eq_Suc length_Suc_conv)
      have r: "res = Inr (c, b)" "fds' = close_all [a, d] fds1" "acts = Some (child_actions a b c d)"
        using assms(2) i Inr p n True by (auto simp: spawn_pipes_def Let_def sets ends numeral_eq_Suc)
      have "fds' = insert c (insert b fds)"
        unfolding r(2) using e(1,2,4,5) by (subst close_all_minus) (auto simp: ends)
      moreover have d: "distinct [a, b, c, d]" "\<forall>x \<in> {a, b, c, d}. 2 < x"
        using e(2,6) True by (simp_all add: ends)
      moreover have "\<exists>in0 out1 as. acts = Some as \<and> {in0, out1} \<inter> {c, b} = {} \<and>
          (\<forall>t. fold run_action as t = (\<lambda>fd.
           if fd = 0 then t in0 else if fd = 1 \<or> fd = 2 then t out1
           else if fd \<in> {in0, b, c, out1} then None else t fd))"
        by (rule exI [of _ a], rule exI [of _ d], rule exI [of _ "child_actions a b c d"])
          (use d(1) in \<open>simp add: r(3) child_stdio [OF d]\<close>)
      ultimately show ?thesis using e(4) by (simp add: r(1) ends)
    qed
  qed
qed

theorem spawn_exact_witness:
  "fst (snd (spawn_pipes [''qemu''] (demo_spawn (Some ''no such file'')) {1, 2, 3})) = {1, 2, 3}"
proof -
  obtain fds' acts where
    "spawn_pipes [''qemu''] (demo_spawn (Some ''no such file'')) {1, 2, 3} =
       (Inl ''posix_spawn qemu: no such file'', fds', acts)"
    by (simp add: spawn_pipes_def demo_spawn_def Let_def normalize_fd_def qemu_needs_fd_normalize_def)
  with spawn_exact [OF demo_spawn_ok this] show ?thesis by simp
qed

text \<open>
  The captured serial output is always the tail of everything the child printed: it
  never exceeds the cap, and nothing of the last half cap (or of all, if less) is ever lost,
  however the reads cut it.
\<close>

theorem pump_keeps_tail:
  assumes "qp_out_open p" and "length (qp_captured p) \<le> kSerialCaptureCap"
  shows "\<exists>k. qp_captured (qp_pump p) = drop k (qp_captured p @ pump_bytes (qp_out_events p)) \<and>
    length (qp_captured (qp_pump p)) \<le> kSerialCaptureCap \<and>
    min (length (qp_captured p @ pump_bytes (qp_out_events p))) (kSerialCaptureCap div 2)
      \<le> length (qp_captured (qp_pump p))"
proof -
  obtain s op es where r: "pump_loop (qp_out_events p) (qp_captured p) = (s, op, es)"
    by (metis prod_cases3)
  from pump_loop_tail [OF r, of 0 "qp_captured p"] assms(2) r assms(1) show ?thesis
    by (simp add: qp_pump_def)
qed

theorem pump_keeps_tail_witness:
  "length (qp_captured (qp_pump (qp_new\<lparr>qp_out_open := True,
     qp_out_events := [Chunk (replicate (2 * kSerialCaptureCap) CHR ''a''), Retry, Chunk ''b'']\<rparr>)))
   \<le> kSerialCaptureCap"
  using pump_keeps_tail [of "qp_new\<lparr>qp_out_open := True,
     qp_out_events := [Chunk (replicate (2 * kSerialCaptureCap) CHR ''a''), Retry, Chunk ''b'']\<rparr>"]
  by (auto simp: qp_new_def)

lemma qp_stop_again:
  assumes "qp_clean p" shows "qp_stop parse build polls p = ([], p)"
proof -
  have "qp_close_fds p = p" using assms by (cases p) (simp add: qp_clean_def qp_close_fds_def)
  with assms show ?thesis by (simp add: qp_stop_def qp_clean_def)
qed

lemma qp_pump_frame [simp]: "qp_pid (qp_pump p) = qp_pid p" "qp_qmp (qp_pump p) = qp_qmp p"
  by (simp_all add: qp_pump_def split: prod.splits)



lemma start_loop_result:
  "start_loop parse build polls path as err p = (e, p') \<Longrightarrow> qp_pid p \<Longrightarrow> qp_out_open p \<Longrightarrow> qp_in_open p \<Longrightarrow>
     (e = None \<longrightarrow> qp_pid p' \<and> qp_out_open p' \<and> qp_in_open p' \<and> q_open (qp_qmp p') \<and>
        q_sent (qp_qmp p') = capabilities_cmd @ [nl]) \<and> (e \<noteq> None \<longrightarrow> qp_clean p')"
proof (induction as arbitrary: err p)
  case (Cons a as)
  obtain m q where c: "qmp_connect parse path (at_conn a) (at_in a) (at_out a) (qp_qmp p) = (m, q)" by force
  show ?case
  proof (cases m)
    case None
    with c have "qmp_connect parse path (at_conn a) (at_in a) (at_out a) (qp_qmp p) = (None, q)" by simp
    from qmp_connect_ok [OF this] None c Cons.prems show ?thesis by auto
  next
    case (Some m')
    obtain alive p2 where r: "qp_running (p\<lparr>qp_qmp := q\<rparr>) = (alive, p2)" by force
    from qp_running_frame [OF r] have f: "alive \<longrightarrow> qp_pid p2" "qp_out_open p2 = qp_out_open p"
      "qp_in_open p2 = qp_in_open p" by simp_all
    show ?thesis
    proof (cases "alive \<and> \<not> at_interrupted a \<and> \<not> at_deadline a")
      case True
      with Cons.IH [of m' p2] Cons.prems c Some r f show ?thesis by simp
    next
      case False
      with Cons.prems(1) c Some r have "p' = snd (qp_stop parse build polls p2) \<and> e \<noteq> None"
        by (auto split: if_splits)
      then show ?thesis using qp_stop_clean [of parse build polls p2] by auto
    qed
  qed
qed (auto simp: qp_stop_clean)

lemma start_result:
  assumes "qp_start parse build polls spec env outs waits fds attempts p = (err, p')" and "qp_clean p"
  shows "(err = None \<longrightarrow> qp_pid p' \<and> qp_out_open p' \<and> qp_in_open p' \<and> q_open (qp_qmp p') \<and>
      q_sent (qp_qmp p') = capabilities_cmd @ [nl]) \<and>
    (err \<noteq> None \<longrightarrow> qp_clean p')"
proof -
  obtain m p1 where s: "qp_spawn_only parse build polls (qemu_build_argv spec) env outs waits fds p = (m, p1)"
    by force
  have sp: "(m = None \<longrightarrow> qp_pid p1 \<and> qp_out_open p1 \<and> qp_in_open p1) \<and> (m \<noteq> None \<longrightarrow> qp_clean p1)"
    using s assms(2)
    by (auto simp: qp_stop_clean qp_spawn_only_def Let_def split: prod.splits sum.splits option.splits)
  show ?thesis
  proof (cases m)
    case None
    with assms(1) s sp start_loop_result [of parse build polls "qs_qmp_socket spec" attempts "[]" p1 err p']
    show ?thesis by (simp add: qp_start_def)
  next
    case (Some x)
    with assms(1) s sp show ?thesis by (auto simp: qp_start_def)
  qed
qed

text \<open>
  Property C22. Starting is all or nothing: success means a running child with both pipes open and
  a QMP session on which the capabilities were accepted; any failure (spawn, early exit, an
  interrupt, the deadline) leaves no child, no open pipe and no session behind.
\<close>

theorem start_all_or_nothing:
  assumes "qp_start parse build polls spec env outs waits fds attempts p = (err, p')" and "qp_clean p"
  shows "(err = None \<longrightarrow> qp_pid p' \<and> qp_out_open p' \<and> qp_in_open p' \<and> q_open (qp_qmp p') \<and>
      q_sent (qp_qmp p') = capabilities_cmd @ [nl]) \<and>
    (err \<noteq> None \<longrightarrow> qp_clean p')"
  by (rule start_result [OF assms])

definition demo_spec :: QemuSpec where
  "demo_spec = \<lparr>qs_bin = ''qemu'', qs_machine = ''esp32c3'', qs_image = ''flash'', qs_icount = True,
     qs_qmp_socket = ''/tmp/q'', qs_agent_socket = [], qs_host_port = 0, qs_guest_port = 0\<rparr>"

theorem start_all_or_nothing_witness:
  "qp_clean (snd (qp_start demo_parse demo_build (1, 1) demo_spec (demo_spawn None) [] [Reaped] {1, 2, 3}
     [\<lparr>at_conn = ConnFailed ''no such file'', at_in = [], at_out = [], at_interrupted = False,
       at_deadline = False\<rparr>] qp_new))"
proof -
  let ?r = "qp_start demo_parse demo_build (1, 1) demo_spec (demo_spawn None) [] [Reaped] {1, 2, 3}
     [\<lparr>at_conn = ConnFailed ''no such file'', at_in = [], at_out = [], at_interrupted = False,
       at_deadline = False\<rparr>] qp_new"
  have c: "qp_clean qp_new" by (simp add: qp_clean_def qp_new_def qmp_new_def)
  have "fst ?r \<noteq> None" by code_simp
  with start_all_or_nothing [of demo_parse demo_build "(1, 1)" demo_spec "demo_spawn None" "[]" "[Reaped]"
      "{1, 2, 3}" _ qp_new "fst ?r" "snd ?r", OF _ c] show ?thesis by (metis prod.collapse)
qed

end
