(* ===== verification/QemuBoard.thy ===== *)
theory QemuBoard
  imports Target
begin

text \<open>
  Board specifications as data (\<^verbatim>\<open>backends/qemu/qemu_board.cpp\<close>): the validation of a JSON
  board, its registration as a target and the two installers. The JSON library is the parameter
  \<open>parse\<close>; the record \<open>board_doc\<close> has the value of each access expression of the code, its
  default applied (\<^verbatim>\<open>doc["key"] | ""\<close> and so on), \<^const>\<open>None\<close> where \<^verbatim>\<open>isNull()\<close> holds.
\<close>

record QemuButtonSpec =
  qb_label :: string
  qb_gpio :: int
  qb_key :: string
  qb_edge :: string
  qb_pos :: rat
  qb_active_low :: bool

record QemuBoardSpec =
  bs_key :: string
  bs_name :: string
  bs_description :: string
  bs_machine :: string
  bs_arch :: string
  bs_display_w :: int
  bs_display_h :: int
  bs_agent :: bool
  bs_buttons :: "QemuButtonSpec list"
  bs_http_guest_port :: int

record board_doc =
  d_key :: string
  d_name :: string
  d_description :: string
  d_machine :: string
  d_arch :: string
  d_display :: "(int \<times> int) option"
  d_agent :: bool
  d_http :: "int option"
  d_buttons :: "QemuButtonSpec list option"

type_synonym board_parse = "string \<Rightarrow> board_doc option"

definition edges :: "string list" where
  "edges = [''right'', ''left'', ''top'', ''bottom'']"

text \<open>The loop over the buttons; the first bad one ends it.\<close>

fun check_buttons :: "QemuButtonSpec list \<Rightarrow> string option" where
  "check_buttons [] = None"
| "check_buttons (b # bs) =
     (if qb_label b = [] \<or> qb_gpio b < 0 \<or> 63 < qb_gpio b
      then Some ''board spec button needs a non-empty label and gpio 0..63''
      else if qb_edge b \<notin> set edges
      then Some (''board spec button edge must be right|left|top|bottom, got '' @ CHR 0x27 # qb_edge b @ [CHR 0x27])
      else if 1 < length (qb_key b) then Some ''board spec button key must be a single character''
      else check_buttons bs)"

definition qemu_board_parse :: "board_parse \<Rightarrow> string \<Rightarrow> string + QemuBoardSpec" where
  "qemu_board_parse parse json = (case parse json of
     None \<Rightarrow> Inl ''board spec is not valid JSON''
   | Some d \<Rightarrow>
      if d_key d = [] \<or> d_description d = [] \<or> d_machine d = []
      then Inl ''board spec needs non-empty key, description, and machine''
      else if d_arch d \<noteq> ''riscv32'' \<and> d_arch d \<noteq> ''xtensa''
      then Inl (''board spec arch must be riscv32 or xtensa, got '' @ CHR 0x27 # d_arch d @ [CHR 0x27])
      else if (case d_display d of None \<Rightarrow> False | Some (w, h) \<Rightarrow> w < 1 \<or> 4096 < w \<or> h < 1 \<or> 4096 < h)
      then Inl ''board spec display needs width and height in 1..4096''
      else if (case d_http d of None \<Rightarrow> False | Some gp \<Rightarrow> gp < 1 \<or> 65535 < gp)
      then Inl ''board spec http needs guest_port in 1..65535''
      else if d_buttons d \<noteq> None \<and> \<not> d_agent d
      then Inl (''board spec buttons need '' @ CHR 0x22 # ''agent'' @ CHR 0x22 #
                '': true (presses route through the guest agent)'')
      else (case check_buttons (case d_buttons d of None \<Rightarrow> [] | Some bs \<Rightarrow> bs) of
          Some m \<Rightarrow> Inl m
        | None \<Rightarrow> Inr \<lparr>bs_key = d_key d,
            bs_name = (if d_name d = [] then d_key d else d_name d),
            bs_description = d_description d, bs_machine = d_machine d, bs_arch = d_arch d,
            bs_display_w = (case d_display d of None \<Rightarrow> 0 | Some (w, h) \<Rightarrow> w),
            bs_display_h = (case d_display d of None \<Rightarrow> 0 | Some (w, h) \<Rightarrow> h),
            bs_agent = d_agent d,
            bs_buttons = (case d_buttons d of None \<Rightarrow> [] | Some bs \<Rightarrow> bs),
            bs_http_guest_port = (case d_http d of None \<Rightarrow> 0 | Some gp \<Rightarrow> gp)\<rparr>))"

section \<open>Registration\<close>

definition parse_edge :: "string \<Rightarrow> SimEdge" where
  "parse_edge e =
     (if e = ''left'' then EDGE_LEFT else if e = ''top'' then EDGE_TOP
      else if e = ''bottom'' then EDGE_BOTTOM else EDGE_RIGHT)"

definition board_button :: "QemuButtonSpec \<Rightarrow> SimButton" where
  "board_button b = \<lparr>b_label = qb_label b, b_action = ACT_GPIO, b_gpio = qb_gpio b,
     b_key = (case qb_key b of [] \<Rightarrow> CHR 0x00 | c # _ \<Rightarrow> c), b_edge = parse_edge (qb_edge b),
     b_pos = qb_pos b, b_active_low = qb_active_low b\<rparr>"

definition board_target :: "QemuBoardSpec \<Rightarrow> 'w SimTarget" where
  "board_target s = \<lparr>t_key = bs_key s, t_description = bs_description s, t_setup = None, t_loop = None,
     t_board = Some \<lparr>bd_name = bs_name s, bd_width = bs_display_w s, bd_height = bs_display_h s,
       bd_has_rotation = False, bd_has_battery = False, bd_has_imu = False,
       bd_buttons = map board_button (bs_buttons s)\<rparr>,
     t_backend = BACKEND_QEMU,
     t_qemu = Some \<lparr>m_machine = bs_machine s, m_arch = bs_arch s, m_agent = bs_agent s,
       m_http_guest_port = bs_http_guest_port s\<rparr>\<rparr>"

definition qemu_board_register :: "QemuBoardSpec \<Rightarrow> 'w registry \<Rightarrow> string option \<times> 'w registry" where
  "qemu_board_register s reg =
     (if sim_target (bs_key s) reg \<noteq> None
      then (Some (''duplicate target key '' @ CHR 0x27 # bs_key s @ [CHR 0x27]), reg)
      else (None, sim_register_target (board_target s) reg))"

text \<open>\<open>content\<close>: what reading the file gives, \<^const>\<open>None\<close> where it cannot be opened.\<close>

definition qemu_board_register_file :: "board_parse \<Rightarrow> string \<Rightarrow> string option \<Rightarrow> 'w registry
    \<Rightarrow> string option \<times> 'w registry" where
  "qemu_board_register_file parse path content reg = (case content of
     None \<Rightarrow> (Some (''ESPRITE_QEMU_BOARD file not readable: '' @ path), reg)
   | Some json \<Rightarrow> (case qemu_board_parse parse json of
       Inl m \<Rightarrow> (Some (path @ '': '' @ m), reg)
     | Inr s \<Rightarrow> qemu_board_register s reg))"

section \<open>The installers\<close>

text \<open>The \<^verbatim>\<open>static bool done\<close> of each installer is part of the state with the registry.\<close>

record 'w boards =
  bo_reg :: "'w registry"
  bo_builtin_done :: bool
  bo_env_done :: bool

fun install_list :: "board_parse \<Rightarrow> string list \<Rightarrow> 'w registry \<Rightarrow> string option \<times> 'w registry" where
  "install_list parse [] reg = (None, reg)"
| "install_list parse (j # js) reg = (case qemu_board_parse parse j of
     Inl m \<Rightarrow> (Some m, reg)
   | Inr s \<Rightarrow> (case qemu_board_register s reg of
       (Some m, reg) \<Rightarrow> (Some m, reg) | (None, reg) \<Rightarrow> install_list parse js reg))"

definition qemu_builtin_boards_install :: "board_parse \<Rightarrow> string list \<Rightarrow> 'w boards
    \<Rightarrow> string option \<times> 'w boards" where
  "qemu_builtin_boards_install parse builtins b =
     (if bo_builtin_done b then (None, b)
      else (case install_list parse builtins (bo_reg b) of
          (Some m, reg) \<Rightarrow> (Some m, b\<lparr>bo_reg := reg\<rparr>)
        | (None, reg) \<Rightarrow> (None, b\<lparr>bo_reg := reg, bo_builtin_done := True\<rparr>)))"

text \<open>\<open>env\<close>: the variable \<^verbatim>\<open>ESPRITE_QEMU_BOARD\<close>, with what its file holds.\<close>

definition qemu_env_board_install :: "board_parse \<Rightarrow> (string \<times> string option) option \<Rightarrow> 'w boards
    \<Rightarrow> string option \<times> 'w boards" where
  "qemu_env_board_install parse env b =
     (if bo_env_done b then (None, b)
      else (case env of None \<Rightarrow> (None, b\<lparr>bo_env_done := True\<rparr>)
        | Some (path, content) \<Rightarrow> (case qemu_board_register_file parse path content (bo_reg b) of
            (Some m, reg) \<Rightarrow> (Some m, b\<lparr>bo_reg := reg\<rparr>)
          | (None, reg) \<Rightarrow> (None, b\<lparr>bo_reg := reg, bo_env_done := True\<rparr>))))"

definition qemu_boards_install :: "board_parse \<Rightarrow> string list \<Rightarrow> (string \<times> string option) option
    \<Rightarrow> 'w boards \<Rightarrow> string option \<times> 'w boards" where
  "qemu_boards_install parse builtins env b = (case qemu_builtin_boards_install parse builtins b of
     (Some m, b) \<Rightarrow> (Some m, b) | (None, b) \<Rightarrow> qemu_env_board_install parse env b)"

text \<open>\<^verbatim>\<open>install_qemu_boards_gated\<close> of the CLI: \<open>gate\<close> is \<^verbatim>\<open>ESPRITE_REGISTER_QEMU_BUILTINS\<close>.\<close>

definition install_qemu_boards_gated :: "board_parse \<Rightarrow> string list \<Rightarrow> string option
    \<Rightarrow> (string \<times> string option) option \<Rightarrow> 'w boards \<Rightarrow> string option \<times> 'w boards" where
  "install_qemu_boards_gated parse builtins gate env b =
     (case (if gate = Some ''0'' then (None, b) else qemu_builtin_boards_install parse builtins b) of
        (Some m, b) \<Rightarrow> (Some m, b) | (None, b) \<Rightarrow> qemu_env_board_install parse env b)"

section \<open>Lemmas\<close>

definition button_valid :: "QemuButtonSpec \<Rightarrow> bool" where
  "button_valid b \<longleftrightarrow> qb_label b \<noteq> [] \<and> 0 \<le> qb_gpio b \<and> qb_gpio b \<le> 63 \<and>
     qb_edge b \<in> set edges \<and> length (qb_key b) \<le> 1"

lemma check_buttons_iff: "check_buttons bs = None \<longleftrightarrow> (\<forall>b \<in> set bs. button_valid b)"
  by (induction bs) (auto simp: button_valid_def)

definition board_valid :: "QemuBoardSpec \<Rightarrow> bool" where
  "board_valid s \<longleftrightarrow> bs_key s \<noteq> [] \<and> bs_name s \<noteq> [] \<and> bs_description s \<noteq> [] \<and> bs_machine s \<noteq> [] \<and>
     bs_arch s \<in> {''riscv32'', ''xtensa''} \<and>
     (bs_display_w s = 0 \<and> bs_display_h s = 0 \<or>
      1 \<le> bs_display_w s \<and> bs_display_w s \<le> 4096 \<and> 1 \<le> bs_display_h s \<and> bs_display_h s \<le> 4096) \<and>
     0 \<le> bs_http_guest_port s \<and> bs_http_guest_port s \<le> 65535 \<and>
     (bs_buttons s \<noteq> [] \<longrightarrow> bs_agent s) \<and> (\<forall>b \<in> set (bs_buttons s). button_valid b)"

lemma if_Inl_InrD: "(if b then Inl m else r) = Inr s \<Longrightarrow> \<not> b \<and> r = Inr s"
  by (simp split: if_splits)

lemma qemu_board_parse_valid:
  assumes "qemu_board_parse parse json = Inr s"
  shows "board_valid s"
proof (cases "parse json")
  case None
  with assms show ?thesis by (simp add: qemu_board_parse_def)
next
  case (Some d)
  show ?thesis
    using assms unfolding qemu_board_parse_def Some option.case
    by (elim if_Inl_InrD [elim_format] conjE, cases "check_buttons (case d_buttons d of None \<Rightarrow> [] | Some bs \<Rightarrow> bs)")
      (clarsimp simp: board_valid_def check_buttons_iff, auto split: option.splits)
qed

text \<open>The well-formed registry: keys are distinct, and a QEMU target has a machine and a valid board.\<close>

definition target_ok :: "'w SimTarget \<Rightarrow> bool" where
  "target_ok t \<longleftrightarrow> (t_backend t = BACKEND_QEMU \<longrightarrow>
     (\<exists>s. board_valid s \<and> t = board_target s))"

definition registry_ok :: "'w registry \<Rightarrow> bool" where
  "registry_ok reg \<longleftrightarrow> distinct (map t_key reg) \<and> (\<forall>t \<in> set reg. target_ok t)"

lemma t_key_board_target [simp]: "t_key (board_target s) = bs_key s"
  by (simp add: board_target_def)

lemma register_ok:
  assumes "qemu_board_register s reg = (m, reg')" and "registry_ok reg" and "board_valid s"
  shows "registry_ok reg' \<and> (\<exists>ts. reg' = reg @ ts) \<and>
    (m = None \<longrightarrow> sim_target (bs_key s) reg' = Some (length reg) \<and> reg' = reg @ [board_target s])"
proof (cases "sim_target (bs_key s) reg")
  case (Some i)
  with assms(1) have "m \<noteq> None" "reg' = reg" by (auto simp: qemu_board_register_def)
  with assms(2) show ?thesis by simp
next
  case None
  have reg': "m = None" "reg' = reg @ [board_target s]"
    using assms(1) None by (simp_all add: qemu_board_register_def sim_register_target_def)
  have fresh: "bs_key s \<notin> t_key ` set reg" using None by (auto simp: sim_target_None)
  have "registry_ok reg'"
    using assms(2,3) fresh by (auto simp: reg' registry_ok_def target_ok_def)
  moreover have "sim_target (bs_key s) reg' = Some (length reg)"
    using sim_target_register_new [of "board_target s" reg] None
    by (simp add: reg' sim_register_target_def)
  ultimately show ?thesis using reg' by simp
qed

lemma install_list_ok:
  "install_list parse js reg = (m, reg') \<Longrightarrow> registry_ok reg \<Longrightarrow> registry_ok reg' \<and> (\<exists>ts. reg' = reg @ ts)"
proof (induction js arbitrary: reg)
  case (Cons j js)
  show ?case
  proof (cases "qemu_board_parse parse j")
    case (Inl x)
    with Cons.prems show ?thesis by simp
  next
    case (Inr s)
    obtain m1 reg1 where r: "qemu_board_register s reg = (m1, reg1)" by force
    have ok: "registry_ok reg1" "\<exists>ts. reg1 = reg @ ts"
      using register_ok [OF r Cons.prems(2) qemu_board_parse_valid [OF Inr]] by simp_all
    show ?thesis
    proof (cases m1)
      case None
      with Cons.IH [of reg1] Cons.prems(1) Inr r ok show ?thesis by force
    next
      case (Some x)
      with Cons.prems(1) Inr r ok show ?thesis by simp
    qed
  qed
qed simp

lemma builtin_install_ok:
  "qemu_builtin_boards_install parse js b = (m, b') \<Longrightarrow> registry_ok (bo_reg b) \<Longrightarrow>
     registry_ok (bo_reg b') \<and> (\<exists>ts. bo_reg b' = bo_reg b @ ts)"
  using install_list_ok [of parse js "bo_reg b"]
  by (auto simp: qemu_builtin_boards_install_def split: if_splits prod.splits option.splits)

lemma env_install_ok:
  "qemu_env_board_install parse env b = (m, b') \<Longrightarrow> registry_ok (bo_reg b) \<Longrightarrow>
     registry_ok (bo_reg b') \<and> (\<exists>ts. bo_reg b' = bo_reg b @ ts)"
proof (cases "bo_env_done b \<or> env = None")
  case False
  assume a: "qemu_env_board_install parse env b = (m, b')" "registry_ok (bo_reg b)"
  obtain path content where env: "env = Some (path, content)" using False by auto
  obtain m1 reg1 where r: "qemu_board_register_file parse path content (bo_reg b) = (m1, reg1)" by force
  have "registry_ok reg1 \<and> (\<exists>ts. reg1 = bo_reg b @ ts)"
    using r a(2) register_ok [OF _ a(2) qemu_board_parse_valid]
    by (auto simp: qemu_board_register_file_def split: option.splits sum.splits)
  moreover have "bo_reg b' = reg1"
    using a(1) False env r by (auto simp: qemu_env_board_install_def split: option.splits)
  ultimately show ?thesis by simp
qed (auto simp: qemu_env_board_install_def split: if_splits)

definition demo_doc :: board_doc where
  "demo_doc = \<lparr>d_key = ''c3'', d_name = [], d_description = ''C3 board'', d_machine = ''esp32c3'',
     d_arch = ''riscv32'', d_display = Some (320, 240), d_agent = True, d_http = None,
     d_buttons = Some [\<lparr>qb_label = ''BOOT'', qb_gpio = 9, qb_key = [], qb_edge = ''left'',
       qb_pos = -1, qb_active_low = True\<rparr>]\<rparr>"

section \<open>Properties\<close>

text \<open>
  Property C24. A board specification that is accepted is within every limit the rest of the
  program relies on, whatever the JSON says: names not empty, a known architecture, a display of
  1 to 4096 pixels a side or none, a port in range, buttons only where there is an agent, each
  with a label, a pin 0 to 63, a known edge and at most one key. Its registration is found under
  its key, as a QEMU target whose GPIO buttons all fit the pin table, and moves no other target.
\<close>

theorem board_spec_safe:
  assumes "qemu_board_parse parse json = Inr s" and "qemu_board_register s reg = (None, reg')"
  shows "board_valid s \<and> sim_target (bs_key s) reg' = Some (length reg) \<and>
    t_backend (reg' ! length reg) = BACKEND_QEMU \<and>
    (\<exists>b. t_board (reg' ! length reg) = Some b \<and> 0 \<le> bd_width b \<and> bd_width b \<le> 4096 \<and>
       0 \<le> bd_height b \<and> bd_height b \<le> 4096 \<and>
       (\<forall>btn \<in> set (bd_buttons b). b_action btn = ACT_GPIO \<and> 0 \<le> b_gpio btn \<and> b_gpio btn < 64)) \<and>
    (\<forall>key i. sim_target key reg = Some i \<longrightarrow> sim_target key reg' = Some i)"
proof -
  have v: "board_valid s" by (rule qemu_board_parse_valid [OF assms(1)])
  have n: "sim_target (bs_key s) reg = None"
    using assms(2) by (cases "sim_target (bs_key s) reg") (simp_all add: qemu_board_register_def)
  have r: "reg' = sim_register_target (board_target s) reg"
    using assms(2) n by (simp add: qemu_board_register_def)
  have t: "reg' ! length reg = board_target s" by (simp add: r sim_register_target_def)
  have "sim_target (bs_key s) reg' = Some (length reg)"
    using sim_target_register_new [of "board_target s" reg] n r by (simp add: board_target_def)
  moreover have "\<forall>b \<in> set (bs_buttons s). 0 \<le> qb_gpio b \<and> qb_gpio b < 64"
    using v by (auto simp: board_valid_def button_valid_def)
  ultimately show ?thesis
    using v sim_target_register_old [of _ reg _ "board_target s"] unfolding t
    by (auto simp: r board_target_def board_button_def board_valid_def)
qed

theorem board_spec_safe_witness:
  "sim_target ''c3'' (snd (qemu_board_register (case qemu_board_parse (\<lambda>_. Some demo_doc) [] of Inr s \<Rightarrow> s)
     ([] :: unit registry))) = Some 0"
proof -
  obtain s where s: "qemu_board_parse (\<lambda>_. Some demo_doc) [] = Inr s" "bs_key s = ''c3''"
    by (simp add: qemu_board_parse_def demo_doc_def edges_def)
  have "qemu_board_register s ([] :: unit registry) = (None, snd (qemu_board_register s []))"
    by (simp add: qemu_board_register_def)
  from board_spec_safe [OF s(1) this] s show ?thesis by simp
qed

text \<open>
  Property C25. Installing boards keeps the registry well formed (distinct keys, every QEMU target
  made from a valid specification) and only ever adds to it, on errors too; and once an install
  has succeeded, the next one changes nothing.
\<close>

theorem install_boards_safe:
  assumes "install_qemu_boards_gated parse builtins gate env b = (m, b')" and "registry_ok (bo_reg b)"
  shows "registry_ok (bo_reg b') \<and> (\<exists>ts. bo_reg b' = bo_reg b @ ts) \<and>
    (m = None \<longrightarrow> install_qemu_boards_gated parse builtins gate env b' = (None, b'))"
proof -
  obtain m1 b1 where one: "(if gate = Some ''0'' then (None, b)
      else qemu_builtin_boards_install parse builtins b) = (m1, b1)" by force
  have ok1: "registry_ok (bo_reg b1)" "\<exists>ts. bo_reg b1 = bo_reg b @ ts"
    using one assms(2) builtin_install_ok [of parse builtins b m1 b1] by (auto split: if_splits)
  show ?thesis
  proof (cases m1)
    case (Some x)
    with assms(1) one ok1 show ?thesis by (auto simp: install_qemu_boards_gated_def)
  next
    case None
    have two: "qemu_env_board_install parse env b1 = (m, b')"
      using assms(1) one None by (simp add: install_qemu_boards_gated_def)
    have ok2: "registry_ok (bo_reg b')" "\<exists>ts. bo_reg b' = bo_reg b1 @ ts"
      using env_install_ok [OF two ok1(1)] by simp_all
    have flags: "bo_builtin_done b' = bo_builtin_done b1" "m = None \<Longrightarrow> bo_env_done b'"
      using two by (auto simp: qemu_env_board_install_def split: if_splits option.splits prod.splits)
    have "gate = Some ''0'' \<or> bo_builtin_done b1"
      using one None by (auto simp: qemu_builtin_boards_install_def split: if_splits option.splits prod.splits)
    then have "m = None \<Longrightarrow> install_qemu_boards_gated parse builtins gate env b' = (None, b')"
      using flags by (auto simp: install_qemu_boards_gated_def qemu_builtin_boards_install_def
          qemu_env_board_install_def)
    with ok1(2) ok2 show ?thesis by force
  qed
qed

theorem install_boards_safe_witness:
  "registry_ok (bo_reg (snd (install_qemu_boards_gated (\<lambda>_. Some demo_doc) [[], []] None None
     \<lparr>bo_reg = ([] :: unit registry), bo_builtin_done = False, bo_env_done = False\<rparr>)))"
proof -
  let ?b = "\<lparr>bo_reg = ([] :: unit registry), bo_builtin_done = False, bo_env_done = False\<rparr>"
  have "registry_ok (bo_reg ?b)" by (simp add: registry_ok_def)
  from install_boards_safe [OF prod.collapse [symmetric] this] show ?thesis by simp
qed

end
