(* ===== verification/CliText.thy ===== *)
theory CliText
  imports Prelude
begin

text \<open>
  The text layer of the CLI (\<^verbatim>\<open>cli/cli_internal.h\<close> and the argument and list helpers of
  \<^verbatim>\<open>cli/cli.cpp\<close>): JSON escaping and the error envelope, integer arguments, options and
  positionals, the normalisation of global options, and the pagination of JSON arrays.
  \<open>argv\<close> is the list of its strings, the program name first.
\<close>

section \<open>JSON text (\<^verbatim>\<open>json_esc\<close>, \<^verbatim>\<open>json_escape\<close>, \<^verbatim>\<open>fail\<close>)\<close>

abbreviation quote :: char where
  "quote \<equiv> CHR 0x22"

abbreviation bslash :: char where
  "bslash \<equiv> CHR 0x5C"

definition hex_char :: "nat \<Rightarrow> char" where
  "hex_char d = (if d < 10 then char_of (48 + d) else char_of (87 + d))"

definition esc_char :: "char \<Rightarrow> string" where
  "esc_char c =
     (if c = quote then [bslash, quote]
      else if c = bslash then [bslash, bslash]
      else if c = nl then [bslash, CHR ''n'']
      else if c = cr then [bslash, CHR ''r'']
      else if c = CHR 0x09 then [bslash, CHR ''t'']
      else if (of_char c :: nat) < 0x20
      then bslash # ''u00'' @ [hex_char (of_char c div 16), hex_char (of_char c mod 16)]
      else [c])"

definition json_esc :: "string \<Rightarrow> string" where
  "json_esc s = concat (map esc_char s)"

definition jbool :: "bool \<Rightarrow> string" where
  "jbool b = (if b then ''true'' else ''false'')"

text \<open>A quoted JSON string, and the error envelope \<^verbatim>\<open>fail\<close> and \<^verbatim>\<open>session_err\<close> print.\<close>

definition jstr :: "string \<Rightarrow> string" where
  "jstr s = quote # s @ [quote]"

definition error_line :: "string \<Rightarrow> string \<Rightarrow> string" where
  "error_line kind msg =
     ''{'' @ jstr ''error'' @ '':{'' @ jstr ''kind'' @ '':'' @ jstr kind @ '','' @ jstr ''message''
       @ '':'' @ jstr (json_esc msg) @ ''}}'' @ [nl]"

definition kind_exit :: "string \<Rightarrow> int" where
  "kind_exit kind =
     (if kind = ''ref_not_found'' then 4
      else if kind = ''conflict'' then 5
      else if kind = ''post_failed'' then 6
      else if kind = ''unsupported'' then 7
      else if kind = ''bind_failed'' then 3
      else if kind = ''expect_failed'' then 8
      else if kind = ''capture_failed'' then 9
      else if kind = ''agent_failed'' then 10
      else 2)"

section \<open>Integers\<close>

definition to_long :: "string \<Rightarrow> int \<Rightarrow> int \<Rightarrow> int option" where
  "to_long s lo hi =
     (if s = [] then None
      else (case c_strtol s of None \<Rightarrow> None
        | Some (v, r) \<Rightarrow> if \<not> long_ok v \<or> r \<noteq> [] \<or> v < lo \<or> v > hi then None else Some v))"

text \<open>\<^verbatim>\<open>atoi\<close>, on text whose number fits an \<^verbatim>\<open>int\<close>.\<close>

definition atoi :: "string \<Rightarrow> int" where
  "atoi s = (case c_strtol s of None \<Rightarrow> 0 | Some (v, _) \<Rightarrow> s32 v)"

section \<open>Options and positionals\<close>

definition kValOpts :: "string list" where
  "kValOpts = [''--target'', ''--steps'', ''--path'', ''--shot'', ''--port'', ''--interval-ms'',
     ''--scale'', ''--ref'', ''--passkey'', ''--ble-port'', ''--output'', ''-o'', ''--limit'',
     ''--offset'', ''--fields'']"

definition kFlagOpts :: "string list" where
  "kFlagOpts = [''--charging'', ''--no-vbus'', ''--window'', ''--json'', ''--help'', ''--version'']"

definition is_val_opt :: "string \<Rightarrow> bool" where
  "is_val_opt a \<longleftrightarrow> a \<in> set kValOpts"

definition is_flag_opt :: "string \<Rightarrow> bool" where
  "is_flag_opt a \<longleftrightarrow> a \<in> set kFlagOpts"

fun opt_val :: "string list \<Rightarrow> string \<Rightarrow> string option" where
  "opt_val (a # b # argv) name =
     (if a = ''--'' then None else if a = name then Some b else opt_val (b # argv) name)"
| "opt_val _ name = None"

fun opt_flag :: "string list \<Rightarrow> string \<Rightarrow> bool" where
  "opt_flag (a # argv) name =
     (if a = ''--'' then False else if a = name then True else opt_flag argv name)"
| "opt_flag [] name = False"

text \<open>The loop of \<^verbatim>\<open>positional\<close> from \<^verbatim>\<open>argv[2]\<close> on.\<close>

fun positional_loop :: "string list \<Rightarrow> bool \<Rightarrow> nat \<Rightarrow> string" where
  "positional_loop [] ended k = []"
| "positional_loop (a # argv) ended k =
     (if \<not> ended \<and> a = ''--'' then positional_loop argv True k
      else if \<not> ended \<and> is_val_opt a then positional_loop (drop 1 argv) ended k
      else if \<not> ended \<and> is_flag_opt a then positional_loop argv ended k
      else if k = 0 then a else positional_loop argv ended (k - 1))"

definition positional :: "string list \<Rightarrow> nat \<Rightarrow> string" where
  "positional argv k = positional_loop (drop 2 argv) False k"

definition kNumericOpts :: "(string \<times> int \<times> int) list" where
  "kNumericOpts = [(''--steps'', 0, 1000000), (''--port'', 0, 65535),
     (''--interval-ms'', 1, 3600000), (''--scale'', 1, 16), (''--limit'', 0, 1000000),
     (''--offset'', 0, 1000000), (''--passkey'', 1, 999999), (''--ble-port'', 0, 65535)]"

text \<open>The message of the first violation of the argument contract, if there is one.\<close>

fun validate_loop :: "string list \<Rightarrow> string option" where
  "validate_loop [] = None"
| "validate_loop (a # argv) =
     (if a = ''--'' then None
      else if \<not> starts_with ''--'' a \<and> a \<noteq> ''-o'' then validate_loop argv
      else if \<not> is_val_opt a \<and> \<not> is_flag_opt a
      then Some (''unknown option '' @ CHR 0x27 # a @ CHR 0x27 # '' (see: esprite schema)'')
      else if is_val_opt a then
        (case argv of
           [] \<Rightarrow> Some (''option '' @ CHR 0x27 # a @ CHR 0x27 # '' needs a value'')
         | v # rest \<Rightarrow>
           (case map_of kNumericOpts a of
              Some (lo, hi) \<Rightarrow>
                if to_long v lo hi = None
                then Some (''option '' @ CHR 0x27 # a @ CHR 0x27 # '' needs an integer ''
                       @ int_to_string lo @ ''..'' @ int_to_string hi)
                else validate_loop rest
            | None \<Rightarrow> validate_loop rest))
      else validate_loop argv)"

definition validate_options :: "string list \<Rightarrow> string option" where
  "validate_options argv = validate_loop (drop 2 argv)"

text \<open>
  The start of \<^verbatim>\<open>esprite_main\<close>: global options before the command are moved behind it. The
  left value is the \<^verbatim>\<open>bad_args\<close> message.
\<close>

fun command_index_loop :: "string list \<Rightarrow> nat \<Rightarrow> string + nat" where
  "command_index_loop [] i = Inr i"
| "command_index_loop (a # argv) i =
     (if a = ''--help'' \<or> a = ''--version'' then Inr i
      else if is_val_opt a then
        (case argv of [] \<Rightarrow> Inl (a @ '' needs a value'') | _ # rest \<Rightarrow> command_index_loop rest (i + 2))
      else if is_flag_opt a then command_index_loop argv (i + 1)
      else Inr i)"

definition normalize_argv :: "string list \<Rightarrow> string + string list" where
  "normalize_argv argv =
     (case command_index_loop (drop 1 argv) 1 of
        Inl e \<Rightarrow> Inl e
      | Inr i \<Rightarrow>
          if i > 1 then
            (if i \<ge> length argv then Inl ''missing command (see: esprite schema)''
             else Inr (argv ! 0 # argv ! i # take (i - 1) (drop 1 argv) @ drop (i + 1) argv))
          else Inr argv)"

section \<open>Lists\<close>

text \<open>\<^verbatim>\<open>field_selected\<close>: the comma-separated pieces of the list are compared with the field.\<close>

fun split_on :: "char \<Rightarrow> string \<Rightarrow> string list" where
  "split_on d [] = [[]]"
| "split_on d (c # cs) =
     (if c = d then [] # split_on d cs
      else (case split_on d cs of p # ps \<Rightarrow> (c # p) # ps | [] \<Rightarrow> [[c]]))"

definition field_selected :: "string option \<Rightarrow> string \<Rightarrow> bool" where
  "field_selected fields field =
     (case fields of None \<Rightarrow> True | Some l \<Rightarrow> field \<in> set (split_on (CHR '','') l))"

text \<open>
  The scanner of \<^verbatim>\<open>bounded_array\<close>. \<open>ba_cur\<close> is the text from \<^verbatim>\<open>start\<close> up to the current
  position, \<^const>\<open>None\<close> where \<^verbatim>\<open>start\<close> is \<^verbatim>\<open>npos\<close>.
\<close>

record scan =
  ba_elems :: "string list"
  ba_depth :: int
  ba_cur :: "string option"
  ba_str :: bool
  ba_esc :: bool

definition scan_init :: scan where
  "scan_init = \<lparr>ba_elems = [], ba_depth = 0, ba_cur = None, ba_str = False, ba_esc = False\<rparr>"

definition scan_char :: "char \<Rightarrow> scan \<Rightarrow> scan" where
  "scan_char c s0 =
     (let s = s0\<lparr>ba_cur := map_option (\<lambda>t. t @ [c]) (ba_cur s0)\<rparr> in
      if ba_esc s then s\<lparr>ba_esc := False\<rparr>
      else if ba_str s then
        (if c = bslash then s\<lparr>ba_esc := True\<rparr>
         else if c = quote then s\<lparr>ba_str := False\<rparr> else s)
      else if c = quote then s\<lparr>ba_str := True\<rparr>
      else if c = CHR ''{'' then
        (let s' = s\<lparr>ba_depth := ba_depth s + 1\<rparr>
         in if ba_depth s = 0 then s'\<lparr>ba_cur := Some [c]\<rparr> else s')
      else if c = CHR ''}'' then
        (let s' = s\<lparr>ba_depth := ba_depth s - 1\<rparr>
         in if ba_depth s - 1 = 0
            then (case ba_cur s of
                    Some t \<Rightarrow> s'\<lparr>ba_elems := ba_elems s @ [t], ba_cur := None\<rparr>
                  | None \<Rightarrow> s')
            else s')
      else s)"

definition array_elems :: "string \<Rightarrow> string list" where
  "array_elems arr = ba_elems (fold scan_char arr scan_init)"

fun join_with :: "string \<Rightarrow> string list \<Rightarrow> string" where
  "join_with sep [] = []"
| "join_with sep [x] = x"
| "join_with sep (x # xs) = x @ sep @ join_with sep xs"

text \<open>The page: \<open>limit < 0\<close> means no limit.\<close>

definition page :: "int \<Rightarrow> int \<Rightarrow> 'a list \<Rightarrow> 'a list" where
  "page offset limit xs =
     (let r = drop (nat (max 0 offset)) xs in if limit < 0 then r else take (nat limit) r)"

definition page_text :: "string list \<Rightarrow> int \<Rightarrow> int \<Rightarrow> int \<Rightarrow> string" where
  "page_text items tot offset shown =
     ''{'' @ jstr ''items'' @ '':['' @ join_with '','' items @ ''],'' @ jstr ''total'' @ '':''
       @ int_to_string tot @ '','' @ jstr ''offset'' @ '':'' @ int_to_string offset @ '',''
       @ jstr ''count'' @ '':'' @ int_to_string shown @ '','' @ jstr ''truncated'' @ '':''
       @ jbool (offset + shown < tot) @ ''}''"

definition bounded_array :: "string \<Rightarrow> int \<Rightarrow> int \<Rightarrow> string" where
  "bounded_array arr offset limit =
     (let elems = array_elems arr; items = page offset limit elems
      in page_text items (int (length elems)) (max 0 offset) (int (length items)))"

section \<open>Escaped text parses back\<close>

text \<open>
  A JSON string literal, read from after its opening quote: the text it denotes and what follows
  the closing quote; \<^const>\<open>None\<close> for a raw control character or an unknown escape.
\<close>

definition hex_val :: "char \<Rightarrow> nat option" where
  "hex_val c = (let n = of_char c in
     if 48 \<le> n \<and> n \<le> 57 then Some (n - 48)
     else if 97 \<le> n \<and> n \<le> 102 then Some (n - 87) else None)"

fun json_string :: "string \<Rightarrow> (string \<times> string) option" where
  "json_string [] = None"
| "json_string (c # cs) =
     (if c = quote then Some ([], cs)
      else if c = bslash then
        (case cs of
           [] \<Rightarrow> None
         | d # ds \<Rightarrow>
             if d = quote \<or> d = bslash then map_option (\<lambda>(t, r). (d # t, r)) (json_string ds)
             else if d = CHR ''n'' then map_option (\<lambda>(t, r). (nl # t, r)) (json_string ds)
             else if d = CHR ''r'' then map_option (\<lambda>(t, r). (cr # t, r)) (json_string ds)
             else if d = CHR ''t'' then map_option (\<lambda>(t, r). (CHR 0x09 # t, r)) (json_string ds)
             else if d = CHR ''u'' then
               (case ds of
                  z1 # z2 # h # l # rest \<Rightarrow>
                    (case (hex_val h, hex_val l) of
                       (Some a, Some b) \<Rightarrow>
                         if z1 = CHR ''0'' \<and> z2 = CHR ''0''
                         then map_option (\<lambda>(t, r). (char_of (16 * a + b) # t, r)) (json_string rest)
                         else None
                     | _ \<Rightarrow> None)
                | _ \<Rightarrow> None)
             else None)
      else if (of_char c :: nat) < 0x20 then None
      else map_option (\<lambda>(t, r). (c # t, r)) (json_string cs))"

lemma hex_val_hex_char: "d < 16 \<Longrightarrow> hex_val (hex_char d) = Some d"
  by (simp add: hex_val_def hex_char_def Let_def)

lemma json_string_esc_char:
  "json_string (esc_char c @ r) = map_option (\<lambda>(t, r). (c # t, r)) (json_string r)"
proof -
  have "(of_char c :: nat) < 0x20 \<Longrightarrow> (of_char c :: nat) div 16 < 16" by simp
  moreover have "char_of (16 * (of_char c div 16) + of_char c mod 16 :: nat) = c" by simp
  ultimately show ?thesis
    by (auto simp: esc_char_def hex_val_hex_char)
qed

lemma json_string_esc: "json_string (json_esc s @ quote # r) = Some (s, r)"
  by (induction s) (simp_all add: json_esc_def json_string_esc_char)

section \<open>Scanning an array\<close>

text \<open>An element as the scanner sees it: an object whose closing brace is its last character.\<close>

definition scan_in :: "string \<Rightarrow> scan \<Rightarrow> scan" where
  "scan_in t s = fold scan_char t s"

definition object_text :: "string \<Rightarrow> bool" where
  "object_text t \<longleftrightarrow> fold scan_char t scan_init = scan_init\<lparr>ba_elems := [t]\<rparr>"

lemma scan_char_elems:
  "scan_char c (s\<lparr>ba_elems := es @ ba_elems s\<rparr>)
     = (scan_char c s)\<lparr>ba_elems := es @ ba_elems (scan_char c s)\<rparr>"
  by (cases "ba_cur s") (simp_all add: scan_char_def Let_def)

lemma scan_elems:
  "fold scan_char t (s\<lparr>ba_elems := es @ ba_elems s\<rparr>)
     = (fold scan_char t s)\<lparr>ba_elems := es @ ba_elems (fold scan_char t s)\<rparr>"
proof (induction t arbitrary: s)
  case (Cons c t)
  show ?case by (simp add: scan_char_elems Cons.IH)
qed simp

lemma scan_object:
  assumes "object_text t"
  shows "fold scan_char t (scan_init\<lparr>ba_elems := es\<rparr>) = scan_init\<lparr>ba_elems := es @ [t]\<rparr>"
  using scan_elems [where t = t and s = scan_init and es = es] assms by (simp add: object_text_def scan_init_def)

lemma scan_separator:
  assumes "c \<notin> {quote, CHR ''{'', CHR ''}''}"
  shows "scan_char c (scan_init\<lparr>ba_elems := es\<rparr>) = scan_init\<lparr>ba_elems := es\<rparr>"
  using assms by (simp add: scan_char_def scan_init_def)

lemma scan_join:
  assumes "\<forall>t \<in> set ts. object_text t"
  shows "fold scan_char (join_with '','' ts) (scan_init\<lparr>ba_elems := es\<rparr>)
       = scan_init\<lparr>ba_elems := es @ ts\<rparr>"
  using assms
proof (induction "'',''" ts arbitrary: es rule: join_with.induct)
  case (3 x y xs)
  then show ?case by (simp add: scan_object scan_separator del: fun_upd_apply)
qed (simp_all add: scan_object)

lemma array_elems_join:
  assumes "\<forall>t \<in> set ts. object_text t"
  shows "array_elems (''['' @ join_with '','' ts @ '']'') = ts"
proof -
  have "scan_init = scan_init\<lparr>ba_elems := []\<rparr>" by (simp add: scan_init_def)
  then show ?thesis
    using scan_join [OF assms, of "[]"] scan_separator [of "CHR ''[''" "[]"]
      scan_separator [of "CHR '']''" ts]
    by (simp add: array_elems_def)
qed

section \<open>Properties\<close>

lemma esc_char_safe: "c \<in> set (esc_char d) \<Longrightarrow> 0x20 \<le> (of_char c :: nat)"
proof -
  have h: "n < 16 \<Longrightarrow> 0x20 \<le> (of_char (hex_char n) :: nat)" for n by (simp add: hex_char_def)
  have "(of_char d :: nat) mod 16 < 16" by simp
  moreover have "(of_char d :: nat) < 0x20 \<Longrightarrow> (of_char d :: nat) div 16 < 16" by simp
  moreover assume "c \<in> set (esc_char d)"
  ultimately show ?thesis by (auto simp: esc_char_def h split: if_splits)
qed

text \<open>
  Property C30. No message can break the error envelope: whatever bytes the message has, the
  escaped text contains no newline, so a reply is one line, and a JSON reader of the string
  literal gets the message back and stops at the closing quote.
\<close>

theorem error_envelope_safe:
  "(\<exists>pre. error_line kind msg = pre @ json_esc msg @ quote # ''}}'' @ [nl]) \<and>
   json_string (json_esc msg @ quote # ''}}'' @ [nl]) = Some (msg, ''}}'' @ [nl]) \<and>
   nl \<notin> set (json_esc msg)"
proof (intro conjI)
  show "\<exists>pre. error_line kind msg = pre @ json_esc msg @ quote # ''}}'' @ [nl]"
    by (intro exI [of _ "''{'' @ jstr ''error'' @ '':{'' @ jstr ''kind'' @ '':'' @ jstr kind @ '',''
      @ jstr ''message'' @ '':'' @ [quote]"]) (simp add: error_line_def jstr_def)
  show "nl \<notin> set (json_esc msg)"
    using esc_char_safe [of nl] by (auto simp: json_esc_def)
qed (rule json_string_esc)

text \<open>
  \<^verbatim>\<open>to_long\<close> reads back every number in range that was printed, and accepts only
  text that is one number to the end, within the range asked for.
\<close>

theorem to_long_exact:
  assumes "lo \<le> v" and "v \<le> hi" and "long_ok v"
  shows "to_long (int_to_string v) lo hi = Some v \<and>
    (\<forall>s u. to_long s lo hi = Some u \<longrightarrow> lo \<le> u \<and> u \<le> hi \<and> long_ok u \<and>
       c_strtol s = Some (u, []))"
proof
  have "int_to_string v \<noteq> []" by (simp add: int_to_string_def)
  then show "to_long (int_to_string v) lo hi = Some v"
    using c_strtol_int [of "[]" v] assms by (simp add: to_long_def)
qed (auto simp: to_long_def split: if_splits option.splits)

theorem to_long_exact_witness: "to_long (int_to_string (- 42)) (- 100) 100 = Some (- 42)"
  using to_long_exact [of "- 100" "- 42" 100] by (simp add: long_ok_def)

inductive options_only :: "string list \<Rightarrow> bool" where
  none: "options_only []"
| flag: "is_flag_opt a \<Longrightarrow> a \<noteq> ''--'' \<Longrightarrow> \<not> is_val_opt a \<Longrightarrow> options_only gs \<Longrightarrow> options_only (a # gs)"
| val_opt: "is_val_opt a \<Longrightarrow> a \<noteq> ''--'' \<Longrightarrow> options_only gs \<Longrightarrow> options_only (a # v # gs)"

lemma dashes_no_option [simp]: "\<not> is_val_opt ''--''" "\<not> is_flag_opt ''--''"
  by (simp_all add: is_val_opt_def is_flag_opt_def kValOpts_def kFlagOpts_def)

lemma command_index_options:
  "command_index_loop xs i = Inr j \<Longrightarrow> \<exists>gs rest. xs = gs @ rest \<and> options_only gs \<and> j = i + length gs \<and>
     (case rest of [] \<Rightarrow> True
      | c # _ \<Rightarrow> \<not> is_val_opt c \<and> (is_flag_opt c \<longrightarrow> c = ''--help'' \<or> c = ''--version''))"
proof (induction xs i rule: command_index_loop.induct)
  case (1 i)
  then show ?case by (auto intro: options_only.none)
next
  case (2 a argv i)
  have nv: "\<not> is_val_opt ''--help''" "\<not> is_val_opt ''--version''"
    by (simp_all add: is_val_opt_def kValOpts_def)
  consider "a = ''--help'' \<or> a = ''--version''" | "a \<noteq> ''--help''" "a \<noteq> ''--version''" "is_val_opt a"
    | "a \<noteq> ''--help''" "a \<noteq> ''--version''" "\<not> is_val_opt a" "is_flag_opt a"
    | "\<not> is_val_opt a" "\<not> is_flag_opt a" "a \<noteq> ''--help''" "a \<noteq> ''--version''" by blast
  then show ?case
  proof cases
    case 1
    with 2 nv show ?thesis by (intro exI [of _ "[]"] exI [of _ "a # argv"]) (auto intro: options_only.none)
  next
    case v: 2
    with 2(3) obtain w rest where argv: "argv = w # rest" by (cases argv) auto
    with 2(1) [OF _ v(3) argv] 2(3) v obtain gs r where
      "rest = gs @ r" "options_only gs" "j = i + 2 + length gs"
      "case r of [] \<Rightarrow> True
       | c # _ \<Rightarrow> \<not> is_val_opt c \<and> (is_flag_opt c \<longrightarrow> c = ''--help'' \<or> c = ''--version'')"
      by auto
    moreover have "a \<noteq> ''--''" using v(3) by auto
    ultimately show ?thesis
      using v(3) argv by (intro exI [of _ "a # w # gs"] exI [of _ r]) (auto intro: options_only.val_opt)
  next
    case f: 3
    with 2(2) 2(3) obtain gs r where
      "argv = gs @ r" "options_only gs" "j = i + 1 + length gs"
      "case r of [] \<Rightarrow> True
       | c # _ \<Rightarrow> \<not> is_val_opt c \<and> (is_flag_opt c \<longrightarrow> c = ''--help'' \<or> c = ''--version'')"
      by auto
    moreover have "a \<noteq> ''--''" using f(4) by auto
    ultimately show ?thesis
      using f by (intro exI [of _ "a # gs"] exI [of _ r]) (auto intro: options_only.flag)
  next
    case 4
    with 2(3) show ?thesis
      by (intro exI [of _ "[]"] exI [of _ "a # argv"]) (auto intro: options_only.none)
  qed
qed

lemma positional_skips_options:
  "options_only gs \<Longrightarrow> positional_loop (gs @ rest) False k = positional_loop rest False k"
  by (induction rule: options_only.induct) auto

text \<open>
  Global options in front of the command: normalisation moves the first word that
  is not such an option to the front and keeps everything else in order, and then neither the
  command nor any positional argument depends on them.
\<close>

theorem normalize_argv_sound:
  assumes "normalize_argv (prog # args) = Inr av" and "args \<noteq> []"
  shows "\<exists>gs cmd rest. args = gs @ cmd # rest \<and> av = prog # cmd # gs @ rest \<and>
    \<not> is_val_opt cmd \<and> (is_flag_opt cmd \<longrightarrow> cmd = ''--help'' \<or> cmd = ''--version'') \<and>
    (\<forall>k. positional av k = positional (prog # cmd # rest) k)"
proof -
  obtain j where j: "command_index_loop args 1 = Inr j"
    using assms by (auto simp: normalize_argv_def split: sum.splits)
  from command_index_options [OF this] obtain gs r where
    args: "args = gs @ r" and gs: "options_only gs" and jl: "j = 1 + length gs"
    and r: "case r of [] \<Rightarrow> True
       | c # _ \<Rightarrow> \<not> is_val_opt c \<and> (is_flag_opt c \<longrightarrow> c = ''--help'' \<or> c = ''--version'')"
    by blast
  have "r \<noteq> []"
    using assms j jl args by (cases gs) (auto simp: normalize_argv_def)
  then obtain cmd rest where rc: "r = cmd # rest" by (cases r) auto
  have "av = prog # cmd # gs @ rest"
    using assms(1) j jl args rc by (cases gs) (auto simp: normalize_argv_def nth_append)
  with args rc r positional_skips_options [OF gs, of rest] show ?thesis
    by (intro exI [of _ gs] exI [of _ cmd] exI [of _ rest]) (auto simp: positional_def)
qed

theorem normalize_argv_sound_witness:
  "\<exists>gs cmd rest. [''--json'', ''--target'', ''cyd'', ''tap'', ''5'', ''6''] = gs @ cmd # rest \<and>
     (\<forall>k. positional [''esprite'', ''tap'', ''--json'', ''--target'', ''cyd'', ''5'', ''6''] k
       = positional (''esprite'' # cmd # rest) k)"
proof -
  have "normalize_argv (''esprite'' # [''--json'', ''--target'', ''cyd'', ''tap'', ''5'', ''6''])
      = Inr [''esprite'', ''tap'', ''--json'', ''--target'', ''cyd'', ''5'', ''6'']"
    by (simp add: normalize_argv_def is_val_opt_def is_flag_opt_def kValOpts_def kFlagOpts_def numeral_eq_Suc)
  from normalize_argv_sound [OF this] show ?thesis by blast
qed

lemma page_concat:
  assumes "0 < n"
  shows "concat (map (\<lambda>i. page (int i * n) n xs) [0..<k]) = take (k * nat n) xs"
proof (induction k)
  case (Suc k)
  have "nat (int k * n) = k * nat n" using assms by (simp add: nat_mult_distrib)
  moreover have "take (Suc k * nat n) xs = take (k * nat n) xs @ take (nat n) (drop (k * nat n) xs)"
    by (metis add.commute mult_Suc take_add)
  ultimately show ?case using Suc assms by (simp add: page_def Let_def)
qed simp

text \<open>
  \<^verbatim>\<open>bounded_array\<close> splits an array of objects at the right places even where
  strings hold braces, and its pages of any size, taken one after the other, are the whole list.
\<close>

theorem bounded_array_pages:
  assumes "\<forall>t \<in> set ts. object_text t" and "0 < n" and "length ts \<le> k * nat n"
  shows "concat (map (\<lambda>i. page (int i * n) n ts) [0..<k]) = ts \<and>
    (\<forall>offset limit. bounded_array (''['' @ join_with '','' ts @ '']'') offset limit =
       page_text (page offset limit ts) (int (length ts)) (max 0 offset)
         (int (length (page offset limit ts))))"
  using assms by (simp add: page_concat bounded_array_def array_elems_join [OF assms(1)] Let_def
      del: append_Cons append_Nil)

theorem bounded_array_pages_witness:
  "concat (map (\<lambda>i. page (int i * 1) 1 [''{a}'', ''{b{}}'']) [0..<2]) = [''{a}'', ''{b{}}'']"
proof -
  have "\<forall>t \<in> set [''{a}'', ''{b{}}'']. object_text t"
    by (simp add: object_text_def scan_char_def scan_init_def)
  from bounded_array_pages [OF this, of 1 2] show ?thesis by simp
qed

text \<open>
  Option values are validated where they stand, but looked up anywhere: an option's
  name given as the value of another option escapes the validation and is read all the same.
\<close>

theorem opt_val_unvalidated:
  "validate_options [''esprite'', ''serve'', ''--path'', ''--port'', ''abc''] = None \<and>
   opt_val [''esprite'', ''serve'', ''--path'', ''--port'', ''abc''] ''--port'' = Some ''abc'' \<and>
   to_long ''abc'' 0 65535 = None"
  by (simp add: validate_options_def is_val_opt_def is_flag_opt_def kValOpts_def kFlagOpts_def
      kNumericOpts_def to_long_def c_strtol_def c_isspace_def is_digit_def numeral_eq_Suc)

end
