(* ===== verification/Lvgl.thy ===== *)
theory Lvgl
  imports CliText
begin

text \<open>
  The widget-tree snapshot (\<^verbatim>\<open>peripherals/lvgl/lvgl_snapshot.cpp\<close>). LVGL itself is a library:
  a \<open>widget\<close> is what its API reports of an object (class, area, hidden flag, text, value,
  children), and the state \<open>lv_state\<close> holds the active screen of the default display (when there
  is one) beside the statics of the file, the reference map and the ownership flag.
\<close>

section \<open>Widgets\<close>

datatype lv_class = LV_LABEL | LV_BAR | LV_ARC | LV_BUTTON | LV_IMAGE | LV_LINE | LV_OBJ

record lv_area =
  a_x1 :: int
  a_y1 :: int
  a_x2 :: int
  a_y2 :: int

datatype widget =
  Widget (wd_class: lv_class) (wd_area: lv_area) (wd_hidden: bool) (wd_text: "string option")
    (wd_value: int) (wd_children: "widget list")

record lv_state =
  lv_screen :: "widget option" \<comment> \<open>the default display's active screen\<close>
  lv_refs :: "(string \<times> int \<times> int) list" \<comment> \<open>\<^verbatim>\<open>g_refs\<close>\<close>
  lv_preexisted :: bool

definition lv_init_state :: lv_state where
  "lv_init_state = \<lparr>lv_screen = None, lv_refs = [], lv_preexisted = False\<rparr>"

definition type_name :: "widget \<Rightarrow> string" where
  "type_name ob = (case wd_class ob of
     LV_LABEL \<Rightarrow> ''label'' | LV_BAR \<Rightarrow> ''bar'' | LV_ARC \<Rightarrow> ''arc'' | LV_BUTTON \<Rightarrow> ''button''
   | LV_IMAGE \<Rightarrow> ''image'' | LV_LINE \<Rightarrow> ''line'' | LV_OBJ \<Rightarrow> ''obj'')"

text \<open>The walk over the children of an object: the visible objects in the order visited.\<close>

fun walk :: "widget list \<Rightarrow> widget list" where
  "walk [] = []"
| "walk (Widget k a h t v cs # ws) =
     (if h then walk ws else Widget k a h t v cs # walk cs @ walk ws)"

section \<open>Operations\<close>

definition current_screen :: "lv_state \<Rightarrow> widget option" where
  "current_screen s = (if lv_preexisted s then None else lv_screen s)"

definition visible_widgets :: "lv_state \<Rightarrow> widget list" where
  "visible_widgets s = (case current_screen s of None \<Rightarrow> [] | Some scr \<Rightarrow> walk (wd_children scr))"

definition ref_name :: "nat \<Rightarrow> string" where
  "ref_name i = CHR ''e'' # int_to_string (int i)"

definition center :: "widget \<Rightarrow> int \<times> int" where
  "center ob = (let a = wd_area ob in (cdiv (a_x1 a + a_x2 a) 2, cdiv (a_y1 a + a_y2 a) 2))"

definition widget_json :: "nat \<Rightarrow> widget \<Rightarrow> string" where
  "widget_json ref ob =
     (let a = wd_area ob; num = (\<lambda>k v. '','' @ jstr k @ '':'' @ int_to_string v)
      in ''{'' @ jstr ''ref'' @ '':'' @ jstr (ref_name ref) @ '','' @ jstr ''type'' @ '':''
         @ jstr (type_name ob) @ num ''x'' (a_x1 a) @ num ''y'' (a_y1 a)
         @ num ''w'' (a_x2 a - a_x1 a + 1) @ num ''h'' (a_y2 a - a_y1 a + 1)
         @ (if wd_class ob = LV_LABEL
            then '','' @ jstr ''text'' @ '':''
              @ jstr (json_esc (case wd_text ob of None \<Rightarrow> [] | Some t \<Rightarrow> t))
            else if wd_class ob = LV_BAR \<or> wd_class ob = LV_ARC then num ''value'' (wd_value ob)
            else [])
         @ ''}'')"

definition indexed :: "'a list \<Rightarrow> (nat \<times> 'a) list" where
  "indexed xs = zip [0..<length xs] xs"

definition lvgl_snapshot_json :: "lv_state \<Rightarrow> string \<times> lv_state" where
  "lvgl_snapshot_json s =
     (let ws = visible_widgets s
      in (''['' @ join_with '','' (map (\<lambda>(i, ob). widget_json i ob) (indexed ws)) @ '']'',
          s\<lparr>lv_refs := fold (\<lambda>(k, p). kv_put k p)
              (map (\<lambda>(i, ob). (ref_name i, center ob)) (indexed ws)) []\<rparr>))"

definition lvgl_has_text :: "string \<Rightarrow> bool \<Rightarrow> lv_state \<Rightarrow> bool" where
  "lvgl_has_text needle exact s =
     list_ex (\<lambda>ob. wd_class ob = LV_LABEL \<and>
       (case wd_text ob of None \<Rightarrow> False
        | Some t \<Rightarrow> if exact then t = needle else str_find needle t \<noteq> None)) (visible_widgets s)"

definition lvgl_ref_center :: "string \<Rightarrow> lv_state \<Rightarrow> (int \<times> int) option \<times> lv_state" where
  "lvgl_ref_center ref s =
     (let s = (if lv_refs s = [] then snd (lvgl_snapshot_json s) else s)
      in (map_of (lv_refs s) ref, s))"

definition lvgl_snapshot_reset :: "lv_state \<Rightarrow> lv_state" where
  "lvgl_snapshot_reset s = s\<lparr>lv_refs := []\<rparr>"

text \<open>The boot hook: forget the references, and disown a display an earlier boot created.\<close>

definition lvgl_boot_reset :: "lv_state \<Rightarrow> lv_state" where
  "lvgl_boot_reset s = (lvgl_snapshot_reset s)\<lparr>lv_preexisted := (lv_screen s \<noteq> None)\<rparr>"

section \<open>Lemmas\<close>

text \<open>What can be visited: reached from the screen through visible objects only.\<close>

inductive shown :: "widget list \<Rightarrow> widget \<Rightarrow> bool" where
  child: "w \<in> set ws \<Longrightarrow> \<not> wd_hidden w \<Longrightarrow> shown ws w"
| deeper: "w \<in> set ws \<Longrightarrow> \<not> wd_hidden w \<Longrightarrow> shown (wd_children w) v \<Longrightarrow> shown ws v"

lemma shown_Cons: "shown ws u \<Longrightarrow> shown (w # ws) u"
  by (erule shown.cases) (auto intro: shown.intros)

lemma walk_shown: "v \<in> set (walk ws) \<Longrightarrow> shown ws v"
proof (induction ws rule: walk.induct)
  case (2 k a h t v' cs ws)
  then show ?case
    by (auto split: if_splits intro: shown.child shown_Cons
        shown.deeper [of "Widget k a False t v' cs"])
qed simp

lemma shown_walk: "shown ws v \<Longrightarrow> v \<in> set (walk ws)"
proof (induction rule: shown.induct)
  case (child w ws)
  then show ?case by (induction ws rule: walk.induct) (auto split: if_splits)
next
  case (deeper w ws v)
  from deeper(1,2,4) show ?case by (induction ws rule: walk.induct) (auto split: if_splits)
qed

lemma inj_ref_name: "ref_name i = ref_name j \<Longrightarrow> i = j"
  using inj_int_to_string by (fastforce simp: ref_name_def)

lemma map_of_indexed_refs:
  "map_of (rev (map (\<lambda>(i, ob). (ref_name i, f ob)) (indexed ws))) (ref_name j)
     = (if j < length ws then Some (f (ws ! j)) else None)"
proof -
  let ?m = "map (\<lambda>(i, ob). (ref_name i, f ob)) (indexed ws)"
  have fsts: "map fst ?m = map ref_name [0..<length ws]"
    by (rule nth_equalityI) (simp_all add: indexed_def)
  have "distinct (map fst ?m)"
    unfolding fsts by (simp add: distinct_map inj_on_def) (blast dest: inj_ref_name)
  then have rev: "map_of (rev ?m) = map_of ?m" by (simp add: map_of_inject_set distinct_rev rev_map [symmetric])
  show ?thesis
  proof (cases "j < length ws")
    case True
    then have "(ref_name j, f (ws ! j)) \<in> set ?m"
      by (auto simp: indexed_def set_zip intro!: image_eqI [of _ _ "(j, ws ! j)"] exI [of _ j])
    with \<open>distinct (map fst ?m)\<close> rev True show ?thesis by simp
  next
    case False
    have "ref_name j \<notin> set (map fst ?m)" unfolding fsts using False by (auto dest: inj_ref_name)
    then have "map_of ?m (ref_name j) = None" by (simp add: map_of_eq_None_iff image_image)
    with rev False show ?thesis by simp
  qed
qed

lemma snapshot_refs:
  "map_of (lv_refs (snd (lvgl_snapshot_json s))) (ref_name j)
     = (if j < length (visible_widgets s) then Some (center (visible_widgets s ! j)) else None)"
  by (simp add: lvgl_snapshot_json_def Let_def kv.get_puts map_of_indexed_refs split: option.splits)

section \<open>Properties\<close>

text \<open>
  Property C33. After a snapshot the references name exactly the visible widgets (those reached
  from the screen without passing a hidden one), in the order listed: reference \<open>ei\<close> resolves to
  the centre of widget \<open>i\<close>, any later number to nothing; and a boot forgets them all and, where
  a display already exists, hides it.
\<close>

theorem snapshot_refs_resolve:
  assumes "visible_widgets s \<noteq> []"
  shows "fst (lvgl_ref_center (ref_name j) (snd (lvgl_snapshot_json s)))
      = (if j < length (visible_widgets s) then Some (center (visible_widgets s ! j)) else None) \<and>
    (\<forall>scr. current_screen s = Some scr \<longrightarrow> set (visible_widgets s) = Collect (shown (wd_children scr))) \<and>
    lv_refs (lvgl_boot_reset s) = [] \<and>
    (lv_screen s \<noteq> None \<longrightarrow> visible_widgets (lvgl_boot_reset s) = [])"
proof (intro conjI)
  have "lv_refs (snd (lvgl_snapshot_json s)) \<noteq> []"
    using snapshot_refs [of s 0] assms by auto
  then show "fst (lvgl_ref_center (ref_name j) (snd (lvgl_snapshot_json s)))
      = (if j < length (visible_widgets s) then Some (center (visible_widgets s ! j)) else None)"
    by (simp add: lvgl_ref_center_def snapshot_refs)
  show "\<forall>scr. current_screen s = Some scr \<longrightarrow> set (visible_widgets s) = Collect (shown (wd_children scr))"
    by (auto simp: visible_widgets_def walk_shown shown_walk)
qed (simp_all add: lvgl_boot_reset_def lvgl_snapshot_reset_def visible_widgets_def current_screen_def)

definition demo_screen :: lv_state where
  "demo_screen =
     (let a = \<lparr>a_x1 = 10, a_y1 = 20, a_x2 = 20, a_y2 = 40\<rparr>
      in lv_init_state\<lparr>lv_screen := Some (Widget LV_OBJ a False None 0
        [Widget LV_BAR a True None 3 [], Widget LV_LABEL a False (Some ''hi'') 0 []])\<rparr>)"

theorem snapshot_refs_resolve_witness:
  "fst (lvgl_ref_center (ref_name 0) (snd (lvgl_snapshot_json demo_screen))) = Some (15, 30)"
proof -
  have "visible_widgets demo_screen
      = [Widget LV_LABEL \<lparr>a_x1 = 10, a_y1 = 20, a_x2 = 20, a_y2 = 40\<rparr> False (Some ''hi'') 0 []]"
    by (simp add: demo_screen_def visible_widgets_def current_screen_def lv_init_state_def Let_def)
  with snapshot_refs_resolve [of demo_screen 0] show ?thesis
    by (simp add: center_def cdiv_nonneg)
qed

end
