(* ===== verification/WebServer.thy ===== *)
theory WebServer
  imports Prelude
begin

text \<open>
  The web server shim (\<^verbatim>\<open>shims/net/webserver.cpp\<close>). Sockets are the operating system's: what
  \<^verbatim>\<open>recv\<close> delivers is the list of its results (the connection closed, failed or timed out at
  the end of the list), what \<^verbatim>\<open>bind\<close> and \<^verbatim>\<open>getsockname\<close> answer is an argument, and what
  \<^verbatim>\<open>::send\<close> accepts at each call is a list of byte counts. Handlers are the firmware's: names
  of type \<open>'h\<close> that a parameter runs on the server and the rest of the state.
\<close>

section \<open>State\<close>

datatype upload_status = UPLOAD_FILE_START | UPLOAD_FILE_WRITE | UPLOAD_FILE_END | UPLOAD_FILE_ABORTED

record HTTPUpload =
  up_status :: upload_status
  up_buf :: "string option"
  up_current :: nat
  up_total :: nat
  up_filename :: string
  up_name :: string

record 'h WebServer =
  ws_port :: int
  ws_bound :: int
  ws_listening :: bool \<comment> \<open>\<^verbatim>\<open>listen_fd_ >= 0\<close>\<close>
  ws_get :: "(string \<times> 'h) list"
  ws_post :: "(string \<times> 'h) list"
  ws_uploads :: "(string \<times> 'h) list"
  ws_headers :: "(string \<times> string) list"
  ws_declared :: "string set"
  ws_body :: string
  ws_client :: "string option" \<comment> \<open>what the connected client was sent; \<^const>\<open>None\<close> where \<^verbatim>\<open>client_fd_ < 0\<close>\<close>
  ws_sends :: "nat list" \<comment> \<open>the counts the coming calls of \<^verbatim>\<open>::send\<close> accept\<close>
  ws_upload :: HTTPUpload

definition upload_init :: HTTPUpload where
  "upload_init = \<lparr>up_status = UPLOAD_FILE_END, up_buf = None, up_current = 0, up_total = 0,
     up_filename = [], up_name = []\<rparr>"

definition webserver_new :: "int \<Rightarrow> 'h WebServer" where
  "webserver_new port = \<lparr>ws_port = port, ws_bound = 0, ws_listening = False, ws_get = [],
     ws_post = [], ws_uploads = [], ws_headers = [], ws_declared = {}, ws_body = [],
     ws_client = None, ws_sends = [], ws_upload = upload_init\<rparr>"

section \<open>Routes, listening\<close>

definition ws_on :: "string \<Rightarrow> bool \<Rightarrow> 'h \<Rightarrow> 'h WebServer \<Rightarrow> 'h WebServer" where
  "ws_on path is_post h s =
     (if is_post then s\<lparr>ws_post := kv_put path h (ws_post s)\<rparr>
      else s\<lparr>ws_get := kv_put path h (ws_get s)\<rparr>)"

definition ws_on_upload :: "string \<Rightarrow> bool \<Rightarrow> 'h \<Rightarrow> 'h \<Rightarrow> 'h WebServer \<Rightarrow> 'h WebServer" where
  "ws_on_upload path is_post finish up s =
     (let s = (if is_post then s\<lparr>ws_post := kv_put path finish (ws_post s)\<rparr>
               else s\<lparr>ws_get := kv_put path finish (ws_get s)\<rparr>)
      in s\<lparr>ws_uploads := kv_put path up (ws_uploads s)\<rparr>)"

definition ws_stop :: "'h WebServer \<Rightarrow> 'h WebServer" where
  "ws_stop s = s\<lparr>ws_listening := False\<rparr>"

text \<open>
  \<^verbatim>\<open>begin\<close>: the port wanted (from the environment or the constructor), the answer of the
  system for it, and the bind status \<^verbatim>\<open>g_bind_status\<close> that results.
\<close>

definition ws_begin ::
  "int option \<Rightarrow> (int \<Rightarrow> bool) \<Rightarrow> int \<Rightarrow> 'h WebServer \<Rightarrow> int \<times> 'h WebServer" where
  "ws_begin env bind_ok ephemeral s =
     (let s = ws_stop s; port = (case env of Some p \<Rightarrow> p | None \<Rightarrow> ws_port s); s = s\<lparr>ws_bound := port\<rparr>
      in if \<not> bind_ok port then (0, s)
         else (let s = s\<lparr>ws_listening := True, ws_bound := (if port = 0 then ephemeral else port)\<rparr>
               in (ws_bound s, s)))"

text \<open>The boot hook: every live server stops and the bind status is forgotten.\<close>

definition webserver_boot_reset :: "'h WebServer list \<Rightarrow> int \<times> 'h WebServer list" where
  "webserver_boot_reset live = (-1, map ws_stop live)"

section \<open>Reading a request\<close>

abbreviation crlf :: string where
  "crlf \<equiv> [cr, nl]"

abbreviation crlf2 :: string where
  "crlf2 \<equiv> [cr, nl, cr, nl]"

definition MAX_REQ :: nat where
  "MAX_REQ = 262144"

text \<open>\<^verbatim>\<open>(size_t)strtoul(p, nullptr, 10)\<close>, 64 bits wide.\<close>

definition c_strtoul :: "string \<Rightarrow> int" where
  "c_strtoul s =
     (case c_strtol s of None \<Rightarrow> 0
      | Some (v, _) \<Rightarrow>
          if v \<ge> 0 then min v (2 ^ 64 - 1) else if - v < 2 ^ 64 then 2 ^ 64 + v else 2 ^ 64 - 1)"

text \<open>The declared length of the body; \<^verbatim>\<open>npos\<close>, the largest value, is \<^const>\<open>None\<close>.\<close>

definition content_length :: "string \<Rightarrow> nat option" where
  "content_length head =
     (let h = map lower_char head
      in case str_find ''content-length:'' h of None \<Rightarrow> None
         | Some cp \<Rightarrow>
             (let n = c_strtoul (drop (cp + 15) h) in if n = 2 ^ 64 - 1 then None else Some (nat n)))"

text \<open>The loop after the first \<^verbatim>\<open>recv\<close>: the bytes so far and the length seen so far.\<close>

fun recv_loop :: "string list \<Rightarrow> string \<Rightarrow> nat option \<Rightarrow> string \<times> nat option" where
  "recv_loop chunks req clen =
     (if length req \<ge> MAX_REQ then (req, clen)
      else (case str_find crlf2 req of
         Some he \<Rightarrow>
           (let clen = (case clen of None \<Rightarrow> content_length (take he req) | Some c \<Rightarrow> Some c)
            in case clen of
                 None \<Rightarrow> (req, clen)
               | Some n \<Rightarrow>
                   if length req - (he + 4) \<ge> n then (req, clen)
                   else (case chunks of [] \<Rightarrow> (req, clen)
                         | c # cs \<Rightarrow> recv_loop cs (req @ c) clen))
       | None \<Rightarrow> (case chunks of [] \<Rightarrow> (req, clen) | c # cs \<Rightarrow> recv_loop cs (req @ c) clen)))"

declare recv_loop.simps [simp del]

definition request_body :: "string \<Rightarrow> nat option \<Rightarrow> string" where
  "request_body req clen =
     (case str_find crlf2 req of None \<Rightarrow> []
      | Some he \<Rightarrow> (case clen of Some n \<Rightarrow> take n (drop (he + 4) req) | None \<Rightarrow> drop (he + 4) req))"

definition request_method :: "string \<Rightarrow> string" where
  "request_method req = takeWhile (\<lambda>c. c \<noteq> CHR '' '') req"

definition request_path :: "string \<Rightarrow> string" where
  "request_path req =
     takeWhile (\<lambda>c. c \<noteq> CHR '' '') (drop 1 (dropWhile (\<lambda>c. c \<noteq> CHR '' '') req))"

text \<open>One header line, and the loop over them: \<open>limit\<close> is the distance to the blank line.\<close>

definition header_line :: "string \<Rightarrow> (string \<times> string) list \<Rightarrow> (string \<times> string) list" where
  "header_line line hs =
     (case str_find '':'' line of None \<Rightarrow> hs
      | Some colon \<Rightarrow>
          kv_put (map lower_char (take colon line))
            (dropWhile (\<lambda>c. c = CHR '' '' \<or> c = CHR 0x09) (drop (colon + 1) line)) hs)"

function header_loop :: "string \<Rightarrow> nat \<Rightarrow> (string \<times> string) list \<Rightarrow> (string \<times> string) list" where
  "header_loop rest limit hs =
     (if limit = 0 then hs
      else (case str_find crlf rest of None \<Rightarrow> hs
        | Some eol \<Rightarrow>
            if eol > limit then hs
            else header_loop (drop (eol + 2) rest) (limit - (eol + 2)) (header_line (take eol rest) hs)))"
  by pat_completeness auto
termination by (relation "measure (\<lambda>(_, l, _). l)") auto

declare header_loop.simps [simp del]

definition request_headers :: "string \<Rightarrow> (string \<times> string) list" where
  "request_headers req =
     (let limit = (case str_find crlf2 req of None \<Rightarrow> length req | Some he \<Rightarrow> he)
      in case str_find crlf req of None \<Rightarrow> []
         | Some e \<Rightarrow> header_loop (drop (e + 2) req) (limit - (e + 2)) [])"

section \<open>Uploads\<close>

definition content_boundary :: "string \<Rightarrow> string option" where
  "content_boundary ctype =
     (case str_find ''boundary='' ctype of None \<Rightarrow> None
      | Some bp \<Rightarrow>
          (let b = drop (bp + 9) ctype;
               b = (if b \<noteq> [] \<and> hd b = CHR 0x22
                    then takeWhile (\<lambda>c. c \<noteq> CHR 0x22) (tl b)
                    else takeWhile (\<lambda>c. c \<notin> {CHR '';'', CHR '' '', cr, nl}) b)
           in if b = [] then None else Some b))"

definition part_filename :: "string \<Rightarrow> string" where
  "part_filename phdr =
     (case str_find (''filename='' @ [CHR 0x22]) phdr of None \<Rightarrow> []
      | Some fn \<Rightarrow> takeWhile (\<lambda>c. c \<noteq> CHR 0x22) (drop (fn + 10) phdr))"

definition strip_crlf :: "string \<Rightarrow> string" where
  "strip_crlf t = (if length t \<ge> 2 \<and> drop (length t - 2) t = crlf then take (length t - 2) t else t)"

text \<open>The loop over the parts; \<open>rest\<close> is the body after an opening delimiter.\<close>

function part_loop :: "string \<Rightarrow> string \<Rightarrow> (string \<times> string) option" where
  "part_loop boundary rest =
     (case str_find (''--'' @ boundary) rest of None \<Rightarrow> None
      | Some n \<Rightarrow>
          (let part = take n rest; next = drop (n + length (''--'' @ boundary)) rest
           in case str_find crlf2 part of
                Some hend \<Rightarrow>
                  if str_find ''filename='' (take hend part) \<noteq> None
                  then Some (strip_crlf (drop (hend + 4) part), part_filename (take hend part))
                  else part_loop boundary next
              | None \<Rightarrow> part_loop boundary next))"
  by pat_completeness auto
termination
  by (relation "measure (\<lambda>(_, r). length r)") (auto dest: str_find_bound)

declare part_loop.simps [simp del]

definition extract_file_part :: "string \<Rightarrow> string \<Rightarrow> (string \<times> string) option" where
  "extract_file_part body ctype =
     (case content_boundary ctype of None \<Rightarrow> None
      | Some b \<Rightarrow>
          (case str_find (''--'' @ b) body of None \<Rightarrow> None
           | Some pos \<Rightarrow> part_loop b (drop (pos + length (''--'' @ b)) body)))"

type_synonym ('h, 'x) runner = "'h \<Rightarrow> 'h WebServer \<times> 'x \<Rightarrow> 'h WebServer \<times> 'x"

definition drive_upload :: "('h, 'x) runner \<Rightarrow> 'h \<Rightarrow> 'h WebServer \<times> 'x \<Rightarrow> 'h WebServer \<times> 'x" where
  "drive_upload run cb = (\<lambda>(s, x).
     case map_of (ws_headers s) ''content-type'' of
       None \<Rightarrow> (s, x)
     | Some ct \<Rightarrow>
         if str_find ''multipart/form-data'' ct = None then (s, x)
         else (case extract_file_part (ws_body s) ct of
             None \<Rightarrow> (s, x)
           | Some (data, fname) \<Rightarrow>
               (let u = upload_init\<lparr>up_filename := fname, up_name := ''firmware'',
                                     up_status := UPLOAD_FILE_START\<rparr>;
                    (s, x) = run cb (s\<lparr>ws_upload := u\<rparr>, x);
                    u = (ws_upload s)\<lparr>up_status := UPLOAD_FILE_WRITE, up_buf := Some data,
                                     up_current := length data\<rparr>;
                    (s, x) = run cb (s\<lparr>ws_upload := u\<rparr>, x);
                    u = (ws_upload s)\<lparr>up_status := UPLOAD_FILE_END, up_buf := None,
                                     up_total := length data, up_current := 0\<rparr>
                in run cb (s\<lparr>ws_upload := u\<rparr>, x))))"

section \<open>Responses\<close>

definition reason_phrase :: "int \<Rightarrow> string" where
  "reason_phrase code =
     (if code = 200 then ''OK'' else if code = 204 then ''No Content''
      else if code = 302 then ''Found'' else if code = 400 then ''Bad Request''
      else if code = 401 then ''Unauthorized'' else if code = 403 then ''Forbidden''
      else if code = 404 then ''Not Found'' else if code = 500 then ''Internal Server Error''
      else [])"

text \<open>What reaches the peer of \<open>data\<close>, and the system's answers left over. An answer of 0
  is a failed or timed-out call; with no answer left the rest is accepted at once.\<close>

fun send_all :: "nat list \<Rightarrow> string \<Rightarrow> string \<times> nat list" where
  "send_all ns [] = ([], ns)"
| "send_all [] data = (data, [])"
| "send_all (n # ns) data =
     (if n = 0 then ([], ns)
      else (let (t, ns') = send_all ns (drop n data) in (take n data @ t, ns')))"

definition http_header :: "int \<Rightarrow> string \<Rightarrow> nat \<Rightarrow> string" where
  "http_header code type n =
     ''HTTP/1.1 '' @ int_to_string code @ CHR '' '' # reason_phrase code @ crlf
       @ ''Content-Type: '' @ type @ crlf @ ''Content-Length: '' @ nat_to_string n @ crlf
       @ ''Connection: close'' @ crlf2"

text \<open>
  The header is formatted into 256 bytes, but as many bytes are sent as the whole text would
  have: a longer one reads past the buffer, which is \<^const>\<open>None\<close>.
\<close>

definition ws_send :: "int \<Rightarrow> string \<Rightarrow> string \<Rightarrow> 'h WebServer \<Rightarrow> 'h WebServer option" where
  "ws_send code type body s =
     (case ws_client s of None \<Rightarrow> Some s
      | Some out \<Rightarrow>
          (let b = takeWhile (\<lambda>c. c \<noteq> CHR 0x00) body; hdr = http_header code type (length b)
           in if length hdr \<ge> 256 then None
              else (let (t1, ns) = send_all (ws_sends s) hdr; (t2, ns) = send_all ns b
                    in Some (s\<lparr>ws_client := Some (out @ t1 @ t2), ws_sends := ns\<rparr>))))"

definition ws_hasArg :: "string \<Rightarrow> 'h WebServer \<Rightarrow> bool" where
  "ws_hasArg name s \<longleftrightarrow> name = ''plain'' \<and> ws_body s \<noteq> []"

definition ws_arg :: "string \<Rightarrow> 'h WebServer \<Rightarrow> string" where
  "ws_arg name s = (if name = ''plain'' then takeWhile (\<lambda>c. c \<noteq> CHR 0x00) (ws_body s) else [])"

definition collectHeaders :: "string list \<Rightarrow> 'h WebServer \<Rightarrow> 'h WebServer" where
  "collectHeaders names s = s\<lparr>ws_declared := set (map (map lower_char) names)\<rparr>"

definition hasHeader :: "string \<Rightarrow> 'h WebServer \<Rightarrow> bool" where
  "hasHeader name s \<longleftrightarrow>
     (let key = map lower_char name in key \<in> ws_declared s \<and> map_of (ws_headers s) key \<noteq> None)"

definition ws_header :: "string \<Rightarrow> 'h WebServer \<Rightarrow> string" where
  "ws_header name s =
     (let key = map lower_char name
      in if key \<notin> ws_declared s then []
         else (case map_of (ws_headers s) key of None \<Rightarrow> []
               | Some v \<Rightarrow> takeWhile (\<lambda>c. c \<noteq> CHR 0x00) v))"

section \<open>Serving one client\<close>

text \<open>
  \<^verbatim>\<open>handleClient\<close> with the chunks a pending client delivers (\<^const>\<open>None\<close>: nobody is waiting),
  and what the client was sent, as the connection is closed.
\<close>

definition handleClient ::
  "('h, 'x) runner \<Rightarrow> string list option \<Rightarrow> nat list \<Rightarrow> 'h WebServer \<times> 'x
     \<Rightarrow> string option \<times> 'h WebServer \<times> 'x" where
  "handleClient run pending sends = (\<lambda>(s, x).
     if \<not> ws_listening s then (None, s, x)
     else (case pending of None \<Rightarrow> (None, s, x)
       | Some [] \<Rightarrow> (Some [], s, x)
       | Some (c # cs) \<Rightarrow>
           (let (req, clen) = recv_loop cs c None;
                s = s\<lparr>ws_body := request_body req clen, ws_headers := request_headers req,
                      ws_client := Some [], ws_sends := sends\<rparr>;
                method = request_method req; path = request_path req;
                (s, x) =
                  (case map_of (if method = ''POST'' then ws_post s else ws_get s) path of
                     Some h \<Rightarrow>
                       (let (s, x) =
                          (if method = ''POST'' then
                             (case map_of (ws_uploads s) path of None \<Rightarrow> (s, x)
                              | Some cb \<Rightarrow> drive_upload run cb (s, x))
                           else (s, x))
                        in run h (s, x))
                   | None \<Rightarrow>
                       ((case ws_send 404 ''text/plain'' (''not found'' @ [nl]) s of
                           Some s \<Rightarrow> s | None \<Rightarrow> s), x))
            in (ws_client s, s\<lparr>ws_client := None\<rparr>, x))))"

section \<open>Properties\<close>

lemma recv_loop_prefix:
  assumes req: "p @ concat cs = req" and he: "str_find crlf2 req = Some he"
    and n: "content_length (take he req) = Some n" and len: "length req = he + 4 + n"
    and max: "length req < MAX_REQ" and clen: "clen = None \<or> clen = Some n"
  shows "recv_loop cs p clen = (req, Some n)"
  using req clen
proof (induction cs arbitrary: p clen)
  case Nil
  then have "p = req" by simp
  with Nil he n len max show ?case by (subst recv_loop.simps) auto
next
  case (Cons c cs)
  have p: "p = take (length p) req" using Cons.prems(1) by (metis append_eq_conv_conj)
  have pl: "length p \<le> length req" using Cons.prems(1) by auto
  have small: "\<not> MAX_REQ \<le> length p" using pl max by simp
  have find: "str_find crlf2 p = (if he + 4 \<le> length p then Some he else None)"
    using str_find_take [OF he, of "length p"] p by simp
  have step: "recv_loop cs (p @ c) clen' = (req, Some n)" if "clen' = None \<or> clen' = Some n" for clen'
    using Cons.IH [of "p @ c" clen'] Cons.prems(1) that by simp
  show ?case
  proof (cases "he + 4 \<le> length p")
    case True
    then have "take he p = take he req" using p by (metis min.absorb1 take_take add_leD1)
    then have cl: "(case clen of None \<Rightarrow> content_length (take he p) | Some c \<Rightarrow> Some c) = Some n"
      using Cons.prems(2) n by auto
    have fp: "str_find crlf2 p = Some he" using find True by simp
    have unf: "recv_loop (c # cs) p clen
        = (if n \<le> length p - (he + 4) then (p, Some n) else recv_loop cs (p @ c) (Some n))"
      by (subst recv_loop.simps) (simp only: small fp cl option.case Let_def if_False list.case)
    show ?thesis
    proof (cases "n \<le> length p - (he + 4)")
      case True
      with \<open>he + 4 \<le> length p\<close> len have "length req \<le> length p" by simp
      then have "p = req" using p by simp
      with unf True show ?thesis by simp
    next
      case False
      with unf step [of "Some n"] show ?thesis by simp
    qed
  next
    case False
    then have fp: "str_find crlf2 p = None" using find by simp
    have "recv_loop (c # cs) p clen = recv_loop cs (p @ c) clen"
      by (subst recv_loop.simps) (simp only: small fp option.case if_False list.case)
    with step [OF Cons.prems(2)] show ?thesis by simp
  qed
qed

text \<open>
  Property C16. However the network cuts a request into pieces, a request with a declared length
  below the size limit is read completely and its body is the declared bytes.
\<close>

theorem request_chunks_irrelevant:
  assumes "concat (c # cs) = req" and "str_find crlf2 req = Some he"
    and "content_length (take he req) = Some n" and "length req = he + 4 + n"
    and "length req < MAX_REQ"
  shows "recv_loop cs c None = (req, Some n) \<and>
    request_body req (Some n) = drop (he + 4) req \<and> length (request_body req (Some n)) = n"
  using recv_loop_prefix [of c cs req he n None] assms by (simp add: request_body_def)

definition demo_request :: string where
  "demo_request = ''POST /s HTTP/1.1'' @ crlf @ ''Content-Length: 2'' @ crlf2 @ ''{}''"

theorem request_chunks_irrelevant_witness:
  "recv_loop [drop 20 demo_request] (take 20 demo_request) None = (demo_request, Some 2)"
proof -
  have he: "str_find crlf2 demo_request = Some 35"
    by code_simp
  have cl: "content_length (take 35 demo_request) = Some 2"
    by code_simp
  have "concat [take 20 demo_request, drop 20 demo_request] = demo_request" by simp
  from request_chunks_irrelevant [OF this he cl] show ?thesis
    by (simp add: demo_request_def MAX_REQ_def)
qed



end
