(* ===== verification/Runtime.thy ===== *)
theory Runtime
  imports Target Shims Input Ble Framebuffer Lvgl WebServer
begin

text \<open>
  The runtime (\<^verbatim>\<open>core/runtime.cpp\<close>) and the backend seam (\<^verbatim>\<open>core/backend.cpp\<close>). The process's
  statics are one record, the world; the firmware's own statics and the QEMU child are its
  component \<open>w_ext\<close>, of any type. The registry, filled before \<^verbatim>\<open>main\<close>, the order of the boot
  hooks, fixed by the linker, and the registered backends are arguments.
\<close>

section \<open>The world\<close>

record 'e world =
  w_input :: SimInput
  w_gpio :: gpio
  w_clock :: clock
  w_restart :: bool
  w_serial :: Serial
  w_ble :: BleBus
  w_fb :: Framebuffer
  w_lv :: lv_state
  w_wifi :: bool \<comment> \<open>\<^verbatim>\<open>g_wifi_connected\<close>\<close>
  w_http :: int \<comment> \<open>\<^verbatim>\<open>g_bind_status\<close>\<close>
  w_servers :: "nat WebServer list" \<comment> \<open>\<^verbatim>\<open>live_servers()\<close>, their handlers by number\<close>
  w_active :: "nat option" \<comment> \<open>\<^verbatim>\<open>g_active\<close>: an index into the registry\<close>
  w_impl :: SimBackendKind \<comment> \<open>which implementation \<^verbatim>\<open>sim_backend()\<close> is\<close>
  w_env_port :: "string option" \<comment> \<open>\<^verbatim>\<open>ESPRITE_HTTP_PORT\<close>\<close>
  w_ext :: 'e

section \<open>Boot\<close>

datatype boot_hook = HookInput | HookBle | HookWebServer | HookWifi | HookLvgl

fun run_hook :: "boot_hook \<Rightarrow> 'e world \<Rightarrow> 'e world" where
  "run_hook HookInput w = w\<lparr>w_input := sim_input_reset (w_input w)\<rparr>"
| "run_hook HookBle w = w\<lparr>w_ble := sim_ble_reset (w_ble w)\<rparr>"
| "run_hook HookWebServer w =
     (let (status, live) = webserver_boot_reset (w_servers w)
      in w\<lparr>w_http := status, w_servers := live\<rparr>)"
| "run_hook HookWifi w = w\<lparr>w_wifi := True\<rparr>"
| "run_hook HookLvgl w = w\<lparr>w_lv := lvgl_boot_reset (w_lv w)\<rparr>"

definition seed_buttons :: "BoardDesc \<Rightarrow> gpio \<Rightarrow> gpio" where
  "seed_buttons b g =
     fold (\<lambda>btn g. if b_action btn = ACT_GPIO
                    then sim_gpio_set (b_gpio btn) (sim_button_gpio_level btn False) g else g)
       (bd_buttons b) g"

text \<open>Everything \<^verbatim>\<open>sim_boot\<close> does before it calls the target's \<^verbatim>\<open>setup\<close>.\<close>

definition boot_state ::
  "'e world registry \<Rightarrow> boot_hook list \<Rightarrow> nat \<Rightarrow> 'e world \<Rightarrow> 'e world" where
  "boot_state reg hooks i w =
     (let w = w\<lparr>w_active := Some i\<rparr>;
          w = fold run_hook hooks w;
          w = w\<lparr>w_clock := sim_clock_reset (w_clock w)\<rparr>;
          w = w\<lparr>w_restart := sim_esp_restart_reset (w_restart w)\<rparr>;
          w = w\<lparr>w_gpio := sim_gpio_reset (w_gpio w)\<rparr>;
          w = (case t_board (reg ! i) of None \<Rightarrow> w
               | Some b \<Rightarrow> w\<lparr>w_gpio := seed_buttons b (w_gpio w)\<rparr>)
      in if w_env_port w = None then w\<lparr>w_env_port := Some ''8080''\<rparr> else w)"

definition sim_boot ::
  "'e world registry \<Rightarrow> boot_hook list \<Rightarrow> string \<Rightarrow> 'e world \<Rightarrow> bool \<times> 'e world" where
  "sim_boot reg hooks key w =
     (case sim_target key reg of None \<Rightarrow> (False, w)
      | Some i \<Rightarrow>
          (let w = boot_state reg hooks i w
           in (True, case t_setup (reg ! i) of None \<Rightarrow> w | Some f \<Rightarrow> f w)))"

section \<open>Stepping\<close>

text \<open>\<^verbatim>\<open>g_active ? g_active->loop : nullptr\<close>\<close>

definition active_loop :: "'e world registry \<Rightarrow> 'e world \<Rightarrow> ('e world \<Rightarrow> 'e world) option" where
  "active_loop reg w = (case w_active w of None \<Rightarrow> None | Some i \<Rightarrow> t_loop (reg ! i))"

definition sim_step :: "'e world registry \<Rightarrow> 'e world \<Rightarrow> 'e world" where
  "sim_step reg w = (case active_loop reg w of None \<Rightarrow> w | Some f \<Rightarrow> f w)"

fun run_steps :: "nat \<Rightarrow> 'e world registry \<Rightarrow> 'e world \<Rightarrow> 'e world" where
  "run_steps 0 reg w = w"
| "run_steps (Suc n) reg w =
     (case active_loop reg w of None \<Rightarrow> w | Some f \<Rightarrow> run_steps n reg (f w))"

definition sim_run_steps :: "int \<Rightarrow> 'e world registry \<Rightarrow> 'e world \<Rightarrow> 'e world" where
  "sim_run_steps n = run_steps (nat n)"

fun settle_loop :: "nat \<Rightarrow> 32 word \<Rightarrow> 32 word \<Rightarrow> 'e world registry \<Rightarrow> 'e world \<Rightarrow> 'e world" where
  "settle_loop 0 start ms reg w = w"
| "settle_loop (Suc n) start ms reg w =
     (if millis (w_clock w) - start < ms then settle_loop n start ms reg (sim_step reg w) else w)"

definition sim_settle_ms :: "32 word \<Rightarrow> int \<Rightarrow> 'e world registry \<Rightarrow> 'e world \<Rightarrow> 'e world" where
  "sim_settle_ms ms max_steps reg w = settle_loop (nat max_steps) (millis (w_clock w)) ms reg w"

definition sim_settle :: "'e world registry \<Rightarrow> 'e world \<Rightarrow> 'e world" where
  "sim_settle = sim_settle_ms 50 400"

definition sim_set_active_target :: "nat option \<Rightarrow> 'e world \<Rightarrow> 'e world" where
  "sim_set_active_target t w = w\<lparr>w_active := t\<rparr>"

lemma run_steps_funpow: "run_steps n reg w = (sim_step reg ^^ n) w"
proof (induction n arbitrary: w)
  case (Suc n)
  show ?case
  proof (cases "active_loop reg w")
    case None
    then have "sim_step reg w = w" by (simp add: sim_step_def)
    then have "(sim_step reg ^^ n) w = w" for n by (induction n) auto
    with None show ?thesis by (simp del: funpow.simps)
  next
    case (Some f)
    then have "sim_step reg w = f w" by (simp add: sim_step_def)
    with Suc Some show ?thesis by (simp add: funpow_Suc_right del: funpow.simps)
  qed
qed simp

text \<open>A fact that every step keeps is kept by stepping and by settling.\<close>

lemma run_steps_inv: "(\<And>w. P w \<Longrightarrow> P (sim_step reg w)) \<Longrightarrow> P w \<Longrightarrow> P (sim_run_steps n reg w)"
  unfolding sim_run_steps_def run_steps_funpow by (rule funpow_inv)

lemma settle_loop_steps:
  "\<exists>k \<le> n. settle_loop n start ms reg w = (sim_step reg ^^ k) w \<and>
     (k = n \<or> \<not> millis (w_clock ((sim_step reg ^^ k) w)) - start < ms) \<and>
     (\<forall>j < k. millis (w_clock ((sim_step reg ^^ j) w)) - start < ms)"
proof (induction n arbitrary: w)
  case (Suc n)
  show ?case
  proof (cases "millis (w_clock w) - start < ms")
    case True
    obtain k where k: "k \<le> n"
      "settle_loop n start ms reg (sim_step reg w) = (sim_step reg ^^ k) (sim_step reg w)"
      "k = n \<or> \<not> millis (w_clock ((sim_step reg ^^ k) (sim_step reg w))) - start < ms"
      "\<forall>j < k. millis (w_clock ((sim_step reg ^^ j) (sim_step reg w))) - start < ms"
      using Suc by blast
    have "(sim_step reg ^^ j) (sim_step reg w) = (sim_step reg ^^ Suc j) w" for j
      by (simp add: funpow_swap1)
    with k True show ?thesis
      by (intro exI [of _ "Suc k"]) (auto simp: less_Suc_eq_0_disj)
  qed (auto intro: exI [of _ 0])
qed simp

section \<open>Backends\<close>

text \<open>
  The virtual functions of \<^verbatim>\<open>SimBackend\<close> over the world. Where the code returns false and
  stores a message, the result is the message.
\<close>

record 'e backend =
  be_boot :: "nat option \<Rightarrow> 'e world \<Rightarrow> string option \<times> 'e world"
  be_shutdown :: "'e world \<Rightarrow> 'e world"
  be_settle_ms :: "32 word \<Rightarrow> 'e world \<Rightarrow> bool \<times> 'e world"
  be_tick :: "'e world \<Rightarrow> 'e world"
  be_serial_output :: "'e world \<Rightarrow> string \<times> 'e world"
  be_serial_inject :: "string \<Rightarrow> 'e world \<Rightarrow> bool \<times> 'e world"
  be_sync_framebuffer :: "'e world \<Rightarrow> string option \<times> 'e world"
  be_agent_available :: "'e world \<Rightarrow> bool \<times> 'e world"
  be_agent_gpio :: "int \<Rightarrow> int \<Rightarrow> 'e world \<Rightarrow> string option \<times> 'e world"
  be_agent_pulse :: "int \<Rightarrow> int \<Rightarrow> int \<Rightarrow> 'e world \<Rightarrow> string option \<times> 'e world"
  be_agent_touch :: "bool \<Rightarrow> int \<Rightarrow> int \<Rightarrow> 'e world \<Rightarrow> string option \<times> 'e world"
  be_agent_tap :: "int \<Rightarrow> int \<Rightarrow> int \<Rightarrow> 'e world \<Rightarrow> string option \<times> 'e world"
  be_http_port :: "'e world \<Rightarrow> int \<times> 'e world"
  be_name :: string

definition WARMUP_STEPS :: int where
  "WARMUP_STEPS = 60"

definition native_boot ::
  "'e world registry \<Rightarrow> boot_hook list \<Rightarrow> nat option \<Rightarrow> 'e world \<Rightarrow> string option \<times> 'e world" where
  "native_boot reg hooks t w =
     (case t of None \<Rightarrow> (Some (''unknown target '' @ [CHR 0x27, CHR 0x27]), w)
      | Some i \<Rightarrow>
          (let (ok, w) = sim_boot reg hooks (t_key (reg ! i)) w
           in if \<not> ok then (Some (''unknown target '' @ CHR 0x27 # t_key (reg ! i) @ [CHR 0x27]), w)
              else (None, sim_run_steps WARMUP_STEPS reg w)))"

definition no_agent :: string where
  "no_agent = ''no input agent on this backend''"

definition native_backend :: "'e world registry \<Rightarrow> boot_hook list \<Rightarrow> 'e backend" where
  "native_backend reg hooks = \<lparr>
     be_boot = native_boot reg hooks,
     be_shutdown = (\<lambda>w. w),
     be_settle_ms = (\<lambda>ms w. (True, sim_settle_ms ms 400 reg w)),
     be_tick = sim_run_steps 4 reg,
     be_serial_output = (\<lambda>w. (sim_serial_output (w_serial w), w)),
     be_serial_inject = (\<lambda>d w. (True, w\<lparr>w_serial := sim_serial_inject d (w_serial w)\<rparr>)),
     be_sync_framebuffer = (\<lambda>w. (None, w)),
     be_agent_available = (\<lambda>w. (False, w)),
     be_agent_gpio = (\<lambda>pin level w. (Some no_agent, w)),
     be_agent_pulse = (\<lambda>pin level ms w. (Some no_agent, w)),
     be_agent_touch = (\<lambda>down x y w. (Some no_agent, w)),
     be_agent_tap = (\<lambda>x y ms w. (Some no_agent, w)),
     be_http_port = (\<lambda>w. (if w_http w > 0 then w_http w else 0, w)),
     be_name = ''native''\<rparr>"

type_synonym 'e slots = "SimBackendKind \<Rightarrow> 'e backend option"

definition initial_slots :: "'e world registry \<Rightarrow> boot_hook list \<Rightarrow> 'e slots" where
  "initial_slots reg hooks =
     (\<lambda>k. if k = BACKEND_NATIVE then Some (native_backend reg hooks) else None)"

definition sim_backend_register :: "SimBackendKind \<Rightarrow> 'e backend option \<Rightarrow> 'e slots \<Rightarrow> 'e slots" where
  "sim_backend_register kind impl s = s(kind := impl)"

definition sim_backend_select ::
  "'e world registry \<Rightarrow> 'e slots \<Rightarrow> nat option \<Rightarrow> 'e world \<Rightarrow> 'e world" where
  "sim_backend_select reg slots t w =
     (let kind = (case t of None \<Rightarrow> BACKEND_NATIVE | Some i \<Rightarrow> t_backend (reg ! i))
      in w\<lparr>w_impl := (if slots kind \<noteq> None then kind else BACKEND_NATIVE)\<rparr>)"

definition sim_backend ::
  "'e world registry \<Rightarrow> boot_hook list \<Rightarrow> 'e slots \<Rightarrow> 'e world \<Rightarrow> 'e backend" where
  "sim_backend reg hooks slots w =
     (case slots (w_impl w) of Some b \<Rightarrow> b | None \<Rightarrow> native_backend reg hooks)"

section \<open>What every backend promises\<close>

text \<open>
  The contract the CLI relies on whichever backend is selected: a boot that fails leaves the
  selected target alone, shutting down twice is shutting down once (two guards may unwind), a
  failed capture leaves the framebuffer alone, an injection is refused where no agent is
  available, and no operation but a boot and the firmware's own steps touches the input bus.
\<close>

locale backend_contract =
  fixes be :: "'e backend"
  assumes boot_error: "be_boot be t w = (Some m, w') \<Longrightarrow> w_active w' = w_active w"
    and boot_target: "be_boot be t w = (None, w') \<Longrightarrow> t \<noteq> None"
    and shutdown_twice: "be_shutdown be (be_shutdown be w) = be_shutdown be w"
    and sync_error: "be_sync_framebuffer be w = (Some m, w') \<Longrightarrow> w_fb w' = w_fb w"
    and no_agent_gpio: "\<not> fst (be_agent_available be w) \<Longrightarrow> fst (be_agent_gpio be pin level w) \<noteq> None"
    and no_agent_pulse: "\<not> fst (be_agent_available be w) \<Longrightarrow> fst (be_agent_pulse be pin level ms w) \<noteq> None"
    and no_agent_touch: "\<not> fst (be_agent_available be w) \<Longrightarrow> fst (be_agent_touch be down x y w) \<noteq> None"
    and no_agent_tap: "\<not> fst (be_agent_available be w) \<Longrightarrow> fst (be_agent_tap be x y ms w) \<noteq> None"
    and agent_input: "w_input (snd (be_agent_gpio be pin level w)) = w_input w"
      "w_input (snd (be_agent_pulse be pin level ms w)) = w_input w"
      "w_input (snd (be_agent_touch be down x y w)) = w_input w"
      "w_input (snd (be_agent_tap be x y ms w)) = w_input w"
begin

text \<open>A session that tries targets one after the other until one boots.\<close>

fun first_boot :: "nat option list \<Rightarrow> 'e world \<Rightarrow> nat option \<times> 'e world" where
  "first_boot [] w = (None, w)"
| "first_boot (t # ts) w = (case be_boot be t w of
     (None, w') \<Rightarrow> (t, w') | (Some m, w') \<Rightarrow> first_boot ts w')"

lemma first_boot_none: "first_boot ts w = (None, w') \<Longrightarrow> w_active w' = w_active w"
proof (induction ts arbitrary: w)
  case (Cons t ts)
  obtain m w1 where b: "be_boot be t w = (m, w1)" by force
  show ?case
  proof (cases m)
    case None
    with b Cons.prems boot_target [of t w w1] show ?thesis by auto
  next
    case (Some x)
    with b Cons boot_error [of t w x w1] show ?thesis by auto
  qed
qed simp

lemma shutdown_again: "(be_shutdown be ^^ Suc n) w = be_shutdown be w"
  by (induction n) (simp_all add: shutdown_twice)

end

lemma sim_boot_unknown: "fst (sim_boot reg hooks key w) = False \<Longrightarrow> snd (sim_boot reg hooks key w) = w"
  by (auto simp: sim_boot_def Let_def split: option.splits)

interpretation native: backend_contract "native_backend reg hooks" for reg hooks
  by unfold_locales
    (auto simp: native_backend_def native_boot_def split_def Let_def sim_boot_unknown
      split: option.splits if_splits)

section \<open>What a boot establishes\<close>

lemma hooks_effect:
  "distinct hooks \<Longrightarrow> fold run_hook hooks w = w\<lparr>
     w_input := (if HookInput \<in> set hooks then input_init else w_input w),
     w_ble := (if HookBle \<in> set hooks then ble_init else w_ble w),
     w_http := (if HookWebServer \<in> set hooks then -1 else w_http w),
     w_servers := (if HookWebServer \<in> set hooks then map ws_stop (w_servers w) else w_servers w),
     w_wifi := (if HookWifi \<in> set hooks then True else w_wifi w),
     w_lv := (if HookLvgl \<in> set hooks then lvgl_boot_reset (w_lv w) else w_lv w)\<rparr>"
proof (induction hooks arbitrary: w)
  case (Cons h hooks)
  then show ?case
    by (cases h) (auto simp: sim_input_reset_def sim_ble_reset_def webserver_boot_reset_def)
qed simp

lemma UNIV_boot_hook: "(UNIV :: boot_hook set) = {HookInput, HookBle, HookWebServer, HookWifi, HookLvgl}"
  by (auto intro: boot_hook.exhaust)

lemma seed_buttons_puts:
  "seed_buttons b g = fold (\<lambda>(pin, level) g. sim_gpio_set pin level g)
     (map (\<lambda>btn. (b_gpio btn, sim_button_gpio_level btn False))
       (filter (\<lambda>btn. b_action btn = ACT_GPIO) (bd_buttons b))) g"
proof -
  have "fold (\<lambda>btn g. if P btn then f btn g else g) xs g = fold f (filter P xs) g"
    for P and f :: "SimButton \<Rightarrow> gpio \<Rightarrow> gpio" and xs g
    by (induction xs arbitrary: g) auto
  then show ?thesis by (simp add: seed_buttons_def fold_map comp_def)
qed

section \<open>Properties\<close>


definition demo_board :: BoardDesc where
  "demo_board = \<lparr>bd_name = ''Demo'', bd_width = 8, bd_height = 6, bd_has_rotation = True,
     bd_has_battery = True, bd_has_imu = True,
     bd_buttons = [\<lparr>b_label = ''BOOT'', b_action = ACT_GPIO, b_gpio = 9, b_key = CHR 0x00,
       b_edge = EDGE_RIGHT, b_pos = -1, b_active_low = True\<rparr>,
      \<lparr>b_label = ''A'', b_action = ACT_PRIMARY, b_gpio = 0, b_key = CHR 0x00,
       b_edge = EDGE_LEFT, b_pos = -1, b_active_low = False\<rparr>]\<rparr>"

text \<open>A firmware whose loop delays 5 ms.\<close>

definition demo_target :: "'e world SimTarget" where
  "demo_target = \<lparr>t_key = ''demo'', t_description = ''demo'', t_setup = None,
     t_loop = Some (\<lambda>w. w\<lparr>w_clock := delay 5 (w_clock w)\<rparr>), t_board = Some demo_board,
     t_backend = BACKEND_NATIVE, t_qemu = None\<rparr>"

definition demo_hooks :: "boot_hook list" where
  "demo_hooks = [HookLvgl, HookInput, HookWifi, HookBle, HookWebServer]"

definition demo_world :: "unit world" where
  "demo_world = \<lparr>w_input = input_init, w_gpio = gpio_init, w_clock = 7, w_restart = True,
     w_serial = serial_init, w_ble = ble_init, w_fb = fb_new, w_lv = lv_init_state, w_wifi = False,
     w_http = 0, w_servers = [], w_active = None, w_impl = BACKEND_NATIVE, w_env_port = None,
     w_ext = ()\<rparr>"


text \<open>
  Settling stops by itself: it runs the firmware at most \<open>max_steps\<close> times, stops at
  the first step at which the requested time has passed on the virtual clock (wrap-around
  included), and never runs further.
\<close>

theorem settle_stops:
  assumes "0 \<le> max_steps"
  shows "\<exists>k. int k \<le> max_steps \<and> sim_settle_ms ms max_steps reg w = (sim_step reg ^^ k) w \<and>
    (int k = max_steps \<or> ms \<le> w_clock ((sim_step reg ^^ k) w) - w_clock w) \<and>
    (\<forall>j < k. w_clock ((sim_step reg ^^ j) w) - w_clock w < ms)"
proof -
  obtain k where "k \<le> nat max_steps"
    "settle_loop (nat max_steps) (w_clock w) ms reg w = (sim_step reg ^^ k) w"
    "k = nat max_steps \<or> \<not> millis (w_clock ((sim_step reg ^^ k) w)) - w_clock w < ms"
    "\<forall>j < k. millis (w_clock ((sim_step reg ^^ j) w)) - w_clock w < ms"
    using settle_loop_steps by blast
  with assms show ?thesis
    by (intro exI [of _ k]) (auto simp: sim_settle_ms_def millis_def not_less)
qed

theorem settle_stops_witness:
  "\<exists>k. int k \<le> 400 \<and> sim_settle_ms 50 400 [demo_target] demo_world = (sim_step [demo_target] ^^ k) demo_world"
  using settle_stops [of 400 50 "[demo_target]" demo_world] by auto

end
