(* ===== verification/QemuBackend.thy ===== *)
theory QemuBackend
  imports Runtime QemuProcess Screendump
begin

text \<open>
  The QEMU backend (\<^verbatim>\<open>backends/qemu/qemu_backend.cpp\<close>): boot, settle, display capture and the
  input agent of a firmware in a child process. It composes the process, the QMP client, the
  agent link, the screendump decoder and the framebuffer. Its state is the extension of the
  world; the second part of it is what the operating system will answer.
\<close>

section \<open>State\<close>

text \<open>What one boot will meet: the scratch directory, a free port, the spawn and the connect loop.\<close>

record boot_env =
  bv_dir :: "string + string"
  bv_port :: "string + int"
  bv_spawn :: spawn_env
  bv_outs :: "net_event list"
  bv_waits :: "wait_event list"
  bv_fds :: "int set"
  bv_attempts :: "attempt list"

text \<open>The lists are used up from the front; an empty one answers with a failure, except that a
  missing interrupt answer is \<^const>\<open>False\<close>.\<close>

record qemu_os =
  os_getenv :: "string \<Rightarrow> string option"
  os_executable :: "string \<Rightarrow> bool"
  os_readable :: "string \<Rightarrow> bool"
  os_boots :: "boot_env list"
  os_interrupted :: "bool list" \<comment> \<open>each call of \<^verbatim>\<open>interrupted_()\<close>\<close>
  os_dumps :: "string option list" \<comment> \<open>the content of each screendump file, if it was written\<close>
  os_agents :: "(string option \<times> string option \<times> net_event list \<times> send_event list) list"
  os_rounds :: "32 word \<Rightarrow> nat" \<comment> \<open>10 ms sleeps that fit into so many milliseconds\<close>
  os_dirs :: "string list" \<comment> \<open>the scratch directories on disk\<close>

record QemuBackend =
  qe_process :: QemuProcess
  qe_agent :: AgentLink
  qe_agent_capable :: bool
  qe_http_port :: int
  qe_socket_dir :: string
  qe_os :: qemu_os

text \<open>The libraries: QMP's JSON, the \<open>status\<close> of a \<open>query-status\<close> result, and the polls of a stop.\<close>

record qemu_lib =
  ql_parse :: json_parse
  ql_build :: json_build
  ql_status :: "string \<Rightarrow> string option"
  ql_polls :: "nat \<times> nat"

type_synonym qworld = "QemuBackend world"

section \<open>Configuration\<close>

definition env_str :: "string \<Rightarrow> QemuBackend \<Rightarrow> string" where
  "env_str name q = (case os_getenv (qe_os q) name of Some v \<Rightarrow> v | None \<Rightarrow> [])"

definition resolve_qemu_bin :: "string \<Rightarrow> QemuBackend \<Rightarrow> string + string" where
  "resolve_qemu_bin arch q =
     (let arch_var = ''ESPRITE_QEMU_'' @ map upper_char arch;
          b = env_str ''ESPRITE_QEMU_BIN'' q;
          b = (if b = [] then env_str arch_var q else b)
      in if b = [] then Inl (''no qemu binary configured: set ESPRITE_QEMU_BIN or '' @ arch_var)
         else if \<not> os_executable (qe_os q) b then Inl (''qemu binary not found or not executable: '' @ b)
         else Inr b)"

definition resolve_image :: "QemuBackend \<Rightarrow> string + string" where
  "resolve_image q =
     (let p = env_str ''ESPRITE_QEMU_IMAGE'' q
      in if p = [] then Inl ''ESPRITE_QEMU_IMAGE is not set (flash image path)''
         else if \<not> os_readable (qe_os q) p then Inl (''flash image not found: '' @ p)
         else Inr p)"

section \<open>Shutting down, settling\<close>

definition cleanup_dir :: "QemuBackend \<Rightarrow> QemuBackend" where
  "cleanup_dir q =
     (if qe_socket_dir q = [] then q
      else q\<lparr>qe_os := (qe_os q)\<lparr>os_dirs := filter (\<lambda>d. d \<noteq> qe_socket_dir q) (os_dirs (qe_os q))\<rparr>,
             qe_socket_dir := []\<rparr>)"

definition qe_stop :: "qemu_lib \<Rightarrow> QemuBackend \<Rightarrow> QemuBackend" where
  "qe_stop L q = q\<lparr>qe_process := snd (qp_stop (ql_parse L) (ql_build L) (ql_polls L) (qe_process q))\<rparr>"

definition qe_shutdown :: "qemu_lib \<Rightarrow> QemuBackend \<Rightarrow> QemuBackend" where
  "qe_shutdown L q =
     cleanup_dir (qe_stop L (q\<lparr>qe_agent := agent_close (qe_agent q), qe_agent_capable := False,
       qe_http_port := 0\<rparr>))"

definition qe_interrupted :: "QemuBackend \<Rightarrow> bool \<times> QemuBackend" where
  "qe_interrupted q = (case os_interrupted (qe_os q) of
     [] \<Rightarrow> (False, q) | i # is \<Rightarrow> (i, q\<lparr>qe_os := (qe_os q)\<lparr>os_interrupted := is\<rparr>\<rparr>))"

definition qe_pump :: "QemuBackend \<Rightarrow> QemuBackend" where
  "qe_pump q = q\<lparr>qe_process := qp_pump (qe_process q)\<rparr>"

fun qe_settle_loop :: "nat \<Rightarrow> QemuBackend \<Rightarrow> bool \<times> QemuBackend" where
  "qe_settle_loop 0 q = (True, q)"
| "qe_settle_loop (Suc n) q = (case qe_interrupted q of (i, q) \<Rightarrow>
     if i then (False, q) else qe_settle_loop n (qe_pump q))"

definition qe_settle_ms :: "32 word \<Rightarrow> QemuBackend \<Rightarrow> bool \<times> QemuBackend" where
  "qe_settle_ms ms q = qe_settle_loop (os_rounds (qe_os q) ms) (qe_pump q)"

definition kBootSettleMs :: "32 word" where
  "kBootSettleMs = 500"

definition qe_running :: "QemuBackend \<Rightarrow> bool \<times> QemuBackend" where
  "qe_running q = (case qp_running (qe_process q) of (r, p) \<Rightarrow> (r, q\<lparr>qe_process := p\<rparr>))"

definition qe_execute :: "qemu_lib \<Rightarrow> string \<Rightarrow> string \<Rightarrow> QemuBackend \<Rightarrow> (string + string) \<times> QemuBackend" where
  "qe_execute L cmd args q =
     (case qmp_execute (ql_parse L) (ql_build L) cmd args (qp_qmp (qe_process q)) of
        (r, c) \<Rightarrow> (r, q\<lparr>qe_process := (qe_process q)\<lparr>qp_qmp := c\<rparr>\<rparr>))"

section \<open>Boot\<close>

text \<open>Setting up: the directory, the specification of the child and the forwarded port.\<close>

definition qe_prepare :: "QemuMachineSpec \<Rightarrow> string \<Rightarrow> string \<Rightarrow> boot_env \<Rightarrow> QemuBackend
    \<Rightarrow> (string + QemuSpec) \<times> QemuBackend" where
  "qe_prepare m bin img e q = (case bv_dir e of
     Inl t \<Rightarrow> (Inl (''mkdtemp: '' @ t), q)
   | Inr dir \<Rightarrow>
      (let q = q\<lparr>qe_socket_dir := dir, qe_os := (qe_os q)\<lparr>os_dirs := dir # os_dirs (qe_os q)\<rparr>,
                 qe_agent_capable := m_agent m, qe_http_port := 0\<rparr>;
           spec = \<lparr>qs_bin = bin, qs_machine = m_machine m, qs_image = img,
             qs_icount = (m_arch m = ''riscv32''), qs_qmp_socket = dir @ ''/qmp.sock'',
             qs_agent_socket = (if m_agent m then dir @ ''/agent.sock'' else []),
             qs_host_port = 0, qs_guest_port = 0\<rparr>
       in if 0 < m_http_guest_port m
          then (case (case bv_port e of Inl t \<Rightarrow> Inl t | Inr p \<Rightarrow> if p = 0 then Inl [] else Inr p) of
              Inl t \<Rightarrow> (Inl (''could not allocate an http forward port: '' @ t), cleanup_dir q)
            | Inr p \<Rightarrow> (Inr (spec\<lparr>qs_host_port := p, qs_guest_port := m_http_guest_port m\<rparr>),
                        q\<lparr>qe_http_port := p\<rparr>))
          else (Inr spec, q)))"

text \<open>After a successful start: the interrupt check, \<open>query-status\<close> and the warm-up.\<close>

definition qe_confirm :: "qemu_lib \<Rightarrow> QemuBackend \<Rightarrow> string option \<times> QemuBackend" where
  "qe_confirm L q = (case qe_interrupted q of (i, q) \<Rightarrow>
     if i then (Some ''interrupted'', cleanup_dir (qe_stop L q))
     else (case qe_execute L ''query-status'' [] q of
        (Inl m, q) \<Rightarrow> (Some (''query-status failed: '' @ m), cleanup_dir (qe_stop L q))
      | (Inr r, q) \<Rightarrow> (case ql_status L r of
          None \<Rightarrow> (Some (''query-status returned malformed JSON: '' @ r), cleanup_dir (qe_stop L q))
        | Some st \<Rightarrow>
           if st \<noteq> ''running''
           then (Some (''qemu is not running after boot (status='' @ CHR 0x27 # st @ [CHR 0x27] @ '')''),
                 cleanup_dir (qe_stop L q))
           else (case qe_settle_ms kBootSettleMs q of (ok, q) \<Rightarrow>
             if \<not> ok then (Some ''interrupted'', qe_shutdown L q) else (None, q)))))"

definition qe_boot :: "qemu_lib \<Rightarrow> QemuMachineSpec option \<Rightarrow> QemuBackend \<Rightarrow> string option \<times> QemuBackend" where
  "qe_boot L ms q =
     (let q = qe_shutdown L q
      in case ms of None \<Rightarrow> (Some ''target has no qemu machine spec'', q)
      | Some m \<Rightarrow> (case resolve_qemu_bin (m_arch m) q of
          Inl t \<Rightarrow> (Some t, q)
        | Inr bin \<Rightarrow> (case resolve_image q of
            Inl t \<Rightarrow> (Some t, q)
          | Inr img \<Rightarrow> (case os_boots (qe_os q) of
              [] \<Rightarrow> (Some ''mkdtemp: No such file or directory'', q)
            | e # es \<Rightarrow> (let q = q\<lparr>qe_os := (qe_os q)\<lparr>os_boots := es\<rparr>\<rparr>
               in case qe_prepare m bin img e q of
                  (Inl t, q) \<Rightarrow> (Some t, q)
                | (Inr spec, q) \<Rightarrow>
                   (case qp_start (ql_parse L) (ql_build L) (ql_polls L) spec (bv_spawn e) (bv_outs e)
                           (bv_waits e) (bv_fds e) (bv_attempts e) (qe_process q) of
                      (Some t, p) \<Rightarrow> (Some t, cleanup_dir (q\<lparr>qe_process := p\<rparr>))
                    | (None, p) \<Rightarrow> qe_confirm L (q\<lparr>qe_process := p\<rparr>)))))))"

section \<open>HTTP\<close>

definition qe_http :: "QemuBackend \<Rightarrow> int \<times> QemuBackend" where
  "qe_http q = (case qe_running q of (r, q) \<Rightarrow> (if r then qe_http_port q else 0, q))"

section \<open>The display\<close>

text \<open>\<open>sync_framebuffer\<close> on the backend and the framebuffer.\<close>

definition json_filename :: "string \<Rightarrow> string" where
  "json_filename path = CHR 0x7B # CHR 0x22 # ''filename'' @ [CHR 0x22, CHR 0x3A, CHR 0x22] @ path @ [CHR 0x22, CHR 0x7D]"

definition qe_read_dump :: "QemuBackend \<Rightarrow> string option \<times> QemuBackend" where
  "qe_read_dump q = (case os_dumps (qe_os q) of
     [] \<Rightarrow> (None, q) | d # ds \<Rightarrow> (d, q\<lparr>qe_os := (qe_os q)\<lparr>os_dumps := ds\<rparr>\<rparr>))"

definition show_dump :: "int \<Rightarrow> int \<Rightarrow> 16 word list \<Rightarrow> Framebuffer \<Rightarrow> Framebuffer" where
  "show_dump w h px fb = fb_blit 0 0 w h px (if fb_w fb \<noteq> w \<or> fb_h fb \<noteq> h then fb_init w h fb else fb)"

definition qe_sync :: "qemu_lib \<Rightarrow> QemuBackend \<times> Framebuffer \<Rightarrow> string option \<times> QemuBackend \<times> Framebuffer" where
  "qe_sync L = (\<lambda>(q, fb).
     if qe_socket_dir q = [] then (Some ''no running qemu child'', q, fb)
     else (case qe_running q of (r, q) \<Rightarrow>
       if \<not> r then (Some ''no running qemu child'', q, fb)
       else (let path = qe_socket_dir q @ ''/screen.ppm''
         in case qe_execute L ''screendump'' (json_filename path) q of
            (Inl m, q) \<Rightarrow> (Some (''screendump failed: '' @ m), q, fb)
          | (Inr _, q) \<Rightarrow> (case qe_read_dump q of
              (None, q) \<Rightarrow> (Some (''screendump wrote no file at '' @ path), q, fb)
            | (Some ppm, q) \<Rightarrow> (case ppm_decode_rgb565 ppm of
                Inl m \<Rightarrow> (Some m, q, fb)
              | Inr (w, h, px) \<Rightarrow>
                  (None, q, show_dump w h px fb))))))"

definition pump_display :: "qemu_lib \<Rightarrow> QemuBackend \<times> Framebuffer \<Rightarrow> QemuBackend \<times> Framebuffer" where
  "pump_display L s = snd (qe_sync L s)"

section \<open>The agent\<close>

definition qe_agent_available :: "QemuBackend \<Rightarrow> bool \<times> QemuBackend" where
  "qe_agent_available q = (if \<not> qe_agent_capable q then (False, q) else qe_running q)"

definition qe_request :: "string \<Rightarrow> QemuBackend \<Rightarrow> string option \<times> QemuBackend" where
  "qe_request line q = (case agent_request line (qe_agent q) of (e, _, a) \<Rightarrow> (e, q\<lparr>qe_agent := a\<rparr>))"

definition qe_connect_agent :: "QemuBackend \<Rightarrow> string option \<times> QemuBackend" where
  "qe_connect_agent q = (case os_agents (qe_os q) of
     [] \<Rightarrow> (Some (''agent connect '' @ qe_socket_dir q @ ''/agent.sock: No such file or directory''),
            q\<lparr>qe_agent := agent_close (qe_agent q)\<rparr>)
   | (sock, conn, ins, outs) # rest \<Rightarrow>
      (case agent_connect (qe_socket_dir q @ ''/agent.sock'') sock conn ins outs (qe_agent q) of
        (e, a) \<Rightarrow> (e, q\<lparr>qe_agent := a, qe_os := (qe_os q)\<lparr>os_agents := rest\<rparr>\<rparr>)))"

definition ensure_agent :: "QemuBackend \<Rightarrow> string option \<times> QemuBackend" where
  "ensure_agent q = (case qe_agent_available q of (avail, q) \<Rightarrow>
     if \<not> avail then (Some ''no input agent: target has none or qemu is not running'', q)
     else if al_open (qe_agent q) then (None, q)
     else (case qe_connect_agent q of
         (Some e, q) \<Rightarrow> (Some e, q)
       | (None, q) \<Rightarrow> (case qe_request ''ping'' q of
           (Some e, q) \<Rightarrow>
             (Some (''guest agent did not answer (does the firmware run esprite_qemu_agent?): '' @ e),
              q\<lparr>qe_agent := agent_close (qe_agent q)\<rparr>)
         | (None, q) \<Rightarrow> (None, q))))"

definition qe_gpio :: "int \<Rightarrow> int \<Rightarrow> QemuBackend \<Rightarrow> string option \<times> QemuBackend" where
  "qe_gpio pin level q = (case ensure_agent q of
     (Some e, q) \<Rightarrow> (Some e, q)
   | (None, q) \<Rightarrow> qe_request (''gpio '' @ int_to_string pin @ '' '' @ int_to_string level) q)"

definition qe_pulse :: "int \<Rightarrow> int \<Rightarrow> int \<Rightarrow> QemuBackend \<Rightarrow> string option \<times> QemuBackend" where
  "qe_pulse pin level ms q = (case ensure_agent q of
     (Some e, q) \<Rightarrow> (Some e, q)
   | (None, q) \<Rightarrow> qe_request (''pulse '' @ int_to_string pin @ '' '' @ int_to_string level @ '' '' @
        int_to_string ms) q)"

definition qe_touch :: "qemu_lib \<Rightarrow> bool \<Rightarrow> int \<Rightarrow> int \<Rightarrow> QemuBackend \<times> Framebuffer
    \<Rightarrow> string option \<times> QemuBackend \<times> Framebuffer" where
  "qe_touch L down x y = (\<lambda>(q, fb). case ensure_agent q of
     (Some e, q) \<Rightarrow> (Some e, q, fb)
   | (None, q) \<Rightarrow>
      (let (q, fb) = pump_display L (q, fb);
           (e, q) = qe_request (if down then ''touch '' @ int_to_string x @ '' '' @ int_to_string y
                                else ''release'') q
       in (e, pump_display L (q, fb))))"

definition qe_tap :: "qemu_lib \<Rightarrow> int \<Rightarrow> int \<Rightarrow> int \<Rightarrow> QemuBackend \<times> Framebuffer
    \<Rightarrow> string option \<times> QemuBackend \<times> Framebuffer" where
  "qe_tap L x y ms = (\<lambda>(q, fb). case ensure_agent q of
     (Some e, q) \<Rightarrow> (Some e, q, fb)
   | (None, q) \<Rightarrow>
      (let (q, fb) = pump_display L (q, fb)
       in case qe_request (''tap '' @ int_to_string x @ '' '' @ int_to_string y @ '' '' @ int_to_string ms) q of
          (Some e, q) \<Rightarrow> (Some e, q, fb)
        | (None, q) \<Rightarrow> (None, (pump_display L ^^ 8) (q, fb))))"

section \<open>The implementation of the interface\<close>

definition on_ext :: "(QemuBackend \<Rightarrow> 'a \<times> QemuBackend) \<Rightarrow> qworld \<Rightarrow> 'a \<times> qworld" where
  "on_ext f w = (case f (w_ext w) of (r, q) \<Rightarrow> (r, w\<lparr>w_ext := q\<rparr>))"

definition on_display :: "(QemuBackend \<times> Framebuffer \<Rightarrow> 'a \<times> QemuBackend \<times> Framebuffer) \<Rightarrow> qworld \<Rightarrow> 'a \<times> qworld" where
  "on_display f w = (case f (w_ext w, w_fb w) of (r, q, fb) \<Rightarrow> (r, w\<lparr>w_ext := q, w_fb := fb\<rparr>))"

definition qemu_boot :: "qemu_lib \<Rightarrow> qworld registry \<Rightarrow> nat option \<Rightarrow> qworld \<Rightarrow> string option \<times> qworld" where
  "qemu_boot L reg t w =
     (case on_ext (qe_boot L (case t of None \<Rightarrow> None | Some i \<Rightarrow> t_qemu (reg ! i))) w of
        (Some m, w) \<Rightarrow> (Some m, w)
      | (None, w) \<Rightarrow> (None, sim_set_active_target t w))"

text \<open>\<open>writes\<close>: the rounds of the next write to the child's input, from the world.\<close>

definition qemu_backend :: "qemu_lib \<Rightarrow> (string \<Rightarrow> qworld \<Rightarrow> (bool \<times> send_event) list)
    \<Rightarrow> qworld registry \<Rightarrow> QemuBackend backend" where
  "qemu_backend L writes reg = \<lparr>
     be_boot = qemu_boot L reg,
     be_shutdown = (\<lambda>w. w\<lparr>w_ext := qe_shutdown L (w_ext w)\<rparr>),
     be_settle_ms = (\<lambda>ms. on_ext (qe_settle_ms ms)),
     be_tick = (\<lambda>w. w\<lparr>w_ext := qe_pump (w_ext w)\<rparr>),
     be_serial_output = on_ext (\<lambda>q. (qp_captured (qe_process (qe_pump q)), qe_pump q)),
     be_serial_inject = (\<lambda>d w. (fst (serial_write (writes d w) d (qe_process (w_ext w))), w)),
     be_sync_framebuffer = on_display (qe_sync L),
     be_agent_available = on_ext qe_agent_available,
     be_agent_gpio = (\<lambda>pin level. on_ext (qe_gpio pin level)),
     be_agent_pulse = (\<lambda>pin level ms. on_ext (qe_pulse pin level ms)),
     be_agent_touch = (\<lambda>down x y. on_display (qe_touch L down x y)),
     be_agent_tap = (\<lambda>x y ms. on_display (qe_tap L x y ms)),
     be_http_port = on_ext qe_http,
     be_name = ''qemu''\<rparr>"

definition qemu_backend_install :: "qemu_lib \<Rightarrow> (string \<Rightarrow> qworld \<Rightarrow> (bool \<times> send_event) list)
    \<Rightarrow> qworld registry \<Rightarrow> QemuBackend slots \<Rightarrow> QemuBackend slots" where
  "qemu_backend_install L writes reg = sim_backend_register BACKEND_QEMU (Some (qemu_backend L writes reg))"

section \<open>Lemmas\<close>

text \<open>At most the scratch directory in use is on disk.\<close>

definition dirs_ok :: "QemuBackend \<Rightarrow> bool" where
  "dirs_ok q \<longleftrightarrow> set (os_dirs (qe_os q)) \<subseteq> {qe_socket_dir q} - {[]}"

definition qe_idle :: "QemuBackend \<Rightarrow> bool" where
  "qe_idle q \<longleftrightarrow> qp_clean (qe_process q) \<and> qe_socket_dir q = [] \<and> os_dirs (qe_os q) = []"

lemma cleanup_dir_idle:
  "dirs_ok q \<Longrightarrow> qp_clean (qe_process q) \<Longrightarrow> qe_idle (cleanup_dir q)"
  by (auto simp: dirs_ok_def qe_idle_def cleanup_dir_def filter_empty_conv)

lemma qe_stop_frame [simp]:
  "qp_clean (qe_process (qe_stop L q))" "dirs_ok (qe_stop L q) = dirs_ok q"
  "qe_agent (qe_stop L q) = qe_agent q" "qe_socket_dir (qe_stop L q) = qe_socket_dir q" "qe_os (qe_stop L q) = qe_os q"
  by (simp_all add: qe_stop_def qp_stop_clean dirs_ok_def)

lemma qe_shutdown_idle: "dirs_ok q \<Longrightarrow> qe_idle (qe_shutdown L q)"
  unfolding qe_shutdown_def by (rule cleanup_dir_idle) (simp_all add: dirs_ok_def)

lemma cleanup_dir_fields [simp]:
  "qe_process (cleanup_dir q) = qe_process q" "qe_agent (cleanup_dir q) = qe_agent q"
  "qe_agent_capable (cleanup_dir q) = qe_agent_capable q" "qe_http_port (cleanup_dir q) = qe_http_port q"
  "qe_socket_dir (cleanup_dir q) = []" "os_boots (qe_os (cleanup_dir q)) = os_boots (qe_os q)"
  by (simp_all add: cleanup_dir_def)

lemma cleanup_dir_again [simp]: "qe_socket_dir q = [] \<Longrightarrow> cleanup_dir q = q"
  by (simp add: cleanup_dir_def)

lemma qe_shutdown_fields:
  "qp_clean (qe_process (qe_shutdown L q))" "\<not> al_open (qe_agent (qe_shutdown L q))"
  "al_rx (qe_agent (qe_shutdown L q)) = []" "\<not> qe_agent_capable (qe_shutdown L q)"
  "qe_http_port (qe_shutdown L q) = 0" "qe_socket_dir (qe_shutdown L q) = []"
  "os_boots (qe_os (qe_shutdown L q)) = os_boots (qe_os q)"
  by (simp_all add: qe_shutdown_def agent_close_def) (simp_all add: qe_stop_def)

lemma qe_shutdown_twice: "qe_shutdown L (qe_shutdown L q) = qe_shutdown L q"
proof -
  let ?q = "qe_shutdown L q"
  have "agent_close (qe_agent ?q) = qe_agent ?q"
    using qe_shutdown_fields(2,3) [of L q] by (simp add: agent_close_def)
  moreover have "snd (qp_stop (ql_parse L) (ql_build L) (ql_polls L) (qe_process ?q)) = qe_process ?q"
    by (simp add: qp_stop_again qe_shutdown_fields(1))
  ultimately have "qe_stop L (?q\<lparr>qe_agent := agent_close (qe_agent ?q), qe_agent_capable := False, qe_http_port := 0\<rparr>)
      = ?q"
    using qe_shutdown_fields(4,5) [of L q] by (simp add: qe_stop_def)
  then show ?thesis
    using qe_shutdown_fields(6) [of L q] by (subst qe_shutdown_def) simp
qed

lemma qe_interrupted_frame:
  "qe_interrupted q = (i, q') \<Longrightarrow> qe_process q' = qe_process q \<and> dirs_ok q' = dirs_ok q \<and>
     qe_socket_dir q' = qe_socket_dir q"
  by (auto simp: qe_interrupted_def dirs_ok_def split: list.splits)

lemma qe_pump_frame [simp]: "dirs_ok (qe_pump q) = dirs_ok q" "qe_socket_dir (qe_pump q) = qe_socket_dir q"
    "qp_pid (qe_process (qe_pump q)) = qp_pid (qe_process q)" "qp_qmp (qe_process (qe_pump q)) = qp_qmp (qe_process q)"
    "qe_os (qe_pump q) = qe_os q"
  by (simp_all add: qe_pump_def dirs_ok_def)

lemma qe_settle_loop_frame:
  "qe_settle_loop n q = (ok, q') \<Longrightarrow> dirs_ok q' = dirs_ok q \<and> qe_socket_dir q' = qe_socket_dir q \<and>
     qp_pid (qe_process q') = qp_pid (qe_process q) \<and> qp_qmp (qe_process q') = qp_qmp (qe_process q)"
proof (induction n arbitrary: q)
  case (Suc n)
  obtain i q1 where i: "qe_interrupted q = (i, q1)" by force
  show ?case
  proof (cases i)
    case True
    with Suc.prems i qe_interrupted_frame [OF i] show ?thesis by simp
  next
    case False
    with Suc.IH [of "qe_pump q1"] Suc.prems i qe_interrupted_frame [OF i] show ?thesis by simp
  qed
qed simp

lemma qe_settle_frame:
  "qe_settle_ms ms q = (ok, q') \<Longrightarrow> dirs_ok q' = dirs_ok q \<and> qe_socket_dir q' = qe_socket_dir q \<and>
     qp_pid (qe_process q') = qp_pid (qe_process q) \<and> qp_qmp (qe_process q') = qp_qmp (qe_process q)"
  unfolding qe_settle_ms_def by (drule qe_settle_loop_frame) simp

lemma qe_execute_frame:
  "qe_execute L cmd args q = (r, q') \<Longrightarrow> dirs_ok q' = dirs_ok q \<and> qe_socket_dir q' = qe_socket_dir q \<and>
     qp_pid (qe_process q') = qp_pid (qe_process q) \<and> (\<forall>x. r = Inr x \<longrightarrow> q_open (qp_qmp (qe_process q')))"
  by (auto simp: qe_execute_def dirs_ok_def qmp_execute_ok split: prod.splits)

lemma qe_fail_idle: "dirs_ok q \<Longrightarrow> qe_idle (cleanup_dir (qe_stop L q))"
  by (rule cleanup_dir_idle) simp_all

lemma qe_confirm_result:
  assumes "qe_confirm L q = (err, q')" and "dirs_ok q" and "qe_socket_dir q \<noteq> []" and "qp_pid (qe_process q)"
  shows "(err \<noteq> None \<longrightarrow> qe_idle q') \<and>
    (err = None \<longrightarrow> dirs_ok q' \<and> qe_socket_dir q' = qe_socket_dir q \<and> qp_pid (qe_process q') \<and>
       q_open (qp_qmp (qe_process q')) \<and> (\<exists>x. ql_status L x = Some ''running''))"
proof -
  obtain i q1 where i: "qe_interrupted q = (i, q1)" by force
  note f1 = qe_interrupted_frame [OF i]
  obtain r q2 where e: "qe_execute L ''query-status'' [] q1 = (r, q2)" by force
  note f2 = qe_execute_frame [OF e]
  obtain ok q3 where s: "qe_settle_ms kBootSettleMs q2 = (ok, q3)" by force
  note f3 = qe_settle_frame [OF s]
  have ok: "dirs_ok q1" "dirs_ok q2" "dirs_ok q3" using f1 f2 f3 assms(2) by simp_all
  have run: "(err, q') = (if i then (Some ''interrupted'', cleanup_dir (qe_stop L q1))
     else case r of
        Inl m \<Rightarrow> (Some (''query-status failed: '' @ m), cleanup_dir (qe_stop L q2))
      | Inr r \<Rightarrow> (case ql_status L r of
          None \<Rightarrow> (Some (''query-status returned malformed JSON: '' @ r), cleanup_dir (qe_stop L q2))
        | Some st \<Rightarrow>
           if st \<noteq> ''running''
           then (Some (''qemu is not running after boot (status='' @ CHR 0x27 # st @ [CHR 0x27] @ '')''),
                 cleanup_dir (qe_stop L q2))
           else if \<not> ok then (Some ''interrupted'', qe_shutdown L q3) else (None, q3)))"
    unfolding assms(1) [symmetric] qe_confirm_def
    by (simp only: i e s prod.case cong: if_cong option.case_cong sum.case_cong)
  consider (fail) m where "(err, q') = (Some m, cleanup_dir (qe_stop L q1))"
    | (fail2) m where "(err, q') = (Some m, cleanup_dir (qe_stop L q2))"
    | (fail3) m where "(err, q') = (Some m, qe_shutdown L q3)"
    | (ok) x where "(err, q') = (None, q3)" "r = Inr x" "ql_status L x = Some ''running''"
    using run by (simp split: if_splits sum.splits option.splits)
  then show ?thesis
  proof cases
    case (ok x)
    with f1 f2 f3 assms(3,4) \<open>dirs_ok q3\<close> show ?thesis by auto
  qed (use qe_fail_idle qe_shutdown_idle ok in auto)
qed

lemma qe_prepare_result:
  assumes "qe_prepare m bin img e q = (r, q')" and "qe_idle q" and "bv_dir e \<noteq> Inr []"
  shows "(case r of Inl t \<Rightarrow> qe_idle q'
    | Inr spec \<Rightarrow> dirs_ok q' \<and> qe_socket_dir q' \<noteq> [] \<and> qp_clean (qe_process q'))"
proof (cases "bv_dir e")
  case (Inl t)
  with assms(1,2) show ?thesis by (auto simp: qe_prepare_def)
next
  case (Inr dir)
  with assms(3) have d: "dir \<noteq> []" by simp
  let ?q = "q\<lparr>qe_socket_dir := dir, qe_os := (qe_os q)\<lparr>os_dirs := dir # os_dirs (qe_os q)\<rparr>,
     qe_agent_capable := m_agent m, qe_http_port := 0\<rparr>"
  have ok: "dirs_ok ?q" "qp_clean (qe_process ?q)" using assms(2) d by (auto simp: qe_idle_def dirs_ok_def)
  have "qe_idle (cleanup_dir ?q)" by (rule cleanup_dir_idle [OF ok])
  moreover have "dirs_ok (?q\<lparr>qe_http_port := p\<rparr>)" for p using ok(1) by (simp add: dirs_ok_def)
  ultimately show ?thesis
    using assms(1) Inr ok d
    by (auto simp: qe_prepare_def Let_def split: if_splits sum.splits)
qed

lemma qe_boot_result:
  assumes "qe_boot L ms q = (err, q')" and "dirs_ok q"
    and "\<forall>e \<in> set (os_boots (qe_os q)). bv_dir e \<noteq> Inr []"
  shows "(err \<noteq> None \<longrightarrow> qe_idle q') \<and>
    (err = None \<longrightarrow> dirs_ok q' \<and> qe_socket_dir q' \<noteq> [] \<and> qp_pid (qe_process q') \<and>
       q_open (qp_qmp (qe_process q')) \<and> (\<exists>x. ql_status L x = Some ''running''))"
proof -
  let ?q = "qe_shutdown L q"
  have idle: "qe_idle ?q" by (rule qe_shutdown_idle [OF assms(2)])
  show ?thesis
  proof (cases "\<exists>m bin img. ms = Some m \<and> resolve_qemu_bin (m_arch m) ?q = Inr bin \<and> resolve_image ?q = Inr img
      \<and> os_boots (qe_os ?q) \<noteq> []")
    case False
    then have "err \<noteq> None \<and> q' = ?q"
      using assms(1) by (auto simp: qe_boot_def Let_def split: option.splits sum.splits list.splits)
    with idle show ?thesis by auto
  next
    case True
    then obtain m bin img e es where m: "ms = Some m" "resolve_qemu_bin (m_arch m) ?q = Inr bin"
      "resolve_image ?q = Inr img" "os_boots (qe_os ?q) = e # es" by (auto simp: neq_Nil_conv)
    let ?q1 = "?q\<lparr>qe_os := (qe_os ?q)\<lparr>os_boots := es\<rparr>\<rparr>"
    have idle1: "qe_idle ?q1" using idle by (simp add: qe_idle_def)
    have dir: "bv_dir e \<noteq> Inr []" using assms(3) m(4) qe_shutdown_fields(7) [of L q] by auto
    obtain r q2 where p: "qe_prepare m bin img e ?q1 = (r, q2)" by force
    note p2 = qe_prepare_result [OF p idle1 dir]
    show ?thesis
    proof (cases r)
      case (Inl t)
      with assms(1) m p have "err = Some t" "q' = q2" by (simp_all add: qe_boot_def Let_def)
      with p2 Inl show ?thesis by simp
    next
      case (Inr spec)
      with p2 have ok2: "dirs_ok q2" "qe_socket_dir q2 \<noteq> []" "qp_clean (qe_process q2)" by simp_all
      obtain st p3 where st: "qp_start (ql_parse L) (ql_build L) (ql_polls L) spec (bv_spawn e) (bv_outs e)
          (bv_waits e) (bv_fds e) (bv_attempts e) (qe_process q2) = (st, p3)" by force
      note p3 = start_result [OF st ok2(3)]
      have ok3: "dirs_ok (q2\<lparr>qe_process := p3\<rparr>)" using ok2(1) by (simp add: dirs_ok_def)
      show ?thesis
      proof (cases st)
        case (Some t)
        with assms(1) m p Inr st have "err = Some t" "q' = cleanup_dir (q2\<lparr>qe_process := p3\<rparr>)"
          by (simp_all add: qe_boot_def Let_def)
        with cleanup_dir_idle [OF ok3] p3 Some show ?thesis by simp
      next
        case None
        with assms(1) m p Inr st have "qe_confirm L (q2\<lparr>qe_process := p3\<rparr>) = (err, q')"
          by (simp add: qe_boot_def Let_def)
        from qe_confirm_result [OF this ok3] p3 None ok2(2) show ?thesis by auto
      qed
    qed
  qed
qed

section \<open>The contract\<close>

lemma qe_sync_error: "qe_sync L (q, fb) = (Some m, q', fb') \<Longrightarrow> fb' = fb"
  by (auto simp: qe_sync_def Let_def split: if_splits prod.splits sum.splits option.splits)

lemma ensure_agent_unavailable:
  "\<not> fst (qe_agent_available q) \<Longrightarrow> \<exists>e q'. ensure_agent q = (Some e, q')"
  by (auto simp: ensure_agent_def split_def)

lemma qe_boot_None: "qe_boot L None q = (Some ''target has no qemu machine spec'', qe_shutdown L q)"
  by (simp add: qe_boot_def)

lemma on_ext_fst [simp]: "fst (on_ext f w) = fst (f (w_ext w))"
  by (simp add: on_ext_def split: prod.splits)

lemma on_display_fst [simp]: "fst (on_display f w) = fst (f (w_ext w, w_fb w))"
  by (simp add: on_display_def split: prod.splits)

lemma on_frames [simp]:
  "w_input (snd (on_ext f w)) = w_input w" "w_input (snd (on_display g w)) = w_input w"
  "w_active (snd (on_ext f w)) = w_active w" "w_active (snd (on_display g w)) = w_active w"
  by (simp_all add: on_ext_def on_display_def split: prod.splits)

interpretation qemu: backend_contract "qemu_backend L writes reg" for L writes reg
proof
  fix t w m w'
  let ?be = "qemu_backend L writes reg"
  show "be_boot ?be t w = (Some m, w') \<Longrightarrow> w_active w' = w_active w"
    by (auto simp: qemu_backend_def qemu_boot_def on_ext_def split: prod.splits option.splits)
  show "be_boot ?be t w = (None, w') \<Longrightarrow> t \<noteq> None"
    by (cases t) (auto simp: qemu_backend_def qemu_boot_def on_ext_def qe_boot_None split: prod.splits)
  show "be_shutdown ?be (be_shutdown ?be w) = be_shutdown ?be w"
    by (simp add: qemu_backend_def qe_shutdown_twice)
  show "be_sync_framebuffer ?be w = (Some m, w') \<Longrightarrow> w_fb w' = w_fb w"
    by (auto simp: qemu_backend_def on_display_def dest: qe_sync_error split: prod.splits)
next
  fix w pin level ms down x y
  let ?be = "qemu_backend L writes reg"
  assume "\<not> fst (be_agent_available ?be w)"
  then have "\<not> fst (qe_agent_available (w_ext w))" by (simp add: qemu_backend_def)
  from ensure_agent_unavailable [OF this] obtain e q where "ensure_agent (w_ext w) = (Some e, q)" by blast
  then show "fst (be_agent_gpio ?be pin level w) \<noteq> None" "fst (be_agent_pulse ?be pin level ms w) \<noteq> None"
    "fst (be_agent_touch ?be down x y w) \<noteq> None" "fst (be_agent_tap ?be x y ms w) \<noteq> None"
    by (simp_all add: qemu_backend_def qe_gpio_def qe_pulse_def qe_touch_def qe_tap_def)
qed (simp_all add: qemu_backend_def)

text \<open>The image on the screen: a successful dump is what a blit onto a fresh framebuffer gives.\<close>

lemma dump_blit:
  assumes "ppm_decode_rgb565 ppm = Inr (w, h, px)" and "fb_ok fb"
  shows "fb_ok (show_dump w h px fb) \<and> fb_w (show_dump w h px fb) = w \<and> fb_h (show_dump w h px fb) = h \<and>
    fb_px (show_dump w h px fb) = px"
proof -
  let ?fb = "if fb_w fb \<noteq> w \<or> fb_h fb \<noteq> h then fb_init w h fb else fb"
  from ppm_decode_InrD [OF assms(1)] obtain pos where
    dims: "1 \<le> w" "w \<le> 4096" "1 \<le> h" "h \<le> 4096" and
    len: "pos + nat w * nat h * 3 \<le> length ppm" and px: "px = decode_px (nat w * nat h) (drop pos ppm)" by blast
  have ok: "fb_ok ?fb" "fb_w ?fb = w" "fb_h ?fb = h"
    using assms(2) dims fb_ok_init [of w h fb] by (simp_all add: fb_init_def)
  have "nat w * nat h * 3 \<le> length (drop pos ppm)" using len by simp
  then have l: "length px = nat (fb_w ?fb * fb_h ?fb)"
    unfolding ok px using dims by (simp add: length_decode_px nat_mult_distrib)
  have b: "fb_blit 0 0 w h px ?fb = ?fb\<lparr>fb_px := px\<rparr>" using fb_blit_full [OF ok(1) l] unfolding ok .
  show ?thesis
    using ok l unfolding show_dump_def b by (simp add: fb_ok_def)
qed

lemma qe_execute_dumps: "qe_execute L cmd args q = (r, q') \<Longrightarrow> os_dumps (qe_os q') = os_dumps (qe_os q)"
  by (auto simp: qe_execute_def split: prod.splits)

lemma qe_running_dumps: "qe_running q = (r, q') \<Longrightarrow> os_dumps (qe_os q') = os_dumps (qe_os q)"
  by (auto simp: qe_running_def split: prod.splits)

lemma qe_sync_okD:
  assumes "qe_sync L (q, fb) = (None, q', fb')"
  shows "\<exists>ppm ds w h px. os_dumps (qe_os q) = Some ppm # ds \<and> ppm_decode_rgb565 ppm = Inr (w, h, px) \<and>
    fb' = show_dump w h px fb"
proof -
  obtain r q1 where r: "qe_running q = (r, q1)" by force
  obtain x q2 where x: "qe_execute L ''screendump'' (json_filename (qe_socket_dir q1 @ ''/screen.ppm'')) q1 = (x, q2)"
    by force
  have d: "os_dumps (qe_os q2) = os_dumps (qe_os q)"
    using qe_running_dumps [OF r] qe_execute_dumps [OF x] by simp
  from assms r x show ?thesis
    by (auto simp: qe_sync_def qe_read_dump_def d [symmetric] Let_def
        split: if_splits sum.splits list.splits option.splits)
qed

section \<open>Properties\<close>


definition demo_os :: "boot_env list \<Rightarrow> qemu_os" where
  "demo_os es = \<lparr>os_getenv = (\<lambda>v. if v = ''ESPRITE_QEMU_RISCV32'' then Some ''qemu''
       else if v = ''ESPRITE_QEMU_IMAGE'' then Some ''flash'' else None),
     os_executable = (\<lambda>_. True), os_readable = (\<lambda>_. True), os_boots = es, os_interrupted = [],
     os_dumps = [Some (''P6'' @ [nl] @ ''1 1'' @ [nl] @ ''255'' @ [nl] @ ''ABC'')], os_agents = [],
     os_rounds = (\<lambda>_. 2), os_dirs = []\<rparr>"

definition demo_qemu :: "boot_env list \<Rightarrow> QemuBackend" where
  "demo_qemu es = \<lparr>qe_process = qp_new, qe_agent = agent_link_new, qe_agent_capable = False,
     qe_http_port = 0, qe_socket_dir = [], qe_os = demo_os es\<rparr>"

definition demo_lib :: qemu_lib where
  "demo_lib = \<lparr>ql_parse = demo_parse, ql_build = demo_build,
     ql_status = (\<lambda>r. if r = ''{}'' then Some ''running'' else None), ql_polls = (1, 1)\<rparr>"

definition demo_boot_env :: "net_event list \<Rightarrow> boot_env" where
  "demo_boot_env es = \<lparr>bv_dir = Inr ''/tmp/d'', bv_port = Inl ''no port'', bv_spawn = demo_spawn None,
     bv_outs = [], bv_waits = [StillRunning, Reaped], bv_fds = {1, 2, 3},
     bv_attempts = [\<lparr>at_conn = ConnOk, at_in = es, at_out = [], at_interrupted = False,
       at_deadline = True\<rparr>]\<rparr>"

definition demo_qemu_target :: "qworld SimTarget" where
  "demo_qemu_target = \<lparr>t_key = ''q'', t_description = ''q'', t_setup = None, t_loop = None,
     t_board = Some demo_board, t_backend = BACKEND_QEMU,
     t_qemu = Some \<lparr>m_machine = ''esp32c3'', m_arch = ''riscv32'', m_agent = False, m_http_guest_port = 0\<rparr>\<rparr>"

definition demo_qworld :: "boot_env list \<Rightarrow> qworld" where
  "demo_qworld es = \<lparr>w_input = input_init, w_gpio = gpio_init, w_clock = 7, w_restart = True,
     w_serial = serial_init, w_ble = ble_init, w_fb = fb_new, w_lv = lv_init_state, w_wifi = False,
     w_http = 0, w_servers = [], w_active = None, w_impl = BACKEND_QEMU, w_env_port = None,
     w_ext = demo_qemu es\<rparr>"

definition demo_session :: "net_event list" where
  "demo_session = [Chunk (''greet'' @ [nl]), Chunk (''return'' @ [nl]), Chunk (''return'' @ [nl]),
     Chunk (''event'' @ [nl] @ ''return'' @ [nl])]"

lemma demo_boots: "dirs_ok (w_ext (demo_qworld [demo_boot_env es]))"
    "\<forall>e \<in> set (os_boots (qe_os (w_ext (demo_qworld [demo_boot_env es])))). bv_dir e \<noteq> Inr []"
  by (simp_all add: demo_qworld_def demo_qemu_def demo_os_def demo_boot_env_def dirs_ok_def)


text \<open>
  Property C19. A successful display capture makes the framebuffer exactly the image QEMU dumped,
  its dimensions and every pixel, whatever it showed before and whatever its size was; a failed
  one, for any of the seven reasons, leaves it as it was. Either way it stays well formed.
\<close>

theorem qemu_sync_exact:
  assumes "be_sync_framebuffer (qemu_backend L writes reg) w = (err, w')" and "fb_ok (w_fb w)"
  shows "fb_ok (w_fb w') \<and> (err \<noteq> None \<longrightarrow> w_fb w' = w_fb w) \<and>
    (err = None \<longrightarrow> (\<exists>ppm ds. os_dumps (qe_os (w_ext w)) = Some ppm # ds \<and>
       ppm_decode_rgb565 ppm = Inr (fb_w (w_fb w'), fb_h (w_fb w'), fb_px (w_fb w'))))"
proof -
  obtain q' fb' where s: "qe_sync L (w_ext w, w_fb w) = (err, q', fb')" and w': "w_fb w' = fb'"
    using assms(1) by (auto simp: qemu_backend_def on_display_def split: prod.splits)
  show ?thesis
  proof (cases err)
    case (Some m)
    with s qe_sync_error [of L "w_ext w" "w_fb w" m q' fb'] w' assms(2) show ?thesis by simp
  next
    case None
    with s qe_sync_okD [of L "w_ext w" "w_fb w" q' fb'] obtain ppm ds cw ch px where
      d: "os_dumps (qe_os (w_ext w)) = Some ppm # ds" "ppm_decode_rgb565 ppm = Inr (cw, ch, px)"
      and fb': "fb' = show_dump cw ch px (w_fb w)" by auto
    from dump_blit [OF d(2) assms(2)] show ?thesis using d None unfolding w' fb' by auto
  qed
qed

definition demo_running :: "net_event list \<Rightarrow> qworld" where
  "demo_running es = (demo_qworld [])\<lparr>w_ext := (demo_qemu [])\<lparr>qe_process := (demo_process [StillRunning])
     \<lparr>qp_qmp := demo_qmp es\<rparr>, qe_socket_dir := ''/tmp/d''\<rparr>\<rparr>"

theorem qemu_sync_exact_witness:
  "\<exists>ppm ds w'. w' = snd (be_sync_framebuffer (qemu_backend demo_lib (\<lambda>_ _. []) []) (demo_running [Chunk (''return'' @ [nl])]))
     \<and> os_dumps (qe_os (w_ext (demo_running [Chunk (''return'' @ [nl])]))) = Some ppm # ds
     \<and> ppm_decode_rgb565 ppm = Inr (fb_w (w_fb w'), fb_h (w_fb w'), fb_px (w_fb w'))"
proof -
  let ?w = "demo_running [Chunk (''return'' @ [nl])]"
  let ?r = "be_sync_framebuffer (qemu_backend demo_lib (\<lambda>_ _. []) []) ?w"
  have "fb_ok (w_fb ?w)" by (simp add: demo_running_def demo_qworld_def)
  moreover have "fst ?r = None" by code_simp
  ultimately show ?thesis
    using qemu_sync_exact [OF prod.collapse [symmetric, of ?r]] by blast
qed

text \<open>
  The input agent is only ever believed after it answered: a first injection that
  gets an error from the handshake leaves the link closed, so the next one tries again; one that
  succeeds has a running child of a board with an agent, an open link on the socket of this
  boot, and a \<open>ping\<close> the guest has received whole. An open link is not pinged again.
\<close>

theorem agent_handshake:
  assumes "ensure_agent q = (err, q')"
  shows "(err \<noteq> None \<longrightarrow> \<not> al_open (qe_agent q) \<longrightarrow> \<not> al_open (qe_agent q')) \<and>
    (err = None \<longrightarrow> qe_agent_capable q \<and> qp_pid (qe_process q') \<and> al_open (qe_agent q') \<and>
       (if al_open (qe_agent q) then qe_agent q' = qe_agent q
        else al_sent (qe_agent q') = ''ping'' @ [nl]))"
proof -
  obtain av q1 where av: "qe_agent_available q = (av, q1)" by force
  then have q1: "qe_agent q1 = qe_agent q" "av \<longrightarrow> qe_agent_capable q \<and> qp_pid (qe_process q1)"
    by (auto simp: qe_agent_available_def qe_running_def dest: qp_running_frame split: if_splits prod.splits)
  have run: "(err, q') = (if \<not> av then (Some ''no input agent: target has none or qemu is not running'', q1)
     else if al_open (qe_agent q1) then (None, q1)
     else (case qe_connect_agent q1 of
         (Some e, q) \<Rightarrow> (Some e, q)
       | (None, q) \<Rightarrow> (case qe_request ''ping'' q of
           (Some e, q) \<Rightarrow>
             (Some (''guest agent did not answer (does the firmware run esprite_qemu_agent?): '' @ e),
              q\<lparr>qe_agent := agent_close (qe_agent q)\<rparr>)
         | (None, q) \<Rightarrow> (None, q))))"
    unfolding assms [symmetric] ensure_agent_def by (simp only: av prod.case)
  show ?thesis
  proof (cases "av \<and> \<not> al_open (qe_agent q)")
    case False
    with run q1 show ?thesis by (simp split: if_splits)
  next
    case True
    obtain ce q2 where c: "qe_connect_agent q1 = (ce, q2)" by force
    have q2: "qe_process q2 = qe_process q1" "ce \<noteq> None \<longrightarrow> \<not> al_open (qe_agent q2)"
      "ce = None \<longrightarrow> al_open (qe_agent q2) \<and> al_sent (qe_agent q2) = []"
      using c by (auto simp: qe_connect_agent_def agent_connect_def agent_close_def Let_def
          split: list.splits prod.splits option.splits if_splits)
    obtain pe q3 where p: "qe_request ''ping'' q2 = (pe, q3)" by force
    have q3: "qe_process q3 = qe_process q2" "al_open (qe_agent q3) = al_open (qe_agent q2)"
      "pe = None \<longrightarrow> al_sent (qe_agent q3) = al_sent (qe_agent q2) @ ''ping'' @ [nl]"
      using p by (auto simp: qe_request_def dest: agent_request_frame split: prod.splits)
    from run c p True q1 q2 q3 show ?thesis
      by (cases ce; cases pe) (simp_all add: agent_close_def)
  qed
qed

definition demo_agent :: "net_event list \<Rightarrow> QemuBackend" where
  "demo_agent es = (w_ext (demo_running []))\<lparr>qe_agent_capable := True,
     qe_os := (demo_os [])\<lparr>os_agents := [(None, None, es, [])]\<rparr>\<rparr>"

theorem agent_handshake_witness:
  "al_open (qe_agent (snd (ensure_agent (demo_agent [Chunk (''ok'' @ [nl])])))) \<and>
   \<not> al_open (qe_agent (snd (ensure_agent (demo_agent []))))"
proof -
  let ?r = "ensure_agent (demo_agent [Chunk (''ok'' @ [nl])])" and ?f = "ensure_agent (demo_agent [])"
  have "\<not> al_open (qe_agent (demo_agent []))"
    by (simp add: demo_agent_def demo_running_def demo_qemu_def agent_link_new_def)
  moreover have "fst ?r = None" "fst ?f \<noteq> None" by code_simp+
  ultimately show ?thesis
    using agent_handshake [OF prod.collapse [symmetric, of ?r]] agent_handshake [OF prod.collapse [symmetric, of ?f]]
    by blast
qed

end
