(* ===== verification/Preferences.thy ===== *)
theory Preferences
  imports Prelude
begin

text \<open>
  The NVS shim (\<^verbatim>\<open>shims/esp/preferences.cpp\<close>): a key-value store per namespace, kept in a
  text file that is read when the handle is opened and rewritten on every put. The file
  system is the record \<open>files\<close>: the contents of each readable file, and whether a path can be
  opened for writing. Byte order of the keys is the order of \<^verbatim>\<open>std::map<std::string, long>\<close>.
\<close>

section \<open>State\<close>

record file_system =
  fs_read :: "string \<Rightarrow> string option"
  fs_writable :: "string \<Rightarrow> bool"

record Preferences =
  p_path :: string
  p_kv :: "(string \<times> int) list"
  p_readonly :: bool

section \<open>The file format\<close>

text \<open>\<^verbatim>\<open>fscanf\<close>'s \<^verbatim>\<open>%63s\<close> and \<^verbatim>\<open>%ld\<close>: the token read and the input left; a \<^verbatim>\<open>long\<close> has 64 bits.\<close>

definition scan_s :: "nat \<Rightarrow> string \<Rightarrow> (string \<times> string) option" where
  "scan_s n s =
     (let r = dropWhile c_isspace s; tok = take n (takeWhile (\<lambda>c. \<not> c_isspace c) r)
      in if tok = [] then None else Some (tok, drop (length tok) r))"

definition clamp_long :: "int \<Rightarrow> int" where
  "clamp_long v = max (- (2 ^ 63)) (min (2 ^ 63 - 1) v)"

definition scan_ld :: "string \<Rightarrow> (int \<times> string) option" where
  "scan_ld s = map_option (\<lambda>(v, r). (clamp_long v, r)) (c_strtol s)"

lemma scan_s_shorter: "scan_s n s = Some (tok, r) \<Longrightarrow> length r < length s"
proof -
  assume a: "scan_s n s = Some (tok, r)"
  let ?d = "dropWhile c_isspace s"
  from a have "tok \<noteq> []" and r: "r = drop (length tok) ?d"
    and tok: "tok = take n (takeWhile (\<lambda>c. \<not> c_isspace c) ?d)"
    by (auto simp only: scan_s_def Let_def split: if_splits)
  then have "0 < length tok" by simp
  moreover have "length tok \<le> length ?d"
    using length_takeWhile_le [of "\<lambda>c. \<not> c_isspace c" ?d] by (simp add: tok)
  moreover have "length ?d \<le> length s" by (rule length_dropWhile_le)
  ultimately show ?thesis unfolding r length_drop by linarith
qed

lemma scan_ld_shorter: "scan_ld s = Some (v, r) \<Longrightarrow> length r \<le> length s"
  by (auto simp: scan_ld_def dest: c_strtol_shorter)

text \<open>\<^verbatim>\<open>Preferences::load\<close>: pairs until one cannot be read.\<close>

function prefs_load :: "string \<Rightarrow> (string \<times> int) list \<Rightarrow> (string \<times> int) list" where
  "prefs_load s kv =
     (case scan_s 63 s of None \<Rightarrow> kv
      | Some (key, r) \<Rightarrow>
          (case scan_ld r of None \<Rightarrow> kv | Some (v, r') \<Rightarrow> prefs_load r' (kv_put key v kv)))"
  by pat_completeness auto
termination
  by (relation "measure (\<lambda>(s, _). length s)")
    (auto dest!: scan_s_shorter scan_ld_shorter)

declare prefs_load.simps [simp del]

definition prefs_text :: "(string \<times> int) list \<Rightarrow> string" where
  "prefs_text kv = concat (map (\<lambda>(k, v). k @ CHR '' '' # int_to_string v @ [nl]) kv)"

section \<open>Operations\<close>

definition prefs_new :: Preferences where
  "prefs_new = \<lparr>p_path = [], p_kv = [], p_readonly = True\<rparr>"

definition prefs_begin ::
  "string \<Rightarrow> string \<Rightarrow> bool \<Rightarrow> file_system \<Rightarrow> Preferences \<Rightarrow> bool \<times> Preferences" where
  "prefs_begin dir ns ro fs p =
     (let path = dir @ ''/prefs_'' @ ns @ ''.txt''
      in (True, \<lparr>p_path = path,
         p_kv = (case fs_read fs path of None \<Rightarrow> [] | Some s \<Rightarrow> prefs_load s []),
         p_readonly = ro\<rparr>))"

definition prefs_save :: "Preferences \<Rightarrow> file_system \<Rightarrow> bool \<times> file_system" where
  "prefs_save p fs =
     (if \<not> fs_writable fs (p_path p) then (False, fs)
      else (True, fs\<lparr>fs_read := (fs_read fs)(p_path p := Some (prefs_text (p_kv p)))\<rparr>))"

definition getUChar :: "string \<Rightarrow> 8 word \<Rightarrow> Preferences \<Rightarrow> 8 word" where
  "getUChar key d p = (case map_of (p_kv p) key of None \<Rightarrow> d | Some v \<Rightarrow> word_of_int v)"

definition getUInt :: "string \<Rightarrow> 32 word \<Rightarrow> Preferences \<Rightarrow> 32 word" where
  "getUInt key d p = (case map_of (p_kv p) key of None \<Rightarrow> d | Some v \<Rightarrow> word_of_int v)"

definition isKey :: "string \<Rightarrow> Preferences \<Rightarrow> bool" where
  "isKey key p \<longleftrightarrow> map_of (p_kv p) key \<noteq> None"

definition putUChar ::
  "string \<Rightarrow> 8 word \<Rightarrow> Preferences \<times> file_system \<Rightarrow> nat \<times> Preferences \<times> file_system" where
  "putUChar key v = (\<lambda>(p, fs).
     if p_readonly p then (0, p, fs)
     else (let p = p\<lparr>p_kv := kv_put key (uint v) (p_kv p)\<rparr>; (ok, fs) = prefs_save p fs
           in (if ok then 1 else 0, p, fs)))"

definition putUInt ::
  "string \<Rightarrow> 32 word \<Rightarrow> Preferences \<times> file_system \<Rightarrow> nat \<times> Preferences \<times> file_system" where
  "putUInt key v = (\<lambda>(p, fs).
     if p_readonly p then (0, p, fs)
     else (let p = p\<lparr>p_kv := kv_put key (uint v) (p_kv p)\<rparr>; (ok, fs) = prefs_save p fs
           in (if ok then 4 else 0, p, fs)))"

section \<open>Saving and loading\<close>

definition key_ok :: "string \<Rightarrow> bool" where
  "key_ok k \<longleftrightarrow> k \<noteq> [] \<and> length k \<le> 63 \<and> (\<forall>c \<in> set k. \<not> c_isspace c)"

definition entries_ok :: "(string \<times> int) list \<Rightarrow> bool" where
  "entries_ok kv \<longleftrightarrow> kv_ok kv \<and> (\<forall>(k, v) \<in> set kv. key_ok k \<and> long_ok v)"

lemma takeWhile_take: "takeWhile P (take n xs) = take n (takeWhile P xs)"
  by (induction xs arbitrary: n) (auto simp: take_Cons split: nat.splits)

lemma scan_s_ok: "scan_s 63 s = Some (tok, r) \<Longrightarrow> key_ok tok"
  by (auto simp: scan_s_def Let_def key_ok_def split: if_splits dest!: in_set_takeD set_takeWhileD)

lemma scan_ld_ok: "scan_ld s = Some (v, r) \<Longrightarrow> long_ok v"
  by (auto simp: scan_ld_def long_ok_def clamp_long_def)

lemma entries_ok_put:
  "entries_ok kv \<Longrightarrow> key_ok k \<Longrightarrow> long_ok v \<Longrightarrow> entries_ok (kv_put k v kv)"
  using kv_put_set [of k v kv] by (fastforce simp: entries_ok_def kv_ok_put)

lemma entries_ok_load: "entries_ok kv \<Longrightarrow> entries_ok (prefs_load s kv)"
proof (induction s kv rule: prefs_load.induct)
  case (1 s kv)
  show ?case
  proof (cases "scan_s 63 s")
    case None
    with 1(2) show ?thesis by (subst prefs_load.simps) simp
  next
    case (Some p)
    obtain k r where p: "p = (k, r)" by force
    show ?thesis
    proof (cases "scan_ld r")
      case None
      with 1(2) Some p show ?thesis by (subst prefs_load.simps) simp
    next
      case v: (Some q)
      obtain v r' where q: "q = (v, r')" by force
      have "entries_ok (kv_put k v kv)"
        using 1(2) Some v p q by (intro entries_ok_put) (auto intro: scan_s_ok scan_ld_ok)
      from this have "entries_ok (prefs_load r' (kv_put k v kv))"
        by (rule 1(1) [OF Some p [symmetric] v q [symmetric]])
      with Some v p q show ?thesis by (subst prefs_load.simps) simp
    qed
  qed
qed

lemma scan_s_key:
  assumes "key_ok k"
  shows "scan_s 63 (k @ CHR '' '' # r) = Some (k, CHR '' '' # r)"
proof -
  have sp: "c_isspace (CHR '' '')" by (simp add: c_isspace_def)
  have "dropWhile c_isspace (k @ CHR '' '' # r) = k @ CHR '' '' # r"
    using assms by (cases k) (auto simp: key_ok_def)
  moreover have "takeWhile (\<lambda>c. \<not> c_isspace c) (k @ CHR '' '' # r) = k"
    using assms sp by (simp add: key_ok_def takeWhile_append2)
  ultimately show ?thesis using assms by (simp add: scan_s_def key_ok_def)
qed

lemma scan_ld_value:
  assumes "long_ok v"
  shows "scan_ld (CHR '' '' # int_to_string v @ nl # r) = Some (v, nl # r)"
proof -
  have "clamp_long v = v" using assms by (simp add: clamp_long_def long_ok_def)
  moreover have "c_strtol (int_to_string v @ nl # r) = Some (v, nl # r)"
    by (rule c_strtol_int) (auto simp: is_digit_def)
  moreover have "c_isspace (CHR '' '')" by (simp add: c_isspace_def)
  ultimately show ?thesis by (simp add: scan_ld_def c_strtol_blank)
qed

lemma prefs_load_nl: "prefs_load (nl # s) kv = prefs_load s kv"
proof -
  have "scan_s 63 (nl # s) = scan_s 63 s" by (simp add: scan_s_def c_isspace_def)
  then show ?thesis by (subst (1 2) prefs_load.simps) simp
qed

lemma prefs_load_text:
  assumes "\<forall>(k, v) \<in> set kv. key_ok k \<and> long_ok v"
  shows "prefs_load (prefs_text kv) a = fold (\<lambda>(k, v). kv_put k v) kv a"
  using assms
proof (induction kv arbitrary: a)
  case Nil
  then show ?case by (subst prefs_load.simps) (simp add: prefs_text_def scan_s_def)
next
  case (Cons p kv)
  obtain k v where p: "p = (k, v)" by force
  have "prefs_text (p # kv) = k @ CHR '' '' # int_to_string v @ nl # prefs_text kv"
    by (simp add: prefs_text_def p)
  then have "prefs_load (prefs_text (p # kv)) a = prefs_load (prefs_text kv) (kv_put k v a)"
    using Cons.prems
    by (subst prefs_load.simps) (simp add: p scan_s_key scan_ld_value prefs_load_nl)
  with Cons show ?case by (simp add: p)
qed

lemma prefs_load_save: "entries_ok kv \<Longrightarrow> prefs_load (prefs_text kv) [] = kv"
  using kv_rebuild [of "[]" kv] by (simp add: prefs_load_text entries_ok_def)

section \<open>Properties\<close>

text \<open>
  Property C29. Settings survive a restart: whatever the state file holds, after a put through a
  writable handle a handle opened later on the same namespace reads the value back, every other
  key reads as before, and the file is left well formed.
\<close>

theorem prefs_persist:
  assumes "prefs_begin dir ns False fs p0 = (b, p)"
    and "putUInt key v (p, fs) = (n, p', fs')"
    and "prefs_begin dir ns ro fs' p1 = (b', q)"
    and "key_ok key" and "fs_writable fs (dir @ ''/prefs_'' @ ns @ ''.txt'')"
  shows "n = 4 \<and> getUInt key d q = v \<and> isKey key q \<and>
    (\<forall>k. k \<noteq> key \<longrightarrow> map_of (p_kv q) k = map_of (p_kv p) k) \<and> entries_ok (p_kv q)"
proof -
  let ?path = "dir @ ''/prefs_'' @ ns @ ''.txt''"
  have p: "p_path p = ?path" "p_readonly p = False" "entries_ok (p_kv p)"
    using assms(1) by (auto simp: prefs_begin_def Let_def entries_ok_def kv_ok_def
        split: option.splits intro: entries_ok_load [unfolded entries_ok_def])
      (use entries_ok_load [of "[]"] in \<open>auto simp: entries_ok_def kv_ok_def\<close>)
  let ?kv = "kv_put key (uint v) (p_kv p)"
  have "uint v < 2 ^ LENGTH(32)" by (rule unsigned_less)
  moreover have "- (2 ^ 63) \<le> uint v" by (rule order_trans [of _ 0]) simp_all
  ultimately have "long_ok (uint v)" unfolding long_ok_def by simp
  then have ok: "entries_ok ?kv" using p(3) assms(4) by (intro entries_ok_put)
  have n: "n = 4" and fs': "fs_read fs' ?path = Some (prefs_text ?kv)"
    using assms(2,5) p by (auto simp: putUInt_def prefs_save_def Let_def)
  have q: "p_kv q = ?kv"
    using assms(3) fs' ok by (auto simp: prefs_begin_def Let_def prefs_load_save)
  have m: "map_of ?kv k = (if k = key then Some (uint v) else map_of (p_kv p) k)" for k
    using p(3) by (simp add: kv.get_put entries_ok_def)
  show ?thesis using n ok by (simp add: q getUInt_def isKey_def m)
qed

theorem prefs_persist_witness:
  "\<exists>n p' fs' b' q. putUInt ''level'' 300 (snd (prefs_begin ''/s'' ''app'' False
      \<lparr>fs_read = \<lambda>_. Some (''a 1'' @ [nl] @ ''level 2''), fs_writable = \<lambda>_. True\<rparr> prefs_new),
      \<lparr>fs_read = \<lambda>_. Some (''a 1'' @ [nl] @ ''level 2''), fs_writable = \<lambda>_. True\<rparr>) = (n, p', fs') \<and>
    prefs_begin ''/s'' ''app'' True fs' p' = (b', q) \<and> getUInt ''level'' 0 q = 300"
proof -
  let ?fs = "\<lparr>fs_read = \<lambda>_. Some (''a 1'' @ [nl] @ ''level 2''), fs_writable = \<lambda>_. True\<rparr>"
  obtain b p where 1: "prefs_begin ''/s'' ''app'' False ?fs prefs_new = (b, p)" by force
  obtain n p' fs' where 2: "putUInt ''level'' 300 (p, ?fs) = (n, p', fs')" by (metis prod_cases3)
  obtain b' q where 3: "prefs_begin ''/s'' ''app'' True fs' p' = (b', q)" by force
  have "key_ok ''level''" by (simp add: key_ok_def c_isspace_def)
  from prefs_persist [OF 1 2 3 this, of 0] 1 2 3 show ?thesis by auto
qed

end
