(* ===== verification/Actions.thy ===== *)
theory Actions
  imports Runtime
begin

text \<open>
  The input-injection actions shared by the three CLI dialects (\<^verbatim>\<open>cli/actions.cpp\<close>). An action
  returns the error, kind and message, or \<^const>\<open>None\<close>, with the world it leaves. \<open>'e sim\<close> holds
  what a process fixes: the registry, the hook order, the backends, and the regular-expression
  engine of the C++ library (validity and search) as parameters.
\<close>

record 'e sim =
  s_reg :: "'e world registry"
  s_hooks :: "boot_hook list"
  s_slots :: "'e slots"
  s_rx_valid :: "string \<Rightarrow> bool"
  s_rx_search :: "string \<Rightarrow> string \<Rightarrow> bool" \<comment> \<open>text, then pattern\<close>

type_synonym ActionError = "(string \<times> string) option"

abbreviation backend_of :: "'e sim \<Rightarrow> 'e world \<Rightarrow> 'e backend" where
  "backend_of S w \<equiv> sim_backend (s_reg S) (s_hooks S) (s_slots S) w"

abbreviation steps :: "'e sim \<Rightarrow> int \<Rightarrow> 'e world \<Rightarrow> 'e world" where
  "steps S n \<equiv> sim_run_steps n (s_reg S)"

definition quoted :: "string \<Rightarrow> string" where
  "quoted s = CHR 0x27 # s @ [CHR 0x27]"

section \<open>Board lookups\<close>

definition active_target :: "'e sim \<Rightarrow> 'e world \<Rightarrow> 'e world SimTarget option" where
  "active_target S w = map_option (\<lambda>i. s_reg S ! i) (w_active w)"

definition qemu_agent_active :: "'e sim \<Rightarrow> 'e world \<Rightarrow> bool" where
  "qemu_agent_active S w =
     (case active_target S w of None \<Rightarrow> False | Some t \<Rightarrow> t_backend t = BACKEND_QEMU)"

definition active_board :: "'e sim \<Rightarrow> 'e world \<Rightarrow> BoardDesc option" where
  "active_board S w = Option.bind (active_target S w) t_board"

definition board_has_action :: "SimInputAction \<Rightarrow> 'e sim \<Rightarrow> 'e world \<Rightarrow> bool" where
  "board_has_action act S w =
     (case active_board S w of None \<Rightarrow> False
      | Some b \<Rightarrow> list_ex (\<lambda>btn. b_action btn = act) (bd_buttons b))"

definition find_button_by_label :: "string \<Rightarrow> 'e sim \<Rightarrow> 'e world \<Rightarrow> SimButton option" where
  "find_button_by_label which S w =
     (case active_board S w of None \<Rightarrow> None
      | Some b \<Rightarrow>
          find (\<lambda>btn. map lower_char (b_label btn) = map lower_char which) (bd_buttons b))"

section \<open>Buttons\<close>

text \<open>A held control: pressed for five steps, released for three.\<close>

definition hold_button :: "nat \<Rightarrow> 'e sim \<Rightarrow> 'e world \<Rightarrow> 'e world" where
  "hold_button idx S w =
     (let w = w\<lparr>w_input := (w_input w)\<lparr>button := (button (w_input w))[idx := True]\<rparr>\<rparr>;
          w = steps S 5 w;
          w = w\<lparr>w_input := (w_input w)\<lparr>button := (button (w_input w))[idx := False]\<rparr>\<rparr>
      in steps S 3 w)"

definition push_pwr :: "int \<Rightarrow> 'e sim \<Rightarrow> 'e world \<Rightarrow> 'e world" where
  "push_pwr ev S w =
     steps S 5 (w\<lparr>w_input := (w_input w)\<lparr>pwr_events := pwr_events (w_input w) @ [ev]\<rparr>\<rparr>)"

definition pulse_gpio :: "int \<Rightarrow> int \<Rightarrow> 'e sim \<Rightarrow> 'e world \<Rightarrow> 'e world" where
  "pulse_gpio pin pressed S w =
     (let w = steps S 5 (w\<lparr>w_gpio := sim_gpio_set pin pressed (w_gpio w)\<rparr>)
      in steps S 3 (w\<lparr>w_gpio := sim_gpio_set pin (1 - pressed) (w_gpio w)\<rparr>))"

definition apply_button :: "string \<Rightarrow> 'e sim \<Rightarrow> 'e world \<Rightarrow> ActionError \<times> 'e world" where
  "apply_button which S w =
     (let pwr_event = (if which = ''pwr'' then 1 else if which = ''pwr-long'' then 2
                       else if which = ''pwr-release'' then 3 else 0 :: int);
          semantic = (pwr_event \<noteq> 0 \<or> which = ''primary'' \<or> which = ''secondary'')
      in if \<not> semantic then
           (case find_button_by_label which S w of
              None \<Rightarrow> (Some (''bad_args'',
                ''button takes primary|secondary|pwr|pwr-long|pwr-release or a board button label''), w)
            | Some btn \<Rightarrow>
                if b_action btn = ACT_GPIO then
                  (let pressed = (if b_active_low btn then 0 else 1)
                   in if qemu_agent_active S w then
                        (case be_agent_pulse (backend_of S w) (b_gpio btn) pressed 120 w of
                           (Some err, w) \<Rightarrow> (Some (''agent_failed'', err), w)
                         | (None, w) \<Rightarrow> (None, w))
                      else (None, pulse_gpio (b_gpio btn) pressed S w))
                else if b_action btn = ACT_PWR then (None, push_pwr 1 S w)
                else (None, hold_button (if b_action btn = ACT_SECONDARY then 1 else 0) S w))
         else
           (let act = (if pwr_event \<noteq> 0 then ACT_PWR
                       else if which = ''secondary'' then ACT_SECONDARY else ACT_PRIMARY)
            in if \<not> board_has_action act S w
               then (Some (''unsupported'', ''this board has no '' @ quoted which @ '' button''), w)
               else if pwr_event \<noteq> 0 then (None, push_pwr pwr_event S w)
               else (None, hold_button (if which = ''secondary'' then 1 else 0) S w)))"

section \<open>Sensors\<close>

definition apply_battery ::
  "int \<Rightarrow> bool option \<Rightarrow> bool option \<Rightarrow> 'e sim \<Rightarrow> 'e world \<Rightarrow> ActionError \<times> 'e world" where
  "apply_battery pct chg vb S w =
     (if pct < 0 \<or> pct > 100 then (Some (''bad_args'', ''battery needs a percentage 0-100''), w)
      else (case active_board S w of
          Some b \<Rightarrow>
            if bd_has_battery b then
              (let i = (w_input w)\<lparr>battery_pct := pct\<rparr>;
                   i = (case chg of None \<Rightarrow> i | Some c \<Rightarrow> i\<lparr>charging := c\<rparr>);
                   i = (case vb of None \<Rightarrow> i | Some v \<Rightarrow> i\<lparr>vbus := v\<rparr>)
               in (None, steps S 5 (w\<lparr>w_input := i\<rparr>)))
            else (Some (''unsupported'', ''this board has no battery''), w)
        | None \<Rightarrow> (Some (''unsupported'', ''this board has no battery''), w)))"

definition apply_rotate :: "int \<Rightarrow> 'e sim \<Rightarrow> 'e world \<Rightarrow> ActionError \<times> 'e world" where
  "apply_rotate q S w =
     (if q < 0 \<or> q > 3 then (Some (''bad_args'', ''rotate needs a quadrant 0-3''), w)
      else if (case active_board S w of None \<Rightarrow> True | Some b \<Rightarrow> \<not> bd_has_rotation b)
      then (Some (''unsupported'', ''this board does not support rotation''), w)
      else (None, steps S 5 (w\<lparr>w_input := (w_input w)\<lparr>quadrant := q\<rparr>\<rparr>)))"

definition apply_motion :: "'e sim \<Rightarrow> 'e world \<Rightarrow> ActionError \<times> 'e world" where
  "apply_motion S w =
     (if (case active_board S w of None \<Rightarrow> True | Some b \<Rightarrow> \<not> bd_has_imu b)
      then (Some (''unsupported'', ''this board has no IMU''), w)
      else (None, steps S 5 (w\<lparr>w_input := (w_input w)\<lparr>motion_nudge := True\<rparr>\<rparr>)))"

section \<open>Assertions\<close>

text \<open>An empty text stands for a null pointer too: both mean that nothing is asked for.\<close>

definition apply_serial_expect ::
  "string \<Rightarrow> string \<Rightarrow> 'e sim \<Rightarrow> 'e world \<Rightarrow> ActionError \<times> 'e world" where
  "apply_serial_expect text absent S w =
     (if text \<noteq> [] \<and> \<not> s_rx_valid S text
      then (Some (''bad_args'', ''invalid regex '' @ quoted text), w)
      else if absent \<noteq> [] \<and> \<not> s_rx_valid S absent
      then (Some (''bad_args'', ''invalid regex '' @ quoted absent), w)
      else (let w = (if qemu_agent_active S w then snd (be_settle_ms (backend_of S w) 500 w)
                     else steps S 60 w);
                (out, w) = be_serial_output (backend_of S w) w
            in if text \<noteq> [] \<and> \<not> s_rx_search S out text
               then (Some (''expect_failed'', ''serial output does not match '' @ quoted text), w)
               else if absent \<noteq> [] \<and> s_rx_search S out absent
               then (Some (''expect_failed'', ''serial output unexpectedly matches '' @ quoted absent), w)
               else (None, w)))"

definition apply_expect ::
  "string \<Rightarrow> string \<Rightarrow> bool \<Rightarrow> 'e sim \<Rightarrow> 'e world \<Rightarrow> ActionError \<times> 'e world" where
  "apply_expect text absent exact S w =
     (if text \<noteq> [] \<and> \<not> lvgl_has_text text exact (w_lv w)
      then (Some (''expect_failed'', ''expected text '' @ quoted text @ '' not found''), w)
      else if absent \<noteq> [] \<and> lvgl_has_text absent exact (w_lv w)
      then (Some (''expect_failed'', ''unexpected text '' @ quoted absent @ '' present''), w)
      else (None, w))"

section \<open>Touch\<close>

definition in_board :: "BoardDesc option \<Rightarrow> int \<Rightarrow> int \<Rightarrow> bool" where
  "in_board b x y =
     (case b of None \<Rightarrow> False
      | Some b \<Rightarrow> \<not> (x < 0 \<or> y < 0 \<or> x \<ge> bd_width b \<or> y \<ge> bd_height b))"

definition board_max :: "BoardDesc option \<Rightarrow> int \<times> int" where
  "board_max b = (case b of None \<Rightarrow> (0, 0) | Some b \<Rightarrow> (bd_width b - 1, bd_height b - 1))"

definition set_touch :: "bool \<Rightarrow> int \<Rightarrow> int \<Rightarrow> 'e world \<Rightarrow> 'e world" where
  "set_touch p x y w = w\<lparr>w_input := (w_input w)\<lparr>touch_pressed := p, touch_x := x, touch_y := y\<rparr>\<rparr>"

definition release_touch :: "'e world \<Rightarrow> 'e world" where
  "release_touch w = w\<lparr>w_input := (w_input w)\<lparr>touch_pressed := False\<rparr>\<rparr>"

definition apply_tap :: "int \<Rightarrow> int \<Rightarrow> 'e sim \<Rightarrow> 'e world \<Rightarrow> ActionError \<times> 'e world" where
  "apply_tap x y S w =
     (let b = active_board S w
      in if \<not> in_board b x y
         then (Some (''bad_args'', ''tap needs x 0-'' @ int_to_string (fst (board_max b))
                 @ '' and y 0-'' @ int_to_string (snd (board_max b))), w)
         else if qemu_agent_active S w then
           (case be_agent_tap (backend_of S w) x y 120 w of
              (Some err, w) \<Rightarrow> (Some (''agent_failed'', err), w) | (None, w) \<Rightarrow> (None, w))
         else (None, steps S 4 (release_touch (steps S 4 (set_touch True x y w)))))"

definition swipe_at :: "int \<Rightarrow> int \<Rightarrow> int \<Rightarrow> int" where
  "swipe_at a b i = a + cdiv ((b - a) * i) 5"

text \<open>The waypoints sent to the guest agent, up to the first that fails.\<close>

fun agent_waypoints ::
  "(int \<times> int) list \<Rightarrow> 'e sim \<Rightarrow> 'e world \<Rightarrow> string option \<times> 'e world" where
  "agent_waypoints [] S w = (None, w)"
| "agent_waypoints ((x, y) # ps) S w =
     (case be_agent_touch (backend_of S w) True x y w of
        (Some err, w) \<Rightarrow> (Some err, w) | (None, w) \<Rightarrow> agent_waypoints ps S w)"

definition swipe_points :: "int \<Rightarrow> int \<Rightarrow> int \<Rightarrow> int \<Rightarrow> (int \<times> int) list" where
  "swipe_points x1 y1 x2 y2 = map (\<lambda>i. (swipe_at x1 x2 i, swipe_at y1 y2 i)) [0..5]"

definition apply_swipe ::
  "int \<Rightarrow> int \<Rightarrow> int \<Rightarrow> int \<Rightarrow> 'e sim \<Rightarrow> 'e world \<Rightarrow> ActionError \<times> 'e world" where
  "apply_swipe x1 y1 x2 y2 S w =
     (let b = active_board S w
      in if \<not> in_board b x1 y1 \<or> \<not> in_board b x2 y2
         then (Some (''bad_args'', ''swipe needs x1 y1 x2 y2 within 0-''
                 @ int_to_string (fst (board_max b)) @ '' / 0-'' @ int_to_string (snd (board_max b))), w)
         else if qemu_agent_active S w then
           (case agent_waypoints (swipe_points x1 y1 x2 y2) S w of
              (Some err, w) \<Rightarrow> (Some (''agent_failed'', err), w)
            | (None, w) \<Rightarrow>
                (case be_agent_touch (backend_of S w) False x2 y2 w of
                   (Some err, w) \<Rightarrow> (Some (''agent_failed'', err), w) | (None, w) \<Rightarrow> (None, w)))
         else
           (let w = w\<lparr>w_input := (w_input w)\<lparr>touch_pressed := True\<rparr>\<rparr>;
                w = fold (\<lambda>(x, y) w.
                      steps S 8 (w\<lparr>w_input := (w_input w)\<lparr>touch_x := x, touch_y := y\<rparr>\<rparr>))
                    (swipe_points x1 y1 x2 y2) w
            in (None, steps S 8 (release_touch w))))"

section \<open>Pins, Wi-Fi, BLE\<close>

definition apply_gpio :: "int \<Rightarrow> int \<Rightarrow> 'e sim \<Rightarrow> 'e world \<Rightarrow> ActionError \<times> 'e world" where
  "apply_gpio pin level S w =
     (if pin < 0 \<or> pin > 63 \<or> (level \<noteq> 0 \<and> level \<noteq> 1)
      then (Some (''bad_args'', ''gpio needs a pin 0-63 and a level 0|1''), w)
      else if qemu_agent_active S w then
        (case be_agent_gpio (backend_of S w) pin level w of
           (Some err, w) \<Rightarrow> (Some (''agent_failed'', err), w) | (None, w) \<Rightarrow> (None, w))
      else (None, steps S 5 (w\<lparr>w_gpio := sim_gpio_set pin level (w_gpio w)\<rparr>)))"

definition apply_wifi :: "string \<Rightarrow> 'e sim \<Rightarrow> 'e world \<Rightarrow> ActionError \<times> 'e world" where
  "apply_wifi state S w =
     (if state \<noteq> ''up'' \<and> state \<noteq> ''down''
      then (Some (''bad_args'', ''wifi needs '' @ quoted ''up'' @ '' or '' @ quoted ''down''), w)
      else if qemu_agent_active S w
      then (Some (''unsupported'', ''wifi is native-only (a qemu guest runs its own network stack)''), w)
      else (None, steps S 5 (w\<lparr>w_wifi := (state = ''up'')\<rparr>)))"

definition ble_guarded :: "'e world \<Rightarrow> ActionError" where
  "ble_guarded w =
     (if \<not> sim_ble_available (w_ble w)
      then Some (''unsupported'', ''this firmware has no BLE (boot a buddy target)'') else None)"

definition apply_ble_connect :: "32 word \<Rightarrow> 'e sim \<Rightarrow> 'e world \<Rightarrow> ActionError \<times> 'e world" where
  "apply_ble_connect pk S w =
     (case ble_guarded w of Some e \<Rightarrow> (Some e, w)
      | None \<Rightarrow> (None, sim_settle (s_reg S) (w\<lparr>w_ble := sim_ble_host_connect pk (w_ble w)\<rparr>)))"

definition apply_ble_pair :: "'e sim \<Rightarrow> 'e world \<Rightarrow> ActionError \<times> 'e world" where
  "apply_ble_pair S w =
     (case ble_guarded w of Some e \<Rightarrow> (Some e, w)
      | None \<Rightarrow>
          if passkey (w_ble w) = 0
          then (Some (''bad_args'', ''no pairing in progress (ble connect --passkey N first)''), w)
          else (None, sim_settle (s_reg S) (w\<lparr>w_ble := sim_ble_host_confirm_pairing (w_ble w)\<rparr>)))"

definition apply_ble_disconnect :: "'e sim \<Rightarrow> 'e world \<Rightarrow> ActionError \<times> 'e world" where
  "apply_ble_disconnect S w =
     (case ble_guarded w of Some e \<Rightarrow> (Some e, w)
      | None \<Rightarrow> (None, sim_settle (s_reg S) (w\<lparr>w_ble := sim_ble_host_disconnect (w_ble w)\<rparr>)))"

definition apply_ble_send :: "string \<Rightarrow> 'e sim \<Rightarrow> 'e world \<Rightarrow> ActionError \<times> 'e world" where
  "apply_ble_send line S w =
     (case ble_guarded w of Some e \<Rightarrow> (Some e, w)
      | None \<Rightarrow>
          if ble_state (w_ble w) \<noteq> SIM_BLE_CONNECTED
          then (Some (''post_failed'', ''no BLE connection (ble connect first)''), w)
          else (None, sim_settle (s_reg S) (w\<lparr>w_ble := sim_ble_host_send line (w_ble w)\<rparr>)))"

section \<open>Properties\<close>

lemma swipe_at_between:
  assumes "0 \<le> i" and "i \<le> 5"
  shows "min a b \<le> swipe_at a b i" and "swipe_at a b i \<le> max a b"
  using cdiv_between [of 5 i "b - a"] assms by (auto simp: swipe_at_def min_def max_def split: if_splits)

lemma swipe_at_ends: "swipe_at a b 0 = a" "swipe_at a b 5 = b"
  using cdiv_mult_cancel [of 5 "b - a"] cdiv_nonneg [of 0 5] by (simp_all add: swipe_at_def)

text \<open>
  Swiping stays on the glass: the six waypoints of a swipe run from its start to its
  end, and every one of them is on the board when the two end points are.
\<close>

theorem swipe_on_board:
  assumes "in_board b x1 y1" and "in_board b x2 y2"
  shows "hd (swipe_points x1 y1 x2 y2) = (x1, y1) \<and> last (swipe_points x1 y1 x2 y2) = (x2, y2) \<and>
    length (swipe_points x1 y1 x2 y2) = 6 \<and> (\<forall>(x, y) \<in> set (swipe_points x1 y1 x2 y2). in_board b x y)"
proof (intro conjI ballI, goal_cases)
  case (4 p)
  then obtain i where i: "0 \<le> i" "i \<le> 5" "p = (swipe_at x1 x2 i, swipe_at y1 y2 i)"
    by (auto simp: swipe_points_def)
  obtain d where b: "b = Some d" using assms by (cases b) (auto simp: in_board_def)
  show ?case
    using assms swipe_at_between [OF i(1,2), of x1 x2] swipe_at_between [OF i(1,2), of y1 y2]
    by (auto simp: i(3) b in_board_def min_def max_def split: if_splits)
next
  case 2
  have "[0..5::int] = [0..4] @ [5]" using upto_rec2 [of 0 5] by simp
  then show ?case by (simp add: swipe_points_def swipe_at_ends)
qed (simp_all add: swipe_points_def swipe_at_ends upto_rec1)

theorem swipe_on_board_witness:
  "list_all (\<lambda>(x, y). in_board (Some demo_board) x y) (swipe_points 7 0 0 5)"
proof -
  have "in_board (Some demo_board) 7 0" "in_board (Some demo_board) 0 5"
    by (simp_all add: in_board_def demo_board_def)
  then show ?thesis using swipe_on_board [of "Some demo_board" 7 0 0 5] by (simp add: list_all_iff)
qed

definition rejected_pure :: "'e world \<Rightarrow> ActionError \<times> 'e world \<Rightarrow> bool" where
  "rejected_pure w r \<longleftrightarrow> (case fst r of None \<Rightarrow> True
     | Some (kind, msg) \<Rightarrow> snd r = w \<and> kind \<in> {''bad_args'', ''unsupported'', ''post_failed''})"

lemma rejected_pure_simps [simp]:
  "rejected_pure w (None, w')" "rejected_pure w (Some (k, m), w) = (k \<in> {''bad_args'', ''unsupported'', ''post_failed''})"
  by (simp_all add: rejected_pure_def)


definition demo_sim :: "unit sim" where
  "demo_sim = \<lparr>s_reg = [demo_target], s_hooks = demo_hooks,
     s_slots = initial_slots [demo_target] demo_hooks, s_rx_valid = (\<lambda>_. True),
     s_rx_search = (\<lambda>text rx. str_find rx text \<noteq> None)\<rparr>"

definition demo_running :: "unit world" where
  "demo_running = demo_world\<lparr>w_active := Some 0\<rparr>"

lemma demo_native: "\<not> qemu_agent_active demo_sim demo_running"
  by (simp add: qemu_agent_active_def active_target_def demo_sim_def demo_running_def demo_target_def)


definition input_view :: "'e world \<Rightarrow> bool \<times> bool list \<times> gpio \<times> nat option" where
  "input_view w = (touch_pressed (w_input w), button (w_input w), w_gpio w, w_active w)"

definition reads_input_only :: "'e sim \<Rightarrow> bool" where
  "reads_input_only S \<longleftrightarrow>
     (\<forall>t \<in> set (s_reg S). \<forall>f. t_loop t = Some f \<longrightarrow> (\<forall>w. input_view (f w) = input_view w))"

definition active_ok :: "'e sim \<Rightarrow> 'e world \<Rightarrow> bool" where
  "active_ok S w \<longleftrightarrow> (case w_active w of None \<Rightarrow> True | Some i \<Rightarrow> i < length (s_reg S))"

lemma step_keeps_input:
  "reads_input_only S \<Longrightarrow> active_ok S w \<Longrightarrow> input_view (sim_step (s_reg S) w) = input_view w"
  unfolding reads_input_only_def active_ok_def sim_step_def active_loop_def
  by (cases "w_active w"; cases "t_loop (s_reg S ! the (w_active w))") (auto dest!: bspec [OF _ nth_mem])

lemma steps_keep_view:
  assumes "reads_input_only S" "active_ok S w"
  shows "input_view (steps S n w) = input_view w"
proof -
  have "active_ok S v \<and> input_view v = input_view w \<Longrightarrow>
      active_ok S (sim_step (s_reg S) v) \<and> input_view (sim_step (s_reg S) v) = input_view w" for v
    using step_keeps_input [OF assms(1), of v] by (auto simp: active_ok_def input_view_def)
  from run_steps_inv [where P = "\<lambda>v. active_ok S v \<and> input_view v = input_view w", OF this] assms(2)
  show ?thesis by blast
qed

lemma steps_keep_input:
  assumes "reads_input_only S" "active_ok S w"
  shows "touch_pressed (w_input (steps S n w)) = touch_pressed (w_input w)"
    "button (w_input (steps S n w)) = button (w_input w)"
    "w_gpio (steps S n w) = w_gpio w" "w_active (steps S n w) = w_active w"
  using steps_keep_view [OF assms] by (simp_all add: input_view_def)

lemma active_ok_updates [simp]:
  "active_ok S (w\<lparr>w_input := i\<rparr>) = active_ok S w" "active_ok S (w\<lparr>w_gpio := g\<rparr>) = active_ok S w"
  "active_ok S (release_touch w) = active_ok S w" "active_ok S (set_touch p x y w) = active_ok S w"
  by (simp_all add: active_ok_def release_touch_def set_touch_def)

lemma active_ok_steps [simp]:
  "reads_input_only S \<Longrightarrow> active_ok S w \<Longrightarrow> active_ok S (steps S n w)"
  using steps_keep_input(4) [of S w n] by (simp add: active_ok_def)

lemma active_ok_waypoints [simp]:
  "reads_input_only S \<Longrightarrow> active_ok S w \<Longrightarrow> active_ok S (fold (\<lambda>(x, y) w.
     steps S n (w\<lparr>w_input := (w_input w)\<lparr>touch_x := x, touch_y := y\<rparr>\<rparr>)) ps w)"
  by (induction ps arbitrary: w) auto

lemma button_hold:
  "reads_input_only S \<Longrightarrow> active_ok S w \<Longrightarrow>
     button (w_input (hold_button idx S w)) = (button (w_input w))[idx := False]"
  by (simp add: hold_button_def Let_def steps_keep_input)

lemma gpio_pulse:
  assumes "reads_input_only S" "active_ok S w" "gpio_ok (w_gpio w)" "0 \<le> pin" "pin < 64"
    "pressed \<in> {0, 1}"
  shows "sim_gpio_get pin (w_gpio (pulse_gpio pin pressed S w)) = 1 - pressed"
  using assms by (auto simp: pulse_gpio_def Let_def steps_keep_input sim_gpio_get_set)



end
