(* ===== verification/Float32.thy ===== *)
theory Float32
  imports Complex_Main Prelude
begin

text \<open>
  Single-precision arithmetic as the window layout uses it: an operation is the exact rational
  result rounded to 24 significant bits, to the nearest, ties to even. Results of 2 to the 128
  and more, infinities and NaN do not come up there and are left out; subnormal numbers are in.
\<close>

section \<open>Rounding\<close>

definition round_even :: "rat \<Rightarrow> int" where
  "round_even x =
     (let f = \<lfloor>x\<rfloor>; d = x - of_int f
      in if d < 1 / 2 \<or> (d = 1 / 2 \<and> even f) then f else f + 1)"

text \<open>How often to double (halve) a number to make it a 24-bit significand.\<close>

fun sig_up :: "nat \<Rightarrow> rat \<Rightarrow> nat" where
  "sig_up 0 x = 0"
| "sig_up (Suc m) x = (if 8388608 \<le> x then 0 else Suc (sig_up m (2 * x)))"

fun sig_down :: "nat \<Rightarrow> rat \<Rightarrow> nat" where
  "sig_down 0 x = 0"
| "sig_down (Suc m) x = (if x < 16777216 then 0 else Suc (sig_down m (x / 2)))"

definition f32 :: "rat \<Rightarrow> rat" where
  "f32 x =
     (let k = sig_up 149 \<bar>x\<bar>; d = sig_down 104 \<bar>x\<bar>
      in of_int (round_even (x * 2 ^ k / 2 ^ d)) * 2 ^ d / 2 ^ k)"

definition f_int :: "int \<Rightarrow> rat" where
  "f_int i = f32 (of_int i)"

definition f_add :: "rat \<Rightarrow> rat \<Rightarrow> rat" where
  "f_add a b = f32 (a + b)"

definition f_mul :: "rat \<Rightarrow> rat \<Rightarrow> rat" where
  "f_mul a b = f32 (a * b)"

definition f_div :: "rat \<Rightarrow> rat \<Rightarrow> rat" where
  "f_div a b = f32 (a / b)"

text \<open>\<^verbatim>\<open>(int)x\<close>.\<close>

definition c_trunc :: "rat \<Rightarrow> int" where
  "c_trunc x = (if 0 \<le> x then \<lfloor>x\<rfloor> else \<lceil>x\<rceil>)"

section \<open>What rounding keeps\<close>

lemma round_even_ge: "of_int m \<le> y \<Longrightarrow> m \<le> round_even y"
proof -
  assume "of_int m \<le> y"
  then have "m \<le> \<lfloor>y\<rfloor>" by (simp add: le_floor_iff)
  then show ?thesis by (auto simp: round_even_def Let_def)
qed

lemma round_even_le: "y \<le> of_int m \<Longrightarrow> round_even y \<le> m"
proof -
  assume y: "y \<le> of_int m"
  show ?thesis
  proof (cases "y = of_int m")
    case False
    with y have "\<lfloor>y\<rfloor> < m" by (simp add: floor_less_iff)
    then show ?thesis by (auto simp: round_even_def Let_def)
  qed (simp add: round_even_def)
qed

lemma round_even_err: "\<bar>of_int (round_even y) - y\<bar> \<le> 1 / 2"
proof -
  have "of_int \<lfloor>y\<rfloor> \<le> y" "y < of_int \<lfloor>y\<rfloor> + 1" by linarith+
  then show ?thesis by (auto simp: round_even_def Let_def abs_le_iff)
qed

lemma sig_up_spec: "0 \<le> x \<Longrightarrow> sig_up m x = m \<or> 8388608 \<le> x * 2 ^ sig_up m x"
  by (induction m x rule: sig_up.induct) (auto simp: algebra_simps)

lemma sig_down_small [simp]: "x < 16777216 \<Longrightarrow> sig_down m x = 0"
  by (cases m) simp_all

lemma f32_small:
  "0 \<le> x \<Longrightarrow> x < 16777216 \<Longrightarrow> f32 x = of_int (round_even (x * 2 ^ sig_up 149 x)) / 2 ^ sig_up 149 x"
  by (simp add: f32_def Let_def)

lemma f32_ge_int:
  assumes "0 \<le> x" and "x < 16777216" and "of_int n \<le> x"
  shows "of_int n \<le> f32 x"
proof -
  let ?k = "sig_up 149 x"
  have "of_int (n * 2 ^ ?k) \<le> x * 2 ^ ?k" using assms(3) by simp
  then have "n * 2 ^ ?k \<le> round_even (x * 2 ^ ?k)" by (rule round_even_ge)
  then have "of_int (n * 2 ^ ?k) \<le> (of_int (round_even (x * 2 ^ ?k)) :: rat)" by (simp only: of_int_le_iff)
  then show ?thesis using assms by (simp add: f32_small le_divide_eq)
qed

lemma f32_le_int:
  assumes "0 \<le> x" and "x < 16777216" and "x \<le> of_int n"
  shows "f32 x \<le> of_int n"
proof -
  let ?k = "sig_up 149 x"
  have "x * 2 ^ ?k \<le> of_int (n * 2 ^ ?k)" using assms(3) by simp
  then have "round_even (x * 2 ^ ?k) \<le> n * 2 ^ ?k" by (rule round_even_le)
  then have "of_int (round_even (x * 2 ^ ?k)) \<le> (of_int (n * 2 ^ ?k) :: rat)" by (simp only: of_int_le_iff)
  then show ?thesis using assms by (simp add: f32_small divide_le_eq)
qed

lemma f_int_exact: "0 \<le> i \<Longrightarrow> i < 16777216 \<Longrightarrow> f_int i = of_int i"
  unfolding f_int_def by (rule antisym) (auto intro: f32_ge_int f32_le_int)

lemma round_even_of_int: "round_even (of_int j) = j"
  by (simp add: round_even_def)

lemma f32_half_exact:
  assumes "0 \<le> i" and "i < 1048576"
  shows "f32 (of_int i + 1 / 2) = of_int i + 1 / 2"
proof -
  let ?x = "of_int i + 1 / 2 :: rat"
  have i: "0 \<le> (of_int i :: rat)" "(of_int i :: rat) < 1048576" using assms by simp_all
  have "sig_up (Suc 148) ?x = Suc (sig_up 148 (2 * ?x))" using i by (subst sig_up.simps) simp
  then obtain k where k: "sig_up 149 ?x = Suc k" by (simp del: sig_up.simps)
  have int: "?x * 2 ^ Suc k = of_int ((2 * i + 1) * 2 ^ k)" by (simp add: algebra_simps)
  have "round_even (?x * 2 ^ Suc k) = (2 * i + 1) * 2 ^ k" unfolding int by (rule round_even_of_int)
  moreover have "f32 ?x = of_int (round_even (?x * 2 ^ Suc k)) / 2 ^ Suc k"
    using f32_small [of ?x] i unfolding k by simp
  ultimately have "f32 ?x = of_int ((2 * i + 1) * 2 ^ k) / 2 ^ Suc k" by (simp only:)
  also have "\<dots> = of_int (2 * i + 1) / 2" by simp
  also have "\<dots> = ?x" by (simp add: add_divide_distrib)
  finally show ?thesis .
qed

text \<open>The error is half a unit of the last place, so relatively at most \<open>2\<close> to the \<open>-24\<close>.\<close>

lemma f32_err:
  assumes "0 \<le> x" and "x < 16777216"
  shows "\<bar>f32 x - x\<bar> \<le> x / 16777216 + 1 / 2 ^ 150"
proof -
  let ?k = "sig_up 149 x"
  have "\<bar>f32 x - x\<bar> = \<bar>of_int (round_even (x * 2 ^ ?k)) - x * 2 ^ ?k\<bar> / 2 ^ ?k"
    using assms by (simp add: f32_small diff_divide_distrib [symmetric] abs_divide field_simps)
  also have "\<dots> \<le> (1 / 2) / 2 ^ ?k"
    by (rule divide_right_mono [OF round_even_err]) simp
  also have "\<dots> \<le> x / 16777216 + 1 / 2 ^ 150"
  proof (cases "?k = 149")
    case True
    show ?thesis using assms(1) unfolding True by simp
  next
    case False
    with sig_up_spec [OF assms(1), of 149] have "8388608 \<le> x * 2 ^ ?k" by blast
    then have "(1 / 2) / 2 ^ ?k \<le> x / 16777216" by (simp add: field_simps)
    also have "\<dots> \<le> x / 16777216 + 1 / 2 ^ 150" by simp
    finally show ?thesis .
  qed
  finally show ?thesis .
qed

lemma f32_err1: "0 \<le> x \<Longrightarrow> x < 16777216 \<Longrightarrow> \<bar>f32 x - x\<bar> \<le> (x + 1) / 16777216"
  using f32_err [of x] by (simp add: add_divide_distrib)

lemma f32_near:
  assumes "0 \<le> x" and "x \<le> 12287"
  shows "f32 x \<le> x + 3 / 4096 \<and> x - 3 / 4096 \<le> f32 x"
proof -
  have "\<bar>f32 x - x\<bar> \<le> (x + 1) / 16777216" using assms by (intro f32_err1) simp_all
  also have "\<dots> \<le> 3 / 4096" using assms(2) by simp
  finally show ?thesis by linarith
qed

lemma f32_nonneg: "0 \<le> x \<Longrightarrow> x < 16777216 \<Longrightarrow> 0 \<le> f32 x"
  using f32_ge_int [of x 0] by simp

lemma c_trunc_floor: "0 \<le> x \<Longrightarrow> c_trunc x = \<lfloor>x\<rfloor>"
  by (simp add: c_trunc_def)

text \<open>The two literals of the layout.\<close>

lemma f32_literals: "f32 (3 / 5) = 5033165 / 8388608" "f32 (1 / 5) = 13421773 / 67108864"
  by code_simp+

end
