(* ===== verification/WindowLayout.thy ===== *)
theory WindowLayout
  imports Target Float32
begin

text \<open>
  The layout of the device window (\<^verbatim>\<open>peripherals/display/window_layout.cpp\<close>): where the screen,
  the button nubs and their click targets, the help card and the hardware panel are. Positions
  along an edge are computed in single precision, as the code does.
\<close>

section \<open>Constants and rectangles\<close>

definition BEZEL_MARGIN :: int where "BEZEL_MARGIN = 26"
definition NUB_PROTRUDE :: int where "NUB_PROTRUDE = 14"
definition NUB_THICK :: int where "NUB_THICK = 12"
definition NUB_LONG :: int where "NUB_LONG = 36"
definition HIT_INFLATE :: int where "HIT_INFLATE = 6"
definition MAX_LAYOUT_BUTTONS :: nat where "MAX_LAYOUT_BUTTONS = 8"
definition PANEL_MARGIN :: int where "PANEL_MARGIN = 12"
definition PANEL_PAD :: int where "PANEL_PAD = 12"
definition PANEL_GAP :: int where "PANEL_GAP = 8"
definition BAT_BAR_W :: int where "BAT_BAR_W = 150"
definition BAT_BAR_H :: int where "BAT_BAR_H = 22"
definition PANEL_BTN_W :: int where "PANEL_BTN_W = 56"
definition PANEL_BTN_H :: int where "PANEL_BTN_H = 34"
definition PANEL_PCT_W :: int where "PANEL_PCT_W = 4 * 6 * 2"
definition PANEL_PCT_H :: int where "PANEL_PCT_H = 7 * 2"
definition PANEL_PCT_LEAD :: int where "PANEL_PCT_LEAD = 8"
definition PANEL_PCT_GAP :: int where "PANEL_PCT_GAP = PANEL_PCT_W + PANEL_PCT_LEAD"
definition PANEL_CARD_W :: int where
  "PANEL_CARD_W = PANEL_PAD + BAT_BAR_W + PANEL_PCT_GAP + PANEL_BTN_W + PANEL_GAP + PANEL_BTN_W +
     PANEL_GAP + PANEL_BTN_W + PANEL_PAD"
definition PANEL_CARD_H :: int where "PANEL_CARD_H = PANEL_PAD + PANEL_BTN_H + PANEL_PAD"
definition HELP_CARD_PAD :: int where "HELP_CARD_PAD = 16"

lemmas layout_consts = BEZEL_MARGIN_def NUB_PROTRUDE_def NUB_THICK_def NUB_LONG_def HIT_INFLATE_def
  PANEL_MARGIN_def PANEL_PAD_def PANEL_GAP_def BAT_BAR_W_def BAT_BAR_H_def PANEL_BTN_W_def
  PANEL_BTN_H_def PANEL_PCT_W_def PANEL_PCT_H_def PANEL_PCT_LEAD_def PANEL_PCT_GAP_def
  PANEL_CARD_W_def PANEL_CARD_H_def HELP_CARD_PAD_def

record WinRect =
  r_x :: int
  r_y :: int
  r_w :: int
  r_h :: int

definition rect :: "int \<Rightarrow> int \<Rightarrow> int \<Rightarrow> int \<Rightarrow> WinRect" where
  "rect x y w h = \<lparr>r_x = x, r_y = y, r_w = w, r_h = h\<rparr>"

lemma rect_sel [simp]: "r_x (rect x y w h) = x" "r_y (rect x y w h) = y"
    "r_w (rect x y w h) = w" "r_h (rect x y w h) = h"
  by (simp_all add: rect_def)

definition win_rect_contains :: "WinRect \<Rightarrow> int \<Rightarrow> int \<Rightarrow> bool" where
  "win_rect_contains r x y \<longleftrightarrow> r_x r \<le> x \<and> x < r_x r + r_w r \<and> r_y r \<le> y \<and> y < r_y r + r_h r"

definition inflate :: "WinRect \<Rightarrow> int \<Rightarrow> WinRect" where
  "inflate r by' = rect (r_x r - by') (r_y r - by') (r_w r + 2 * by') (r_h r + 2 * by')"

definition clampf :: "rat \<Rightarrow> rat \<Rightarrow> rat \<Rightarrow> rat" where
  "clampf v lo hi = (if v < lo then lo else if hi < v then hi else v)"

definition clampi :: "int \<Rightarrow> int \<Rightarrow> int \<Rightarrow> int" where
  "clampi v lo hi = (if hi < lo then lo else if v < lo then lo else if hi < v then hi else v)"

definition edge_margin :: "bool \<Rightarrow> int" where
  "edge_margin has = BEZEL_MARGIN + (if has then NUB_PROTRUDE else 0)"

section \<open>The nubs\<close>

text \<open>\<^verbatim>\<open>0.6f\<close> and \<^verbatim>\<open>0.2f\<close> are the literals rounded; \<^verbatim>\<open>0.5f\<close> is exact.\<close>

definition auto_start :: "int \<Rightarrow> int \<Rightarrow> int \<Rightarrow> int \<Rightarrow> int" where
  "auto_start idx n origin len =
     (let pitch = NUB_LONG + 2 * HIT_INFLATE;
          slice = f_div (f_mul (f32 (3 / 5)) (f_int len)) (f_int n)
      in if f_int pitch \<le> slice
         then (let range_start = f_add (f_int origin) (f_mul (f32 (1 / 5)) (f_int len));
                   range_len = f_mul (f32 (3 / 5)) (f_int len);
                   center = c_trunc (f_add range_start (f_mul slice (f_add (f_int idx) (1 / 2))))
               in clampi (center - NUB_LONG div 2) (c_trunc range_start)
                    (c_trunc (f_add range_start range_len) - NUB_LONG))
         else (let span = (n - 1) * pitch + NUB_LONG
               in if span \<le> len then origin + (len - span) div 2 + idx * pitch
                  else (let slot = f_div (f_int len) (f_int n);
                            center = c_trunc (f_add (f_int origin) (f_mul slot (f_add (f_int idx) (1 / 2))))
                        in clampi (center - NUB_LONG div 2) origin (origin + len - NUB_LONG))))"

record NubLayout =
  nb_body :: WinRect
  nb_hit :: WinRect
  nb_button :: nat
  nb_edge :: SimEdge

record WindowLayout =
  wl_window :: WinRect
  wl_screen :: WinRect
  wl_bezel :: WinRect
  wl_more_nub :: WinRect
  wl_nubs :: "NubLayout list" \<comment> \<open>\<^verbatim>\<open>nub_count\<close> is its length\<close>

definition zero_rect :: WinRect where
  "zero_rect = rect 0 0 0 0"

definition layout_buttons :: "BoardDesc \<Rightarrow> SimButton list" where
  "layout_buttons bd = take MAX_LAYOUT_BUTTONS (bd_buttons bd)"

definition has_edge :: "SimButton list \<Rightarrow> SimEdge \<Rightarrow> bool" where
  "has_edge bs e \<longleftrightarrow> (\<exists>b \<in> set bs. b_edge b = e)"

definition auto_total :: "SimButton list \<Rightarrow> SimEdge \<Rightarrow> int" where
  "auto_total bs e = int (length (filter (\<lambda>b. b_pos b < 0 \<and> b_edge b = e) bs))"

definition vertical_edge :: "SimEdge \<Rightarrow> bool" where
  "vertical_edge e \<longleftrightarrow> e = EDGE_LEFT \<or> e = EDGE_RIGHT"

text \<open>The start of a button's nub along its edge; \<open>idx\<close> counts the edge's automatic ones.\<close>

definition nub_start :: "WinRect \<Rightarrow> WinRect \<Rightarrow> int \<Rightarrow> int \<Rightarrow> SimButton \<Rightarrow> int" where
  "nub_start screen opener n idx b =
     (let origin = (if vertical_edge (b_edge b) then r_y screen else r_x screen);
          len = (if vertical_edge (b_edge b) then r_h screen else r_w screen)
      in if b_pos b < 0
         then (let start = auto_start idx n origin len
               in if b_edge b = EDGE_BOTTOM \<and> 0 < r_w opener
                  then (let overrun = auto_start (n - 1) n origin len + NUB_LONG + HIT_INFLATE - r_x opener
                        in if 0 < overrun then clampi (start - overrun) HIT_INFLATE start else start)
                  else start)
         else (let pos = clampf (b_pos b) 0 1;
                   center = c_trunc (f_add (f_int origin) (f_mul pos (f_int len)))
               in clampi (center - NUB_LONG div 2) origin (origin + len - NUB_LONG)))"

definition nub_body :: "WinRect \<Rightarrow> SimEdge \<Rightarrow> int \<Rightarrow> WinRect" where
  "nub_body window e start =
     (if vertical_edge e
      then rect (if e = EDGE_RIGHT then r_w window - NUB_THICK - HIT_INFLATE else HIT_INFLATE) start NUB_THICK NUB_LONG
      else rect start (if e = EDGE_BOTTOM then r_h window - NUB_THICK - HIT_INFLATE else HIT_INFLATE) NUB_LONG NUB_THICK)"

text \<open>The loop over the buttons; \<open>ai\<close> is \<^verbatim>\<open>auto_index\<close>.\<close>

fun place_nubs :: "WinRect \<Rightarrow> WinRect \<Rightarrow> WinRect \<Rightarrow> (SimEdge \<Rightarrow> int) \<Rightarrow> nat \<Rightarrow> (SimEdge \<Rightarrow> int)
    \<Rightarrow> SimButton list \<Rightarrow> NubLayout list" where
  "place_nubs window screen opener tot i ai [] = []"
| "place_nubs window screen opener tot i ai (b # bs) =
     (let e = b_edge b;
          body = nub_body window e (nub_start screen opener (tot e) (ai e) b);
          ai = (if b_pos b < 0 then ai(e := ai e + 1) else ai)
      in \<lparr>nb_body = body, nb_hit = inflate body HIT_INFLATE, nb_button = i, nb_edge = e\<rparr>
         # place_nubs window screen opener tot (Suc i) ai bs)"

definition window_layout :: "BoardDesc option \<Rightarrow> int \<Rightarrow> WindowLayout" where
  "window_layout board scale = (case board of
     None \<Rightarrow> \<lparr>wl_window = zero_rect, wl_screen = zero_rect, wl_bezel = zero_rect, wl_more_nub = zero_rect, wl_nubs = []\<rparr>
   | Some bd \<Rightarrow>
      (let scale = (if scale < 1 then 1 else scale);
           bs = layout_buttons bd;
           left = edge_margin (has_edge bs EDGE_LEFT); right = edge_margin (has_edge bs EDGE_RIGHT);
           top = edge_margin (has_edge bs EDGE_TOP); bottom = edge_margin (has_edge bs EDGE_BOTTOM);
           sw = bd_width bd * scale; sh = bd_height bd * scale;
           screen = rect left top sw sh;
           window = rect 0 0 (sw + left + right) (sh + top + bottom);
           opener = (if bd_has_battery bd \<or> bd_has_rotation bd
                   then rect (r_w window - NUB_LONG) (r_h window - NUB_THICK) NUB_LONG NUB_THICK else zero_rect)
       in \<lparr>wl_window = window, wl_screen = screen, wl_bezel = window, wl_more_nub = opener,
           wl_nubs = place_nubs window screen opener (auto_total bs) 0 (\<lambda>_. 0) bs\<rparr>))"

section \<open>The overlays\<close>

definition layout_help_card :: "WindowLayout \<Rightarrow> int \<Rightarrow> int \<Rightarrow> WinRect" where
  "layout_help_card l content_w content_h =
     (let w = max 0 (min (content_w + 2 * HELP_CARD_PAD) (r_w (wl_window l)));
          h = max 0 (min (content_h + 2 * HELP_CARD_PAD) (r_h (wl_window l)))
      in rect (r_x (wl_window l) + cdiv (r_w (wl_window l) - w) 2)
           (r_y (wl_window l) + cdiv (r_h (wl_window l) - h) 2) w h)"

definition layout_panel_card :: "WindowLayout \<Rightarrow> WinRect" where
  "layout_panel_card l =
     (let win = wl_window l;
          w = max 0 (min PANEL_CARD_W (r_w win - 2 * PANEL_MARGIN));
          h = max 0 (min PANEL_CARD_H (r_h win - 2 * PANEL_MARGIN))
      in rect (max (r_x win) (r_x win + r_w win - PANEL_MARGIN - w))
           (max (r_y win) (r_y win + r_h win - PANEL_MARGIN - h)) w h)"

definition place_control :: "WinRect \<Rightarrow> int \<Rightarrow> int \<Rightarrow> int \<Rightarrow> WinRect" where
  "place_control cd x w h =
     (let right = r_x cd + r_w cd - PANEL_PAD; interior = r_h cd - 2 * PANEL_PAD;
          w = min w (right - x); h = min h interior
      in if w \<le> 0 \<or> h \<le> 0 then zero_rect else rect x (r_y cd + cdiv (r_h cd - h) 2) w h)"

record PanelLayout =
  pl_bat_bar :: WinRect
  pl_bat_pct :: WinRect
  pl_chg_btn :: WinRect
  pl_usb_btn :: WinRect
  pl_rot_btn :: WinRect

definition panel_battery :: "WinRect \<Rightarrow> int \<Rightarrow> PanelLayout \<Rightarrow> PanelLayout \<times> int" where
  "panel_battery cd x p =
     (let bar = place_control cd x BAT_BAR_W BAT_BAR_H;
          pct = (if 0 < r_w bar
                 then (let pct = place_control cd (r_x bar + r_w bar + PANEL_PCT_LEAD) PANEL_PCT_W PANEL_PCT_H
                       in if r_w pct < PANEL_PCT_W then zero_rect else pct\<lparr>r_y := r_y bar + 4\<rparr>)
                 else pl_bat_pct p);
          x = x + (BAT_BAR_W + PANEL_PCT_GAP);
          chg = place_control cd x PANEL_BTN_W PANEL_BTN_H;
          x = x + (PANEL_BTN_W + PANEL_GAP);
          usb = place_control cd x PANEL_BTN_W PANEL_BTN_H;
          x = x + (PANEL_BTN_W + PANEL_GAP)
      in (p\<lparr>pl_bat_bar := bar, pl_bat_pct := pct, pl_chg_btn := chg, pl_usb_btn := usb\<rparr>, x))"

definition layout_panel :: "WindowLayout \<Rightarrow> bool \<Rightarrow> bool \<Rightarrow> PanelLayout" where
  "layout_panel l battery rotation =
     (let cd = layout_panel_card l;
          p = \<lparr>pl_bat_bar = zero_rect, pl_bat_pct = zero_rect, pl_chg_btn = zero_rect,
               pl_usb_btn = zero_rect, pl_rot_btn = zero_rect\<rparr>;
          x = r_x cd + PANEL_PAD;
          (p, x) = (if battery then panel_battery cd x p else (p, x))
      in if rotation then p\<lparr>pl_rot_btn := place_control cd x PANEL_BTN_W PANEL_BTN_H\<rparr> else p)"


section \<open>Where the automatic nubs go\<close>

text \<open>How far single precision is from the exact centre; \<open>8192\<close> points is the longest edge treated.\<close>

definition edge_ok :: "int \<Rightarrow> int \<Rightarrow> bool" where
  "edge_ok origin len \<longleftrightarrow> 26 \<le> origin \<and> origin \<le> 40 \<and> 0 \<le> len \<and> len \<le> 8192"

lemma half_exact: "0 \<le> i \<Longrightarrow> i < 8 \<Longrightarrow> f_add (f_int i) (1 / 2) = of_int i + 1 / 2"
  by (simp add: f_add_def f_int_exact f32_half_exact)

text \<open>\<open>ideal_center\<close>: the centre of the \<open>i\<close>-th nub without rounding.\<close>

definition ideal_center :: "int \<Rightarrow> int \<Rightarrow> int \<Rightarrow> int \<Rightarrow> rat" where
  "ideal_center i n origin len = of_int origin + of_int len / 5 + (3 * of_int len / (5 * of_int n)) * (of_int i + 1 / 2)"

definition band_slice :: "int \<Rightarrow> int \<Rightarrow> rat" where
  "band_slice n len = f_div (f_mul (f32 (3 / 5)) (f_int len)) (f_int n)"

definition band_start :: "int \<Rightarrow> int \<Rightarrow> rat" where
  "band_start origin len = f_add (f_int origin) (f_mul (f32 (1 / 5)) (f_int len))"

definition band_center :: "int \<Rightarrow> int \<Rightarrow> int \<Rightarrow> int \<Rightarrow> rat" where
  "band_center i n origin len =
     f_add (band_start origin len) (f_mul (band_slice n len) (f_add (f_int i) (1 / 2)))"

lemma band_len:
  assumes "0 \<le> len" and "len \<le> 8192"
  shows "f_mul (f32 (3 / 5)) (f_int len) \<le> 3 * of_int len / 5 + 1 / 1024"
    and "3 * of_int len / 5 - 3 / 4096 \<le> f_mul (f32 (3 / 5)) (f_int len)"
proof -
  have l: "f_int len = of_int len" using assms by (intro f_int_exact) simp_all
  have r: "(of_int len :: rat) \<le> 8192" "0 \<le> (of_int len :: rat)" using assms by simp_all
  note f32_near [of "5033165 / 8388608 * of_int len"]
  with r show "f_mul (f32 (3 / 5)) (f_int len) \<le> 3 * of_int len / 5 + 1 / 1024"
    and "3 * of_int len / 5 - 3 / 4096 \<le> f_mul (f32 (3 / 5)) (f_int len)"
    by (simp_all add: f_mul_def l f32_literals)
qed

lemma band_slice_bounds:
  assumes "0 \<le> len" and "len \<le> 8192" and "0 < n" and "n \<le> 8"
  shows "band_slice n len \<le> (3 * of_int len / 5 + 1 / 1024) / of_int n + 3 / 4096"
    and "(3 * of_int len / 5 - 3 / 4096) / of_int n - 3 / 4096 \<le> band_slice n len"
    and "0 \<le> band_slice n len"
proof -
  let ?a = "f_mul (f32 (3 / 5)) (f_int len)" and ?n = "of_int n :: rat"
  have n: "f_int n = of_int n" using assms by (intro f_int_exact) simp_all
  have r: "(of_int len :: rat) \<le> 8192" "0 \<le> (of_int len :: rat)" "1 \<le> ?n" using assms by simp_all
  have l: "f_int len = of_int len" using assms by (intro f_int_exact) simp_all
  have a0: "0 \<le> ?a" using r by (simp add: f_mul_def l f32_literals f32_nonneg)
  note a = band_len [OF assms(1,2)]
  have "?a / ?n \<le> ?a" using a0 r(3) by (simp add: divide_le_eq mult_le_cancel_left1)
  with a r have q: "0 \<le> ?a / ?n" "?a / ?n \<le> 12287" using a0 by auto
  note e = f32_near [OF q]
  have "?a / ?n \<le> (3 * of_int len / 5 + 1 / 1024) / ?n" "(3 * of_int len / 5 - 3 / 4096) / ?n \<le> ?a / ?n"
    using a r(3) by (auto intro: divide_right_mono)
  with e show "band_slice n len \<le> (3 * of_int len / 5 + 1 / 1024) / ?n + 3 / 4096"
    and "(3 * of_int len / 5 - 3 / 4096) / ?n - 3 / 4096 \<le> band_slice n len"
    by (simp_all add: band_slice_def f_div_def n)
  show "0 \<le> band_slice n len" using q by (simp add: band_slice_def f_div_def n f32_nonneg)
qed

lemma band_start_bounds:
  assumes "edge_ok origin len"
  shows "band_start origin len \<le> of_int origin + of_int len / 5 + 3 / 1024"
    and "of_int origin + of_int len / 5 - 3 / 1024 \<le> band_start origin len"
    and "of_int origin \<le> band_start origin len"
proof -
  let ?b = "f_mul (f32 (1 / 5)) (f_int len)"
  have l: "f_int len = of_int len" and o: "f_int origin = of_int origin"
    using assms by (auto intro!: f_int_exact simp: edge_ok_def)
  have r: "(of_int len :: rat) \<le> 8192" "0 \<le> (of_int len :: rat)" "26 \<le> (of_int origin :: rat)" "(of_int origin :: rat) \<le> 40"
    using assms by (simp_all add: edge_ok_def)
  have b: "?b \<le> of_int len / 5 + 1 / 1024" "of_int len / 5 - 1 / 1024 \<le> ?b" "0 \<le> ?b"
    using f32_near [of "13421773 / 67108864 * of_int len"] r f32_nonneg [of "13421773 / 67108864 * of_int len"]
    by (simp_all add: f_mul_def l f32_literals)
  have q: "0 \<le> of_int origin + ?b" "of_int origin + ?b \<le> 12287" using b r by simp_all
  from f32_near [OF q] b show "band_start origin len \<le> of_int origin + of_int len / 5 + 3 / 1024"
    and "of_int origin + of_int len / 5 - 3 / 1024 \<le> band_start origin len"
    by (simp_all add: band_start_def f_add_def o)
  show "of_int origin \<le> band_start origin len"
    using q b by (auto simp: band_start_def f_add_def o intro: f32_ge_int)
qed

lemma frac_bound: "\<lbrakk>(a :: rat) \<le> b; 0 \<le> c\<rbrakk> \<Longrightarrow> a * c \<le> b * c"
  by (rule mult_right_mono)

text \<open>The centre computed is within an eightieth of a point of the ideal one.\<close>

lemma band_center_near:
  assumes "edge_ok origin len" and "0 \<le> i" and "i < n" and "n \<le> 8"
  shows "band_center i n origin len \<le> ideal_center i n origin len + 1 / 80"
    and "ideal_center i n origin len - 1 / 80 \<le> band_center i n origin len"
    and "0 \<le> band_center i n origin len"
proof -
  define N L I S C where "N = (of_int n :: rat)" and "L = (of_int len :: rat)" and "I = (of_int i + 1 / 2 :: rat)"
    and "S = band_slice n len" and "C = 3 * L / (5 * N)"
  have e: "0 \<le> len" "len \<le> 8192" and n: "0 < n" using assms by (auto simp: edge_ok_def)
  have r: "L \<le> 8192" "0 \<le> L" "26 \<le> (of_int origin :: rat)" "(of_int origin :: rat) \<le> 40"
    "1 \<le> N" "N \<le> 8" "0 \<le> I" using assms by (simp_all add: edge_ok_def L_def N_def I_def)
  have "i + 1 \<le> n" using assms by simp
  then have "(of_int (i + 1) :: rat) \<le> of_int n" by (simp only: of_int_le_iff)
  then have i: "I \<le> N - 1 / 2" by (simp add: I_def N_def)
  have i8: "I \<le> 15 / 2" using i r by linarith
  note s = band_slice_bounds [OF e n assms(4), folded N_def L_def S_def]
  have part: "I / N \<le> 1" "0 \<le> I / N" using i r by (simp_all add: divide_le_eq)
  have ideal: "(3 * L / 5 + d) / N * I = C * I + d * (I / N)" for d
    using r by (simp add: C_def field_simps)
  have "S * I \<le> ((3 * L / 5 + 1 / 1024) / N + 3 / 4096) * I" by (rule frac_bound [OF s(1) r(7)])
  then have up: "S * I \<le> C * I + 1 / 1024 * (I / N) + 3 / 4096 * I" unfolding distrib_right [of _ _ I] ideal .
  have "(3 * L / 5 + (- (3 / 4096))) / N - 3 / 4096 \<le> S" using s(2) by simp
  from frac_bound [OF this r(7)]
  have low: "C * I + (- (3 / 4096)) * (I / N) - 3 / 4096 * I \<le> S * I"
    unfolding left_diff_distrib [of _ _ I] ideal .
  have id: "C * I = 3 * L / 5 * (I / N)" by (simp add: C_def)
  have ib: "C * I \<le> 4916" "0 \<le> C * I"
    unfolding id using mult_mono [of "3 * L / 5" 4916 "I / N" 1] part r by simp_all
  have q: "0 \<le> S * I" by (intro mult_nonneg_nonneg s(3) r(7))
  have q2: "S * I \<le> 12287" using up ib i8 part by linarith
  let ?m = "f_mul (band_slice n len) (f_add (f_int i) (1 / 2))"
  have h: "f_add (f_int i) (1 / 2) = I" using assms by (simp add: half_exact I_def)
  have m: "?m \<le> S * I + 3 / 4096" "S * I - 3 / 4096 \<le> ?m" "0 \<le> ?m"
    using f32_near [OF q q2] q q2 f32_nonneg [OF q] unfolding f_mul_def h S_def [symmetric] by simp_all
  note b = band_start_bounds [OF assms(1), folded L_def]
  have ic: "ideal_center i n origin len = of_int origin + L / 5 + C * I"
    by (simp add: ideal_center_def C_def N_def L_def I_def)
  have q': "0 \<le> band_start origin len + ?m" "band_start origin len + ?m \<le> 12287"
    using b m up ib i8 r part by linarith+
  from f32_near [OF q'] b m up low i8 part
  show "band_center i n origin len \<le> ideal_center i n origin len + 1 / 80"
    and "ideal_center i n origin len - 1 / 80 \<le> band_center i n origin len"
    unfolding band_center_def ic f_add_def by linarith+
  show "0 \<le> band_center i n origin len"
    using q' by (simp add: band_center_def f_add_def f32_nonneg)
qed

lemma band_room:
  assumes "edge_ok origin len" and "0 < n" and "n \<le> 8" and "48 \<le> band_slice n len"
  shows "80 * n \<le> len"
proof (rule ccontr)
  define N L where "N = (of_int n :: rat)" and "L = (of_int len :: rat)"
  assume "\<not> 80 * n \<le> len"
  then have "len \<le> 80 * n - 1" by simp
  then have "(of_int len :: rat) \<le> of_int (80 * n - 1)" by (simp only: of_int_le_iff)
  then have l: "3 * L / 5 + 1 / 1024 \<le> 48 * N - 598 / 1000" by (simp add: N_def L_def)
  have n: "1 \<le> N" "N \<le> 8" using assms by (simp_all add: N_def)
  have "(3 * L / 5 + 1 / 1024) / N \<le> (48 * N - 598 / 1000) / N" by (rule divide_right_mono [OF l]) (use n in simp)
  also have "\<dots> = 48 - 598 / 1000 / N" using n by (simp add: diff_divide_distrib)
  finally have up: "(3 * L / 5 + 1 / 1024) / N \<le> 48 - 598 / 1000 / N" .
  have "598 / 8000 \<le> 598 / 1000 / N" using n by (simp add: field_simps)
  with up band_slice_bounds(1) [of len n, folded N_def L_def] assms show False by (simp add: edge_ok_def)
qed

lemma ideal_slice:
  assumes "0 < n" and "80 * n \<le> len"
  shows "48 \<le> 3 * of_int len / (5 * of_int n :: rat)"
proof -
  have "(of_int (80 * n) :: rat) \<le> of_int len" using assms(2) by (simp only: of_int_le_iff)
  then show ?thesis using assms(1) by (simp add: field_simps)
qed

lemma auto_start_band:
  assumes ok: "edge_ok origin len" and i: "0 \<le> i" "i < n" "n \<le> 8" and slice: "48 \<le> band_slice n len"
  shows "auto_start i n origin len = \<lfloor>band_center i n origin len\<rfloor> - 18"
proof -
  let ?c = "band_center i n origin len" and ?rs = "band_start origin len"
    and ?rl = "f_mul (f32 (3 / 5)) (f_int len)"
  define N L I S where "N = (of_int n :: rat)" and "L = (of_int len :: rat)" and "I = (of_int i + 1 / 2 :: rat)"
    and "S = 3 * L / (5 * N)"
  have n: "0 < n" using i by simp
  have room: "80 * n \<le> len" by (rule band_room [OF ok n i(3) slice])
  have s: "48 \<le> S" using ideal_slice [OF n room] by (simp add: S_def L_def N_def)
  have e: "0 \<le> len" "len \<le> 8192" using ok by (simp_all add: edge_ok_def)
  have r: "L \<le> 8192" "0 \<le> L" "26 \<le> (of_int origin :: rat)" "(of_int origin :: rat) \<le> 40"
    using ok by (simp_all add: edge_ok_def L_def)
  have ic: "ideal_center i n origin len = of_int origin + L / 5 + S * I"
    by (simp add: ideal_center_def S_def N_def L_def I_def)
  note c = band_center_near [OF ok i, unfolded ic] and b = band_start_bounds [OF ok, folded L_def]
    and l = band_len [OF e, folded L_def]
  have "(of_int (i + 1) :: rat) \<le> of_int n" unfolding of_int_le_iff using i by simp
  then have "I \<le> N - 1 / 2" "1 / 2 \<le> I" using i by (simp_all add: I_def N_def)
  then have last: "S * I \<le> S * (N - 1 / 2)" and first: "S * (1 / 2) \<le> S * I"
    using s by (auto intro!: mult_left_mono)
  have all: "S * (N - 1 / 2) = 3 * L / 5 - S / 2" using n by (simp add: S_def N_def field_simps)
  have lo: "?rs + 18 \<le> ?c" using b(1) c(2) first s by linarith
  have q: "0 \<le> ?rs + ?rl" "?rs + ?rl \<le> 12287" using b l r by linarith+
  have hi: "?c + 18 \<le> f_add ?rs ?rl"
    using f32_near [OF q] b(2) l(2) c(1) last s unfolding f_add_def all by linarith
  have "\<lfloor>?rs\<rfloor> \<le> \<lfloor>?c\<rfloor> - 18" "\<lfloor>?c\<rfloor> + 18 \<le> \<lfloor>f_add ?rs ?rl\<rfloor>"
    using floor_mono [OF lo] floor_mono [OF hi] by simp_all
  moreover have "0 \<le> ?rs" "0 \<le> f_add ?rs ?rl" using b(3) r f32_nonneg [OF q(1)] q(2) by (simp_all add: f_add_def)
  moreover have "f_int (36 + 2 * 6) \<le> band_slice n len" using slice by (simp add: f_int_exact)
  ultimately show ?thesis
    using c(3)
    by (simp add: auto_start_def Let_def layout_consts band_slice_def [symmetric] band_start_def [symmetric]
        band_center_def [symmetric] c_trunc_floor clampi_def)
qed

lemma clampi_range: "lo \<le> clampi v lo hi" "clampi v lo hi \<le> max lo hi"
  by (simp_all add: clampi_def)

text \<open>Automatic nubs stay on their edge, and apart where there is room for their click targets.\<close>

lemma auto_start_range:
  assumes ok: "edge_ok origin len" and i: "0 \<le> i" "i < n" "n \<le> 8"
  shows "origin \<le> auto_start i n origin len" and "auto_start i n origin len \<le> max origin (origin + len - 36)"
proof -
  have "origin \<le> auto_start i n origin len \<and> auto_start i n origin len \<le> max origin (origin + len - 36)"
  proof (cases "48 \<le> band_slice n len")
    case True
    define L I S where "L = (of_int len :: rat)" and "I = (of_int i + 1 / 2 :: rat)" and "S = 3 * L / (5 * of_int n)"
    have n: "0 < n" using i by simp
    have room: "80 * n \<le> len" by (rule band_room [OF ok n i(3) True])
    have s: "48 \<le> S" using ideal_slice [OF n room] by (simp add: S_def L_def)
    have ic: "ideal_center i n origin len = of_int origin + L / 5 + S * I"
      by (simp add: ideal_center_def S_def L_def I_def)
    have "(of_int (i + 1) :: rat) \<le> of_int n" unfolding of_int_le_iff using i by simp
    then have "I \<le> of_int n - 1 / 2" "1 / 2 \<le> I" using i by (simp_all add: I_def)
    then have last: "S * I \<le> S * (of_int n - 1 / 2)" and first: "S * (1 / 2) \<le> S * I"
      using s by (auto intro!: mult_left_mono)
    have all: "S * (of_int n - 1 / 2) = 3 * L / 5 - S / 2" using n by (simp add: S_def field_simps)
    note c = band_center_near [OF ok i, unfolded ic]
    have "0 \<le> L" using ok by (simp add: L_def edge_ok_def)
    then have "of_int origin + 18 \<le> band_center i n origin len"
      "band_center i n origin len \<le> of_int origin + L - 18"
      using c(1,2) first s last unfolding all by linarith+
    then have "origin + 18 \<le> \<lfloor>band_center i n origin len\<rfloor>" "\<lfloor>band_center i n origin len\<rfloor> \<le> origin + len - 18"
      unfolding L_def by (simp add: le_floor_iff, linarith)
    then show ?thesis by (simp add: auto_start_band [OF ok i True])
  next
    case False
    then have "\<not> f_int 48 \<le> f_div (f_mul (f32 (3 / 5)) (f_int len)) (f_int n)"
      by (simp add: f_int_exact band_slice_def)
    then have "auto_start i n origin len =
        (if (n - 1) * 48 + 36 \<le> len then origin + (len - ((n - 1) * 48 + 36)) div 2 + i * 48
         else clampi (c_trunc (f_add (f_int origin) (f_mul (f_div (f_int len) (f_int n)) (f_add (f_int i) (1 / 2)))) - 18)
           origin (origin + len - 36))"
      by (simp add: auto_start_def Let_def layout_consts)
    then obtain v where a: "auto_start i n origin len =
        (if (n - 1) * 48 + 36 \<le> len then origin + (len - ((n - 1) * 48 + 36)) div 2 + i * 48
         else clampi v origin (origin + len - 36))" by blast
    show ?thesis
    proof (cases "(n - 1) * 48 + 36 \<le> len")
      case True
      have "i * 48 \<le> (n - 1) * 48" using i by simp
      moreover have "0 \<le> (len - ((n - 1) * 48 + 36)) div 2"
        "(len - ((n - 1) * 48 + 36)) div 2 \<le> len - ((n - 1) * 48 + 36)" using True by simp_all
      ultimately show ?thesis using True i unfolding a by simp
    qed (use clampi_range in \<open>simp add: a\<close>)
  qed
  then show "origin \<le> auto_start i n origin len" and "auto_start i n origin len \<le> max origin (origin + len - 36)"
    by blast+
qed

lemma auto_start_apart:
  assumes ok: "edge_ok origin len" and ij: "0 \<le> i" "i < j" "j < n" "n \<le> 8" and room: "(n - 1) * 48 + 36 \<le> len"
  shows "auto_start i n origin len + 48 \<le> auto_start j n origin len"
proof (cases "48 \<le> band_slice n len")
  case True
  define L I J S D where "L = (of_int len :: rat)" and "I = (of_int i + 1 / 2 :: rat)"
    and "J = (of_int j + 1 / 2 :: rat)" and "S = 3 * L / (5 * of_int n)" and "D = (of_int (j - i) :: rat)"
  have n: "0 < n" and i: "0 \<le> i" "i < n" "n \<le> 8" and j: "0 \<le> j" "j < n" "n \<le> 8" using ij by simp_all
  have big: "80 * n \<le> len" by (rule band_room [OF ok n ij(4) True])
  let ?ci = "band_center i n origin len" and ?cj = "band_center j n origin len"
  note ci = band_center_near [OF ok i] and cj = band_center_near [OF ok j]
  have ideal: "ideal_center i n origin len = of_int origin + L / 5 + S * I"
    "ideal_center j n origin len = of_int origin + L / 5 + S * J"
    by (simp_all add: ideal_center_def S_def L_def I_def J_def)
  have "\<lfloor>?ci\<rfloor> + 48 \<le> \<lfloor>?cj\<rfloor>"
  proof (cases "len = 80 * n")
    case True
    let ?K = "origin + 16 * n"
    have l: "f_int len = of_int len" and o: "f_int origin = of_int origin"
      using ok by (auto intro!: f_int_exact simp: edge_ok_def)
    have N: "(of_int n :: rat) \<le> 8" "1 \<le> (of_int n :: rat)" using ij(4) n by simp_all
    define B where "B = f_mul (f32 (1 / 5)) (f_int len)"
    have B: "B = f32 (67108865 / 4194304 * of_int n)" unfolding B_def f_mul_def l f32_literals using True by simp
    have B1: "of_int (16 * n) \<le> B" unfolding B using N by (intro f32_ge_int) simp_all
    have B2: "B \<le> 200" using f32_near [of "67108865 / 4194304 * of_int n"] N unfolding B by simp
    have b: "of_int ?K \<le> band_start origin len"
      unfolding band_start_def f_add_def o B_def [symmetric] using ok N B1 B2
      by (intro f32_ge_int) (simp_all add: edge_ok_def)
    have S: "S = 48" using True n by (simp add: S_def L_def)
    have "of_int (48 * j + 24) = 48 * J" by (simp add: J_def)
    also have "\<dots> \<le> band_slice n len * J" using \<open>48 \<le> band_slice n len\<close> j by (intro mult_right_mono) (simp_all add: J_def)
    finally have sj: "of_int (48 * j + 24) \<le> band_slice n len * J" .
    have h: "f_add (f_int j) (1 / 2) = J" using j by (simp add: half_exact J_def)
    have "(of_int (j + 1) :: rat) \<le> of_int n" unfolding of_int_le_iff using j by simp
    then have J8: "J \<le> 15 / 2" "0 \<le> J" using N j by (simp_all add: J_def)
    have "(3 * L / 5 + 1 / 1024) / of_int n = 48 + 1 / (1024 * of_int n)"
      using True N by (simp add: L_def field_simps)
    moreover have "1 / (1024 * of_int n) \<le> (1 / 1024 :: rat)" using N by (simp add: field_simps)
    moreover have "band_slice n len \<le> (3 * L / 5 + 1 / 1024) / of_int n + 3 / 4096"
      unfolding L_def by (rule band_slice_bounds(1)) (use ok ij(4) n in \<open>simp_all add: edge_ok_def\<close>)
    ultimately have "band_slice n len \<le> 49" by linarith
    then have "band_slice n len * J \<le> 49 * (15 / 2)"
      using J8 band_slice_bounds(3) [of len n] ok ij(4) n by (intro mult_mono) (simp_all add: edge_ok_def)
    then have sj2: "band_slice n len * J \<le> 368" by simp
    have s0: "0 \<le> band_slice n len * J" using \<open>48 \<le> band_slice n len\<close> J8 by simp
    have m: "of_int (48 * j + 24) \<le> f_mul (band_slice n len) J"
      unfolding f_mul_def by (rule f32_ge_int) (use sj sj2 s0 in simp_all)
    have m2: "f_mul (band_slice n len) J \<le> 369" using f32_near [of "band_slice n len * J"] s0 sj2 by (simp add: f_mul_def)
    have "of_int (?K + (48 * j + 24)) \<le> ?cj"
      unfolding band_center_def f_add_def h [unfolded f_add_def]
    proof (rule f32_ge_int)
      have o40: "26 \<le> (of_int origin :: rat)" "(of_int origin :: rat) \<le> 40" "L \<le> 8192"
        using ok by (simp_all add: edge_ok_def L_def)
      show "0 \<le> band_start origin len + f_mul (band_slice n len) J"
        using band_start_bounds(3) [OF ok] o40 f32_nonneg [OF s0] sj2 by (simp add: f_mul_def)
      show "band_start origin len + f_mul (band_slice n len) J < 16777216"
        using band_start_bounds(1) [OF ok] o40 m2 unfolding L_def by linarith
      show "of_int (?K + (48 * j + 24)) \<le> band_start origin len + f_mul (band_slice n len) J"
        using b m by simp
    qed
    then have "?K + (48 * j + 24) \<le> \<lfloor>?cj\<rfloor>" by (simp add: le_floor_iff)
    moreover have "?ci \<le> of_int (?K + (48 * i + 24)) + 1 / 80"
      using ci(1) True unfolding ideal S by (simp add: I_def L_def)
    then have "\<lfloor>?ci\<rfloor> \<le> ?K + (48 * i + 24)" by linarith
    ultimately show ?thesis using ij(2) by linarith
  next
    case False
    with big have "80 * n + 1 \<le> len" by simp
    then have "(of_int (80 * n + 1) :: rat) \<le> L" unfolding L_def by (simp only: of_int_le_iff)
    then have "3 * of_int (80 * n + 1) / (5 * of_int n) \<le> S"
      unfolding S_def using n by (intro divide_right_mono) simp_all
    moreover have "3 * of_int (80 * n + 1) / (5 * of_int n) = 48 + 3 / (5 * of_int n :: rat)"
      using n by (simp add: field_simps)
    moreover have "3 / 40 \<le> (3 / (5 * of_int n) :: rat)" using n ij(4) by (simp add: field_simps)
    ultimately have S: "48 + 3 / 40 \<le> S" by linarith
    have D: "1 \<le> D" using ij by (simp add: D_def)
    have "S * J - S * I = S * D" by (simp add: I_def J_def D_def algebra_simps)
    moreover have "S * 1 \<le> S * D" using S D by (intro mult_left_mono) simp_all
    ultimately have "?ci + 48 \<le> ?cj" using ci(1) cj(2) S unfolding ideal by linarith
    from floor_mono [OF this] show ?thesis by simp
  qed
  then show ?thesis by (simp add: auto_start_band [OF ok i True] auto_start_band [OF ok j True])
next
  case False
  then have "\<not> f_int 48 \<le> f_div (f_mul (f32 (3 / 5)) (f_int len)) (f_int n)"
    by (simp add: f_int_exact band_slice_def)
  with room ij(2) show ?thesis by (simp add: auto_start_def Let_def layout_consts)
qed

text \<open>The first and the last nub of a stack leave room to slide it clear of the corner.\<close>

lemma auto_stack_slack:
  assumes ok: "edge_ok origin len" and n: "0 < n" "n \<le> 8" and room: "(n - 1) * 48 + 36 \<le> len"
  shows "auto_start (n - 1) n origin len + 58 \<le> auto_start 0 n origin len + origin + len"
proof (cases "48 \<le> band_slice n len")
  case True
  define L S where "L = (of_int len :: rat)" and "S = 3 * L / (5 * of_int n)"
  have big: "80 * n \<le> len" by (rule band_room [OF ok n True])
  have i: "0 \<le> (0::int)" "0 < n" "n \<le> 8" and j: "0 \<le> n - 1" "n - 1 < n" "n \<le> 8" using n by simp_all
  have s: "48 \<le> S" using ideal_slice [OF n(1) big] by (simp add: S_def L_def)
  have ideal: "ideal_center 0 n origin len = of_int origin + L / 5 + S / 2"
    "ideal_center (n - 1) n origin len = of_int origin + L / 5 + (3 * L / 5 - S / 2)"
    using n by (simp_all add: ideal_center_def S_def L_def field_simps)
  let ?cl = "band_center 0 n origin len" and ?cr = "band_center (n - 1) n origin len"
  have "26 \<le> (of_int origin :: rat)" "0 \<le> L" using ok by (simp_all add: edge_ok_def L_def)
  then have "?cr + 59 \<le> ?cl + of_int (origin + len)"
    using band_center_near(1) [OF ok j] band_center_near(2) [OF ok i] s unfolding ideal by (simp add: L_def)
  then have "\<lfloor>?cr\<rfloor> + 58 \<le> \<lfloor>?cl\<rfloor> + (origin + len)" by linarith
  then show ?thesis by (simp add: auto_start_band [OF ok i True] auto_start_band [OF ok j True])
next
  case False
  then have "\<not> f_int 48 \<le> f_div (f_mul (f32 (3 / 5)) (f_int len)) (f_int n)"
    by (simp add: f_int_exact band_slice_def)
  with room ok show ?thesis by (simp add: auto_start_def Let_def layout_consts edge_ok_def)
qed

section \<open>The layout as a whole\<close>

lemma length_place_nubs [simp]: "length (place_nubs win scr opn tot i ai bs) = length bs"
  by (induction bs arbitrary: i ai) (simp_all add: Let_def)

lemma place_nubs_nth:
  "k < length bs \<Longrightarrow> place_nubs win scr opn tot i ai bs ! k =
     (let b = bs ! k; e = b_edge b;
          body = nub_body win e (nub_start scr opn (tot e) (ai e + auto_total (take k bs) e) b)
      in \<lparr>nb_body = body, nb_hit = inflate body HIT_INFLATE, nb_button = i + k, nb_edge = e\<rparr>)"
proof (induction bs arbitrary: i ai k)
  case (Cons b bs)
  show ?case
  proof (cases k)
    case (Suc j)
    with Cons.prems have j: "j < length bs" by simp
    show ?thesis by (simp add: Suc Cons.IH [OF j] Let_def auto_total_def ac_simps)
  qed (simp add: Let_def auto_total_def)
qed simp

lemma auto_index_less:
  assumes "k < l" and "l \<le> length bs" and "b_pos (bs ! k) < 0" and "b_edge (bs ! k) = e"
  shows "auto_total (take k bs) e < auto_total (take l bs) e"
proof -
  let ?P = "\<lambda>b. b_pos b < 0 \<and> b_edge b = e"
  have "take l bs = take (Suc k) bs @ take (l - Suc k) (drop (Suc k) bs)"
    using assms(1) by (metis Suc_leI le_add_diff_inverse take_add)
  moreover have "take (Suc k) bs = take k bs @ [bs ! k]" using assms by (simp add: take_Suc_conv_app_nth)
  ultimately have "filter ?P (take l bs) = filter ?P (take k bs) @ [bs ! k] @ filter ?P (take (l - Suc k) (drop (Suc k) bs))"
    using assms(3,4) by simp
  then show ?thesis by (simp add: auto_total_def)
qed

lemma auto_total_bounds: "0 \<le> auto_total bs e" "auto_total bs e \<le> int (length bs)"
  by (simp_all add: auto_total_def)

text \<open>The dimensions the later proofs speak of: the screen, the margins and the opener.\<close>

definition board_ok :: "BoardDesc \<Rightarrow> int \<Rightarrow> bool" where
  "board_ok bd scale \<longleftrightarrow> 36 \<le> bd_width bd * max 1 scale \<and> bd_width bd * max 1 scale \<le> 8192 \<and>
     36 \<le> bd_height bd * max 1 scale \<and> bd_height bd * max 1 scale \<le> 8192"

definition margin :: "BoardDesc \<Rightarrow> SimEdge \<Rightarrow> int" where
  "margin bd e = edge_margin (has_edge (layout_buttons bd) e)"

lemma margin_bounds: "26 \<le> margin bd e" "margin bd e \<le> 40"
    "b \<in> set (layout_buttons bd) \<Longrightarrow> margin bd (b_edge b) = 40"
  by (auto simp: margin_def edge_margin_def layout_consts has_edge_def)

definition edge_len :: "BoardDesc \<Rightarrow> int \<Rightarrow> SimEdge \<Rightarrow> int" where
  "edge_len bd scale e = (if vertical_edge e then bd_height bd else bd_width bd) * max 1 scale"

definition edge_origin :: "BoardDesc \<Rightarrow> SimEdge \<Rightarrow> int" where
  "edge_origin bd e = (if vertical_edge e then margin bd EDGE_TOP else margin bd EDGE_LEFT)"

lemma layout_fields:
  "wl_screen (window_layout (Some bd) scale) = rect (margin bd EDGE_LEFT) (margin bd EDGE_TOP)
     (bd_width bd * max 1 scale) (bd_height bd * max 1 scale)"
  "wl_window (window_layout (Some bd) scale) = rect 0 0
     (bd_width bd * max 1 scale + margin bd EDGE_LEFT + margin bd EDGE_RIGHT)
     (bd_height bd * max 1 scale + margin bd EDGE_TOP + margin bd EDGE_BOTTOM)"
  "wl_more_nub (window_layout (Some bd) scale) =
     (if bd_has_battery bd \<or> bd_has_rotation bd
      then rect (r_w (wl_window (window_layout (Some bd) scale)) - 36) (r_h (wl_window (window_layout (Some bd) scale)) - 12) 36 12
      else zero_rect)"
  "wl_nubs (window_layout (Some bd) scale) =
     place_nubs (wl_window (window_layout (Some bd) scale)) (wl_screen (window_layout (Some bd) scale))
       (wl_more_nub (window_layout (Some bd) scale)) (auto_total (layout_buttons bd)) 0 (\<lambda>_. 0) (layout_buttons bd)"
  "wl_bezel (window_layout (Some bd) scale) = wl_window (window_layout (Some bd) scale)"
  by (simp_all add: window_layout_def Let_def margin_def max_def NUB_LONG_def NUB_THICK_def)

definition start_of :: "BoardDesc \<Rightarrow> int \<Rightarrow> nat \<Rightarrow> int" where
  "start_of bd scale k =
     (let bs = layout_buttons bd; l = window_layout (Some bd) scale; e = b_edge (bs ! k)
      in nub_start (wl_screen l) (wl_more_nub l) (auto_total bs e) (auto_total (take k bs) e) (bs ! k))"

lemma layout_nub:
  assumes "k < length (layout_buttons bd)"
  shows "wl_nubs (window_layout (Some bd) scale) ! k =
    (let e = b_edge (layout_buttons bd ! k);
         body = nub_body (wl_window (window_layout (Some bd) scale)) e (start_of bd scale k)
     in \<lparr>nb_body = body, nb_hit = inflate body 6, nb_button = k, nb_edge = e\<rparr>)"
  unfolding layout_fields(4) [of bd scale] place_nubs_nth [OF assms]
  by (simp add: Let_def start_of_def HIT_INFLATE_def)

lemma edge_ok_board: "board_ok bd scale \<Longrightarrow> edge_ok (edge_origin bd e) (edge_len bd scale e)"
  using margin_bounds(1,2) [of bd] by (simp add: board_ok_def edge_ok_def edge_origin_def edge_len_def)

lemma length_layout_buttons: "length (layout_buttons bd) \<le> 8"
  by (simp add: layout_buttons_def MAX_LAYOUT_BUTTONS_def)

text \<open>Every nub starts on its edge, except that a bottom stack may reach into the left bezel.\<close>

lemma start_of_eq:
  assumes "k < length (layout_buttons bd)" and "b_edge (layout_buttons bd ! k) = e"
  shows "\<exists>v. start_of bd scale k =
    (if b_pos (layout_buttons bd ! k) < 0
     then (let n = auto_total (layout_buttons bd) e; i = auto_total (take k (layout_buttons bd)) e;
               s = auto_start i n (edge_origin bd e) (edge_len bd scale e);
               over = auto_start (n - 1) n (edge_origin bd e) (edge_len bd scale e) + 42
                 - r_x (wl_more_nub (window_layout (Some bd) scale))
           in if e = EDGE_BOTTOM \<and> (bd_has_battery bd \<or> bd_has_rotation bd) \<and> 0 < over then clampi (s - over) 6 s else s)
     else clampi v (edge_origin bd e) (edge_origin bd e + edge_len bd scale e - 36))"
proof -
  have "0 < r_w (wl_more_nub (window_layout (Some bd) scale)) \<longleftrightarrow> bd_has_battery bd \<or> bd_has_rotation bd"
    unfolding layout_fields(3) by (simp add: zero_rect_def)
  then show ?thesis
    using assms
    by (auto simp: start_of_def nub_start_def Let_def edge_origin_def edge_len_def layout_fields(1)
        NUB_LONG_def HIT_INFLATE_def ac_simps)
qed

lemma start_of_range:
  assumes ok: "board_ok bd scale" and k: "k < length (layout_buttons bd)" and e: "b_edge (layout_buttons bd ! k) = e"
  shows "(if e = EDGE_BOTTOM then 6 else edge_origin bd e) \<le> start_of bd scale k"
    and "start_of bd scale k \<le> max (edge_origin bd e) (edge_origin bd e + edge_len bd scale e - 36)"
proof -
  let ?b = "layout_buttons bd ! k" and ?bs = "layout_buttons bd" and ?o = "edge_origin bd e" and ?l = "edge_len bd scale e"
  obtain v where s: "start_of bd scale k = (if b_pos ?b < 0
     then (let n = auto_total ?bs e; i = auto_total (take k ?bs) e; s = auto_start i n ?o ?l;
               over = auto_start (n - 1) n ?o ?l + 42 - r_x (wl_more_nub (window_layout (Some bd) scale))
           in if e = EDGE_BOTTOM \<and> (bd_has_battery bd \<or> bd_has_rotation bd) \<and> 0 < over then clampi (s - over) 6 s else s)
     else clampi v ?o (?o + ?l - 36))"
    using start_of_eq [OF k e] by blast
  have o: "26 \<le> ?o" using margin_bounds(1) by (simp add: edge_origin_def)
  have "(if e = EDGE_BOTTOM then 6 else ?o) \<le> start_of bd scale k \<and>
    start_of bd scale k \<le> max ?o (?o + ?l - 36)"
  proof (cases "b_pos ?b < 0")
    case True
    let ?s = "auto_start (auto_total (take k ?bs) e) (auto_total ?bs e) ?o ?l"
    have "auto_total (take k ?bs) e < auto_total ?bs e"
      using auto_index_less [of k "length ?bs" ?bs e] k e True by simp
    then have r: "?o \<le> ?s" "?s \<le> max ?o (?o + ?l - 36)"
      using auto_start_range [OF edge_ok_board [OF ok], of "auto_total (take k ?bs) e" "auto_total ?bs e" e]
        auto_total_bounds [of ?bs e] auto_total_bounds [of "take k ?bs" e] length_layout_buttons [of bd] by auto
    have "6 \<le> clampi (?s - over) 6 ?s" "clampi (?s - over) 6 ?s \<le> ?s" for over
      using r(1) o by (auto simp: clampi_def)
    with r o True show ?thesis unfolding s by (auto simp: Let_def intro: order_trans)
  next
    case False
    with clampi_range(1) [of ?o v "?o + ?l - 36"] clampi_range(2) [of v ?o "?o + ?l - 36"] o show ?thesis unfolding s by auto
  qed
  then show "(if e = EDGE_BOTTOM then 6 else ?o) \<le> start_of bd scale k"
    and "start_of bd scale k \<le> max ?o (?o + ?l - 36)" by blast+
qed

text \<open>The click target of a nub as a box.\<close>

lemma hit_box:
  assumes "k < length (layout_buttons bd)" and "b_edge (layout_buttons bd ! k) = e"
  shows "win_rect_contains (nb_hit (wl_nubs (window_layout (Some bd) scale) ! k)) x y \<longleftrightarrow>
    (let w = r_w (wl_window (window_layout (Some bd) scale)); h = r_h (wl_window (window_layout (Some bd) scale));
         s = start_of bd scale k
     in if vertical_edge e
        then (if e = EDGE_RIGHT then w - 24 \<le> x \<and> x < w else 0 \<le> x \<and> x < 24) \<and> s - 6 \<le> y \<and> y < s + 42
        else (if e = EDGE_BOTTOM then h - 24 \<le> y \<and> y < h else 0 \<le> y \<and> y < 24) \<and> s - 6 \<le> x \<and> x < s + 42)"
  using assms by (auto simp: layout_nub Let_def nub_body_def inflate_def win_rect_contains_def NUB_LONG_def
      NUB_THICK_def HIT_INFLATE_def)

text \<open>Two automatic nubs of one edge with room on it, and a bottom nub and the opener, are apart.\<close>

definition edge_room :: "BoardDesc \<Rightarrow> int \<Rightarrow> SimEdge \<Rightarrow> bool" where
  "edge_room bd scale e \<longleftrightarrow>
     (let n = auto_total (layout_buttons bd) e in 0 < n \<longrightarrow> (n - 1) * 48 + 36 \<le> edge_len bd scale e)"

definition slide :: "BoardDesc \<Rightarrow> int \<Rightarrow> SimEdge \<Rightarrow> int" where
  "slide bd scale e =
     (let n = auto_total (layout_buttons bd) e;
          over = auto_start (n - 1) n (edge_origin bd e) (edge_len bd scale e) + 42
            - r_x (wl_more_nub (window_layout (Some bd) scale))
      in if e = EDGE_BOTTOM \<and> (bd_has_battery bd \<or> bd_has_rotation bd) then max 0 over else 0)"

lemma start_of_auto:
  assumes ok: "board_ok bd scale" and k: "k < length (layout_buttons bd)" and e: "b_edge (layout_buttons bd ! k) = e"
    and auto: "b_pos (layout_buttons bd ! k) < 0" and room: "edge_room bd scale e"
  shows "0 \<le> auto_total (take k (layout_buttons bd)) e" "auto_total (take k (layout_buttons bd)) e < auto_total (layout_buttons bd) e"
    and "start_of bd scale k = auto_start (auto_total (take k (layout_buttons bd)) e) (auto_total (layout_buttons bd) e)
      (edge_origin bd e) (edge_len bd scale e) - slide bd scale e"
proof -
  let ?bs = "layout_buttons bd" and ?o = "edge_origin bd e" and ?l = "edge_len bd scale e"
  let ?n = "auto_total ?bs e" and ?i = "auto_total (take k ?bs) e"
  show i: "0 \<le> ?i" "?i < ?n"
    using auto_index_less [of k "length ?bs" ?bs e] k e auto auto_total_bounds(1) by simp_all
  have n: "0 < ?n" "?n \<le> 8" using i auto_total_bounds(2) [of ?bs e] length_layout_buttons [of bd] by simp_all
  note eok = edge_ok_board [OF ok, of e]
  have len: "(?n - 1) * 48 + 36 \<le> ?l" using room n by (simp add: edge_room_def Let_def)
  let ?s = "auto_start ?i ?n ?o ?l" and ?first = "auto_start 0 ?n ?o ?l"
  have s0: "?first \<le> ?s"
  proof (cases "?i = 0")
    case False
    with auto_start_apart [OF eok, of 0 ?i ?n] i n len show ?thesis by simp
  qed simp
  have "6 \<le> ?s - slide bd scale e" if "e = EDGE_BOTTOM" "bd_has_battery bd \<or> bd_has_rotation bd" "0 < slide bd scale e"
  proof -
    have "r_x (wl_more_nub (window_layout (Some bd) scale)) = ?l + ?o + margin bd EDGE_RIGHT - 36"
      using that by (simp add: layout_fields edge_len_def edge_origin_def vertical_edge_def)
    then show ?thesis
      using auto_stack_slack [OF eok n len] s0 that margin_bounds(1) [of bd EDGE_RIGHT]
      by (simp add: slide_def Let_def max_def split: if_splits)
  qed
  moreover obtain v where "start_of bd scale k = (if b_pos (?bs ! k) < 0
     then (let n = auto_total ?bs e; i = auto_total (take k ?bs) e; s = auto_start i n ?o ?l;
               over = auto_start (n - 1) n ?o ?l + 42 - r_x (wl_more_nub (window_layout (Some bd) scale))
           in if e = EDGE_BOTTOM \<and> (bd_has_battery bd \<or> bd_has_rotation bd) \<and> 0 < over then clampi (s - over) 6 s else s)
     else clampi v ?o (?o + ?l - 36))"
    using start_of_eq [OF k e] by blast
  ultimately show "start_of bd scale k = ?s - slide bd scale e"
    using auto by (auto simp: slide_def Let_def clampi_def max_def split: if_splits)
qed

lemma auto_starts_apart:
  assumes ok: "board_ok bd scale" and kl: "k < l" "l < length (layout_buttons bd)"
    and e: "b_edge (layout_buttons bd ! k) = e" "b_edge (layout_buttons bd ! l) = e"
    and auto: "b_pos (layout_buttons bd ! k) < 0" "b_pos (layout_buttons bd ! l) < 0"
    and room: "edge_room bd scale e"
  shows "start_of bd scale k + 48 \<le> start_of bd scale l"
proof -
  have k: "k < length (layout_buttons bd)" using kl by simp
  note a = start_of_auto [OF ok k e(1) auto(1) room] and b = start_of_auto [OF ok kl(2) e(2) auto(2) room]
  have "(auto_total (layout_buttons bd) e - 1) * 48 + 36 \<le> edge_len bd scale e"
    using room a(1,2) by (simp add: edge_room_def Let_def)
  then show ?thesis
    using auto_start_apart [OF edge_ok_board [OF ok] a(1) auto_index_less [OF kl(1) less_imp_le [OF kl(2)] auto(1) e(1)] b(2)]
      auto_total_bounds(2) [of "layout_buttons bd" e] length_layout_buttons [of bd] a(3) b(3) by auto
qed

lemma auto_clear_of_opener:
  assumes ok: "board_ok bd scale" and k: "k < length (layout_buttons bd)" and e: "b_edge (layout_buttons bd ! k) = EDGE_BOTTOM"
    and auto: "b_pos (layout_buttons bd ! k) < 0" and room: "edge_room bd scale EDGE_BOTTOM"
    and opener: "bd_has_battery bd \<or> bd_has_rotation bd"
  shows "start_of bd scale k + 42 \<le> r_x (wl_more_nub (window_layout (Some bd) scale))"
proof -
  let ?bs = "layout_buttons bd"
  let ?n = "auto_total ?bs EDGE_BOTTOM" and ?i = "auto_total (take k ?bs) EDGE_BOTTOM"
    and ?o = "edge_origin bd EDGE_BOTTOM" and ?l = "edge_len bd scale EDGE_BOTTOM"
  note a = start_of_auto [OF ok k e auto room]
  have n: "?n \<le> 8" using auto_total_bounds(2) [of ?bs EDGE_BOTTOM] length_layout_buttons [of bd] by simp
  have len: "(?n - 1) * 48 + 36 \<le> ?l" using room a(1,2) by (simp add: edge_room_def Let_def)
  have "auto_start ?i ?n ?o ?l \<le> auto_start (?n - 1) ?n ?o ?l"
  proof (cases "?i = ?n - 1")
    case False
    with auto_start_apart [OF edge_ok_board [OF ok] a(1), of "?n - 1" ?n EDGE_BOTTOM] a(2) n len show ?thesis by simp
  qed simp
  then show ?thesis using opener unfolding a(3) by (simp add: slide_def Let_def)
qed

lemma hit_on_window:
  assumes ok: "board_ok bd scale" and k: "k < length (layout_buttons bd)"
    and hit: "win_rect_contains (nb_hit (wl_nubs (window_layout (Some bd) scale) ! k)) x y"
  shows "win_rect_contains (wl_window (window_layout (Some bd) scale)) x y"
    and "\<not> win_rect_contains (wl_screen (window_layout (Some bd) scale)) x y"
proof -
  obtain e where e: "b_edge (layout_buttons bd ! k) = e" by simp
  have m: "margin bd e = 40" using margin_bounds(3) [of "layout_buttons bd ! k" bd] k e by simp
  note h = hit [unfolded hit_box [OF k e] Let_def] and r = start_of_range [OF ok k e]
  show "win_rect_contains (wl_window (window_layout (Some bd) scale)) x y"
    using h r ok margin_bounds(1) [of bd EDGE_TOP] margin_bounds(1) [of bd EDGE_LEFT]
      margin_bounds(1) [of bd EDGE_RIGHT] margin_bounds(1) [of bd EDGE_BOTTOM]
    by (cases e) (simp_all add: win_rect_contains_def layout_fields edge_origin_def edge_len_def vertical_edge_def
        board_ok_def max_def split: if_splits)
  show "\<not> win_rect_contains (wl_screen (window_layout (Some bd) scale)) x y"
    using h m by (cases e) (simp_all add: win_rect_contains_def layout_fields vertical_edge_def)
qed

lemma hit_opener_apart:
  assumes ok: "board_ok bd scale" and k: "k < length (layout_buttons bd)"
    and hit: "win_rect_contains (nb_hit (wl_nubs (window_layout (Some bd) scale) ! k)) x y"
    and side: "b_edge (layout_buttons bd ! k) \<noteq> EDGE_BOTTOM \<or>
      b_pos (layout_buttons bd ! k) < 0 \<and> edge_room bd scale EDGE_BOTTOM"
  shows "\<not> win_rect_contains (wl_more_nub (window_layout (Some bd) scale)) x y"
proof (cases "bd_has_battery bd \<or> bd_has_rotation bd")
  case True
  obtain e where e: "b_edge (layout_buttons bd ! k) = e" by simp
  note h = hit [unfolded hit_box [OF k e] Let_def] and r = start_of_range [OF ok k e]
  show ?thesis
  proof (cases "e = EDGE_BOTTOM")
    case bottom: True
    with side e have "b_pos (layout_buttons bd ! k) < 0" "edge_room bd scale EDGE_BOTTOM" by simp_all
    from auto_clear_of_opener [OF ok k _ this True] e bottom h show ?thesis
      by (simp add: win_rect_contains_def vertical_edge_def)
  next
    case False
    with h r True ok margin_bounds(1) [of bd EDGE_TOP] margin_bounds(1) [of bd EDGE_BOTTOM]
    show ?thesis
      by (cases e) (simp_all add: win_rect_contains_def layout_fields edge_origin_def edge_len_def vertical_edge_def
          board_ok_def max_def split: if_splits)
  qed
qed (simp add: layout_fields zero_rect_def win_rect_contains_def)

text \<open>Targets of different edges.\<close>

lemma hit_edges_apart:
  assumes ok: "board_ok bd scale" and k: "k < length (layout_buttons bd)" and l: "l < length (layout_buttons bd)"
    and hk: "win_rect_contains (nb_hit (wl_nubs (window_layout (Some bd) scale) ! k)) x y"
    and hl: "win_rect_contains (nb_hit (wl_nubs (window_layout (Some bd) scale) ! l)) x y"
  shows "b_edge (layout_buttons bd ! k) = b_edge (layout_buttons bd ! l)"
proof -
  obtain d e where d: "b_edge (layout_buttons bd ! k) = d" and e: "b_edge (layout_buttons bd ! l) = e" by simp
  have m: "margin bd d = 40" "margin bd e = 40"
    using margin_bounds(3) [of "layout_buttons bd ! k" bd] margin_bounds(3) [of "layout_buttons bd ! l" bd] k l d e by simp_all
  note hk = hk [unfolded hit_box [OF k d] Let_def] and hl = hl [unfolded hit_box [OF l e] Let_def]
    and rk = start_of_range [OF ok k d] and rl = start_of_range [OF ok l e]
  have "d = e"
    using hk hl rk rl m ok margin_bounds(1) [of bd EDGE_TOP] margin_bounds(1) [of bd EDGE_LEFT]
      margin_bounds(1) [of bd EDGE_RIGHT] margin_bounds(1) [of bd EDGE_BOTTOM]
    by (cases d; cases e) (simp_all add: layout_fields edge_origin_def edge_len_def vertical_edge_def board_ok_def max_def
        split: if_splits)
  with d e show ?thesis by simp
qed

text \<open>The overlays.\<close>

lemma contains_zero [simp]: "\<not> win_rect_contains zero_rect x y"
  by (simp add: zero_rect_def win_rect_contains_def)

lemma panel_card_inside:
  assumes "0 \<le> r_w (wl_window l)" and "0 \<le> r_h (wl_window l)" and "win_rect_contains (layout_panel_card l) x y"
  shows "win_rect_contains (wl_window l) x y"
  using assms by (simp add: layout_panel_card_def Let_def win_rect_contains_def PANEL_MARGIN_def max_def min_def split: if_splits)

lemma help_card_inside:
  assumes "win_rect_contains (layout_help_card l w h) x y"
  shows "win_rect_contains (wl_window l) x y"
proof -
  have c: "0 \<le> cdiv (n - m) 2 \<and> cdiv (n - m) 2 + m \<le> n" if "0 \<le> m" "m \<le> n" for m n :: int
    using that by (simp add: cdiv_nonneg)
  let ?w = "max 0 (min (w + 2 * HELP_CARD_PAD) (r_w (wl_window l)))"
    and ?h = "max 0 (min (h + 2 * HELP_CARD_PAD) (r_h (wl_window l)))"
  have "0 < ?w" "0 < ?h" using assms by (simp_all add: layout_help_card_def Let_def win_rect_contains_def)
  then have "?w \<le> r_w (wl_window l)" "?h \<le> r_h (wl_window l)" by simp_all
  with c [of ?w "r_w (wl_window l)"] c [of ?h "r_h (wl_window l)"] assms show ?thesis
    by (simp add: layout_help_card_def Let_def win_rect_contains_def)
qed

definition in_card :: "WinRect \<Rightarrow> int \<Rightarrow> int \<Rightarrow> int \<Rightarrow> int \<Rightarrow> bool" where
  "in_card cd lo hi u v \<longleftrightarrow> lo \<le> u \<and> u < hi \<and> u < r_x cd + r_w cd - 12 \<and> r_y cd \<le> v \<and> v < r_y cd + r_h cd"

lemma place_control_box:
  assumes "win_rect_contains (place_control cd x w h) u v"
  shows "in_card cd x (x + w) u v"
proof -
  let ?w = "min w (r_x cd + r_w cd - 12 - x)" and ?h = "min h (r_h cd - 24)"
  have pos: "\<not> (?w \<le> 0 \<or> ?h \<le> 0)"
    using assms by (auto simp: place_control_def Let_def PANEL_PAD_def split: if_splits)
  then have "cdiv (r_h cd - ?h) 2 = (r_h cd - ?h) div 2" by (intro cdiv_nonneg) simp_all
  with pos have "place_control cd x w h = rect x (r_y cd + (r_h cd - ?h) div 2) ?w ?h"
    by (simp add: place_control_def Let_def PANEL_PAD_def)
  with assms pos show ?thesis by (auto simp: in_card_def win_rect_contains_def)
qed

lemma panel_pct_box:
  assumes "p = fst (panel_battery cd x q)" and "pl_bat_pct q = zero_rect"
  shows "pl_bat_pct p = zero_rect \<or> r_w (pl_bat_pct p) = 48 \<and>
    (\<forall>u v. win_rect_contains (pl_bat_pct p) u v \<longrightarrow> in_card cd (x + 158) (x + 206) u v)"
proof -
  let ?bar = "place_control cd x 150 22"
  define pct where "pct = place_control cd (r_x ?bar + r_w ?bar + 8) 48 14"
  have p: "pl_bat_pct p = (if 0 < r_w ?bar \<and> \<not> r_w pct < 48 then pct\<lparr>r_y := r_y ?bar + 4\<rparr> else zero_rect)"
    using assms by (simp add: panel_battery_def Let_def layout_consts pct_def)
  show ?thesis
  proof (cases "0 < r_w ?bar \<and> \<not> r_w pct < 48")
    case True
    then have bar: "?bar = rect x (r_y cd + cdiv (r_h cd - min 22 (r_h cd - 24)) 2)
        (min 150 (r_x cd + r_w cd - 12 - x)) (min 22 (r_h cd - 24))" and h: "0 < min 22 (r_h cd - 24)"
      by (auto simp: place_control_def Let_def PANEL_PAD_def zero_rect_def split: if_splits)
    let ?bw = "min 150 (r_x cd + r_w cd - 12 - x)"
    from True have pct: "pct = rect (x + ?bw + 8) (r_y cd + cdiv (r_h cd - min 14 (r_h cd - 24)) 2)
        (min 48 (r_x cd + r_w cd - 12 - (x + ?bw + 8))) (min 14 (r_h cd - 24))"
      unfolding pct_def bar by (auto simp: place_control_def Let_def PANEL_PAD_def zero_rect_def split: if_splits)
    from True have "48 \<le> min 48 (r_x cd + r_w cd - 12 - (x + ?bw + 8))"
      unfolding pct by (simp only: rect_sel not_less)
    then have w: "48 \<le> r_x cd + r_w cd - 12 - (x + ?bw + 8)" by (simp only: min.bounded_iff)
    then have bw: "?bw = 150" by (auto simp: min_def split: if_splits)
    have "cdiv (r_h cd - min 22 (r_h cd - 24)) 2 = (r_h cd - min 22 (r_h cd - 24)) div 2"
      using h by (intro cdiv_nonneg) simp_all
    with True w bw h show ?thesis
      unfolding p pct bar by (auto simp: in_card_def win_rect_contains_def min_def split: if_splits)
  next
    case False
    then show ?thesis unfolding p by (simp only: if_False) simp
  qed
qed

text \<open>All five controls, each in a strip of the card of its own.\<close>

lemma panel_boxes:
  assumes "p = layout_panel l battery rotation" and "cd = layout_panel_card l" and "x = r_x cd + 12"
  shows "win_rect_contains (pl_bat_bar p) u v \<Longrightarrow> battery \<and> in_card cd x (x + 150) u v"
    and "win_rect_contains (pl_bat_pct p) u v \<Longrightarrow> battery \<and> in_card cd (x + 158) (x + 206) u v"
    and "win_rect_contains (pl_chg_btn p) u v \<Longrightarrow> battery \<and> in_card cd (x + 206) (x + 262) u v"
    and "win_rect_contains (pl_usb_btn p) u v \<Longrightarrow> battery \<and> in_card cd (x + 270) (x + 326) u v"
    and "win_rect_contains (pl_rot_btn p) u v \<Longrightarrow>
      in_card cd (if battery then x + 334 else x) (if battery then x + 390 else x + 56) u v"
    and "pl_bat_pct p = zero_rect \<or> r_w (pl_bat_pct p) = 48"
proof -
  let ?q = "\<lparr>pl_bat_bar = zero_rect, pl_bat_pct = zero_rect, pl_chg_btn = zero_rect, pl_usb_btn = zero_rect,
    pl_rot_btn = zero_rect\<rparr>"
  have p: "p = (if rotation then (\<lambda>r. r\<lparr>pl_rot_btn := place_control cd (if battery then x + 334 else x) 56 34\<rparr>) else id)
      (if battery then fst (panel_battery cd x ?q) else ?q)"
    using assms by (simp add: layout_panel_def Let_def split_def panel_battery_def layout_consts)
  have pct: "pl_bat_pct p = (if battery then pl_bat_pct (fst (panel_battery cd x ?q)) else zero_rect)"
    by (simp add: p)
  note pb = panel_pct_box [of "fst (panel_battery cd x ?q)" cd x ?q, OF refl]
  show "win_rect_contains (pl_bat_pct p) u v \<Longrightarrow> battery \<and> in_card cd (x + 158) (x + 206) u v"
    and "pl_bat_pct p = zero_rect \<or> r_w (pl_bat_pct p) = 48"
    using pb unfolding pct by (auto split: if_splits)
  show "win_rect_contains (pl_bat_bar p) u v \<Longrightarrow> battery \<and> in_card cd x (x + 150) u v"
    using place_control_box [of cd x 150 22 u v] by (auto simp: p panel_battery_def Let_def layout_consts ac_simps split: if_splits)
  show "win_rect_contains (pl_chg_btn p) u v \<Longrightarrow> battery \<and> in_card cd (x + 206) (x + 262) u v"
    using place_control_box [of cd "x + 206" 56 34 u v] by (auto simp: p panel_battery_def Let_def layout_consts ac_simps split: if_splits)
  show "win_rect_contains (pl_usb_btn p) u v \<Longrightarrow> battery \<and> in_card cd (x + 270) (x + 326) u v"
    using place_control_box [of cd "x + 270" 56 34 u v] by (auto simp: p panel_battery_def Let_def layout_consts ac_simps split: if_splits)
  show "win_rect_contains (pl_rot_btn p) u v \<Longrightarrow>
      in_card cd (if battery then x + 334 else x) (if battery then x + 390 else x + 56) u v"
    using place_control_box [of cd "if battery then x + 334 else x" 56 34 u v]
    by (auto simp: p panel_battery_def Let_def layout_consts ac_simps split: if_splits)
qed

section \<open>Properties\<close>

text \<open>
  Whatever positions a board gives its buttons, at most eight are laid out, in
  order, and every point of a click target lies in the window and off the screen, so that a
  press on the device's screen is never taken for a button; the screen has the board's scaled
  size and lies in the window. Edges are taken between a nub and 8192 points long.
\<close>

theorem layout_on_window:
  assumes "board_ok bd scale" and "l = window_layout (Some bd) scale"
  shows "length (wl_nubs l) = min 8 (length (bd_buttons bd)) \<and>
    (\<forall>k < length (wl_nubs l). nb_button (wl_nubs l ! k) = k \<and>
       (\<forall>x y. win_rect_contains (nb_hit (wl_nubs l ! k)) x y \<longrightarrow>
          win_rect_contains (wl_window l) x y \<and> \<not> win_rect_contains (wl_screen l) x y)) \<and>
    r_w (wl_screen l) = bd_width bd * max 1 scale \<and> r_h (wl_screen l) = bd_height bd * max 1 scale \<and>
    (\<forall>x y. win_rect_contains (wl_screen l) x y \<longrightarrow> win_rect_contains (wl_window l) x y)"
proof -
  have len: "length (wl_nubs l) = length (layout_buttons bd)" by (simp add: assms(2) layout_fields(4) [of bd scale])
  moreover have "length (layout_buttons bd) = min 8 (length (bd_buttons bd))"
    by (simp add: layout_buttons_def MAX_LAYOUT_BUTTONS_def min.commute)
  moreover have "nb_button (wl_nubs l ! k) = k" if "k < length (wl_nubs l)" for k
    using that unfolding len unfolding assms(2) by (simp add: layout_nub Let_def)
  moreover have "win_rect_contains (wl_screen l) x y \<longrightarrow> win_rect_contains (wl_window l) x y" for x y
    using margin_bounds(1) [of bd EDGE_TOP] margin_bounds(1) [of bd EDGE_LEFT]
      margin_bounds(1) [of bd EDGE_RIGHT] margin_bounds(1) [of bd EDGE_BOTTOM]
    by (simp add: assms(2) layout_fields win_rect_contains_def)
  ultimately show ?thesis
    using hit_on_window [OF assms(1)] by (simp add: assms(2) layout_fields(1))
qed

definition demo_button :: "rat \<Rightarrow> SimEdge \<Rightarrow> SimButton" where
  "demo_button p e = \<lparr>b_label = ''B'', b_action = ACT_PRIMARY, b_gpio = 0, b_key = CHR 0x00, b_edge = e,
     b_pos = p, b_active_low = False\<rparr>"

definition bezel_board :: BoardDesc where
  "bezel_board = \<lparr>bd_name = ''demo'', bd_width = 170, bd_height = 320, bd_has_rotation = True,
     bd_has_battery = True, bd_has_imu = True,
     bd_buttons = [demo_button (- 1) EDGE_BOTTOM, demo_button (1 / 2) EDGE_RIGHT, demo_button (- 1) EDGE_BOTTOM]\<rparr>"

lemma bezel_buttons: "length (layout_buttons bezel_board) = 3" "b_edge (layout_buttons bezel_board ! 0) = EDGE_BOTTOM"
  by (simp_all add: layout_buttons_def MAX_LAYOUT_BUTTONS_def bezel_board_def demo_button_def)

lemma bezel_window: "wl_window (window_layout (Some bezel_board) 1) = rect 0 0 236 386"
proof -
  have m: "margin bezel_board EDGE_LEFT = 26" "margin bezel_board EDGE_RIGHT = 40"
    "margin bezel_board EDGE_TOP = 26" "margin bezel_board EDGE_BOTTOM = 40"
    by (simp_all add: margin_def edge_margin_def has_edge_def layout_consts layout_buttons_def MAX_LAYOUT_BUTTONS_def
        bezel_board_def demo_button_def)
  show ?thesis unfolding layout_fields(2) m by (simp add: bezel_board_def)
qed

theorem layout_on_window_witness:
  "length (wl_nubs (window_layout (Some bezel_board) 1)) = 3 \<and> r_w (wl_screen (window_layout (Some bezel_board) 1)) = 170"
  using layout_on_window [of bezel_board 1, OF _ refl] by (simp add: board_ok_def bezel_board_def)

text \<open>
  Property C26. The documented promise of the automatic layout, single-precision rounding
  included: where each edge has the length its automatic nubs need, no two of them share a
  point of their click targets, and none shares one with the panel opener in the corner, whose
  hit test comes first; nor does any nub of another edge than the bottom.
\<close>

theorem layout_targets_disjoint:
  assumes "board_ok bd scale" and "\<forall>e. edge_room bd scale e" and "l = window_layout (Some bd) scale"
    and "k < length (wl_nubs l)" and "b_pos (bd_buttons bd ! k) < 0"
    and "win_rect_contains (nb_hit (wl_nubs l ! k)) x y"
  shows "\<not> win_rect_contains (wl_more_nub l) x y \<and>
    (\<forall>j < length (wl_nubs l). j \<noteq> k \<and> b_pos (bd_buttons bd ! j) < 0 \<longrightarrow>
       \<not> win_rect_contains (nb_hit (wl_nubs l ! j)) x y)"
proof -
  have len: "length (wl_nubs l) = length (layout_buttons bd)" by (simp add: assms(3) layout_fields(4) [of bd scale])
  have b: "layout_buttons bd ! i = bd_buttons bd ! i" if "i < length (wl_nubs l)" for i
    using that by (simp add: len layout_buttons_def)
  have k: "k < length (layout_buttons bd)" using assms(4) len by simp
  have apart: "start_of bd scale i + 48 \<le> start_of bd scale j"
    if "i < j" "j < length (wl_nubs l)" "b_edge (layout_buttons bd ! i) = b_edge (layout_buttons bd ! j)"
      "b_pos (bd_buttons bd ! i) < 0" "b_pos (bd_buttons bd ! j) < 0" for i j
    using auto_starts_apart [OF assms(1), of i j] that len b assms(2) by simp
  have "\<not> win_rect_contains (nb_hit (wl_nubs l ! j)) x y"
    if j: "j < length (wl_nubs l)" "j \<noteq> k" "b_pos (bd_buttons bd ! j) < 0" for j
  proof
    assume hj: "win_rect_contains (nb_hit (wl_nubs l ! j)) x y"
    have j': "j < length (layout_buttons bd)" using j len by simp
    have e: "b_edge (layout_buttons bd ! k) = b_edge (layout_buttons bd ! j)"
      by (rule hit_edges_apart [OF assms(1) k j']) (use hj assms(3,6) in simp_all)
    have "start_of bd scale k + 48 \<le> start_of bd scale j \<or> start_of bd scale j + 48 \<le> start_of bd scale k"
      using apart [of k j] apart [of j k] e assms(4,5) j by (cases "k < j") simp_all
    with hj assms(6) show False
      unfolding assms(3) hit_box [OF k e] hit_box [OF j' refl] Let_def by (auto split: if_splits)
  qed
  moreover have "\<not> win_rect_contains (wl_more_nub l) x y"
    using hit_opener_apart [OF assms(1) k] assms(2,3,4,5,6) b by simp
  ultimately show ?thesis by simp
qed

theorem layout_targets_disjoint_witness:
  "\<not> win_rect_contains (nb_hit (wl_nubs (window_layout (Some bezel_board) 1) ! 2)) (start_of bezel_board 1 0) 370"
proof -
  let ?l = "window_layout (Some bezel_board) 1"
  have ok: "board_ok bezel_board 1" by (simp add: board_ok_def bezel_board_def)
  have room: "\<forall>e. edge_room bezel_board 1 e"
  proof
    fix e show "edge_room bezel_board 1 e"
      by (cases e) (simp_all add: edge_room_def Let_def auto_total_def layout_buttons_def MAX_LAYOUT_BUTTONS_def
          bezel_board_def demo_button_def edge_len_def vertical_edge_def)
  qed
  have "length (wl_nubs ?l) = 3"
    unfolding layout_fields(4) length_place_nubs by (simp add: layout_buttons_def MAX_LAYOUT_BUTTONS_def bezel_board_def)
  moreover have "b_pos (bd_buttons bezel_board ! 0) < 0" "b_pos (bd_buttons bezel_board ! 2) < 0"
    by (simp_all add: bezel_board_def demo_button_def)
  moreover have "win_rect_contains (nb_hit (wl_nubs ?l ! 0)) (start_of bezel_board 1 0) 370"
    using hit_box [of 0 bezel_board EDGE_BOTTOM 1 "start_of bezel_board 1 0" 370]
    by (simp add: bezel_buttons bezel_window vertical_edge_def)
  ultimately show ?thesis
    using layout_targets_disjoint [OF ok room refl, of 0 "start_of bezel_board 1 0" 370] by auto
qed

text \<open>
  The hardware panel and the help card never leave the window, however small it is:
  every control lies in the panel's card and the card in the window, no two controls share a
  point, the percentage text is whole or absent, and the help card is in the window for any
  text, also for a layout without a board.
\<close>

theorem panel_controls_nested:
  assumes "0 \<le> r_w (wl_window l)" and "0 \<le> r_h (wl_window l)" and "p = layout_panel l battery rotation"
    and "cs = [pl_bat_bar p, pl_bat_pct p, pl_chg_btn p, pl_usb_btn p, pl_rot_btn p]"
  shows "(\<forall>c \<in> set cs. \<forall>x y. win_rect_contains c x y \<longrightarrow>
       win_rect_contains (layout_panel_card l) x y \<and> win_rect_contains (wl_window l) x y) \<and>
    (\<forall>i < 5. \<forall>j < 5. \<forall>x y. i \<noteq> j \<longrightarrow> win_rect_contains (cs ! i) x y \<longrightarrow> \<not> win_rect_contains (cs ! j) x y) \<and>
    (pl_bat_pct p = zero_rect \<or> r_w (pl_bat_pct p) = PANEL_PCT_W) \<and>
    (\<forall>w h x y. win_rect_contains (layout_help_card l w h) x y \<longrightarrow> win_rect_contains (wl_window l) x y)"
proof (intro conjI)
  let ?cd = "layout_panel_card l"
  note box = panel_boxes [OF assms(3) refl refl]
  have "in_card ?cd (r_x ?cd + 12) (u + 1) u v" if "c \<in> set cs" "win_rect_contains c u v" for c u v
    using that box(1-5) [of u v] unfolding assms(4) by (auto simp: in_card_def split: if_splits)
  then have inside: "win_rect_contains ?cd u v" if "c \<in> set cs" "win_rect_contains c u v" for c u v
    using that by (force simp: in_card_def win_rect_contains_def)
  then show "\<forall>c \<in> set cs. \<forall>x y. win_rect_contains c x y \<longrightarrow>
       win_rect_contains ?cd x y \<and> win_rect_contains (wl_window l) x y"
    using panel_card_inside [OF assms(1,2)] by blast
  have "win_rect_contains (cs ! i) u v \<Longrightarrow> win_rect_contains (cs ! j) u v \<Longrightarrow> i < j \<Longrightarrow> j < 5 \<Longrightarrow> False" for i j u v
    using box(1-5) [of u v] unfolding assms(4)
    by (auto simp: in_card_def less_Suc_eq eval_nat_numeral split: if_splits)
  then show "\<forall>i < 5. \<forall>j < 5. \<forall>x y. i \<noteq> j \<longrightarrow> win_rect_contains (cs ! i) x y \<longrightarrow> \<not> win_rect_contains (cs ! j) x y"
    by (metis linorder_neqE_nat)
  show "pl_bat_pct p = zero_rect \<or> r_w (pl_bat_pct p) = PANEL_PCT_W"
    using box(6) by (simp add: PANEL_PCT_W_def)
  show "\<forall>w h x y. win_rect_contains (layout_help_card l w h) x y \<longrightarrow> win_rect_contains (wl_window l) x y"
    using help_card_inside by blast
qed

theorem panel_controls_nested_witness:
  "\<not> win_rect_contains (pl_rot_btn (layout_panel (window_layout (Some bezel_board) 1) True True)) 25 350"
proof -
  let ?l = "window_layout (Some bezel_board) 1"
  let ?p = "layout_panel ?l True True"
  have win: "wl_window ?l = rect 0 0 236 386" by (rule bezel_window)
  have "layout_panel_card ?l = rect 12 316 212 58"
    by (simp add: layout_panel_card_def win layout_consts Let_def)
  then have "win_rect_contains (pl_bat_bar ?p) 25 350"
    by (simp add: layout_panel_def panel_battery_def place_control_def Let_def layout_consts cdiv_nonneg
        win_rect_contains_def)
  moreover have "0 \<le> r_w (wl_window ?l)" "0 \<le> r_h (wl_window ?l)" by (simp_all add: win)
  note * = panel_controls_nested [OF this refl refl, of True True]
  have "\<forall>x y. win_rect_contains (pl_bat_bar ?p) x y \<longrightarrow> \<not> win_rect_contains (pl_rot_btn ?p) x y"
    using * [THEN conjunct2, THEN conjunct1, rule_format, of 0 4] by simp
  ultimately show ?thesis by blast
qed

end
