(* ===== verification/SimWindow.thy ===== *)
theory SimWindow
  imports WindowLayout Input Shims
begin

text \<open>
  The live device window (\<^verbatim>\<open>peripherals/display/sim_window.cpp\<close>): the event handling that turns
  mouse and keyboard into device input, the overlays, the power-button timing, and the text and
  geometry the drawing computes; the drawing itself is in \<open>WindowDraw\<close>. SDL gives the events, each
  with the time of its \<^verbatim>\<open>SDL_GetTicks\<close>.
\<close>

section \<open>State\<close>

definition MAX_BTN :: nat where
  "MAX_BTN = MAX_LAYOUT_BUTTONS"

record SimWindow =
  sw_board :: BoardDesc
  sw_layout :: WindowLayout
  sw_scale :: int
  sw_touching :: bool
  sw_mouse_held :: "nat option" \<comment> \<open>\<^const>\<open>None\<close> for -1\<close>
  sw_key_held :: "bool list"
  sw_pwr_flash :: int
  sw_pwr_down_at :: "32 word"
  sw_pwr_long_sent :: bool
  sw_has_battery :: bool
  sw_has_rotation :: bool
  sw_bat_dragging :: bool
  sw_help_open :: bool
  sw_panel_open :: bool
  sw_mouse_x :: int
  sw_mouse_y :: int

text \<open>The window with the two globals it writes.\<close>

record desk =
  dk_win :: SimWindow
  dk_in :: SimInput
  dk_gpio :: gpio

datatype win_event =
    Quit
  | MouseDown bool int int \<comment> \<open>whether it is the left button\<close>
  | MouseUp bool
  | MouseMotion int int
  | KeyDown int bool \<comment> \<open>the keycode and the repeat flag\<close>
  | KeyUp int
  | OtherEvent

text \<open>\<open>sdl\<close>: whether each of \<^verbatim>\<open>SDL_Init\<close> and the three creations succeeds.\<close>

definition sim_window_open :: "bool \<Rightarrow> BoardDesc option \<Rightarrow> int \<Rightarrow> SimWindow option" where
  "sim_window_open sdl board scale = (case board of None \<Rightarrow> None
   | Some bd \<Rightarrow>
      (let scale = (if scale < 1 then 1 else scale)
       in if \<not> sdl then None
          else Some \<lparr>sw_board = bd, sw_layout = window_layout (Some bd) scale, sw_scale = scale,
            sw_touching = False, sw_mouse_held = None, sw_key_held = replicate MAX_BTN False,
            sw_pwr_flash = 0, sw_pwr_down_at = 0, sw_pwr_long_sent = False,
            sw_has_battery = bd_has_battery bd, sw_has_rotation = bd_has_rotation bd,
            sw_bat_dragging = False, sw_help_open = False, sw_panel_open = False,
            sw_mouse_x = -1, sw_mouse_y = -1\<rparr>))"

definition nub_count :: "SimWindow \<Rightarrow> nat" where
  "nub_count w = length (wl_nubs (sw_layout w))"

definition sw_button :: "SimWindow \<Rightarrow> nat \<Rightarrow> SimButton" where
  "sw_button w i = bd_buttons (sw_board w) ! i"

abbreviation on_win :: "(SimWindow \<Rightarrow> SimWindow) \<Rightarrow> desk \<Rightarrow> desk" where
  "on_win f d \<equiv> d\<lparr>dk_win := f (dk_win d)\<rparr>"

abbreviation on_in :: "(SimInput \<Rightarrow> SimInput) \<Rightarrow> desk \<Rightarrow> desk" where
  "on_in f d \<equiv> d\<lparr>dk_in := f (dk_in d)\<rparr>"

section \<open>Actions\<close>

definition set_touch :: "int \<Rightarrow> int \<Rightarrow> desk \<Rightarrow> desk" where
  "set_touch mx my d =
     (let w = dk_win d; s = wl_screen (sw_layout w);
          fx = (if 0 < sw_scale w then cdiv (mx - r_x s) (sw_scale w) else 0);
          fy = (if 0 < sw_scale w then cdiv (my - r_y s) (sw_scale w) else 0);
          fx = (if fx < 0 then 0 else if bd_width (sw_board w) \<le> fx then bd_width (sw_board w) - 1 else fx);
          fy = (if fy < 0 then 0 else if bd_height (sw_board w) \<le> fy then bd_height (sw_board w) - 1 else fy)
      in on_in (\<lambda>i. i\<lparr>touch_x := fx, touch_y := fy\<rparr>) d)"

definition set_battery_from_x :: "int \<Rightarrow> desk \<Rightarrow> desk" where
  "set_battery_from_x mx d =
     (let w = dk_win d; p = layout_panel (sw_layout w) (sw_has_battery w) (sw_has_rotation w);
          span = r_w (pl_bat_bar p) - 4;
          pct = (if 0 < span then cdiv ((mx - (r_x (pl_bat_bar p) + 2)) * 100) span else 0);
          pct = (if pct < 0 then 0 else if 100 < pct then 100 else pct)
      in on_in (\<lambda>i. i\<lparr>battery_pct := pct\<rparr>) d)"

definition PWR_LONG_MS :: "32 word" where
  "PWR_LONG_MS = 1500"

definition holds :: "SimWindow \<Rightarrow> nat \<Rightarrow> bool" where
  "holds w i \<longleftrightarrow> sw_mouse_held w = Some i \<or> sw_key_held w ! i"

definition pwr_is_held :: "SimWindow \<Rightarrow> bool" where
  "pwr_is_held w = list_ex (\<lambda>i. b_action (sw_button w i) = ACT_PWR \<and> holds w i) [0..<nub_count w]"

definition set_line :: "SimButton \<Rightarrow> bool \<Rightarrow> desk \<Rightarrow> desk" where
  "set_line b p d = (case b_action b of
     ACT_PRIMARY \<Rightarrow> on_in (\<lambda>i. i\<lparr>button := (button i)[0 := p]\<rparr>) d
   | ACT_SECONDARY \<Rightarrow> on_in (\<lambda>i. i\<lparr>button := (button i)[1 := p]\<rparr>) d
   | ACT_GPIO \<Rightarrow> d\<lparr>dk_gpio := sim_gpio_set (b_gpio b) (sim_button_gpio_level b p) (dk_gpio d)\<rparr>
   | ACT_PWR \<Rightarrow> d)"

definition press_action :: "32 word \<Rightarrow> SimButton \<Rightarrow> desk \<Rightarrow> desk" where
  "press_action now b d =
     (if b_action b = ACT_PWR
      then on_win (\<lambda>w. w\<lparr>sw_pwr_flash := 10, sw_pwr_down_at := now, sw_pwr_long_sent := False\<rparr>) d
      else set_line b True d)"

definition release_action :: "SimButton \<Rightarrow> desk \<Rightarrow> desk" where
  "release_action b d =
     (if b_action b = ACT_PWR
      then on_in (\<lambda>i. i\<lparr>pwr_events := pwr_events i @ [if sw_pwr_long_sent (dk_win d) then 3 else 1]\<rparr>) d
      else set_line b False d)"

definition is_active :: "desk \<Rightarrow> SimButton \<Rightarrow> bool" where
  "is_active d b = (case b_action b of
     ACT_PRIMARY \<Rightarrow> button (dk_in d) ! 0
   | ACT_SECONDARY \<Rightarrow> button (dk_in d) ! 1
   | ACT_GPIO \<Rightarrow> sim_gpio_get (b_gpio b) (dk_gpio d) = sim_button_gpio_level b True
   | ACT_PWR \<Rightarrow> 0 < sw_pwr_flash (dk_win d) \<or> pwr_is_held (dk_win d))"

text \<open>The two ways a hold ends: the key's and the mouse's, each unless the other still holds.\<close>

definition release_key :: "nat \<Rightarrow> desk \<Rightarrow> desk" where
  "release_key i d =
     (if sw_key_held (dk_win d) ! i
      then (let d = on_win (\<lambda>w. w\<lparr>sw_key_held := (sw_key_held w)[i := False]\<rparr>) d
            in if sw_mouse_held (dk_win d) \<noteq> Some i then release_action (sw_button (dk_win d) i) d else d)
      else d)"

definition release_mouse :: "desk \<Rightarrow> desk" where
  "release_mouse d = (case sw_mouse_held (dk_win d) of None \<Rightarrow> d
   | Some i \<Rightarrow>
      (let d = on_win (\<lambda>w. w\<lparr>sw_mouse_held := None\<rparr>) d
       in if \<not> sw_key_held (dk_win d) ! i then release_action (sw_button (dk_win d) i) d else d))"

definition end_touch :: "desk \<Rightarrow> desk" where
  "end_touch d =
     (if sw_touching (dk_win d)
      then on_in (\<lambda>i. i\<lparr>touch_pressed := False\<rparr>) (on_win (\<lambda>w. w\<lparr>sw_touching := False\<rparr>) d) else d)"

definition end_drag :: "desk \<Rightarrow> desk" where
  "end_drag d = on_win (\<lambda>w. w\<lparr>sw_bat_dragging := False\<rparr>) d"

definition release_all_holds :: "desk \<Rightarrow> desk" where
  "release_all_holds d =
     end_drag (end_touch (release_mouse (fold release_key [0..<nub_count (dk_win d)] d)))"

definition close_help :: "desk \<Rightarrow> desk" where
  "close_help d = on_win (\<lambda>w. w\<lparr>sw_help_open := False\<rparr>) d"

definition close_panel :: "desk \<Rightarrow> desk" where
  "close_panel d = end_drag (on_win (\<lambda>w. w\<lparr>sw_panel_open := False\<rparr>) d)"

definition open_help :: "desk \<Rightarrow> desk" where
  "open_help d = release_all_holds (close_panel (on_win (\<lambda>w. w\<lparr>sw_help_open := True\<rparr>) d))"

definition open_panel :: "desk \<Rightarrow> desk" where
  "open_panel d = release_all_holds (close_help (on_win (\<lambda>w. w\<lparr>sw_panel_open := True\<rparr>) d))"

section \<open>Events\<close>

definition has_panel :: "SimWindow \<Rightarrow> bool" where
  "has_panel w \<longleftrightarrow> sw_has_battery w \<or> sw_has_rotation w"

definition hover_nub :: "SimWindow \<Rightarrow> int \<Rightarrow> int \<Rightarrow> nat option" where
  "hover_nub w x y = List.find (\<lambda>i. win_rect_contains (nb_hit (wl_nubs (sw_layout w) ! i)) x y) [0..<nub_count w]"

definition toggle_panel :: "desk \<Rightarrow> desk" where
  "toggle_panel d = (if sw_panel_open (dk_win d) then close_panel d else open_panel d)"

definition panel_click :: "int \<Rightarrow> int \<Rightarrow> desk \<Rightarrow> desk" where
  "panel_click mx my d =
     (let w = dk_win d; p = layout_panel (sw_layout w) (sw_has_battery w) (sw_has_rotation w)
      in if sw_has_battery w \<and> win_rect_contains (pl_bat_bar p) mx my
         then set_battery_from_x mx (on_win (\<lambda>w. w\<lparr>sw_bat_dragging := True\<rparr>) d)
         else if sw_has_battery w \<and> win_rect_contains (pl_chg_btn p) mx my
         then on_in (\<lambda>i. i\<lparr>charging := \<not> charging i\<rparr>) d
         else if sw_has_battery w \<and> win_rect_contains (pl_usb_btn p) mx my
         then on_in (\<lambda>i. i\<lparr>vbus := \<not> vbus i\<rparr>) d
         else if sw_has_rotation w \<and> win_rect_contains (pl_rot_btn p) mx my
         then on_in (\<lambda>i. i\<lparr>quadrant := (quadrant i + 1) smod 4\<rparr>) d
         else d)"

definition mouse_down :: "32 word \<Rightarrow> int \<Rightarrow> int \<Rightarrow> desk \<Rightarrow> desk" where
  "mouse_down now mx my d =
     (let w = dk_win d
      in if has_panel w \<and> win_rect_contains (wl_more_nub (sw_layout w)) mx my then toggle_panel d
         else if sw_help_open w then close_help d
         else if sw_panel_open w
         then (if win_rect_contains (layout_panel_card (sw_layout w)) mx my then panel_click mx my d else close_panel d)
         else if win_rect_contains (wl_screen (sw_layout w)) mx my
         then set_touch mx my (on_in (\<lambda>i. i\<lparr>touch_pressed := True\<rparr>) (on_win (\<lambda>w. w\<lparr>sw_touching := True\<rparr>) d))
         else (case hover_nub w mx my of None \<Rightarrow> d
           | Some i \<Rightarrow> on_win (\<lambda>w. w\<lparr>sw_mouse_held := Some i\<rparr>) (press_action now (sw_button w i) d)))"

definition mouse_up :: "desk \<Rightarrow> desk" where
  "mouse_up d = release_mouse (end_drag (end_touch d))"

definition mouse_motion :: "int \<Rightarrow> int \<Rightarrow> desk \<Rightarrow> desk" where
  "mouse_motion x y d =
     (let d = on_win (\<lambda>w. w\<lparr>sw_mouse_x := x, sw_mouse_y := y\<rparr>) d
      in if sw_touching (dk_win d) then set_touch x y d
         else if sw_bat_dragging (dk_win d) then set_battery_from_x x d else d)"

definition SDLK_ESCAPE :: int where "SDLK_ESCAPE = 27"
definition SDLK_BACKQUOTE :: int where "SDLK_BACKQUOTE = 96"
definition SDLK_SLASH :: int where "SDLK_SLASH = 47"
definition SDLK_h :: int where "SDLK_h = 104"

definition key_matches :: "SimButton \<Rightarrow> int \<Rightarrow> bool" where
  "key_matches b ks \<longleftrightarrow> b_key b \<noteq> CHR 0x00 \<and> ks = of_char (b_key b)"

definition press_key :: "32 word \<Rightarrow> int \<Rightarrow> nat \<Rightarrow> desk \<Rightarrow> desk" where
  "press_key now ks i d =
     (if key_matches (sw_button (dk_win d) i) ks
      then press_action now (sw_button (dk_win d) i) (on_win (\<lambda>w. w\<lparr>sw_key_held := (sw_key_held w)[i := True]\<rparr>) d)
      else d)"

definition key_down :: "32 word \<Rightarrow> int \<Rightarrow> bool \<Rightarrow> desk \<Rightarrow> bool \<times> desk" where
  "key_down now ks repeat d =
     (let w = dk_win d
      in if ks = SDLK_ESCAPE
         then (if sw_help_open w then (True, close_help d) else if sw_panel_open w then (True, close_panel d) else (False, d))
         else if \<not> repeat \<and> ks = SDLK_BACKQUOTE then (True, if has_panel w then toggle_panel d else d)
         else if \<not> repeat \<and> (ks = SDLK_SLASH \<or> ks = SDLK_h)
         then (True, if sw_help_open w then close_help d else open_help d)
         else if \<not> repeat \<and> \<not> sw_help_open w \<and> \<not> sw_panel_open w
         then (True, fold (press_key now ks) [0..<nub_count w] d)
         else (True, d))"

definition key_up :: "int \<Rightarrow> desk \<Rightarrow> desk" where
  "key_up ks d =
     fold (\<lambda>i d. if key_matches (sw_button (dk_win d) i) ks then release_key i d else d) [0..<nub_count (dk_win d)] d"

definition handle_event :: "32 word \<Rightarrow> win_event \<Rightarrow> desk \<Rightarrow> bool \<times> desk" where
  "handle_event now e d = (case e of
     Quit \<Rightarrow> (False, d)
   | MouseDown left x y \<Rightarrow> (True, if left then mouse_down now x y d else d)
   | MouseUp left \<Rightarrow> (True, if left then mouse_up d else d)
   | MouseMotion x y \<Rightarrow> (True, mouse_motion x y d)
   | KeyDown ks repeat \<Rightarrow> key_down now ks repeat d
   | KeyUp ks \<Rightarrow> (True, key_up ks d)
   | OtherEvent \<Rightarrow> (True, d))"

fun poll_events :: "(32 word \<times> win_event) list \<Rightarrow> desk \<Rightarrow> bool \<times> desk" where
  "poll_events [] d = (True, d)"
| "poll_events ((now, e) # es) d = (case handle_event now e d of
     (go, d) \<Rightarrow> if go then poll_events es d else (False, d))"

text \<open>After the events: the flash and the long-press edge; drawing follows.\<close>

definition pwr_tick :: "32 word \<Rightarrow> desk \<Rightarrow> desk" where
  "pwr_tick now d =
     (let d = on_win (\<lambda>w. if 0 < sw_pwr_flash w then w\<lparr>sw_pwr_flash := sw_pwr_flash w - 1\<rparr> else w) d; w = dk_win d
      in if pwr_is_held w \<and> \<not> sw_pwr_long_sent w \<and> PWR_LONG_MS \<le> now - sw_pwr_down_at w
         then on_win (\<lambda>w. w\<lparr>sw_pwr_long_sent := True\<rparr>) (on_in (\<lambda>i. i\<lparr>pwr_events := pwr_events i @ [2]\<rparr>) d)
         else d)"

definition sim_window_tick :: "(32 word \<times> win_event) list \<Rightarrow> 32 word \<Rightarrow> desk \<Rightarrow> bool \<times> desk" where
  "sim_window_tick es now d = (case poll_events es d of
     (go, d) \<Rightarrow> if go then (True, pwr_tick now d) else (False, d))"

section \<open>What the drawing computes\<close>

definition text_w :: "string \<Rightarrow> int \<Rightarrow> int" where
  "text_w s px = int (length s) * 6 * px"

definition key_name :: "char \<Rightarrow> string" where
  "key_name k = (if k = CHR 0x00 then [] else if k = CHR '' '' then ''SPACE''
     else if k = CHR 0x09 then ''TAB'' else [upper_char k])"

definition button_text :: "SimButton \<Rightarrow> string" where
  "button_text b = b_label b @ '' ('' @ key_name (b_key b) @ '')''"

definition help_lines :: "SimWindow \<Rightarrow> string list" where
  "help_lines w =
     (let bs = map (sw_button w) [0..<nub_count w]
      in map button_text bs
         @ (if list_ex (\<lambda>b. b_action b = ACT_PWR) bs then [''PWR: HOLD 1.5S FOR LONG PRESS''] else [])
         @ (if has_panel w then [[CHR 0x60] @ '' HARDWARE CONTROLS''] else []) @ [''? HELP'', ''ESC QUIT''])"

definition help_card :: "SimWindow \<Rightarrow> WinRect" where
  "help_card w =
     (let ls = help_lines w
      in layout_help_card (sw_layout w) (fold (\<lambda>l m. max m (text_w l 2)) ls 0) (int (length ls) * (7 * 2 + 6)))"

text \<open>\<^verbatim>\<open>lround\<close>, and rectangles in pixels; \<open>dpr\<close> is the pixel ratio, a float.\<close>

definition c_lround :: "rat \<Rightarrow> int" where
  "c_lround q = (if 0 \<le> q then \<lfloor>q + 1 / 2\<rfloor> else - \<lfloor>1 / 2 - q\<rfloor>)"

definition to_px :: "WinRect \<Rightarrow> rat \<Rightarrow> WinRect" where
  "to_px r dpr =
     (let x0 = c_lround (f_mul (f_int (r_x r)) dpr); y0 = c_lround (f_mul (f_int (r_y r)) dpr);
          x1 = c_lround (f_mul (f_int (r_x r + r_w r)) dpr); y1 = c_lround (f_mul (f_int (r_y r + r_h r)) dpr)
      in rect x0 y0 (x1 - x0) (y1 - y0))"

definition scale_len :: "int \<Rightarrow> rat \<Rightarrow> int" where
  "scale_len v dpr = max 1 (c_lround (f_mul (f_int v) dpr))"

text \<open>The tooltip of a nub, next to its body and pushed into the window.\<close>

definition tooltip :: "WinRect \<Rightarrow> WinRect \<Rightarrow> SimEdge \<Rightarrow> int \<Rightarrow> int \<Rightarrow> int \<Rightarrow> WinRect" where
  "tooltip win body e gap tw th =
     (let (tx, ty) = (case e of
           EDGE_RIGHT \<Rightarrow> (r_x body - tw - gap, r_y body + cdiv (r_h body) 2 - cdiv th 2)
         | EDGE_LEFT \<Rightarrow> (r_x body + r_w body + gap, r_y body + cdiv (r_h body) 2 - cdiv th 2)
         | EDGE_TOP \<Rightarrow> (r_x body + cdiv (r_w body) 2 - cdiv tw 2, r_y body + r_h body + gap)
         | EDGE_BOTTOM \<Rightarrow> (r_x body + cdiv (r_w body) 2 - cdiv tw 2, r_y body - th - gap));
          tx = (if tx < r_x win then r_x win else tx);
          tx = (if r_x win + r_w win < tx + tw then r_x win + r_w win - tw else tx);
          ty = (if ty < r_y win then r_y win else ty);
          ty = (if r_y win + r_h win < ty + th then r_y win + r_h win - th else ty)
      in rect tx ty tw th)"

section \<open>What an operation does to the window\<close>

lemma static_frame [simp]:
  "nub_count (w\<lparr>sw_touching := a\<rparr>) = nub_count w" "nub_count (w\<lparr>sw_mouse_held := m\<rparr>) = nub_count w"
  "nub_count (w\<lparr>sw_key_held := k\<rparr>) = nub_count w" "nub_count (w\<lparr>sw_bat_dragging := a\<rparr>) = nub_count w"
  "nub_count (w\<lparr>sw_help_open := a\<rparr>) = nub_count w" "nub_count (w\<lparr>sw_panel_open := a\<rparr>) = nub_count w"
  "nub_count (w\<lparr>sw_pwr_flash := f\<rparr>) = nub_count w" "nub_count (w\<lparr>sw_pwr_down_at := t\<rparr>) = nub_count w"
  "nub_count (w\<lparr>sw_pwr_long_sent := a\<rparr>) = nub_count w" "nub_count (w\<lparr>sw_mouse_x := x\<rparr>) = nub_count w"
  "nub_count (w\<lparr>sw_mouse_y := x\<rparr>) = nub_count w"
  "sw_button (w\<lparr>sw_touching := a\<rparr>) = sw_button w" "sw_button (w\<lparr>sw_mouse_held := m\<rparr>) = sw_button w"
  "sw_button (w\<lparr>sw_key_held := k\<rparr>) = sw_button w" "sw_button (w\<lparr>sw_bat_dragging := a\<rparr>) = sw_button w"
  "sw_button (w\<lparr>sw_help_open := a\<rparr>) = sw_button w" "sw_button (w\<lparr>sw_panel_open := a\<rparr>) = sw_button w"
  "sw_button (w\<lparr>sw_pwr_flash := f\<rparr>) = sw_button w" "sw_button (w\<lparr>sw_pwr_down_at := t\<rparr>) = sw_button w"
  "sw_button (w\<lparr>sw_pwr_long_sent := a\<rparr>) = sw_button w" "sw_button (w\<lparr>sw_mouse_x := x\<rparr>) = sw_button w"
  "sw_button (w\<lparr>sw_mouse_y := x\<rparr>) = sw_button w"
  by (simp_all add: nub_count_def sw_button_def fun_eq_iff)

lemma set_line_frame [simp]:
  "dk_win (set_line b p d) = dk_win d" "touch_pressed (dk_in (set_line b p d)) = touch_pressed (dk_in d)"
  "touch_x (dk_in (set_line b p d)) = touch_x (dk_in d)" "touch_y (dk_in (set_line b p d)) = touch_y (dk_in d)"
  by (simp_all add: set_line_def split: SimInputAction.splits)

lemma release_action_frame [simp]:
  "dk_win (release_action b d) = dk_win d" "touch_pressed (dk_in (release_action b d)) = touch_pressed (dk_in d)"
  "touch_x (dk_in (release_action b d)) = touch_x (dk_in d)" "touch_y (dk_in (release_action b d)) = touch_y (dk_in d)"
  by (simp_all add: release_action_def)

lemma release_key_win [simp]:
  "dk_win (release_key i d) = (dk_win d)\<lparr>sw_key_held := (sw_key_held (dk_win d))[i := False]\<rparr>"
  "touch_pressed (dk_in (release_key i d)) = touch_pressed (dk_in d)"
proof -
  have "\<not> sw_key_held (dk_win d) ! i \<Longrightarrow> (sw_key_held (dk_win d))[i := False] = sw_key_held (dk_win d)"
    using list_update_id [of "sw_key_held (dk_win d)" i] by simp
  then show "dk_win (release_key i d) = (dk_win d)\<lparr>sw_key_held := (sw_key_held (dk_win d))[i := False]\<rparr>"
    by (simp add: release_key_def Let_def)
qed (simp add: release_key_def Let_def)

lemma release_mouse_win [simp]:
  "dk_win (release_mouse d) = (dk_win d)\<lparr>sw_mouse_held := None\<rparr>"
  "touch_pressed (dk_in (release_mouse d)) = touch_pressed (dk_in d)"
  by (simp_all add: release_mouse_def Let_def split: option.splits)

lemma end_touch_win [simp]:
  "dk_win (end_touch d) = (dk_win d)\<lparr>sw_touching := False\<rparr>"
  "touch_pressed (dk_in (end_touch d)) = (touch_pressed (dk_in d) \<and> \<not> sw_touching (dk_win d))"
  by (auto simp: end_touch_def)

lemma end_drag_win [simp]:
  "dk_win (end_drag d) = (dk_win d)\<lparr>sw_bat_dragging := False\<rparr>" "dk_in (end_drag d) = dk_in d" "dk_gpio (end_drag d) = dk_gpio d"
  by (simp_all add: end_drag_def)

lemma upd_nth: "j < length l \<Longrightarrow> l[i := x] ! j = (if j = i then x else l ! j)"
  by (cases "i < length l") (auto simp: nth_list_update)

definition clear_keys :: "nat list \<Rightarrow> bool list \<Rightarrow> bool list" where
  "clear_keys is ks = fold (\<lambda>i ks. ks[i := False]) is ks"

lemma clear_keys_nth [simp]:
  "length (clear_keys is ks) = length ks"
  "j < length ks \<Longrightarrow> clear_keys is ks ! j \<longleftrightarrow> ks ! j \<and> j \<notin> set is"
  by (induction "is" arbitrary: ks) (auto simp: clear_keys_def upd_nth)

lemma fold_release_key [simp]:
  "dk_win (fold release_key is d) = (dk_win d)\<lparr>sw_key_held := clear_keys is (sw_key_held (dk_win d))\<rparr>"
  "touch_pressed (dk_in (fold release_key is d)) = touch_pressed (dk_in d)"
  by (induction "is" arbitrary: d) (simp_all add: clear_keys_def)

lemma release_all_holds_win [simp]:
  "dk_win (release_all_holds d) = (dk_win d)\<lparr>sw_touching := False, sw_mouse_held := None,
     sw_key_held := clear_keys [0..<nub_count (dk_win d)] (sw_key_held (dk_win d)), sw_bat_dragging := False\<rparr>"
  "touch_pressed (dk_in (release_all_holds d)) = (touch_pressed (dk_in d) \<and> \<not> sw_touching (dk_win d))"
  by (simp_all add: release_all_holds_def)

lemma overlay_win [simp]:
  "dk_win (close_help d) = (dk_win d)\<lparr>sw_help_open := False\<rparr>" "dk_in (close_help d) = dk_in d" "dk_gpio (close_help d) = dk_gpio d"
  "dk_win (close_panel d) = (dk_win d)\<lparr>sw_bat_dragging := False, sw_panel_open := False\<rparr>" "dk_in (close_panel d) = dk_in d"
  "dk_gpio (close_panel d) = dk_gpio d"
  by (simp_all add: close_help_def close_panel_def)

definition press_key_held :: "SimWindow \<Rightarrow> int \<Rightarrow> nat list \<Rightarrow> bool list \<Rightarrow> bool list" where
  "press_key_held w ks is l = fold (\<lambda>i l. if key_matches (sw_button w i) ks then l[i := True] else l) is l"

lemma press_key_held_nth [simp]:
  "length (press_key_held w ks is l) = length l"
  "j < length l \<Longrightarrow> press_key_held w ks is l ! j \<longleftrightarrow> l ! j \<or> j \<in> set is \<and> key_matches (sw_button w j) ks"
  by (induction "is" arbitrary: l) (auto simp: press_key_held_def upd_nth)

lemma press_action_frame:
  "\<exists>f t s. dk_win (press_action now b d) = (dk_win d)\<lparr>sw_pwr_flash := f, sw_pwr_down_at := t, sw_pwr_long_sent := s\<rparr>"
  "touch_pressed (dk_in (press_action now b d)) = touch_pressed (dk_in d)"
proof -
  have "dk_win (press_action now b d) = (dk_win d)
      \<lparr>sw_pwr_flash := if b_action b = ACT_PWR then 10 else sw_pwr_flash (dk_win d),
       sw_pwr_down_at := if b_action b = ACT_PWR then now else sw_pwr_down_at (dk_win d),
       sw_pwr_long_sent := if b_action b = ACT_PWR then False else sw_pwr_long_sent (dk_win d)\<rparr>"
    by (simp add: press_action_def)
  then show "\<exists>f t s. dk_win (press_action now b d) = (dk_win d)\<lparr>sw_pwr_flash := f, sw_pwr_down_at := t, sw_pwr_long_sent := s\<rparr>"
    by blast
qed (simp add: press_action_def)

lemma fold_press_key:
  "\<exists>f t s. dk_win (fold (press_key now ks) is d) = (dk_win d)\<lparr>sw_key_held := press_key_held (dk_win d) ks is (sw_key_held (dk_win d)),
     sw_pwr_flash := f, sw_pwr_down_at := t, sw_pwr_long_sent := s\<rparr> \<and>
   touch_pressed (dk_in (fold (press_key now ks) is d)) = touch_pressed (dk_in d)"
proof (induction "is" arbitrary: d)
  case Nil
  show ?case by (intro exI [of _ "sw_pwr_flash (dk_win d)"] exI [of _ "sw_pwr_down_at (dk_win d)"]
        exI [of _ "sw_pwr_long_sent (dk_win d)"]) (simp add: press_key_held_def)
next
  case (Cons i "is")
  show ?case
  proof (cases "key_matches (sw_button (dk_win d) i) ks")
    case True
    let ?d = "on_win (\<lambda>w. w\<lparr>sw_key_held := (sw_key_held w)[i := True]\<rparr>) d"
    obtain f t s where "dk_win (press_action now (sw_button (dk_win d) i) ?d) =
        (dk_win ?d)\<lparr>sw_pwr_flash := f, sw_pwr_down_at := t, sw_pwr_long_sent := s\<rparr>"
      "touch_pressed (dk_in (press_action now (sw_button (dk_win d) i) ?d)) = touch_pressed (dk_in ?d)"
      using press_action_frame [of now "sw_button (dk_win d) i" ?d] by blast
    with True Cons.IH [of "press_key now ks i d"] show ?thesis
      by (auto simp: press_key_def press_key_held_def)
  next
    case False
    with Cons.IH [of d] show ?thesis by (simp add: press_key_def press_key_held_def)
  qed
qed

section \<open>The specification: who holds what\<close>

text \<open>
  What the window is for, without its bookkeeping: one overlay at a time, a finger on the
  screen, the battery slider, the button the mouse holds and the set of those the keyboard
  holds. Opening an overlay lets go of everything.
\<close>

datatype overlay = NoOverlay | Help | Panel

record ctrl =
  c_overlay :: overlay
  c_touch :: bool
  c_drag :: bool
  c_mouse :: "nat option"
  c_keys :: "nat set"

definition opened :: "overlay \<Rightarrow> ctrl" where
  "opened v = \<lparr>c_overlay = v, c_touch = False, c_drag = False, c_mouse = None, c_keys = {}\<rparr>"

definition ctrl_close :: "ctrl \<Rightarrow> ctrl" where
  "ctrl_close c = c\<lparr>c_overlay := NoOverlay, c_drag := False\<rparr>"

definition ctrl_toggle :: "overlay \<Rightarrow> ctrl \<Rightarrow> ctrl" where
  "ctrl_toggle v c = (if c_overlay c = v then ctrl_close c else opened v)"

definition ctrl_click :: "SimWindow \<Rightarrow> int \<Rightarrow> int \<Rightarrow> ctrl \<Rightarrow> ctrl" where
  "ctrl_click w x y c =
     (if has_panel w \<and> win_rect_contains (wl_more_nub (sw_layout w)) x y then ctrl_toggle Panel c
      else (case c_overlay c of
          Help \<Rightarrow> ctrl_close c
        | Panel \<Rightarrow>
            if \<not> win_rect_contains (layout_panel_card (sw_layout w)) x y then ctrl_close c
            else if sw_has_battery w \<and>
                win_rect_contains (pl_bat_bar (layout_panel (sw_layout w) (sw_has_battery w) (sw_has_rotation w))) x y
            then c\<lparr>c_drag := True\<rparr> else c
        | NoOverlay \<Rightarrow>
            if win_rect_contains (wl_screen (sw_layout w)) x y then c\<lparr>c_touch := True\<rparr>
            else (case hover_nub w x y of None \<Rightarrow> c | Some i \<Rightarrow> c\<lparr>c_mouse := Some i\<rparr>)))"

definition keyed :: "SimWindow \<Rightarrow> int \<Rightarrow> nat set" where
  "keyed w ks = {i. i < nub_count w \<and> key_matches (sw_button w i) ks}"

definition ctrl_key :: "SimWindow \<Rightarrow> int \<Rightarrow> bool \<Rightarrow> ctrl \<Rightarrow> ctrl option" where
  "ctrl_key w ks repeat c =
     (if ks = SDLK_ESCAPE then (if c_overlay c = NoOverlay then None else Some (ctrl_close c))
      else if repeat then Some c
      else if ks = SDLK_BACKQUOTE then Some (if has_panel w then ctrl_toggle Panel c else c)
      else if ks = SDLK_SLASH \<or> ks = SDLK_h then Some (ctrl_toggle Help c)
      else if c_overlay c = NoOverlay then Some (c\<lparr>c_keys := c_keys c \<union> keyed w ks\<rparr>)
      else Some c)"

definition ctrl_step :: "SimWindow \<Rightarrow> win_event \<Rightarrow> ctrl \<Rightarrow> ctrl option" where
  "ctrl_step w e c = (case e of
     Quit \<Rightarrow> None
   | MouseDown left x y \<Rightarrow> Some (if left then ctrl_click w x y c else c)
   | MouseUp left \<Rightarrow> Some (if left then c\<lparr>c_touch := False, c_drag := False, c_mouse := None\<rparr> else c)
   | MouseMotion x y \<Rightarrow> Some c
   | KeyDown ks repeat \<Rightarrow> ctrl_key w ks repeat c
   | KeyUp ks \<Rightarrow> Some (c\<lparr>c_keys := c_keys c - keyed w ks\<rparr>)
   | OtherEvent \<Rightarrow> Some c)"

fun ctrl_run :: "SimWindow \<Rightarrow> win_event list \<Rightarrow> ctrl \<Rightarrow> ctrl option" where
  "ctrl_run w [] c = Some c"
| "ctrl_run w (e # es) c = (case ctrl_step w e c of None \<Rightarrow> None | Some c \<Rightarrow> ctrl_run w es c)"

text \<open>The abstraction, and what makes it total.\<close>

definition abs_win :: "SimWindow \<Rightarrow> ctrl" where
  "abs_win w = \<lparr>c_overlay = (if sw_help_open w then Help else if sw_panel_open w then Panel else NoOverlay),
     c_touch = sw_touching w, c_drag = sw_bat_dragging w, c_mouse = sw_mouse_held w,
     c_keys = {i. i < nub_count w \<and> sw_key_held w ! i}\<rparr>"

definition win_inv :: "SimWindow \<Rightarrow> bool" where
  "win_inv w \<longleftrightarrow> length (sw_key_held w) = 8 \<and> nub_count w \<le> 8 \<and>
     \<not> (sw_help_open w \<and> sw_panel_open w) \<and> (sw_bat_dragging w \<longrightarrow> sw_panel_open w) \<and>
     (sw_help_open w \<or> sw_panel_open w \<longrightarrow>
        \<not> sw_touching w \<and> sw_mouse_held w = None \<and> (\<forall>i < nub_count w. \<not> sw_key_held w ! i)) \<and>
     (\<forall>i. sw_mouse_held w = Some i \<longrightarrow> i < nub_count w)"

text \<open>The fields nothing changes: a window is described by the board it was opened for.\<close>

definition same_board :: "SimWindow \<Rightarrow> SimWindow \<Rightarrow> bool" where
  "same_board w v \<longleftrightarrow> sw_board w = sw_board v \<and> sw_layout w = sw_layout v \<and> sw_scale w = sw_scale v \<and>
     sw_has_battery w = sw_has_battery v \<and> sw_has_rotation w = sw_has_rotation v"

lemma same_board_static:
  assumes "same_board w v"
  shows "nub_count w = nub_count v" "sw_button w = sw_button v" "has_panel w = has_panel v"
    "hover_nub w = hover_nub v" "keyed w = keyed v" "ctrl_step w = ctrl_step v"
proof -
  have eqs: "sw_board w = sw_board v" "sw_layout w = sw_layout v" "sw_scale w = sw_scale v"
    "sw_has_battery w = sw_has_battery v" "sw_has_rotation w = sw_has_rotation v"
    using assms by (simp_all add: same_board_def)
  show n: "nub_count w = nub_count v" unfolding nub_count_def eqs ..
  show b: "sw_button w = sw_button v" unfolding sw_button_def eqs ..
  show p: "has_panel w = has_panel v" unfolding has_panel_def eqs ..
  show h: "hover_nub w = hover_nub v" unfolding hover_nub_def n eqs ..
  show k: "keyed w = keyed v" unfolding keyed_def n b ..
  show "ctrl_step w = ctrl_step v" unfolding ctrl_step_def ctrl_click_def ctrl_key_def p h k eqs ..
qed

lemma hover_nub_less: "hover_nub w x y = Some i \<Longrightarrow> i < nub_count w"
  by (auto simp: hover_nub_def find_Some_iff)

text \<open>One simulation step: the code's handler does what the specification says.\<close>

definition simulates :: "SimWindow \<Rightarrow> bool \<times> desk \<Rightarrow> ctrl option \<Rightarrow> bool" where
  "simulates w r c \<longleftrightarrow> (case r of (go, d) \<Rightarrow>
     go = (c \<noteq> None) \<and> (\<forall>c'. c = Some c' \<longrightarrow> abs_win (dk_win d) = c' \<and> win_inv (dk_win d) \<and>
       same_board (dk_win d) w \<and> touch_pressed (dk_in d) = c_touch c'))"

lemma abs_win_sel [simp]:
  "c_touch (abs_win w) = sw_touching w" "c_drag (abs_win w) = sw_bat_dragging w" "c_mouse (abs_win w) = sw_mouse_held w"
  by (simp_all add: abs_win_def)

lemma abs_overlay:
  "c_overlay (abs_win w) = NoOverlay \<longleftrightarrow> \<not> sw_help_open w \<and> \<not> sw_panel_open w"
  "c_overlay (abs_win w) = Help \<longleftrightarrow> sw_help_open w" "win_inv w \<Longrightarrow> c_overlay (abs_win w) = Panel \<longleftrightarrow> sw_panel_open w"
  by (auto simp: abs_win_def win_inv_def)

lemma simulates_id:
  "win_inv (dk_win d) \<Longrightarrow> touch_pressed (dk_in d) = sw_touching (dk_win d) \<Longrightarrow>
     simulates (dk_win d) (True, d) (Some (abs_win (dk_win d)))"
  by (simp add: simulates_def same_board_def)

lemma simulates_close_help:
  assumes "win_inv (dk_win d)" and "touch_pressed (dk_in d) = sw_touching (dk_win d)" and "sw_help_open (dk_win d)"
  shows "simulates (dk_win d) (True, close_help d) (Some (ctrl_close (abs_win (dk_win d))))"
  using assms by (auto simp: simulates_def same_board_def ctrl_close_def abs_win_def win_inv_def)

lemma simulates_close_panel:
  assumes "win_inv (dk_win d)" and "touch_pressed (dk_in d) = sw_touching (dk_win d)" and "sw_panel_open (dk_win d)"
  shows "simulates (dk_win d) (True, close_panel d) (Some (ctrl_close (abs_win (dk_win d))))"
  using assms by (auto simp: simulates_def same_board_def ctrl_close_def abs_win_def win_inv_def)

lemma simulates_open:
  assumes "win_inv (dk_win d)" and "touch_pressed (dk_in d) = sw_touching (dk_win d)"
  shows "simulates (dk_win d) (True, open_help d) (Some (opened Help))"
    and "simulates (dk_win d) (True, open_panel d) (Some (opened Panel))"
  using assms by (auto simp: simulates_def same_board_def open_help_def open_panel_def opened_def abs_win_def win_inv_def)

lemma simulates_toggle_panel:
  assumes "win_inv (dk_win d)" and "touch_pressed (dk_in d) = sw_touching (dk_win d)"
  shows "simulates (dk_win d) (True, toggle_panel d) (Some (ctrl_toggle Panel (abs_win (dk_win d))))"
  using simulates_close_panel [OF assms] simulates_open(2) [OF assms] abs_overlay(3) [OF assms(1)]
  by (simp add: toggle_panel_def ctrl_toggle_def)

lemma set_touch_win [simp]:
  "dk_win (set_touch x y d) = dk_win d" "touch_pressed (dk_in (set_touch x y d)) = touch_pressed (dk_in d)"
  "dk_gpio (set_touch x y d) = dk_gpio d" "button (dk_in (set_touch x y d)) = button (dk_in d)"
  by (simp_all add: set_touch_def Let_def)

lemma set_battery_win [simp]:
  "dk_win (set_battery_from_x x d) = dk_win d" "touch_pressed (dk_in (set_battery_from_x x d)) = touch_pressed (dk_in d)"
  "dk_gpio (set_battery_from_x x d) = dk_gpio d" "button (dk_in (set_battery_from_x x d)) = button (dk_in d)"
  by (simp_all add: set_battery_from_x_def Let_def)

lemma panel_click_win:
  "dk_win (panel_click x y d) =
     (if sw_has_battery (dk_win d) \<and> win_rect_contains (pl_bat_bar (layout_panel (sw_layout (dk_win d))
         (sw_has_battery (dk_win d)) (sw_has_rotation (dk_win d)))) x y
      then (dk_win d)\<lparr>sw_bat_dragging := True\<rparr> else dk_win d)"
  "touch_pressed (dk_in (panel_click x y d)) = touch_pressed (dk_in d)"
  by (auto simp: panel_click_def Let_def)

lemma simulates_mouse_down:
  assumes inv: "win_inv (dk_win d)" and t: "touch_pressed (dk_in d) = sw_touching (dk_win d)"
  shows "simulates (dk_win d) (True, mouse_down now x y d) (Some (ctrl_click (dk_win d) x y (abs_win (dk_win d))))"
proof -
  let ?w = "dk_win d"
  consider (more) "has_panel ?w" "win_rect_contains (wl_more_nub (sw_layout ?w)) x y"
    | (off) "\<not> (has_panel ?w \<and> win_rect_contains (wl_more_nub (sw_layout ?w)) x y)" by blast
  then show ?thesis
  proof cases
    case more
    with simulates_toggle_panel [OF inv t] show ?thesis by (simp add: mouse_down_def ctrl_click_def Let_def)
  next
    case off
    consider (hlp) "sw_help_open ?w" | (panel) "\<not> sw_help_open ?w" "sw_panel_open ?w"
      | (none) "\<not> sw_help_open ?w" "\<not> sw_panel_open ?w" by blast
    then show ?thesis
    proof cases
      case hlp
      then have "c_overlay (abs_win ?w) = Help" by (simp add: abs_overlay)
      then have "ctrl_click ?w x y (abs_win ?w) = ctrl_close (abs_win ?w)" using off by (auto simp: ctrl_click_def)
      moreover have "mouse_down now x y d = close_help d" using off hlp by (auto simp: mouse_down_def Let_def)
      ultimately show ?thesis using simulates_close_help [OF inv t hlp] by simp
    next
      case panel
      then have o: "c_overlay (abs_win ?w) = Panel" using abs_overlay(3) [OF inv] by simp
      show ?thesis
      proof (cases "win_rect_contains (layout_panel_card (sw_layout ?w)) x y")
        case True
        then have "mouse_down now x y d = panel_click x y d" using off panel by (auto simp: mouse_down_def Let_def)
        with True off o panel inv t panel_click_win [of x y d] show ?thesis
          by (auto simp: ctrl_click_def simulates_def same_board_def abs_win_def win_inv_def)
      next
        case False
        then have "ctrl_click ?w x y (abs_win ?w) = ctrl_close (abs_win ?w)" "mouse_down now x y d = close_panel d"
          using off o panel by (auto simp: ctrl_click_def mouse_down_def Let_def)
        with simulates_close_panel [OF inv t panel(2)] show ?thesis by simp
      qed
    next
      case none
      then have o: "c_overlay (abs_win ?w) = NoOverlay" by (simp add: abs_overlay)
      have c: "ctrl_click ?w x y (abs_win ?w) = (if win_rect_contains (wl_screen (sw_layout ?w)) x y
          then (abs_win ?w)\<lparr>c_touch := True\<rparr>
          else case hover_nub ?w x y of None \<Rightarrow> abs_win ?w | Some i \<Rightarrow> (abs_win ?w)\<lparr>c_mouse := Some i\<rparr>)"
        using off o by (auto simp: ctrl_click_def)
      have m: "mouse_down now x y d = (if win_rect_contains (wl_screen (sw_layout ?w)) x y
          then set_touch x y (on_in (\<lambda>i. i\<lparr>touch_pressed := True\<rparr>) (on_win (\<lambda>w. w\<lparr>sw_touching := True\<rparr>) d))
          else case hover_nub ?w x y of None \<Rightarrow> d
            | Some i \<Rightarrow> on_win (\<lambda>w. w\<lparr>sw_mouse_held := Some i\<rparr>) (press_action now (sw_button ?w i) d))"
        using off none by (auto simp: mouse_down_def Let_def)
      show ?thesis
      proof (cases "win_rect_contains (wl_screen (sw_layout ?w)) x y")
        case True
        with none inv show ?thesis unfolding c m by (simp add: simulates_def same_board_def abs_win_def win_inv_def)
      next
        case False
        show ?thesis
        proof (cases "hover_nub ?w x y")
          case None
          with False simulates_id [OF inv t] show ?thesis unfolding c m by simp
        next
          case (Some i)
          obtain f p s where "dk_win (press_action now (sw_button ?w i) d) = ?w\<lparr>sw_pwr_flash := f, sw_pwr_down_at := p,
              sw_pwr_long_sent := s\<rparr>" "touch_pressed (dk_in (press_action now (sw_button ?w i) d)) = touch_pressed (dk_in d)"
            using press_action_frame by blast
          with False Some none inv t hover_nub_less [OF Some] show ?thesis
            unfolding c m by (simp add: simulates_def same_board_def abs_win_def win_inv_def)
        qed
      qed
    qed
  qed
qed

lemma simulates_mouse_up:
  assumes "win_inv (dk_win d)" and "touch_pressed (dk_in d) = sw_touching (dk_win d)"
  shows "simulates (dk_win d) (True, mouse_up d)
    (Some ((abs_win (dk_win d))\<lparr>c_touch := False, c_drag := False, c_mouse := None\<rparr>))"
  using assms by (auto simp: mouse_up_def simulates_def same_board_def abs_win_def win_inv_def)

lemma simulates_mouse_motion:
  assumes "win_inv (dk_win d)" and "touch_pressed (dk_in d) = sw_touching (dk_win d)"
  shows "simulates (dk_win d) (True, mouse_motion x y d) (Some (abs_win (dk_win d)))"
  using assms by (auto simp: mouse_motion_def Let_def simulates_def same_board_def abs_win_def win_inv_def)

lemma fold_press_abs:
  assumes "win_inv (dk_win d)" and "\<not> sw_help_open (dk_win d)" and "\<not> sw_panel_open (dk_win d)"
    and "touch_pressed (dk_in d) = sw_touching (dk_win d)"
  shows "simulates (dk_win d) (True, fold (press_key now ks) [0..<nub_count (dk_win d)] d)
    (Some ((abs_win (dk_win d))\<lparr>c_keys := c_keys (abs_win (dk_win d)) \<union> keyed (dk_win d) ks\<rparr>))"
proof -
  let ?w = "dk_win d" and ?d = "fold (press_key now ks) [0..<nub_count (dk_win d)] d"
  let ?k = "press_key_held ?w ks [0..<nub_count ?w] (sw_key_held ?w)"
  obtain f t s where w: "dk_win ?d = ?w\<lparr>sw_key_held := ?k, sw_pwr_flash := f, sw_pwr_down_at := t, sw_pwr_long_sent := s\<rparr>"
    and p: "touch_pressed (dk_in ?d) = touch_pressed (dk_in d)" using fold_press_key by blast
  have k: "i < nub_count ?w \<Longrightarrow> ?k ! i \<longleftrightarrow> sw_key_held ?w ! i \<or> key_matches (sw_button ?w i) ks" for i
    using assms(1) by (simp add: win_inv_def)
  then have "{i. i < nub_count ?w \<and> ?k ! i} = {i. i < nub_count ?w \<and> sw_key_held ?w ! i} \<union> keyed ?w ks"
    by (auto simp: keyed_def)
  with w p assms show ?thesis by (simp add: simulates_def same_board_def abs_win_def win_inv_def)
qed

lemma simulates_key_down:
  assumes inv: "win_inv (dk_win d)" and t: "touch_pressed (dk_in d) = sw_touching (dk_win d)"
  shows "simulates (dk_win d) (key_down now ks repeat d) (ctrl_key (dk_win d) ks repeat (abs_win (dk_win d)))"
proof -
  note keys = SDLK_ESCAPE_def SDLK_BACKQUOTE_def SDLK_SLASH_def SDLK_h_def
  consider (esc) "ks = SDLK_ESCAPE" | (bq) "ks = SDLK_BACKQUOTE" "\<not> repeat" | (hlp) "ks = SDLK_SLASH \<or> ks = SDLK_h" "\<not> repeat"
    | (rep) "repeat" "ks \<noteq> SDLK_ESCAPE"
    | (plain) "\<not> repeat" "ks \<noteq> SDLK_ESCAPE" "ks \<noteq> SDLK_BACKQUOTE" "ks \<noteq> SDLK_SLASH" "ks \<noteq> SDLK_h" by blast
  then show ?thesis
  proof cases
    case esc
    have "simulates (dk_win d) (False, d) None" by (simp add: simulates_def)
    with esc simulates_close_help [OF inv t] simulates_close_panel [OF inv t] show ?thesis
      by (simp add: key_down_def ctrl_key_def Let_def abs_overlay)
  next
    case bq
    with simulates_toggle_panel [OF inv t] simulates_id [OF inv t] show ?thesis
      by (simp add: key_down_def ctrl_key_def Let_def keys abs_overlay)
  next
    case hlp
    then have "key_down now ks repeat d = (True, if sw_help_open (dk_win d) then close_help d else open_help d)"
      "ctrl_key (dk_win d) ks repeat (abs_win (dk_win d)) = Some (ctrl_toggle Help (abs_win (dk_win d)))"
      by (auto simp: key_down_def ctrl_key_def Let_def keys abs_overlay)
    with simulates_close_help [OF inv t] simulates_open(1) [OF inv t] show ?thesis by (simp add: ctrl_toggle_def abs_overlay)
  next
    case rep
    with simulates_id [OF inv t] show ?thesis by (simp add: key_down_def ctrl_key_def Let_def abs_overlay)
  next
    case plain
    with simulates_id [OF inv t] fold_press_abs [OF inv _ _ t] show ?thesis
      by (simp add: key_down_def ctrl_key_def Let_def abs_overlay)
  qed
qed

definition release_keys :: "SimWindow \<Rightarrow> int \<Rightarrow> nat list \<Rightarrow> nat list" where
  "release_keys w ks is = filter (\<lambda>i. key_matches (sw_button w i) ks) is"

lemma fold_key_up:
  "sw_button (dk_win d) = sw_button w \<Longrightarrow>
     fold (\<lambda>i d. if key_matches (sw_button (dk_win d) i) ks then release_key i d else d) is d =
     fold release_key (release_keys w ks is) d"
proof (induction "is" arbitrary: d)
  case (Cons i "is")
  then show ?case using Cons.IH [of "release_key i d"] Cons.IH [of d] by (simp add: release_keys_def)
qed (simp add: release_keys_def)

lemma key_up_eq: "key_up ks d = fold release_key (release_keys (dk_win d) ks [0..<nub_count (dk_win d)]) d"
  by (simp add: key_up_def fold_key_up)

lemma simulates_key_up:
  assumes inv: "win_inv (dk_win d)" and t: "touch_pressed (dk_in d) = sw_touching (dk_win d)"
  shows "simulates (dk_win d) (True, key_up ks d) (Some ((abs_win (dk_win d))\<lparr>c_keys := c_keys (abs_win (dk_win d)) - keyed (dk_win d) ks\<rparr>))"
proof -
  let ?w = "dk_win d"
  let ?k = "clear_keys (release_keys ?w ks [0..<nub_count ?w]) (sw_key_held ?w)"
  have k: "i < nub_count ?w \<Longrightarrow> ?k ! i \<longleftrightarrow> sw_key_held ?w ! i \<and> \<not> key_matches (sw_button ?w i) ks" for i
    using inv by (simp add: win_inv_def release_keys_def)
  then have "{i. i < nub_count ?w \<and> ?k ! i} = {i. i < nub_count ?w \<and> sw_key_held ?w ! i} - keyed ?w ks"
    by (auto simp: keyed_def)
  with inv t k show ?thesis by (auto simp: key_up_eq simulates_def same_board_def abs_win_def win_inv_def)
qed

lemma simulates_event:
  assumes "win_inv (dk_win d)" and "touch_pressed (dk_in d) = sw_touching (dk_win d)"
  shows "simulates (dk_win d) (handle_event now e d) (ctrl_step (dk_win d) e (abs_win (dk_win d)))"
  using assms simulates_id [OF assms] simulates_mouse_down [OF assms] simulates_mouse_up [OF assms]
    simulates_mouse_motion [OF assms] simulates_key_down [OF assms] simulates_key_up [OF assms]
  by (cases e) (simp_all add: handle_event_def ctrl_step_def simulates_def)

section \<open>The lines the firmware sees\<close>

definition line_of :: "SimButton \<Rightarrow> (SimInputAction \<times> int) option" where
  "line_of b = (case b_action b of ACT_PWR \<Rightarrow> None | ACT_GPIO \<Rightarrow> Some (ACT_GPIO, b_gpio b) | a \<Rightarrow> Some (a, 0))"

definition line_on :: "SimButton \<Rightarrow> desk \<Rightarrow> bool" where
  "line_on b d = (case b_action b of
     ACT_PRIMARY \<Rightarrow> button (dk_in d) ! 0 | ACT_SECONDARY \<Rightarrow> button (dk_in d) ! 1
   | ACT_GPIO \<Rightarrow> sim_gpio_get (b_gpio b) (dk_gpio d) = sim_button_gpio_level b True | ACT_PWR \<Rightarrow> False)"

definition wf_bus :: "desk \<Rightarrow> bool" where
  "wf_bus d \<longleftrightarrow> length (button (dk_in d)) = 4 \<and> gpio_ok (dk_gpio d)"

text \<open>A board whose buttons (the power button apart) are wired to lines of their own.\<close>

definition wired_apart :: "SimWindow \<Rightarrow> bool" where
  "wired_apart w \<longleftrightarrow>
     (\<forall>i < nub_count w. b_action (sw_button w i) = ACT_GPIO \<longrightarrow> 0 \<le> b_gpio (sw_button w i) \<and> b_gpio (sw_button w i) < 64) \<and>
     (\<forall>i < nub_count w. \<forall>j < nub_count w. i \<noteq> j \<longrightarrow> line_of (sw_button w i) = line_of (sw_button w j) \<longrightarrow>
        line_of (sw_button w i) = None)"

definition lines_ok :: "desk \<Rightarrow> bool" where
  "lines_ok d \<longleftrightarrow> wf_bus d \<and> length (sw_key_held (dk_win d)) = 8 \<and> nub_count (dk_win d) \<le> 8 \<and>
     (\<forall>i < nub_count (dk_win d). line_of (sw_button (dk_win d) i) \<noteq> None \<longrightarrow>
        line_on (sw_button (dk_win d) i) d = holds (dk_win d) i)"

lemma wf_bus_set_line [simp]: "wf_bus d \<Longrightarrow> wf_bus (set_line b p d)"
  by (simp add: wf_bus_def set_line_def split: SimInputAction.splits)

lemma line_on_set_same:
  "wf_bus d \<Longrightarrow> line_of b \<noteq> None \<Longrightarrow> (b_action b = ACT_GPIO \<longrightarrow> 0 \<le> b_gpio b \<and> b_gpio b < 64) \<Longrightarrow> line_on b (set_line b p d) = p"
  by (auto simp: line_on_def set_line_def line_of_def wf_bus_def sim_gpio_get_set sim_button_gpio_level_def
      split: SimInputAction.splits)

lemma line_on_set_other:
  "wf_bus d \<Longrightarrow> line_of b \<noteq> line_of b' \<Longrightarrow> line_on b' (set_line b p d) = line_on b' d"
  by (auto simp: line_on_def set_line_def line_of_def wf_bus_def sim_gpio_get_set split: SimInputAction.splits)

lemma line_on_cong:
  "button (dk_in d) = button (dk_in d') \<Longrightarrow> dk_gpio d = dk_gpio d' \<Longrightarrow> line_on b d = line_on b d'"
  "button (dk_in d) = button (dk_in d') \<Longrightarrow> dk_gpio d = dk_gpio d' \<Longrightarrow> wf_bus d = wf_bus d'"
  by (simp_all add: line_on_def wf_bus_def split: SimInputAction.splits)

text \<open>Setting one button's line while its hold changes the same way.\<close>

lemma lines_ok_set:
  assumes ok: "lines_ok d" and wired: "wired_apart (dk_win d)" and i: "i < nub_count (dk_win d)"
    and d': "button (dk_in d') = button (dk_in (set_line (sw_button (dk_win d) i) p d))"
      "dk_gpio d' = dk_gpio (set_line (sw_button (dk_win d) i) p d)"
    and w': "nub_count (dk_win d') = nub_count (dk_win d)" "sw_button (dk_win d') = sw_button (dk_win d)"
      "length (sw_key_held (dk_win d')) = 8"
    and h: "\<forall>j < nub_count (dk_win d). holds (dk_win d') j = (if j = i then p else holds (dk_win d) j)"
  shows "lines_ok d'"
proof -
  let ?b = "sw_button (dk_win d)" and ?s = "set_line (sw_button (dk_win d) i) p d"
  have wf: "wf_bus d" using ok by (simp add: lines_ok_def)
  have "line_on (?b j) ?s = (if j = i then p else holds (dk_win d) j)"
    if j: "j < nub_count (dk_win d)" "line_of (?b j) \<noteq> None" for j
  proof (cases "j = i")
    case True
    with line_on_set_same [OF wf, of "?b i" p] j wired i show ?thesis by (simp add: wired_apart_def)
  next
    case False
    then have "line_of (?b i) \<noteq> line_of (?b j)"
      using wired [unfolded wired_apart_def, THEN conjunct2, rule_format, OF i j(1)] j(2) by auto
    with line_on_set_other [OF wf, of "?b i" "?b j" p] False j ok show ?thesis by (simp add: lines_ok_def)
  qed
  with h line_on_cong [OF d'] wf w' ok show ?thesis by (simp add: lines_ok_def)
qed

text \<open>A change that leaves the lines and the holds as they are.\<close>

lemma lines_ok_frame:
  assumes "lines_ok d" and "button (dk_in d') = button (dk_in d)" and "dk_gpio d' = dk_gpio d"
    and "nub_count (dk_win d') = nub_count (dk_win d)" and "sw_button (dk_win d') = sw_button (dk_win d)"
    and "length (sw_key_held (dk_win d')) = 8" and "\<forall>j < nub_count (dk_win d). holds (dk_win d') j = holds (dk_win d) j"
  shows "lines_ok d'"
  using assms line_on_cong [OF assms(2,3)] by (simp add: lines_ok_def)

text \<open>A release puts the line down if it is not the power button's.\<close>

lemma release_action_lines:
  "button (dk_in (release_action b d)) = button (dk_in (set_line b False d))"
  "dk_gpio (release_action b d) = dk_gpio (set_line b False d)"
  by (simp_all add: release_action_def set_line_def)

lemma press_action_lines:
  "button (dk_in (press_action now b d)) = button (dk_in (set_line b True d))"
  "dk_gpio (press_action now b d) = dk_gpio (set_line b True d)"
  by (simp_all add: press_action_def set_line_def)

lemma set_line_on_win [simp]:
  "button (dk_in (set_line b p (on_win f d))) = button (dk_in (set_line b p d))"
  "dk_gpio (set_line b p (on_win f d)) = dk_gpio (set_line b p d)"
  by (simp_all add: set_line_def split: SimInputAction.splits)

lemma lines_ok_release_key:
  assumes ok: "lines_ok d" and wired: "wired_apart (dk_win d)" and i: "i < nub_count (dk_win d)"
  shows "lines_ok (release_key i d)"
proof (cases "sw_key_held (dk_win d) ! i \<and> sw_mouse_held (dk_win d) \<noteq> Some i")
  case True
  then have e: "release_key i d = release_action (sw_button (dk_win d) i)
      (on_win (\<lambda>w. w\<lparr>sw_key_held := (sw_key_held w)[i := False]\<rparr>) d)"
    by (simp add: release_key_def Let_def)
  show ?thesis
    by (rule lines_ok_set [OF ok wired i, where p = False])
      (use True ok in \<open>auto simp: e release_action_lines lines_ok_def holds_def upd_nth\<close>)
next
  case False
  show ?thesis
    by (rule lines_ok_frame [OF ok])
      (use False ok in \<open>auto simp: release_key_def Let_def lines_ok_def holds_def upd_nth split: if_splits\<close>)
qed

lemma lines_ok_release_mouse:
  assumes ok: "lines_ok d" and wired: "wired_apart (dk_win d)"
    and m: "\<forall>i. sw_mouse_held (dk_win d) = Some i \<longrightarrow> i < nub_count (dk_win d)"
  shows "lines_ok (release_mouse d)"
proof (cases "\<exists>i. sw_mouse_held (dk_win d) = Some i \<and> \<not> sw_key_held (dk_win d) ! i")
  case True
  then obtain i where i: "sw_mouse_held (dk_win d) = Some i" "\<not> sw_key_held (dk_win d) ! i" by blast
  then have e: "release_mouse d = release_action (sw_button (dk_win d) i) (on_win (\<lambda>w. w\<lparr>sw_mouse_held := None\<rparr>) d)"
    by (simp add: release_mouse_def Let_def)
  from i m have n: "i < nub_count (dk_win d)" by simp
  show ?thesis
    by (rule lines_ok_set [OF ok wired n, where p = False])
      (use i ok in \<open>auto simp: e release_action_lines lines_ok_def holds_def\<close>)
next
  case False
  show ?thesis
    by (rule lines_ok_frame [OF ok])
      (use False ok in \<open>auto simp: release_mouse_def Let_def lines_ok_def holds_def split: option.splits\<close>)
qed

lemma lines_ok_fold_release:
  "lines_ok d \<Longrightarrow> wired_apart (dk_win d) \<Longrightarrow> \<forall>i \<in> set is. i < nub_count (dk_win d) \<Longrightarrow>
     lines_ok (fold release_key is d)"
proof (induction "is" arbitrary: d)
  case (Cons i "is")
  then show ?case using lines_ok_release_key [of d i] by (simp add: wired_apart_def)
qed simp

lemma end_touch_lines [simp]:
  "button (dk_in (end_touch d)) = button (dk_in d)" "dk_gpio (end_touch d) = dk_gpio d"
  by (simp_all add: end_touch_def)

lemma lines_ok_win:
  "lines_ok d \<Longrightarrow> nub_count (f (dk_win d)) = nub_count (dk_win d) \<Longrightarrow> sw_button (f (dk_win d)) = sw_button (dk_win d) \<Longrightarrow>
     sw_key_held (f (dk_win d)) = sw_key_held (dk_win d) \<Longrightarrow> sw_mouse_held (f (dk_win d)) = sw_mouse_held (dk_win d) \<Longrightarrow>
     lines_ok (on_win f d)"
  by (frule lines_ok_frame [where d' = "on_win f d"]) (auto simp: holds_def lines_ok_def)

lemma lines_ok_in:
  "lines_ok d \<Longrightarrow> button (f (dk_in d)) = button (dk_in d) \<Longrightarrow> lines_ok (on_in f d)"
  by (frule lines_ok_frame [where d' = "on_in f d"]) (auto simp: lines_ok_def)

lemma lines_ok_simple:
  assumes "lines_ok d"
  shows "lines_ok (end_touch d)" "lines_ok (end_drag d)" "lines_ok (close_help d)" "lines_ok (close_panel d)"
    "lines_ok (set_touch x y d)" "lines_ok (set_battery_from_x x d)" "lines_ok (panel_click x y d)"
proof -
  show "lines_ok (end_touch d)" by (rule lines_ok_frame [OF assms]) (use assms in \<open>auto simp: holds_def lines_ok_def\<close>)
  show "lines_ok (end_drag d)" by (rule lines_ok_frame [OF assms]) (use assms in \<open>auto simp: holds_def lines_ok_def\<close>)
  show "lines_ok (close_help d)" by (rule lines_ok_frame [OF assms]) (use assms in \<open>auto simp: holds_def lines_ok_def\<close>)
  show "lines_ok (close_panel d)" by (rule lines_ok_frame [OF assms]) (use assms in \<open>auto simp: holds_def lines_ok_def\<close>)
  show "lines_ok (set_touch x y d)" by (rule lines_ok_frame [OF assms]) (use assms in \<open>auto simp: lines_ok_def\<close>)
  show "lines_ok (set_battery_from_x x d)" by (rule lines_ok_frame [OF assms]) (use assms in \<open>auto simp: lines_ok_def\<close>)
  have lines: "button (dk_in (panel_click x y d)) = button (dk_in d)" "dk_gpio (panel_click x y d) = dk_gpio d"
    by (simp_all add: panel_click_def Let_def)
  show "lines_ok (panel_click x y d)"
    by (rule lines_ok_frame [OF assms]) (use assms lines panel_click_win(1) [of x y d] in \<open>auto simp: holds_def lines_ok_def\<close>)
qed

lemma lines_ok_open:
  assumes ok: "lines_ok d" and wired: "wired_apart (dk_win d)" and inv: "win_inv (dk_win d)"
  shows "lines_ok (open_help d)" and "lines_ok (open_panel d)"
proof -
  have "lines_ok (on_win (\<lambda>w. w\<lparr>sw_help_open := True\<rparr>) d)" "lines_ok (on_win (\<lambda>w. w\<lparr>sw_panel_open := True\<rparr>) d)"
    by (rule lines_ok_win [OF ok]; simp)+
  then have c: "lines_ok (close_panel (on_win (\<lambda>w. w\<lparr>sw_help_open := True\<rparr>) d))"
    "lines_ok (close_help (on_win (\<lambda>w. w\<lparr>sw_panel_open := True\<rparr>) d))" by (auto intro: lines_ok_simple)
  have all: "lines_ok e \<Longrightarrow> wired_apart (dk_win e) \<Longrightarrow>
      \<forall>i. sw_mouse_held (dk_win e) = Some i \<longrightarrow> i < nub_count (dk_win e) \<Longrightarrow> lines_ok (release_all_holds e)" for e
    unfolding release_all_holds_def
    by (intro lines_ok_simple lines_ok_release_mouse lines_ok_fold_release) (simp_all add: wired_apart_def)
  show "lines_ok (open_help d)" unfolding open_help_def
    by (rule all [OF c(1)]) (use wired inv in \<open>simp_all add: wired_apart_def win_inv_def\<close>)
  show "lines_ok (open_panel d)" unfolding open_panel_def
    by (rule all [OF c(2)]) (use wired inv in \<open>simp_all add: wired_apart_def win_inv_def\<close>)
qed

lemma lines_ok_press_key:
  assumes ok: "lines_ok d" and wired: "wired_apart (dk_win d)" and i: "i < nub_count (dk_win d)"
  shows "lines_ok (press_key now ks i d)"
proof (cases "key_matches (sw_button (dk_win d) i) ks")
  case True
  let ?d = "on_win (\<lambda>w. w\<lparr>sw_key_held := (sw_key_held w)[i := True]\<rparr>) d"
  obtain f t s where "dk_win (press_action now (sw_button (dk_win d) i) ?d) = (dk_win ?d)\<lparr>sw_pwr_flash := f,
      sw_pwr_down_at := t, sw_pwr_long_sent := s\<rparr>" using press_action_frame(1) by blast
  with True have w: "dk_win (press_key now ks i d) = (dk_win d)\<lparr>sw_key_held := (sw_key_held (dk_win d))[i := True],
      sw_pwr_flash := f, sw_pwr_down_at := t, sw_pwr_long_sent := s\<rparr>" by (simp add: press_key_def)
  show ?thesis
    by (rule lines_ok_set [OF ok wired i, where p = True])
      (use True w ok in \<open>auto simp: press_key_def press_action_lines lines_ok_def holds_def upd_nth\<close>)
qed (use ok in \<open>simp add: press_key_def\<close>)

lemma lines_ok_fold_press:
  "lines_ok d \<Longrightarrow> wired_apart (dk_win d) \<Longrightarrow> \<forall>i \<in> set is. i < nub_count (dk_win d) \<Longrightarrow>
     lines_ok (fold (press_key now ks) is d)"
proof (induction "is" arbitrary: d)
  case (Cons i "is")
  obtain f t s where "dk_win (fold (press_key now ks) [i] d) = (dk_win d)\<lparr>sw_key_held :=
      press_key_held (dk_win d) ks [i] (sw_key_held (dk_win d)), sw_pwr_flash := f, sw_pwr_down_at := t, sw_pwr_long_sent := s\<rparr>"
    using fold_press_key by blast
  with Cons lines_ok_press_key [of d i now ks] show ?case by (simp add: wired_apart_def)
qed simp

lemma lines_ok_mouse_down:
  assumes ok: "lines_ok d" and wired: "wired_apart (dk_win d)" and inv: "win_inv (dk_win d)"
    and free: "sw_mouse_held (dk_win d) = None"
  shows "lines_ok (mouse_down now x y d)"
proof -
  have press: "lines_ok (on_win (\<lambda>w. w\<lparr>sw_mouse_held := Some i\<rparr>) (press_action now (sw_button (dk_win d) i) d))"
    if i: "i < nub_count (dk_win d)" for i
  proof -
    obtain f t s where w: "dk_win (press_action now (sw_button (dk_win d) i) d) = (dk_win d)\<lparr>sw_pwr_flash := f,
      sw_pwr_down_at := t, sw_pwr_long_sent := s\<rparr>" using press_action_frame(1) by blast
    show ?thesis
      by (rule lines_ok_set [OF ok wired i, where p = True])
        (use w ok free in \<open>auto simp: press_action_lines lines_ok_def holds_def\<close>)
  qed
  have touch: "lines_ok (set_touch x y (on_in (\<lambda>i. i\<lparr>touch_pressed := True\<rparr>) (on_win (\<lambda>w. w\<lparr>sw_touching := True\<rparr>) d)))"
    by (intro lines_ok_simple lines_ok_in lines_ok_win ok) simp_all
  have toggle: "lines_ok (toggle_panel d)"
    using lines_ok_simple(4) [OF ok] lines_ok_open(2) [OF ok wired inv] by (simp add: toggle_panel_def)
  show ?thesis
    using toggle touch press lines_ok_simple(3,4,7) [OF ok] ok hover_nub_less [of "dk_win d" x y]
    by (auto simp: mouse_down_def Let_def split: option.splits)
qed

text \<open>The left button goes down only while it is up.\<close>

fun presses_alternate :: "bool \<Rightarrow> win_event list \<Rightarrow> bool" where
  "presses_alternate down [] = True"
| "presses_alternate down (MouseDown left x y # es) = (\<not> (left \<and> down) \<and> presses_alternate (down \<or> left) es)"
| "presses_alternate down (MouseUp left # es) = presses_alternate (down \<and> \<not> left) es"
| "presses_alternate down (e # es) = presses_alternate down es"

lemma lines_ok_event:
  assumes ok: "lines_ok d" and wired: "wired_apart (dk_win d)" and inv: "win_inv (dk_win d)"
    and free: "\<And>x y. e = MouseDown True x y \<Longrightarrow> sw_mouse_held (dk_win d) = None"
  shows "lines_ok (snd (handle_event now e d))"
proof (cases e)
  case (MouseDown left x y)
  with lines_ok_mouse_down [OF ok wired inv] free ok show ?thesis by (cases left) (simp_all add: handle_event_def)
next
  case (MouseUp left)
  have "lines_ok (mouse_up d)"
    unfolding mouse_up_def
    by (rule lines_ok_release_mouse) (use ok wired inv in \<open>auto intro: lines_ok_simple simp: wired_apart_def win_inv_def\<close>)
  with MouseUp ok show ?thesis by (simp add: handle_event_def)
next
  case (MouseMotion x y)
  have "lines_ok (on_win (\<lambda>w. w\<lparr>sw_mouse_x := x, sw_mouse_y := y\<rparr>) d)" by (rule lines_ok_win [OF ok]) simp_all
  with MouseMotion show ?thesis by (auto simp: handle_event_def mouse_motion_def Let_def intro: lines_ok_simple)
next
  case (KeyDown ks repeat)
  have "lines_ok (fold (press_key now ks) [0..<nub_count (dk_win d)] d)" by (rule lines_ok_fold_press [OF ok wired]) simp
  with KeyDown ok lines_ok_simple(3,4) [OF ok] lines_ok_open [OF ok wired inv] show ?thesis
    by (auto simp: handle_event_def key_down_def toggle_panel_def Let_def)
next
  case (KeyUp ks)
  have "lines_ok (key_up ks d)"
    unfolding key_up_eq by (rule lines_ok_fold_release [OF ok wired]) (auto simp: release_keys_def)
  with KeyUp show ?thesis by (simp add: handle_event_def)
qed (use ok in \<open>simp_all add: handle_event_def\<close>)

section \<open>Ticks\<close>

text \<open>A session: the events and the time of each tick, until one says to quit.\<close>

fun run_window :: "((32 word \<times> win_event) list \<times> 32 word) list \<Rightarrow> desk \<Rightarrow> bool \<times> desk" where
  "run_window [] d = (True, d)"
| "run_window ((es, now) # ts) d = (case sim_window_tick es now d of
     (go, d) \<Rightarrow> if go then run_window ts d else (False, d))"

definition all_events :: "((32 word \<times> win_event) list \<times> 32 word) list \<Rightarrow> win_event list" where
  "all_events ts = concat (map (\<lambda>t. map snd (fst t)) ts)"

lemma pwr_tick_frame:
  "\<exists>f s. dk_win (pwr_tick now d) = (dk_win d)\<lparr>sw_pwr_flash := f, sw_pwr_long_sent := s\<rparr>"
  "touch_pressed (dk_in (pwr_tick now d)) = touch_pressed (dk_in d)"
  "button (dk_in (pwr_tick now d)) = button (dk_in d)" "dk_gpio (pwr_tick now d) = dk_gpio d"
  "touch_x (dk_in (pwr_tick now d)) = touch_x (dk_in d)" "touch_y (dk_in (pwr_tick now d)) = touch_y (dk_in d)"
proof -
  let ?w = "dk_win d"
  let ?f = "if 0 < sw_pwr_flash ?w then sw_pwr_flash ?w - 1 else sw_pwr_flash ?w"
  have "dk_win (pwr_tick now d) = ?w\<lparr>sw_pwr_flash := ?f, sw_pwr_long_sent := sw_pwr_long_sent (dk_win (pwr_tick now d))\<rparr>"
    by (simp add: pwr_tick_def Let_def)
  then show "\<exists>f s. dk_win (pwr_tick now d) = (dk_win d)\<lparr>sw_pwr_flash := f, sw_pwr_long_sent := s\<rparr>" by blast
qed (simp_all add: pwr_tick_def Let_def)

text \<open>What holds at every point of a session, against the specification.\<close>

definition desk_agrees :: "SimWindow \<Rightarrow> ctrl \<Rightarrow> desk \<Rightarrow> bool" where
  "desk_agrees w c d \<longleftrightarrow> abs_win (dk_win d) = c \<and> win_inv (dk_win d) \<and> same_board (dk_win d) w \<and>
     touch_pressed (dk_in d) = c_touch c"

lemma desk_agrees_event:
  assumes "desk_agrees w c d" and "handle_event now e d = (go, d')"
  shows "go = (ctrl_step w e c \<noteq> None)" and "\<forall>c'. ctrl_step w e c = Some c' \<longrightarrow> desk_agrees w c' d'"
proof -
  have a: "win_inv (dk_win d)" "abs_win (dk_win d) = c" "same_board (dk_win d) w" "touch_pressed (dk_in d) = sw_touching (dk_win d)"
    using assms(1) by (auto simp: desk_agrees_def)
  from simulates_event [OF a(1,4), of now e] assms(2) a(2) same_board_static(6) [OF a(3)]
  have "simulates (dk_win d) (go, d') (ctrl_step w e c)" by simp
  then show "go = (ctrl_step w e c \<noteq> None)" "\<forall>c'. ctrl_step w e c = Some c' \<longrightarrow> desk_agrees w c' d'"
    using a(3) by (auto simp: simulates_def desk_agrees_def same_board_def)
qed

lemma desk_agrees_poll:
  "desk_agrees w c d \<Longrightarrow> poll_events es d = (go, d') \<Longrightarrow>
     go = (ctrl_run w (map snd es) c \<noteq> None) \<and> (\<forall>c'. ctrl_run w (map snd es) c = Some c' \<longrightarrow> desk_agrees w c' d')"
proof (induction es arbitrary: d c)
  case (Cons x es)
  obtain now e where x: "x = (now, e)" by force
  obtain g d1 where h: "handle_event now e d = (g, d1)" by force
  note st = desk_agrees_event [OF Cons.prems(1) h]
  show ?case
  proof (cases "ctrl_step w e c")
    case None
    with st(1) h x Cons.prems(2) show ?thesis by simp
  next
    case (Some c1)
    with st h x Cons.prems(2) Cons.IH [of c1 d1] show ?thesis by simp
  qed
qed simp

lemma ctrl_run_append:
  "ctrl_run w (es @ fs) c = (case ctrl_run w es c of None \<Rightarrow> None | Some c \<Rightarrow> ctrl_run w fs c)"
  by (induction es arbitrary: c) (auto split: option.splits)

lemma desk_agrees_pwr_tick:
  assumes "desk_agrees w c d"
  shows "desk_agrees w c (pwr_tick now d)"
proof -
  obtain f s where w: "dk_win (pwr_tick now d) = (dk_win d)\<lparr>sw_pwr_flash := f, sw_pwr_long_sent := s\<rparr>"
    using pwr_tick_frame(1) by blast
  have "abs_win (dk_win (pwr_tick now d)) = abs_win (dk_win d)" by (simp add: w abs_win_def)
  moreover have "win_inv (dk_win (pwr_tick now d)) = win_inv (dk_win d)" by (simp add: w win_inv_def)
  moreover have "same_board (dk_win (pwr_tick now d)) w = same_board (dk_win d) w" for w by (simp add: w same_board_def)
  ultimately show ?thesis using assms by (simp add: desk_agrees_def pwr_tick_frame(2))
qed

lemma all_events_Cons [simp]: "all_events [] = []" "all_events ((es, now) # ts) = map snd es @ all_events ts"
  by (simp_all add: all_events_def)

lemma desk_agrees_run:
  "desk_agrees w c d \<Longrightarrow> run_window ts d = (go, d') \<Longrightarrow>
     go = (ctrl_run w (all_events ts) c \<noteq> None) \<and> (\<forall>c'. ctrl_run w (all_events ts) c = Some c' \<longrightarrow> desk_agrees w c' d')"
proof (induction ts arbitrary: d c)
  case (Cons t ts)
  obtain es now where t: "t = (es, now)" by force
  obtain g d1 where p: "poll_events es d = (g, d1)" by force
  note st = desk_agrees_poll [OF Cons.prems(1) p]
  show ?case
  proof (cases "ctrl_run w (map snd es) c")
    case None
    with st p t Cons.prems(2) show ?thesis by (simp add: sim_window_tick_def ctrl_run_append)
  next
    case (Some c1)
    with st p t Cons.prems(2) Cons.IH [of c1 "pwr_tick now d1"] show ?thesis
      by (simp add: sim_window_tick_def ctrl_run_append desk_agrees_pwr_tick)
  qed
qed simp

lemma desk_agrees_open:
  assumes "sim_window_open True (Some bd) scale = Some w" and "\<not> touch_pressed i"
  shows "desk_agrees w (opened NoOverlay) \<lparr>dk_win = w, dk_in = i, dk_gpio = g\<rparr>"
proof -
  have "nub_count w \<le> 8"
    using assms(1) length_layout_buttons [of bd]
    by (auto simp: sim_window_open_def nub_count_def layout_fields(4) Let_def)
  with assms show ?thesis
    by (auto simp: sim_window_open_def desk_agrees_def abs_win_def win_inv_def opened_def same_board_def Let_def
        MAX_BTN_def MAX_LAYOUT_BUTTONS_def)
qed

text \<open>The lines and the touch point along a session.\<close>

definition touch_ok :: "desk \<Rightarrow> bool" where
  "touch_ok d \<longleftrightarrow> (sw_touching (dk_win d) \<longrightarrow>
     0 \<le> touch_x (dk_in d) \<and> touch_x (dk_in d) < bd_width (sw_board (dk_win d)) \<and>
     0 \<le> touch_y (dk_in d) \<and> touch_y (dk_in d) < bd_height (sw_board (dk_win d)))"

lemma touch_ok_set_touch:
  "0 < bd_width (sw_board (dk_win d)) \<Longrightarrow> 0 < bd_height (sw_board (dk_win d)) \<Longrightarrow> touch_ok (set_touch x y d)"
  by (simp add: touch_ok_def set_touch_def Let_def)

definition touch_at :: "desk \<Rightarrow> int \<times> int" where
  "touch_at d = (touch_x (dk_in d), touch_y (dk_in d))"

lemma touch_at_frame [simp]:
  "touch_at (release_action b d) = touch_at d" "touch_at (press_action now b d) = touch_at d"
  "touch_at (release_key i d) = touch_at d" "touch_at (release_mouse d) = touch_at d"
  "touch_at (end_touch d) = touch_at d" "touch_at (end_drag d) = touch_at d" "touch_at (d\<lparr>dk_win := v\<rparr>) = touch_at d"
  "touch_at (close_help d) = touch_at d" "touch_at (close_panel d) = touch_at d" "touch_at (panel_click x y d) = touch_at d"
  "touch_at (press_key now ks i d) = touch_at d" "touch_at (set_battery_from_x x d) = touch_at d"
  by (simp_all add: touch_at_def release_key_def release_mouse_def press_action_def end_touch_def panel_click_def
      press_key_def set_battery_from_x_def Let_def split: option.splits)

lemma touch_at_fold [simp]:
  "touch_at (fold release_key is d) = touch_at d" "touch_at (fold (press_key now ks) is d) = touch_at d"
  by (induction "is" arbitrary: d) simp_all

lemma touch_at_overlay [simp]:
  "touch_at (release_all_holds d) = touch_at d" "touch_at (open_help d) = touch_at d" "touch_at (open_panel d) = touch_at d"
  "touch_at (toggle_panel d) = touch_at d" "touch_at (key_up ks d) = touch_at d" "touch_at (mouse_up d) = touch_at d"
  "touch_at (snd (key_down now ks repeat d)) = touch_at d"
  by (simp_all add: release_all_holds_def open_help_def open_panel_def toggle_panel_def key_up_eq mouse_up_def
      key_down_def Let_def)

lemma touch_ok_frame:
  "touch_ok d \<Longrightarrow> touch_at d' = touch_at d \<Longrightarrow> sw_board (dk_win d') = sw_board (dk_win d) \<Longrightarrow>
     (sw_touching (dk_win d') \<longrightarrow> sw_touching (dk_win d)) \<Longrightarrow> touch_ok d'"
  by (simp add: touch_ok_def touch_at_def)

definition puts_touch :: "SimWindow \<Rightarrow> int \<Rightarrow> int \<Rightarrow> bool" where
  "puts_touch w x y \<longleftrightarrow> \<not> (has_panel w \<and> win_rect_contains (wl_more_nub (sw_layout w)) x y) \<and>
     \<not> sw_help_open w \<and> \<not> sw_panel_open w \<and> win_rect_contains (wl_screen (sw_layout w)) x y"

lemma mouse_down_touch:
  "puts_touch (dk_win d) x y \<Longrightarrow> mouse_down now x y d =
     set_touch x y (on_in (\<lambda>i. i\<lparr>touch_pressed := True\<rparr>) (on_win (\<lambda>w. w\<lparr>sw_touching := True\<rparr>) d))"
  by (auto simp: puts_touch_def mouse_down_def Let_def)

lemma ctrl_click_touch:
  "c_touch (ctrl_click w x y c) \<Longrightarrow> \<not> c_touch c \<Longrightarrow>
     \<not> (has_panel w \<and> win_rect_contains (wl_more_nub (sw_layout w)) x y) \<and>
     c_overlay c = NoOverlay \<and> win_rect_contains (wl_screen (sw_layout w)) x y"
  by (auto simp: ctrl_click_def ctrl_close_def ctrl_toggle_def opened_def
      split: overlay.splits option.splits if_splits)

lemma mouse_down_no_touch: "\<not> puts_touch (dk_win d) x y \<Longrightarrow> touch_at (mouse_down now x y d) = touch_at d"
  by (simp add: puts_touch_def mouse_down_def Let_def split: option.splits) (auto split: option.splits)

text \<open>A finger is on a pixel of the board: it went down there, and moving keeps it there.\<close>

lemma touch_ok_event:
  assumes ok: "touch_ok d" and bd: "0 < bd_width (sw_board (dk_win d))" "0 < bd_height (sw_board (dk_win d))"
    and ag: "desk_agrees w c d" and h: "handle_event now e d = (go, d')" and c': "ctrl_step w e c = Some c'"
  shows "touch_ok d'"
proof -
  have ag': "desk_agrees w c' d'" using desk_agrees_event(2) [OF ag h] c' by blast
  have b: "sw_board (dk_win d') = sw_board (dk_win d)"
    using ag ag' by (auto simp: desk_agrees_def same_board_def)
  have t: "sw_touching (dk_win d) = c_touch c" "sw_touching (dk_win d') = c_touch c'"
    using ag ag' by (auto simp: desk_agrees_def)
  consider (set) x y d0 where "d' = set_touch x y d0" "sw_board (dk_win d0) = sw_board (dk_win d)"
    | (keep) "touch_at d' = touch_at d" "c_touch c' \<longrightarrow> c_touch c"
  proof (cases e)
    case (MouseDown left x y)
    let ?v = "dk_win d"
    have st: "has_panel ?v = has_panel w" "sw_layout ?v = sw_layout w"
      using ag by (auto simp: desk_agrees_def same_board_def has_panel_def)
    have ov: "c_overlay c = NoOverlay \<longleftrightarrow> \<not> sw_help_open ?v \<and> \<not> sw_panel_open ?v"
      using ag abs_overlay(1) [of ?v] by (simp add: desk_agrees_def)
    have puts: "puts_touch ?v x y \<longleftrightarrow> \<not> (has_panel w \<and> win_rect_contains (wl_more_nub (sw_layout w)) x y) \<and>
        c_overlay c = NoOverlay \<and> win_rect_contains (wl_screen (sw_layout w)) x y"
      using st ov by (auto simp: puts_touch_def)
    have d': "d' = (if left then mouse_down now x y d else d)" using MouseDown h by (simp add: handle_event_def)
    show ?thesis
    proof (cases "left \<and> puts_touch ?v x y")
      case True
      with d' show ?thesis
        using set [of x y "on_in (\<lambda>i. i\<lparr>touch_pressed := True\<rparr>) (on_win (\<lambda>w. w\<lparr>sw_touching := True\<rparr>) d)"]
        by (simp add: mouse_down_touch)
    next
      case False
      then have "touch_at d' = touch_at d" unfolding d' by (auto simp: mouse_down_no_touch)
      moreover have "c_touch c' \<longrightarrow> c_touch c"
        using False c' unfolding puts MouseDown using ctrl_click_touch [of w x y c]
        by (cases left) (auto simp: ctrl_step_def)
      ultimately show ?thesis by (rule keep)
    qed
  next
    case (MouseMotion x y)
    let ?d = "on_win (\<lambda>w. w\<lparr>sw_mouse_x := x, sw_mouse_y := y\<rparr>) d"
    show ?thesis
    proof (cases "sw_touching (dk_win d)")
      case True
      with MouseMotion h show ?thesis using set [of x y ?d] by (simp add: handle_event_def mouse_motion_def Let_def)
    next
      case False
      with MouseMotion h have "d' = (if sw_bat_dragging (dk_win d) then set_battery_from_x x ?d else ?d)"
        by (simp add: handle_event_def mouse_motion_def Let_def)
      then have "touch_at d' = touch_at d" by simp
      with keep MouseMotion c' show ?thesis by (simp add: ctrl_step_def)
    qed
  next
    case (KeyDown ks repeat)
    have "touch_at (snd (key_down now ks repeat d)) = touch_at d" by simp
    moreover have "snd (key_down now ks repeat d) = d'" using KeyDown h by (simp add: handle_event_def)
    ultimately have "touch_at d' = touch_at d" by simp
    moreover have "c_touch c' \<longrightarrow> c_touch c"
      using KeyDown c' by (auto simp: ctrl_step_def ctrl_key_def ctrl_close_def ctrl_toggle_def opened_def split: if_splits)
    ultimately show ?thesis by (rule keep)
  qed (use h c' keep in \<open>auto simp: handle_event_def ctrl_step_def split: if_splits\<close>)
  then show ?thesis
  proof cases
    case set
    with bd show ?thesis using touch_ok_set_touch [of d0] by simp
  next
    case keep
    with ok t b show ?thesis using touch_ok_frame [of d d'] by simp
  qed
qed

text \<open>Both along a session.\<close>

definition desk_ok :: "SimWindow \<Rightarrow> ctrl \<Rightarrow> bool \<Rightarrow> desk \<Rightarrow> bool" where
  "desk_ok w c down d \<longleftrightarrow> desk_agrees w c d \<and> lines_ok d \<and> wired_apart (dk_win d) \<and> touch_ok d \<and>
     0 < bd_width (sw_board (dk_win d)) \<and> 0 < bd_height (sw_board (dk_win d)) \<and> (c_mouse c \<noteq> None \<longrightarrow> down)"

fun left_down :: "bool \<Rightarrow> win_event \<Rightarrow> bool" where
  "left_down b (MouseDown l x y) = (b \<or> l)"
| "left_down b (MouseUp l) = (b \<and> \<not> l)"
| "left_down b e = b"

lemma presses_alternate_Cons:
  "presses_alternate b (e # es) \<longleftrightarrow> \<not> (b \<and> (\<exists>x y. e = MouseDown True x y)) \<and> presses_alternate (left_down b e) es"
  by (cases e) auto

lemma desk_ok_event:
  assumes ok: "desk_ok w c b d" and alt: "\<not> (b \<and> (\<exists>x y. e = MouseDown True x y))"
    and h: "handle_event now e d = (go, d')" and c': "ctrl_step w e c = Some c'"
  shows "desk_ok w c' (left_down b e) d'"
proof -
  have ag: "desk_agrees w c d" "win_inv (dk_win d)" "sw_mouse_held (dk_win d) = c_mouse c"
    using ok by (auto simp: desk_ok_def desk_agrees_def)
  have ag': "desk_agrees w c' d'" using desk_agrees_event(2) [OF ag(1) h] c' by blast
  have free: "sw_mouse_held (dk_win d) = None" if "e = MouseDown True x y" for x y
    using that alt ok ag(3) by (auto simp: desk_ok_def)
  have lines: "lines_ok d'"
    using lines_ok_event [of d e now] ok ag(2) free h by (simp add: desk_ok_def)
  have touch: "touch_ok d'"
    by (rule touch_ok_event [OF _ _ _ ag(1) h c']) (use ok in \<open>simp_all add: desk_ok_def\<close>)
  have same: "sw_board (dk_win d') = sw_board (dk_win d)" "same_board (dk_win d') (dk_win d)"
    using ag(1) ag' by (auto simp: desk_agrees_def same_board_def)
  have wired: "wired_apart (dk_win d')"
    using ok same_board_static(1,2) [OF same(2)] by (simp add: desk_ok_def wired_apart_def)
  have down: "c_mouse c' \<noteq> None \<longrightarrow> left_down b e"
    using c' ok by (cases e) (auto simp: desk_ok_def ctrl_step_def ctrl_click_def ctrl_key_def ctrl_close_def ctrl_toggle_def
        opened_def split: if_splits overlay.splits option.splits)
  from ag' lines wired touch down same(1) ok show ?thesis by (simp add: desk_ok_def)
qed

lemma desk_ok_poll:
  "desk_ok w c b d \<Longrightarrow> presses_alternate b (map snd es @ fs) \<Longrightarrow> poll_events es d = (True, d') \<Longrightarrow>
     \<exists>c' b'. desk_ok w c' b' d' \<and> presses_alternate b' fs"
proof (induction es arbitrary: d c b)
  case (Cons x es)
  obtain now e where x: "x = (now, e)" by force
  obtain g d1 where h: "handle_event now e d = (g, d1)" by force
  with Cons.prems(3) x have g: "g" "poll_events es d1 = (True, d')" by (simp_all split: if_splits)
  have ag: "desk_agrees w c d" using Cons.prems(1) by (simp add: desk_ok_def)
  obtain c1 where c1: "ctrl_step w e c = Some c1" using desk_agrees_event(1) [OF ag h] g(1) by blast
  have alt: "\<not> (b \<and> (\<exists>x y. e = MouseDown True x y))" "presses_alternate (left_down b e) (map snd es @ fs)"
    using Cons.prems(2) unfolding x list.map append_Cons snd_conv presses_alternate_Cons by blast+
  show ?case by (rule Cons.IH [OF desk_ok_event [OF Cons.prems(1) alt(1) h c1] alt(2) g(2)])
qed auto

lemma desk_ok_pwr_tick: "desk_ok w c b d \<Longrightarrow> desk_ok w c b (pwr_tick now d)"
proof -
  assume ok: "desk_ok w c b d"
  obtain f s where w: "dk_win (pwr_tick now d) = (dk_win d)\<lparr>sw_pwr_flash := f, sw_pwr_long_sent := s\<rparr>"
    using pwr_tick_frame(1) by blast
  have "lines_ok (pwr_tick now d)"
    by (rule lines_ok_frame [of d]) (use ok w pwr_tick_frame in \<open>auto simp: desk_ok_def lines_ok_def holds_def\<close>)
  moreover have "touch_ok (pwr_tick now d)"
    using ok by (simp add: desk_ok_def touch_ok_def w pwr_tick_frame(5,6))
  ultimately show ?thesis
    using ok desk_agrees_pwr_tick [of w c d now] by (simp add: desk_ok_def w wired_apart_def)
qed

lemma desk_ok_run:
  "desk_ok w c b d \<Longrightarrow> presses_alternate b (all_events ts) \<Longrightarrow> run_window ts d = (True, d') \<Longrightarrow>
     \<exists>c' b'. desk_ok w c' b' d'"
proof (induction ts arbitrary: d c b)
  case (Cons t ts)
  obtain es now where t: "t = (es, now)" by force
  obtain g d1 where p: "poll_events es d = (g, d1)" by force
  with Cons.prems(3) t have g: "g" "run_window ts (pwr_tick now d1) = (True, d')"
    by (auto simp: sim_window_tick_def split: if_splits)
  obtain c1 b1 where "desk_ok w c1 b1 d1" "presses_alternate b1 (all_events ts)"
    using desk_ok_poll [OF Cons.prems(1), of es "all_events ts" d1] Cons.prems(2) p g(1) t by auto
  then show ?case using Cons.IH [OF desk_ok_pwr_tick _ g(2)] by blast
qed auto

end
