(* ===== verification/WindowSession.thy ===== *)
theory WindowSession
  imports SimWindow
begin

text \<open>
  What a whole session at the live window guarantees (\<^verbatim>\<open>peripherals/display/sim_window.cpp\<close>): the
  handlers refine the specification of who holds what, the firmware's lines follow the holds, and
  a press of the power button yields its edges.
\<close>

section \<open>A demonstration board\<close>

definition key_button :: SimButton where
  "key_button = \<lparr>b_label = ''A'', b_action = ACT_PRIMARY, b_gpio = -1, b_key = CHR ''a'',
     b_edge = EDGE_LEFT, b_pos = -1, b_active_low = True\<rparr>"

definition pwr_button :: SimButton where
  "pwr_button = \<lparr>b_label = ''PWR'', b_action = ACT_PWR, b_gpio = -1, b_key = CHR ''p'',
     b_edge = EDGE_LEFT, b_pos = -1, b_active_low = True\<rparr>"

definition desk_board :: BoardDesc where
  "desk_board = \<lparr>bd_name = ''demo'', bd_width = 10, bd_height = 10, bd_has_rotation = False,
     bd_has_battery = False, bd_has_imu = False, bd_buttons = [key_button, pwr_button]\<rparr>"

definition desk_window :: SimWindow where
  "desk_window = the (sim_window_open True (Some desk_board) 2)"

lemma desk_window_open: "sim_window_open True (Some desk_board) 2 = Some desk_window"
  by (simp add: desk_window_def sim_window_open_def Let_def)

lemma desk_window_fields [simp]:
  "sw_board desk_window = desk_board" "sw_key_held desk_window = replicate 8 False" "sw_mouse_held desk_window = None"
  "sw_touching desk_window = False" "sw_help_open desk_window = False" "sw_panel_open desk_window = False"
  "sw_has_battery desk_window = False" "sw_has_rotation desk_window = False" "sw_pwr_flash desk_window = 0"
  "nub_count desk_window = 2" "sw_button desk_window 0 = key_button" "sw_button desk_window (Suc 0) = pwr_button"
proof -
  show "nub_count desk_window = 2"
    by (simp add: desk_window_def sim_window_open_def nub_count_def Let_def layout_fields(4) length_place_nubs
        layout_buttons_def MAX_LAYOUT_BUTTONS_def desk_board_def)
qed (simp_all add: desk_window_def sim_window_open_def sw_button_def Let_def desk_board_def MAX_BTN_def MAX_LAYOUT_BUTTONS_def)

definition desk0 :: desk where
  "desk0 = \<lparr>dk_win = desk_window, dk_in = input_init, dk_gpio = gpio_init\<rparr>"

section \<open>The power button's edges\<close>

definition quiet :: "desk \<Rightarrow> bool" where
  "quiet d \<longleftrightarrow> \<not> sw_help_open (dk_win d) \<and> \<not> sw_panel_open (dk_win d) \<and> sw_mouse_held (dk_win d) = None \<and>
     nub_count (dk_win d) \<le> length (sw_key_held (dk_win d)) \<and> (\<forall>i < nub_count (dk_win d). \<not> sw_key_held (dk_win d) ! i)"

lemma pwr_held_frame [simp]:
  "pwr_is_held (w\<lparr>sw_pwr_flash := f\<rparr>) = pwr_is_held w" "pwr_is_held (w\<lparr>sw_pwr_long_sent := s\<rparr>) = pwr_is_held w"
  "pwr_is_held (w\<lparr>sw_pwr_down_at := t\<rparr>) = pwr_is_held w"
  by (simp_all add: pwr_is_held_def holds_def)

lemma pwr_ticks:
  "pwr_is_held (dk_win d) \<Longrightarrow>
     \<exists>f. fold pwr_tick ns d = d\<lparr>
       dk_win := (dk_win d)\<lparr>sw_pwr_flash := f,
         sw_pwr_long_sent := (sw_pwr_long_sent (dk_win d) \<or> (\<exists>n \<in> set ns. PWR_LONG_MS \<le> n - sw_pwr_down_at (dk_win d)))\<rparr>,
       dk_in := (dk_in d)\<lparr>pwr_events := pwr_events (dk_in d) @
         (if \<not> sw_pwr_long_sent (dk_win d) \<and> (\<exists>n \<in> set ns. PWR_LONG_MS \<le> n - sw_pwr_down_at (dk_win d)) then [2] else [])\<rparr>\<rparr>"
proof (induction ns arbitrary: d)
  case Nil
  show ?case by (rule exI [of _ "sw_pwr_flash (dk_win d)"]) simp
next
  case (Cons n ns)
  let ?d = "pwr_tick n d" and ?f = "if 0 < sw_pwr_flash (dk_win d) then sw_pwr_flash (dk_win d) - 1 else sw_pwr_flash (dk_win d)"
  let ?late = "PWR_LONG_MS \<le> n - sw_pwr_down_at (dk_win d)"
  have tick: "?d = d\<lparr>dk_win := (dk_win d)\<lparr>sw_pwr_flash := ?f, sw_pwr_long_sent := sw_pwr_long_sent (dk_win d) \<or> ?late\<rparr>,
      dk_in := (dk_in d)\<lparr>pwr_events := pwr_events (dk_in d) @ (if \<not> sw_pwr_long_sent (dk_win d) \<and> ?late then [2] else [])\<rparr>\<rparr>"
    using Cons.prems by (auto simp: pwr_tick_def Let_def)
  with Cons.prems have "pwr_is_held (dk_win ?d)" by simp
  from Cons.IH [OF this] obtain f where "fold pwr_tick ns ?d = ?d\<lparr>
       dk_win := (dk_win ?d)\<lparr>sw_pwr_flash := f,
         sw_pwr_long_sent := (sw_pwr_long_sent (dk_win ?d) \<or> (\<exists>n \<in> set ns. PWR_LONG_MS \<le> n - sw_pwr_down_at (dk_win ?d)))\<rparr>,
       dk_in := (dk_in ?d)\<lparr>pwr_events := pwr_events (dk_in ?d) @
         (if \<not> sw_pwr_long_sent (dk_win ?d) \<and> (\<exists>n \<in> set ns. PWR_LONG_MS \<le> n - sw_pwr_down_at (dk_win ?d)) then [2] else [])\<rparr>\<rparr>"
    by blast
  then show ?case by (intro exI [of _ f]) (auto simp: tick)
qed

lemma run_window_ticks:
  "run_window (map (\<lambda>n. ([], n)) ns @ ts) d = run_window ts (fold pwr_tick ns d)"
  by (induction ns arbitrary: d) (simp_all add: sim_window_tick_def)

lemma fold_single:
  "i \<in> set is \<Longrightarrow> distinct is \<Longrightarrow> \<forall>j \<in> set is. j \<noteq> i \<longrightarrow> (\<forall>d. P d \<longrightarrow> g j d = d) \<Longrightarrow> P d \<Longrightarrow> P (g i d) \<Longrightarrow>
     fold g is d = g i d"
proof (induction "is" arbitrary: d)
  case (Cons j "is")
  show ?case
  proof (cases "j = i")
    case True
    with Cons.prems have rest: "\<forall>k \<in> set is. \<forall>d. P d \<longrightarrow> g k d = d" by auto
    have "fold g is d = d" if "\<forall>k \<in> set is. \<forall>d. P d \<longrightarrow> g k d = d" "P d" for d "is"
      using that by (induction "is" arbitrary: d) auto
    with rest True Cons.prems(5) show ?thesis by simp
  next
    case False
    with Cons show ?thesis by auto
  qed
qed simp

definition plain_key :: "int \<Rightarrow> bool" where
  "plain_key ks \<longleftrightarrow> ks \<notin> {SDLK_ESCAPE, SDLK_BACKQUOTE, SDLK_SLASH, SDLK_h}"

definition only_pwr :: "SimWindow \<Rightarrow> int \<Rightarrow> nat \<Rightarrow> bool" where
  "only_pwr w ks i \<longleftrightarrow> plain_key ks \<and> i < nub_count w \<and> b_action (sw_button w i) = ACT_PWR \<and>
     (\<forall>j < nub_count w. key_matches (sw_button w j) ks \<longleftrightarrow> j = i)"

lemma press_pwr_key:
  assumes q: "quiet d" and o: "only_pwr (dk_win d) ks i"
  shows "key_down t ks False d = (True, d\<lparr>dk_win := (dk_win d)\<lparr>sw_key_held := (sw_key_held (dk_win d))[i := True],
    sw_pwr_flash := 10, sw_pwr_down_at := t, sw_pwr_long_sent := False\<rparr>\<rparr>)"
proof -
  have i: "i < nub_count (dk_win d)" "key_matches (sw_button (dk_win d) i) ks" "b_action (sw_button (dk_win d) i) = ACT_PWR"
    using o by (auto simp: only_pwr_def)
  let ?P = "\<lambda>d'. sw_button (dk_win d') = sw_button (dk_win d)"
  have "fold (press_key t ks) [0..<nub_count (dk_win d)] d = press_key t ks i d"
    by (rule fold_single [where P = ?P]) (use o i in \<open>auto simp: only_pwr_def press_key_def press_action_def\<close>)
  moreover have "key_down t ks False d = (True, fold (press_key t ks) [0..<nub_count (dk_win d)] d)"
    using q o by (auto simp: key_down_def Let_def quiet_def only_pwr_def plain_key_def)
  ultimately show ?thesis using i by (simp add: press_key_def press_action_def)
qed

lemma release_pwr_key:
  assumes o: "only_pwr (dk_win d) ks i" and h: "sw_key_held (dk_win d) ! i" and m: "sw_mouse_held (dk_win d) = None"
  shows "key_up ks d = d\<lparr>dk_win := (dk_win d)\<lparr>sw_key_held := (sw_key_held (dk_win d))[i := False]\<rparr>,
    dk_in := (dk_in d)\<lparr>pwr_events := pwr_events (dk_in d) @ [if sw_pwr_long_sent (dk_win d) then 3 else 1]\<rparr>\<rparr>"
proof -
  let ?P = "\<lambda>d'. sw_button (dk_win d') = sw_button (dk_win d)"
  have i: "i < nub_count (dk_win d)" "key_matches (sw_button (dk_win d) i) ks" "b_action (sw_button (dk_win d) i) = ACT_PWR"
    using o by (auto simp: only_pwr_def)
  have "key_up ks d = (if key_matches (sw_button (dk_win d) i) ks then release_key i d else d)"
    unfolding key_up_def by (rule fold_single [where P = ?P]) (use o i in \<open>auto simp: only_pwr_def\<close>)
  with i h m show ?thesis by (simp add: release_key_def release_action_def Let_def)
qed

text \<open>
  Property C27. A key press of the power button tells the firmware exactly its edges: one
  event 1 for a short press; the events 2 and then 3 when some frame before the release came a
  second and a half after the press, however many such frames there were.
\<close>

theorem window_pwr_edges:
  assumes "quiet d" and "only_pwr (dk_win d) ks i"
    and "run_window (([(t0, KeyDown ks False)], t0) # map (\<lambda>n. ([], n)) ns @ [([(t1, KeyUp ks)], t1)]) d = (go, d')"
  shows "go \<and> quiet d' \<and> pwr_events (dk_in d') = pwr_events (dk_in d) @ (if \<exists>n \<in> set ns. 1500 \<le> n - t0 then [2, 3] else [1])"
proof -
  let ?w = "dk_win d"
  have i: "i < nub_count ?w" "b_action (sw_button ?w i) = ACT_PWR" "i < length (sw_key_held ?w)"
    using assms(1,2) by (auto simp: only_pwr_def quiet_def)
  define d1 where "d1 = d\<lparr>dk_win := ?w\<lparr>sw_key_held := (sw_key_held ?w)[i := True], sw_pwr_flash := 10,
    sw_pwr_down_at := t0, sw_pwr_long_sent := False\<rparr>\<rparr>"
  have kd: "key_down t0 ks False d = (True, d1)" unfolding d1_def by (rule press_pwr_key [OF assms(1,2)])
  have held: "pwr_is_held (dk_win d1)" using i by (auto simp: pwr_is_held_def holds_def d1_def list_ex_iff)
  have fold: "fold pwr_tick ns (pwr_tick t0 d1) = fold pwr_tick (t0 # ns) d1" by simp
  obtain f where ticks: "fold pwr_tick (t0 # ns) d1 = d1\<lparr>
       dk_win := (dk_win d1)\<lparr>sw_pwr_flash := f, sw_pwr_long_sent := (\<exists>n \<in> set ns. 1500 \<le> n - t0)\<rparr>,
       dk_in := (dk_in d1)\<lparr>pwr_events := pwr_events (dk_in d1) @ (if \<exists>n \<in> set ns. 1500 \<le> n - t0 then [2] else [])\<rparr>\<rparr>"
    using pwr_ticks [OF held, of "t0 # ns"] by (auto simp: d1_def PWR_LONG_MS_def)
  define d2 where "d2 = fold pwr_tick (t0 # ns) d1"
  have d2: "dk_win d2 = (dk_win d1)\<lparr>sw_pwr_flash := f, sw_pwr_long_sent := (\<exists>n \<in> set ns. 1500 \<le> n - t0)\<rparr>"
    "pwr_events (dk_in d2) = pwr_events (dk_in d) @ (if \<exists>n \<in> set ns. 1500 \<le> n - t0 then [2] else [])"
    unfolding d2_def ticks by (simp_all add: d1_def)
  have "only_pwr (dk_win d2) ks i" using assms(2) by (simp add: d2 d1_def only_pwr_def)
  moreover have "sw_key_held (dk_win d2) ! i" "sw_mouse_held (dk_win d2) = None"
    using i assms(1) by (simp_all add: d2 d1_def quiet_def)
  ultimately have ku: "key_up ks d2 = d2\<lparr>dk_win := (dk_win d2)\<lparr>sw_key_held := (sw_key_held (dk_win d2))[i := False]\<rparr>,
    dk_in := (dk_in d2)\<lparr>pwr_events := pwr_events (dk_in d2) @ [if sw_pwr_long_sent (dk_win d2) then 3 else 1]\<rparr>\<rparr>"
    by (rule release_pwr_key)
  define d3 where "d3 = key_up ks d2"
  have quiet3: "quiet d3" using assms(1) by (simp add: d3_def ku d2 d1_def quiet_def upd_nth)
  then have off: "\<not> pwr_is_held (dk_win d3)" by (auto simp: pwr_is_held_def quiet_def holds_def list_ex_iff)
  have "(go, d') = (True, pwr_tick t1 d3)"
    using assms(3) by (simp add: sim_window_tick_def handle_event_def kd run_window_ticks fold [simplified] d3_def d2_def)
  moreover have "quiet (pwr_tick t1 d3)" using quiet3 pwr_tick_frame(1) [of t1 d3] by (auto simp: quiet_def)
  moreover have "dk_in (pwr_tick t1 d3) = dk_in d3" using off by (simp add: pwr_tick_def Let_def)
  moreover have "pwr_events (dk_in d3) = pwr_events (dk_in d) @ (if \<exists>n \<in> set ns. 1500 \<le> n - t0 then [2, 3] else [1])"
    by (simp add: d3_def ku d2)
  ultimately show ?thesis by simp
qed

lemma desk0_quiet: "quiet desk0"
  by (auto simp: quiet_def desk0_def less_Suc_eq numeral_2_eq_2)

lemma desk0_pwr: "only_pwr (dk_win desk0) 112 1"
  by (auto simp: only_pwr_def plain_key_def SDLK_ESCAPE_def SDLK_BACKQUOTE_def SDLK_SLASH_def SDLK_h_def desk0_def
      key_matches_def pwr_button_def key_button_def less_Suc_eq numeral_2_eq_2)

theorem window_pwr_edges_witness:
  "pwr_events (dk_in (snd (run_window [([(5, KeyDown 112 False)], 5), ([], 100), ([], 1600), ([], 3300), ([(4000, KeyUp 112)], 4000)] desk0)))
     = [2, 3]"
proof -
  define r where "r = run_window [([(5, KeyDown 112 False)], 5), ([], 100), ([], 1600), ([], 3300), ([(4000, KeyUp 112)], 4000)] desk0"
  have "run_window (([(5, KeyDown 112 False)], 5) # map (\<lambda>n. ([], n)) [100, 1600, 3300] @ [([(4000, KeyUp 112)], 4000)]) desk0 = (fst r, snd r)"
    by (simp add: r_def)
  note edges = window_pwr_edges [OF desk0_quiet desk0_pwr this]
  show ?thesis unfolding r_def [symmetric] using edges by (simp add: desk0_def input_init_def)
qed

section \<open>Sessions\<close>

lemma desk_keys: "keyed desk_window 97 = {0}" "keyed desk_window 112 = {1}"
  by (auto simp: keyed_def key_matches_def pwr_button_def key_button_def less_Suc_eq numeral_2_eq_2)

text \<open>
  Property C7. The window refines its specification: from the moment it opens, whatever events
  the frames bring and whenever the power timer runs, the handlers keep one overlay at most, the
  finger, the slider and the holds of mouse and keyboard as the specification's machine does,
  end exactly when it ends, and the firmware reads the touch the machine shows.
\<close>

theorem window_refines:
  assumes "sim_window_open True (Some bd) scale = Some w" and "\<not> touch_pressed i"
    and "run_window ts \<lparr>dk_win = w, dk_in = i, dk_gpio = g\<rparr> = (go, d)"
  shows "(go \<longleftrightarrow> ctrl_run w (all_events ts) (opened NoOverlay) \<noteq> None) \<and>
    (\<forall>c. ctrl_run w (all_events ts) (opened NoOverlay) = Some c \<longrightarrow>
       abs_win (dk_win d) = c \<and> touch_pressed (dk_in d) = c_touch c \<and>
       \<not> (sw_help_open (dk_win d) \<and> sw_panel_open (dk_win d)))"
  using desk_agrees_run [OF desk_agrees_open [OF assms(1,2)] assms(3)] by (auto simp: desk_agrees_def win_inv_def)

theorem window_refines_witness:
  "abs_win (dk_win (snd (run_window [([(5, KeyDown 97 False)], 6), ([(9, OtherEvent)], 10)] desk0))) =
     (opened NoOverlay)\<lparr>c_keys := {0}\<rparr>"
proof -
  obtain go d where r: "run_window [([(5, KeyDown 97 False)], 6), ([(9, OtherEvent)], 10)]
      \<lparr>dk_win = desk_window, dk_in = input_init, dk_gpio = gpio_init\<rparr> = (go, d)" by force
  have "ctrl_run desk_window (all_events [([(5, KeyDown 97 False)], 6), ([(9, OtherEvent)], 10)]) (opened NoOverlay) =
      Some ((opened NoOverlay)\<lparr>c_keys := {0}\<rparr>)"
    by (simp add: ctrl_step_def ctrl_key_def desk_keys SDLK_ESCAPE_def SDLK_BACKQUOTE_def SDLK_SLASH_def SDLK_h_def opened_def)
  with window_refines [OF desk_window_open _ r] have "abs_win (dk_win d) = (opened NoOverlay)\<lparr>c_keys := {0}\<rparr>"
    by (simp add: input_init_def)
  then show ?thesis unfolding desk0_def r by simp
qed

text \<open>
  Property C8. What the firmware sees follows the hands: on a board whose buttons have lines of
  their own, after any session without a second left press before the release, each button's
  line (the power button apart, which has edges and no line) is on exactly while the mouse or a key holds
  it; the touch point lies on the panel while a finger is down; and while an overlay is open no
  finger, no button and no slider of a closed panel is held.
\<close>

theorem window_lines_follow_holds:
  assumes "sim_window_open True (Some bd) scale = Some w" and "0 < bd_width bd" and "0 < bd_height bd"
    and "wired_apart w" and "wf_bus d0" and "\<not> touch_pressed (dk_in d0)" and "dk_win d0 = w"
    and "\<forall>i < nub_count w. line_of (sw_button w i) \<noteq> None \<longrightarrow> \<not> line_on (sw_button w i) d0"
    and "presses_alternate False (all_events ts)" and "run_window ts d0 = (True, d)"
  shows "(\<forall>i < nub_count w. line_of (sw_button w i) \<noteq> None \<longrightarrow>
       (line_on (sw_button w i) d \<longleftrightarrow> sw_mouse_held (dk_win d) = Some i \<or> sw_key_held (dk_win d) ! i)) \<and>
    (touch_pressed (dk_in d) \<longrightarrow> 0 \<le> touch_x (dk_in d) \<and> touch_x (dk_in d) < bd_width bd \<and>
       0 \<le> touch_y (dk_in d) \<and> touch_y (dk_in d) < bd_height bd) \<and>
    (sw_help_open (dk_win d) \<or> sw_panel_open (dk_win d) \<longrightarrow>
       \<not> touch_pressed (dk_in d) \<and> sw_mouse_held (dk_win d) = None \<and> (\<forall>i < nub_count w. \<not> sw_key_held (dk_win d) ! i))"
proof -
  have bd: "sw_board w = bd" and keys: "sw_key_held w = replicate 8 False" "sw_mouse_held w = None" "\<not> sw_touching w"
    using assms(1) by (auto simp: sim_window_open_def Let_def MAX_BTN_def MAX_LAYOUT_BUTTONS_def)
  have ag: "desk_agrees w (opened NoOverlay) d0"
    using desk_agrees_open [OF assms(1), of "dk_in d0" "dk_gpio d0"] assms(6,7) by (simp add: desk_agrees_def)
  then have "nub_count w \<le> 8" using assms(7) by (simp add: desk_agrees_def win_inv_def)
  with keys assms(5,7,8) have "lines_ok d0" by (auto simp: lines_ok_def holds_def)
  with ag assms(2-4,7) bd keys have "desk_ok w (opened NoOverlay) False d0"
    by (simp add: desk_ok_def touch_ok_def opened_def)
  from desk_ok_run [OF this assms(9,10)] obtain c b where ok: "desk_ok w c b d" by blast
  then have same: "same_board (dk_win d) w" and inv: "win_inv (dk_win d)" and t: "touch_pressed (dk_in d) = sw_touching (dk_win d)"
    by (auto simp: desk_ok_def desk_agrees_def)
  have bs: "nub_count (dk_win d) = nub_count w" "sw_button (dk_win d) = sw_button w" "sw_board (dk_win d) = bd"
    using same_board_static [OF same] same bd by (simp_all add: same_board_def)
  show ?thesis
    using ok inv t bs by (auto simp: desk_ok_def lines_ok_def touch_ok_def win_inv_def holds_def)
qed

theorem window_lines_follow_holds_witness:
  "button (dk_in (snd (run_window [([(5, KeyDown 97 False)], 6), ([(9, KeyUp 112)], 10)] desk0))) ! 0"
proof -
  define ts :: "((32 word \<times> win_event) list \<times> 32 word) list" where
    "ts = [([(5, KeyDown 97 False)], 6), ([(9, KeyUp 112)], 10)]"
  obtain go d where r0: "run_window ts desk0 = (go, d)" by force
  have "ctrl_run desk_window (all_events ts) (opened NoOverlay) = Some ((opened NoOverlay)\<lparr>c_keys := {0}\<rparr>)"
    by (simp add: ts_def ctrl_step_def ctrl_key_def desk_keys SDLK_ESCAPE_def SDLK_BACKQUOTE_def SDLK_SLASH_def SDLK_h_def opened_def)
  with desk_agrees_run [OF desk_agrees_open [OF desk_window_open] r0 [unfolded desk0_def]]
  have agrees: "go" "desk_agrees desk_window ((opened NoOverlay)\<lparr>c_keys := {0}\<rparr>) d"
    by (auto simp: input_init_def)
  have r: "run_window ts desk0 = (True, d)" using r0 agrees(1) by simp
  have win: "dk_win desk0 = desk_window" by (simp add: desk0_def)
  have wired: "wired_apart desk_window"
    by (auto simp: wired_apart_def line_of_def key_button_def pwr_button_def less_Suc_eq numeral_2_eq_2)
  have bus: "wf_bus desk0" "\<not> touch_pressed (dk_in desk0)"
    "\<forall>i < nub_count desk_window. line_of (sw_button desk_window i) \<noteq> None \<longrightarrow> \<not> line_on (sw_button desk_window i) desk0"
    by (auto simp: wf_bus_def desk0_def input_init_def gpio_ok_def gpio_init_def line_of_def line_on_def key_button_def
        pwr_button_def less_Suc_eq numeral_2_eq_2)
  have alt: "presses_alternate False (all_events ts)" by (simp add: ts_def)
  have "c_keys (abs_win (dk_win d)) = {0}" using agrees(2) by (simp add: desk_agrees_def)
  then have held: "sw_key_held (dk_win d) ! 0" by (auto simp: abs_win_def)
  have "line_of (sw_button desk_window 0) \<noteq> None" by (simp add: line_of_def key_button_def)
  moreover have "0 < bd_width desk_board" "0 < bd_height desk_board" by (simp_all add: desk_board_def)
  note lines = window_lines_follow_holds [OF desk_window_open this wired bus(1,2) win bus(3) alt r]
  ultimately have "line_on (sw_button desk_window 0) d" using held lines [THEN conjunct1, rule_format, of 0] by simp
  then have "line_on key_button d" by simp
  then show ?thesis unfolding ts_def [symmetric] r by (simp add: line_on_def key_button_def)
qed

end
