(* ===== verification/WindowDraw.thy ===== *)
theory WindowDraw
  imports WindowSession Framebuffer
begin

unbundle bit_operations_syntax

text \<open>
  What a frame of the device window paints (\<^verbatim>\<open>sim_window.cpp\<close>): the chrome font, the rounded
  rectangles and labels, and the frame body of \<^verbatim>\<open>sim_window_tick\<close>, each as the list of calls it
  makes on the renderer, in order. SDL itself is outside: a call is kept with its arguments, and
  \<open>covers\<close> says which points its rectangle or line names.
\<close>

section \<open>The renderer's calls\<close>

type_synonym SDL_Color = "int \<times> int \<times> int \<times> int"

datatype sdl_call =
    SetColor SDL_Color
  | Clear
  | FillRect WinRect
  | DrawRect WinRect
  | DrawLine int int int int
  | UpdateTexture "16 word list" int \<comment> \<open>the pixels and the pitch in bytes\<close>
  | RenderCopy WinRect
  | BlendMode bool
  | WritePng string int int \<comment> \<open>the renderer's pixels, read back, with their size\<close>
  | Present
  | Delay int

fun covers :: "sdl_call \<Rightarrow> int \<Rightarrow> int \<Rightarrow> bool" where
  "covers Clear x y = True"
| "covers (FillRect r) x y = win_rect_contains r x y"
| "covers (DrawRect r) x y = win_rect_contains r x y"
| "covers (DrawLine a b c d) x y = (min a c \<le> x \<and> x \<le> max a c \<and> min b d \<le> y \<and> y \<le> max b d)"
| "covers (RenderCopy r) x y = win_rect_contains r x y"
| "covers _ x y = False"

section \<open>Text\<close>

text \<open>Seven rows of five columns, bit 4 the leftmost.\<close>

definition FONT :: "(char \<times> 8 word list) list" where
  "FONT =
    [(CHR ''0'', [0x0E,0x11,0x13,0x15,0x19,0x11,0x0E]), (CHR ''1'', [0x04,0x0C,0x04,0x04,0x04,0x04,0x0E]),
     (CHR ''2'', [0x0E,0x11,0x01,0x02,0x04,0x08,0x1F]), (CHR ''3'', [0x1F,0x02,0x04,0x02,0x01,0x11,0x0E]),
     (CHR ''4'', [0x02,0x06,0x0A,0x12,0x1F,0x02,0x02]), (CHR ''5'', [0x1F,0x10,0x1E,0x01,0x01,0x11,0x0E]),
     (CHR ''6'', [0x06,0x08,0x10,0x1E,0x11,0x11,0x0E]), (CHR ''7'', [0x1F,0x01,0x02,0x04,0x08,0x08,0x08]),
     (CHR ''8'', [0x0E,0x11,0x11,0x0E,0x11,0x11,0x0E]), (CHR ''9'', [0x0E,0x11,0x11,0x0F,0x01,0x02,0x0C]),
     (CHR ''A'', [0x0E,0x11,0x11,0x1F,0x11,0x11,0x11]), (CHR ''B'', [0x1E,0x11,0x11,0x1E,0x11,0x11,0x1E]),
     (CHR ''C'', [0x0E,0x11,0x10,0x10,0x10,0x11,0x0E]), (CHR ''D'', [0x1C,0x12,0x11,0x11,0x11,0x12,0x1C]),
     (CHR ''E'', [0x1F,0x10,0x10,0x1E,0x10,0x10,0x1F]), (CHR ''F'', [0x1F,0x10,0x10,0x1E,0x10,0x10,0x10]),
     (CHR ''G'', [0x0E,0x11,0x10,0x17,0x11,0x11,0x0F]), (CHR ''H'', [0x11,0x11,0x11,0x1F,0x11,0x11,0x11]),
     (CHR ''I'', [0x0E,0x04,0x04,0x04,0x04,0x04,0x0E]), (CHR ''J'', [0x07,0x02,0x02,0x02,0x02,0x12,0x0C]),
     (CHR ''K'', [0x11,0x12,0x14,0x18,0x14,0x12,0x11]), (CHR ''L'', [0x10,0x10,0x10,0x10,0x10,0x10,0x1F]),
     (CHR ''M'', [0x11,0x1B,0x15,0x15,0x11,0x11,0x11]), (CHR ''N'', [0x11,0x19,0x15,0x13,0x11,0x11,0x11]),
     (CHR ''O'', [0x0E,0x11,0x11,0x11,0x11,0x11,0x0E]), (CHR ''P'', [0x1E,0x11,0x11,0x1E,0x10,0x10,0x10]),
     (CHR ''Q'', [0x0E,0x11,0x11,0x11,0x15,0x12,0x0D]), (CHR ''R'', [0x1E,0x11,0x11,0x1E,0x14,0x12,0x11]),
     (CHR ''S'', [0x0F,0x10,0x10,0x0E,0x01,0x01,0x1E]), (CHR ''T'', [0x1F,0x04,0x04,0x04,0x04,0x04,0x04]),
     (CHR ''U'', [0x11,0x11,0x11,0x11,0x11,0x11,0x0E]), (CHR ''V'', [0x11,0x11,0x11,0x11,0x11,0x0A,0x04]),
     (CHR ''W'', [0x11,0x11,0x11,0x15,0x15,0x1B,0x11]), (CHR ''X'', [0x11,0x11,0x0A,0x04,0x0A,0x11,0x11]),
     (CHR ''Y'', [0x11,0x11,0x0A,0x04,0x04,0x04,0x04]), (CHR ''Z'', [0x1F,0x01,0x02,0x04,0x08,0x10,0x1F]),
     (CHR ''%'', [0x18,0x19,0x02,0x04,0x08,0x13,0x03]), (CHR ''('', [0x02,0x04,0x08,0x08,0x08,0x04,0x02]),
     (CHR '')'', [0x08,0x04,0x02,0x02,0x02,0x04,0x08]), (CHR '':'', [0x00,0x00,0x04,0x00,0x04,0x00,0x00]),
     (CHR ''.'', [0x00,0x00,0x00,0x00,0x00,0x00,0x04]), (CHR 0x60, [0x08,0x04,0x00,0x00,0x00,0x00,0x00]),
     (CHR ''?'', [0x0E,0x11,0x01,0x02,0x04,0x00,0x04])]"

definition glyph :: "char \<Rightarrow> 8 word list option" where
  "glyph c = map_of FONT (upper_char c)"

definition glyph_cells :: "int \<Rightarrow> int \<Rightarrow> 8 word list \<Rightarrow> int \<Rightarrow> sdl_call list" where
  "glyph_cells cx y g px =
     concat (map (\<lambda>row. concat (map (\<lambda>col.
       if g ! row AND push_bit (4 - col) 1 \<noteq> 0
       then [FillRect (rect (cx + int col * px) (y + int row * px) px px)] else []) [0..<5])) [0..<7])"

fun draw_text :: "int \<Rightarrow> int \<Rightarrow> string \<Rightarrow> int \<Rightarrow> sdl_call list" where
  "draw_text cx y [] px = []"
| "draw_text cx y (c # s) px =
     (case glyph c of None \<Rightarrow> [] | Some g \<Rightarrow> glyph_cells cx y g px) @ draw_text (cx + 6 * px) y s px"

definition draw_labeled :: "WinRect \<Rightarrow> string \<Rightarrow> bool \<Rightarrow> int \<Rightarrow> sdl_call list" where
  "draw_labeled r label on px =
     (if r_w r \<le> 0 \<or> r_h r \<le> 0 then []
      else (let tw = text_w label px; th = 7 * px
            in [SetColor (if on then (92, 122, 92, 255) else (58, 60, 66, 255)), FillRect r,
                SetColor (140, 142, 150, 255), DrawRect r]
               @ (if r_w r < tw \<or> r_h r < th then []
                  else SetColor (232, 232, 238, 255)
                    # draw_text (r_x r + cdiv (r_w r - tw) 2) (r_y r + cdiv (r_h r - th) 2) label px)))"

section \<open>Shapes\<close>

text \<open>\<open>round_sqrt n\<close>: \<^verbatim>\<open>lround(sqrt(n))\<close>, the number of halves \<open>m + 1/2\<close> not above the root.\<close>

definition round_sqrt :: "int \<Rightarrow> int" where
  "round_sqrt n = int (length (takeWhile (\<lambda>m. (2 * int m + 1)\<^sup>2 \<le> 4 * n) [0..<nat (n + 1)]))"

definition fill_circle :: "int \<Rightarrow> int \<Rightarrow> int \<Rightarrow> sdl_call list" where
  "fill_circle cx cy radius =
     map (\<lambda>dy. let dx = round_sqrt (radius * radius - dy * dy)
               in DrawLine (cx - dx) (cy + dy) (cx + dx) (cy + dy)) [- radius..radius]"

definition draw_rounded_rect :: "WinRect \<Rightarrow> int \<Rightarrow> SDL_Color \<Rightarrow> SDL_Color \<Rightarrow> sdl_call list" where
  "draw_rounded_rect r radius fill bg =
     [SetColor fill, FillRect r]
     @ (if radius \<le> 0 \<or> r_w r < radius * 2 \<or> r_h r < radius * 2 then []
        else (let x0 = r_x r; x1 = r_x r + r_w r - radius; y0 = r_y r; y1 = r_y r + r_h r - radius;
                  boxes = [rect x0 y0 radius radius, rect x1 y0 radius radius,
                    rect x0 y1 radius radius, rect x1 y1 radius radius];
                  centers = [(r_x r + radius, r_y r + radius), (x1, r_y r + radius),
                    (r_x r + radius, y1), (x1, y1)]
              in SetColor bg # map FillRect boxes @ SetColor fill
                 # concat (map (\<lambda>(cx, cy). fill_circle cx cy radius) centers)))"

fun outline_loop :: "WinRect \<Rightarrow> int list \<Rightarrow> sdl_call list" where
  "outline_loop r [] = []"
| "outline_loop r (t # ts) =
     (let rr = rect (r_x r + t) (r_y r + t) (r_w r - 2 * t) (r_h r - 2 * t)
      in if r_w rr \<le> 0 \<or> r_h rr \<le> 0 then [] else DrawRect rr # outline_loop r ts)"

definition draw_outline :: "WinRect \<Rightarrow> int \<Rightarrow> SDL_Color \<Rightarrow> sdl_call list" where
  "draw_outline r thickness c = SetColor c # outline_loop r [0..thickness - 1]"

definition kBezelFill :: SDL_Color where "kBezelFill = (26, 27, 30, 255)"
definition kBezelOutline :: SDL_Color where "kBezelOutline = (58, 60, 66, 255)"
definition kGutter :: SDL_Color where "kGutter = (0, 0, 0, 255)"
definition kNubIdle :: SDL_Color where "kNubIdle = (44, 46, 51, 255)"
definition kNubHover :: SDL_Color where "kNubHover = (74, 76, 82, 255)"
definition kNubActive :: SDL_Color where "kNubActive = (92, 122, 92, 255)"
definition kNubOutline :: SDL_Color where "kNubOutline = (106, 109, 117, 255)"
definition kTooltipBg :: SDL_Color where "kTooltipBg = (16, 17, 20, 255)"
definition kTooltipText :: SDL_Color where "kTooltipText = (232, 232, 238, 255)"

section \<open>A frame\<close>

text \<open>The device: bezel, gutter and the framebuffer on the screen's rectangle.\<close>

definition draw_bezel :: "WindowLayout \<Rightarrow> rat \<Rightarrow> sdl_call list" where
  "draw_bezel l dpr =
     (let win_px = to_px (wl_window l) dpr; s = wl_screen l
      in [SetColor (0, 0, 0, 255), Clear]
         @ draw_rounded_rect win_px (scale_len 10 dpr) kBezelFill kGutter
         @ draw_outline win_px (scale_len 1 dpr) kBezelOutline
         @ [SetColor kGutter, FillRect (to_px (rect (r_x s - 2) (r_y s - 2) (r_w s + 4) (r_h s + 4)) dpr)])"

definition draw_nub :: "desk \<Rightarrow> rat \<Rightarrow> nat option \<Rightarrow> nat \<Rightarrow> sdl_call list" where
  "draw_nub d dpr hover i =
     (let w = dk_win d;
          fill = (if is_active d (sw_button w i) then kNubActive else if hover = Some i then kNubHover else kNubIdle);
          body_px = to_px (nb_body (wl_nubs (sw_layout w) ! i)) dpr
      in draw_rounded_rect body_px (scale_len 3 dpr) fill kBezelFill
         @ draw_outline body_px (scale_len 1 dpr) kNubOutline)"

definition draw_more :: "SimWindow \<Rightarrow> rat \<Rightarrow> sdl_call list" where
  "draw_more w dpr =
     (if \<not> has_panel w then []
      else (let more_px = to_px (wl_more_nub (sw_layout w)) dpr;
                fill = (if sw_panel_open w then kNubActive
                  else if win_rect_contains (wl_more_nub (sw_layout w)) (sw_mouse_x w) (sw_mouse_y w)
                  then kNubHover else kNubIdle);
                dotr = max 1 (scale_len 1 dpr); cy = r_y more_px + cdiv (r_h more_px) 2
            in draw_rounded_rect more_px (scale_len 3 dpr) fill kBezelFill
               @ draw_outline more_px (scale_len 1 dpr) kNubOutline @ [SetColor kTooltipText]
               @ map (\<lambda>k. FillRect (rect (r_x more_px + cdiv (r_w more_px * k) 4 - dotr) (cy - dotr) (dotr * 2) (dotr * 2)))
                   [1, 2, 3]))"

definition draw_tooltip :: "SimWindow \<Rightarrow> rat \<Rightarrow> nat option \<Rightarrow> sdl_call list" where
  "draw_tooltip w dpr hover = (case hover of None \<Rightarrow> []
   | Some i \<Rightarrow>
      (let n = wl_nubs (sw_layout w) ! i; label = button_text (sw_button w i);
           px = scale_len 2 dpr; pad = scale_len 6 dpr; gap = scale_len 4 dpr;
           tw = text_w label px + 2 * pad; th = 7 * px + 2 * pad;
           bubble = tooltip (to_px (wl_window (sw_layout w)) dpr) (to_px (nb_body n) dpr) (nb_edge n) gap tw th
       in [SetColor kTooltipBg, FillRect bubble, SetColor kTooltipText]
          @ draw_text (r_x bubble + pad) (r_y bubble + pad) label px))"

definition draw_card :: "WinRect \<Rightarrow> sdl_call list" where
  "draw_card cd = [SetColor kBezelFill, FillRect cd, SetColor kBezelOutline, DrawRect cd]"

fun draw_lines :: "int \<Rightarrow> int \<Rightarrow> int \<Rightarrow> string list \<Rightarrow> int \<Rightarrow> sdl_call list" where
  "draw_lines x ty line_h [] px = []"
| "draw_lines x ty line_h (s # ss) px = draw_text x ty s px @ draw_lines x (ty + line_h) line_h ss px"

definition draw_help :: "SimWindow \<Rightarrow> rat \<Rightarrow> sdl_call list" where
  "draw_help w dpr =
     (let cd = to_px (help_card w) dpr; px = scale_len 2 dpr; pad = scale_len HELP_CARD_PAD dpr
      in [BlendMode True, SetColor (0, 0, 0, 153), FillRect (to_px (wl_window (sw_layout w)) dpr), BlendMode False]
         @ draw_card cd @ [SetColor kTooltipText]
         @ draw_lines (r_x cd + pad) (r_y cd + pad) (7 * px + scale_len 6 dpr) (help_lines w) px)"

text \<open>The battery bar with its percentage, then the buttons of the panel.\<close>

definition draw_battery :: "int \<Rightarrow> PanelLayout \<Rightarrow> rat \<Rightarrow> int \<Rightarrow> sdl_call list" where
  "draw_battery level p dpr px =
     (let pct = (if level < 0 then 0 else if 100 < level then 100 else level);
          bar = to_px (pl_bat_bar p) dpr; inset = scale_len 2 dpr;
          fill = rect (r_x bar + inset) (r_y bar + inset) (cdiv ((r_w bar - 2 * inset) * pct) 100) (r_h bar - 2 * inset)
      in [SetColor (120, 122, 130, 255), DrawRect bar,
          SetColor (if pct \<le> 10 then (200, 60, 50, 255) else if pct \<le> 20 then (210, 150, 40, 255) else (90, 170, 90, 255)),
          FillRect fill]
         @ (if 0 < r_w (pl_bat_pct p)
            then (let pctr = to_px (pl_bat_pct p) dpr
                  in SetColor (220, 220, 228, 255)
                     # draw_text (r_x pctr) (r_y pctr) (take 7 (int_to_string pct @ ''%'')) px)
            else []))"

definition draw_panel :: "desk \<Rightarrow> rat \<Rightarrow> sdl_call list" where
  "draw_panel d dpr =
     (let w = dk_win d; i = dk_in d; p = layout_panel (sw_layout w) (sw_has_battery w) (sw_has_rotation w);
          px = scale_len 2 dpr
      in draw_card (to_px (layout_panel_card (sw_layout w)) dpr)
         @ (if sw_has_battery w \<and> 0 < r_w (pl_bat_bar p) then draw_battery (battery_pct i) p dpr px else [])
         @ (if sw_has_battery w
            then draw_labeled (to_px (pl_chg_btn p) dpr) ''CHG'' (charging i) px
              @ draw_labeled (to_px (pl_usb_btn p) dpr) ''USB'' (vbus i) px
            else [])
         @ (if sw_has_rotation w
            then draw_labeled (to_px (pl_rot_btn p) dpr) (take 3 (''R'' @ int_to_string (quadrant i))) False px
            else []))"

definition draw_controls :: "desk \<Rightarrow> rat \<Rightarrow> sdl_call list" where
  "draw_controls d dpr =
     (let w = dk_win d; hover = hover_nub w (sw_mouse_x w) (sw_mouse_y w)
      in concat (map (draw_nub d dpr hover) [0..<nub_count w]) @ draw_more w dpr @ draw_tooltip w dpr hover
         @ (if sw_help_open w then draw_help w dpr else if sw_panel_open w then draw_panel d dpr else []))"

definition draw_window :: "16 word list \<Rightarrow> desk \<Rightarrow> rat \<Rightarrow> sdl_call list" where
  "draw_window fb d dpr =
     (let w = dk_win d
      in draw_bezel (sw_layout w) dpr
         @ [UpdateTexture fb (bd_width (sw_board w) * 2), RenderCopy (to_px (wl_screen (sw_layout w)) dpr)]
         @ draw_controls d dpr)"

text \<open>
  The whole of \<^verbatim>\<open>sim_window_tick\<close>. \<open>canvas\<close>: the sizes SDL reports, whether the pixels can be read
  back, and whether the renderer waits for the display; \<open>capture\<close>: \<^verbatim>\<open>capture_path\<close>.
\<close>

record canvas =
  cn_win_w :: int
  cn_draw_w :: int
  cn_draw_h :: int
  cn_reads :: bool
  cn_vsync :: bool

definition pixel_ratio :: "canvas \<Rightarrow> rat" where
  "pixel_ratio c = (if 0 < cn_win_w c then f_div (f_int (cn_draw_w c)) (f_int (cn_win_w c)) else 1)"

definition draw_capture :: "canvas \<Rightarrow> string \<Rightarrow> sdl_call list" where
  "draw_capture c capture =
     (if capture \<noteq> [] \<and> 0 < cn_draw_w c \<and> 0 < cn_draw_h c \<and> cn_reads c
      then [WritePng capture (cn_draw_w c) (cn_draw_h c)] else [])"

definition sim_window_request_capture :: "string option \<Rightarrow> string \<Rightarrow> string" where
  "sim_window_request_capture path capture = (case path of None \<Rightarrow> capture | Some p \<Rightarrow> p)"

definition window_tick :: "canvas \<Rightarrow> 16 word list \<Rightarrow> (32 word \<times> win_event) list \<Rightarrow> 32 word \<Rightarrow> desk \<times> string
    \<Rightarrow> bool \<times> sdl_call list \<times> desk \<times> string" where
  "window_tick c fb es now s = (case sim_window_tick es now (fst s) of
     (go, d) \<Rightarrow>
       if \<not> go then (False, [], d, snd s)
       else (True, draw_window fb d (pixel_ratio c) @ draw_capture c (snd s) @ [Present]
              @ (if cn_vsync c then [] else [Delay 15]), d, []))"


section \<open>Where the calls paint\<close>

definition call_keeps :: "WinRect \<Rightarrow> sdl_call \<Rightarrow> bool" where
  "call_keeps r c \<longleftrightarrow> (\<forall>x y. covers c x y \<longrightarrow> win_rect_contains r x y)"

definition keeps_to :: "WinRect \<Rightarrow> sdl_call list \<Rightarrow> bool" where
  "keeps_to r cs \<longleftrightarrow> (\<forall>c \<in> set cs. call_keeps r c)"

lemma keeps_simps [simp]:
  "keeps_to r []" "keeps_to r (c # cs) \<longleftrightarrow> call_keeps r c \<and> keeps_to r cs"
  "keeps_to r (as @ bs) \<longleftrightarrow> keeps_to r as \<and> keeps_to r bs"
  "keeps_to r (concat css) \<longleftrightarrow> (\<forall>cs \<in> set css. keeps_to r cs)"
  "call_keeps r (SetColor col)" "call_keeps r (BlendMode b)"
  by (auto simp: keeps_to_def call_keeps_def)

definition rect_le :: "WinRect \<Rightarrow> WinRect \<Rightarrow> bool" where
  "rect_le a b \<longleftrightarrow> r_x b \<le> r_x a \<and> r_y b \<le> r_y a \<and> r_x a + r_w a \<le> r_x b + r_w b \<and> r_y a + r_h a \<le> r_y b + r_h b"

lemma call_keeps_rects:
  "rect_le a r \<Longrightarrow> call_keeps r (FillRect a)" "rect_le a r \<Longrightarrow> call_keeps r (DrawRect a)"
  by (auto simp: call_keeps_def rect_le_def win_rect_contains_def)

lemma keeps_mono: "keeps_to a cs \<Longrightarrow> rect_le a b \<Longrightarrow> keeps_to b cs"
  by (fastforce simp: keeps_to_def call_keeps_def rect_le_def win_rect_contains_def)

lemma glyph_cells_within: "0 < px \<Longrightarrow> keeps_to (rect cx y (5 * px) (7 * px)) (glyph_cells cx y g px)"
proof -
  assume px: "0 < px"
  have "call_keeps (rect cx y (5 * px) (7 * px)) (FillRect (rect (cx + int col * px) (y + int row * px) px px))"
    if "row < 7" "col < 5" for row col
  proof (rule call_keeps_rects)
    have "int col * px \<le> 4 * px" "int row * px \<le> 6 * px" using px that by simp_all
    then show "rect_le (rect (cx + int col * px) (y + int row * px) px px) (rect cx y (5 * px) (7 * px))"
      using px by (simp add: rect_le_def)
  qed
  then show ?thesis by (auto simp: glyph_cells_def)
qed

text \<open>A text keeps to its box, \<^verbatim>\<open>text_w\<close> wide and seven pixels of its scale high.\<close>

lemma draw_text_within: "0 < px \<Longrightarrow> keeps_to (rect x y (text_w s px) (7 * px)) (draw_text x y s px)"
proof (induction s arbitrary: x)
  case (Cons c s)
  have w: "text_w (c # s) px = 6 * px + text_w s px" "0 \<le> text_w s px"
    using Cons.prems by (simp_all add: text_w_def algebra_simps)
  have "keeps_to (rect x y (text_w (c # s) px) (7 * px)) (glyph_cells x y g px)" for g
    by (rule keeps_mono [OF glyph_cells_within [OF Cons.prems]]) (use w Cons.prems in \<open>simp add: rect_le_def\<close>)
  moreover have "keeps_to (rect x y (text_w (c # s) px) (7 * px)) (draw_text (x + 6 * px) y s px)"
    by (rule keeps_mono [OF Cons.IH [OF Cons.prems]]) (use w Cons.prems in \<open>simp add: rect_le_def\<close>)
  ultimately show ?case by (simp split: option.split)
qed simp

text \<open>So does a label: it is left out where it does not fit.\<close>

lemma draw_labeled_within: "0 < px \<Longrightarrow> keeps_to r (draw_labeled r label on px)"
proof -
  assume px: "0 < px"
  let ?tw = "text_w label px"
  have "keeps_to r (draw_text (r_x r + cdiv (r_w r - ?tw) 2) (r_y r + cdiv (r_h r - 7 * px) 2) label px)"
    if "?tw \<le> r_w r" "7 * px \<le> r_h r"
    by (rule keeps_mono [OF draw_text_within [OF px]]) (use that in \<open>simp add: rect_le_def cdiv_nonneg, linarith\<close>)
  moreover have "rect_le r r" by (simp add: rect_le_def)
  ultimately show ?thesis
    by (simp add: draw_labeled_def Let_def call_keeps_rects)
qed

lemma round_sqrt_le: "0 \<le> radius \<Longrightarrow> n \<le> radius * radius \<Longrightarrow> 0 \<le> round_sqrt n \<and> round_sqrt n \<le> radius"
proof -
  assume r: "0 \<le> radius" "n \<le> radius * radius"
  let ?P = "\<lambda>m. (2 * int m + 1)\<^sup>2 \<le> 4 * n"
  have "length (takeWhile ?P [0..<k]) \<le> nat radius" for k
  proof (rule ccontr)
    assume a: "\<not> length (takeWhile ?P [0..<k]) \<le> nat radius"
    then have "nat radius < length (takeWhile ?P [0..<k])" by simp
    moreover from this have "nat radius < k" using length_takeWhile_le [of ?P "[0..<k]"] by simp
    ultimately have "?P (nat radius)"
      using nth_mem [of "nat radius" "takeWhile ?P [0..<k]"] takeWhile_nth [of "nat radius" ?P "[0..<k]"]
      by (auto dest!: set_takeWhileD)
    then have "(2 * radius + 1)\<^sup>2 \<le> 4 * n" using r(1) by simp
    with r show False by (simp add: power2_eq_square algebra_simps)
  qed
  from this [of "nat (n + 1)"] r(1) show ?thesis by (simp add: round_sqrt_def le_nat_iff)
qed

lemma fill_circle_within:
  assumes "0 \<le> radius"
  shows "keeps_to (rect (cx - radius) (cy - radius) (2 * radius + 1) (2 * radius + 1)) (fill_circle cx cy radius)"
proof -
  have dx: "0 \<le> round_sqrt (radius * radius - dy * dy)" "round_sqrt (radius * radius - dy * dy) \<le> radius" for dy
    using round_sqrt_le [OF assms, of "radius * radius - dy * dy"] by simp_all
  show ?thesis
    unfolding keeps_to_def call_keeps_def
  proof (intro ballI allI impI)
    fix c x y assume "c \<in> set (fill_circle cx cy radius)" "covers c x y"
    then obtain dy where "- radius \<le> dy" "dy \<le> radius"
        "covers (DrawLine (cx - round_sqrt (radius * radius - dy * dy)) (cy + dy)
           (cx + round_sqrt (radius * radius - dy * dy)) (cy + dy)) x y"
      by (auto simp: fill_circle_def Let_def simp del: covers.simps)
    with dx [of dy] show "win_rect_contains (rect (cx - radius) (cy - radius) (2 * radius + 1) (2 * radius + 1)) x y"
      by (simp add: win_rect_contains_def)
  qed
qed

text \<open>The corner circles of a rounded rectangle reach one pixel past its right and bottom sides.\<close>

lemma draw_rounded_within:
  "keeps_to (rect (r_x r) (r_y r) (r_w r + 1) (r_h r + 1)) (draw_rounded_rect r radius fill bg)"
proof (cases "radius \<le> 0 \<or> r_w r < radius * 2 \<or> r_h r < radius * 2")
  case True
  then show ?thesis by (auto simp: draw_rounded_rect_def rect_le_def intro: call_keeps_rects)
next
  case False
  let ?R = "rect (r_x r) (r_y r) (r_w r + 1) (r_h r + 1)"
  have c: "keeps_to ?R (fill_circle cx cy radius)"
    if "r_x r + radius \<le> cx" "cx + radius \<le> r_x r + r_w r" "r_y r + radius \<le> cy" "cy + radius \<le> r_y r + r_h r" for cx cy
    by (rule keeps_mono [OF fill_circle_within]) (use False that in \<open>auto simp: rect_le_def\<close>)
  have b: "call_keeps ?R (FillRect (rect x y radius radius))"
    if "r_x r \<le> x" "x + radius \<le> r_x r + r_w r" "r_y r \<le> y" "y + radius \<le> r_y r + r_h r" for x y
    by (rule call_keeps_rects) (use that in \<open>simp add: rect_le_def\<close>)
  have r: "call_keeps ?R (FillRect r)" by (rule call_keeps_rects) (simp add: rect_le_def)
  show ?thesis using False b c r
    by (simp add: draw_rounded_rect_def Let_def)
qed

lemma outline_within: "\<forall>t \<in> set ts. 0 \<le> t \<Longrightarrow> keeps_to r (outline_loop r ts)"
  by (induction r ts rule: outline_loop.induct)
    (auto simp: Let_def rect_le_def intro!: call_keeps_rects)

lemma draw_outline_within: "keeps_to r (draw_outline r thickness c)"
  by (simp add: draw_outline_def outline_within)

section \<open>Points and pixels\<close>

definition px_at :: "int \<Rightarrow> rat \<Rightarrow> int" where
  "px_at v dpr = c_lround (f_mul (f_int v) dpr)"

lemma to_px_px: "to_px r dpr = rect (px_at (r_x r) dpr) (px_at (r_y r) dpr)
    (px_at (r_x r + r_w r) dpr - px_at (r_x r) dpr) (px_at (r_y r + r_h r) dpr - px_at (r_y r) dpr)"
  by (simp add: to_px_def px_at_def Let_def)

lemma scale_len_px: "scale_len v dpr = max 1 (px_at v dpr)"
  by (simp add: scale_len_def px_at_def)

text \<open>Rounding moves a coordinate by less than a pixel.\<close>

lemma px_near:
  assumes "0 \<le> v" and "1 \<le> dpr" and "of_int v * dpr < 16777216"
  shows "of_int v * dpr - 1 \<le> of_int (px_at v dpr)" and "of_int (px_at v dpr) \<le> of_int v * dpr + 1"
proof -
  let ?x = "of_int v * dpr"
  have "of_int v * 1 \<le> ?x" using assms by (intro mult_left_mono) simp_all
  then have v: "0 \<le> ?x" "v < 16777216" using assms by (auto intro: mult_nonneg_nonneg)
  have "of_int \<lfloor>?x\<rfloor> \<le> f32 ?x" by (rule f32_ge_int [OF v(1) assms(3)]) simp
  moreover have "f32 ?x \<le> of_int \<lceil>?x\<rceil>" by (rule f32_le_int [OF v(1) assms(3)]) simp
  moreover have "px_at v dpr = \<lfloor>f32 ?x + 1 / 2\<rfloor>"
    using v f32_ge_int [OF v(1) assms(3), of 0] by (simp add: px_at_def f_mul_def f_int_exact assms(1) c_lround_def)
  ultimately have "\<lfloor>?x\<rfloor> \<le> px_at v dpr" "px_at v dpr \<le> \<lceil>?x\<rceil>" by linarith+
  then have "of_int \<lfloor>?x\<rfloor> \<le> (of_int (px_at v dpr) :: rat)" "of_int (px_at v dpr) \<le> (of_int \<lceil>?x\<rceil> :: rat)"
    by (simp_all only: of_int_le_iff)
  moreover have "?x < of_int \<lfloor>?x\<rfloor> + 1" "of_int \<lceil>?x\<rceil> < ?x + 1" by linarith+
  ultimately show "?x - 1 \<le> of_int (px_at v dpr)" "of_int (px_at v dpr) \<le> ?x + 1" by linarith+
qed

text \<open>So points some distance apart stay apart, with room for \<open>k\<close> pixels between them.\<close>

lemma px_gap:
  assumes "0 \<le> a" and "a + (k + 2) \<le> b" and "0 \<le> k" and "1 \<le> dpr" and "of_int b * dpr < 16777216"
  shows "px_at a dpr + k \<le> px_at b dpr"
proof -
  have "(of_int a + of_int (k + 2)) * dpr \<le> of_int b * dpr"
    using assms by (intro mult_right_mono) (simp_all flip: of_int_add)
  moreover have "of_int (k + 2) * 1 \<le> of_int (k + 2) * dpr" using assms by (intro mult_left_mono) simp_all
  ultimately have "of_int a * dpr + of_int (k + 2) \<le> of_int b * dpr" by (simp add: algebra_simps)
  moreover from this have "of_int a * dpr < 16777216" using assms(3,5) by (simp add: algebra_simps)
  ultimately have "of_int (px_at a dpr + k) \<le> (of_int (px_at b dpr) :: rat)"
    using px_near(2) [OF assms(1,4)] px_near(1) [OF _ assms(4,5)] assms(1,2,3) by (simp add: algebra_simps)
  then show ?thesis by (simp only: of_int_le_iff)
qed

text \<open>At a whole ratio the pixels are exact.\<close>

lemma px_at_int:
  assumes "0 \<le> v" and "1 \<le> k" and "v * k < 16777216"
  shows "px_at v (of_int k) = v * k"
proof -
  have "v * 1 \<le> v * k" using assms by (intro mult_left_mono) simp_all
  then have "f_mul (f_int v) (of_int k) = of_int (v * k)"
    using assms f_int_exact [of "v * k", unfolded f_int_def] f_int_exact [of v, unfolded f_int_def]
    by (simp add: f_mul_def f_int_def)
  moreover have "\<lfloor>rat_of_int (v * k) + 1 / 2\<rfloor> = v * k" by linarith
  moreover have "0 \<le> rat_of_int (v * k)" using assms by (simp only: of_int_0_le_iff) simp
  ultimately show ?thesis by (simp only: px_at_def c_lround_def if_True)
qed

definition rect_apart :: "WinRect \<Rightarrow> WinRect \<Rightarrow> bool" where
  "rect_apart a b \<longleftrightarrow> r_x a + r_w a \<le> r_x b \<or> r_x b + r_w b \<le> r_x a \<or> r_y a + r_h a \<le> r_y b \<or> r_y b + r_h b \<le> r_y a"

lemma keeps_apart:
  "keeps_to a cs \<Longrightarrow> rect_apart a b \<Longrightarrow> \<forall>c \<in> set cs. \<forall>x y. covers c x y \<longrightarrow> \<not> win_rect_contains b x y"
  by (fastforce simp: keeps_to_def call_keeps_def rect_apart_def win_rect_contains_def)

section \<open>The controls and the screen\<close>

lemma draw_body_keeps:
  "keeps_to (rect (r_x r) (r_y r) (r_w r + 1) (r_h r + 1)) (draw_rounded_rect r radius fill bg @ draw_outline r t c)"
proof -
  have "keeps_to (rect (r_x r) (r_y r) (r_w r + 1) (r_h r + 1)) (draw_outline r t c)"
    by (rule keeps_mono [OF draw_outline_within]) (simp add: rect_le_def)
  then show ?thesis by (simp add: draw_rounded_within)
qed

definition px_fits :: "WindowLayout \<Rightarrow> rat \<Rightarrow> bool" where
  "px_fits l dpr \<longleftrightarrow> 1 \<le> dpr \<and> of_int (r_w (wl_window l)) * dpr < 16777216 \<and> of_int (r_h (wl_window l)) * dpr < 16777216"

lemma px_fits_gap:
  assumes "px_fits l dpr" and "0 \<le> a" and "a + (k + 2) \<le> b" and "0 \<le> k" and "b \<le> r_w (wl_window l) \<or> b \<le> r_h (wl_window l)"
  shows "px_at a dpr + k \<le> px_at b dpr"
proof (rule px_gap [OF assms(2,3,4)])
  show d: "1 \<le> dpr" using assms(1) by (simp add: px_fits_def)
  have "of_int b * dpr \<le> of_int c * dpr" if "b \<le> c" for c using d that by (intro mult_right_mono) simp_all
  then show "of_int b * dpr < 16777216" using assms(1,5) unfolding px_fits_def by (meson order.strict_trans1)
qed

lemma draw_nub_apart:
  assumes l: "sw_layout (dk_win d) = window_layout (Some bd) scale" and k: "k < length (layout_buttons bd)"
    and fits: "px_fits (window_layout (Some bd) scale) dpr" and size: "0 \<le> bd_width bd" "0 \<le> bd_height bd"
  shows "\<exists>r. keeps_to r (draw_nub d dpr hov k) \<and> rect_apart r (to_px (wl_screen (window_layout (Some bd) scale)) dpr)"
proof (intro exI conjI)
  let ?l = "window_layout (Some bd) scale"
  let ?b = "to_px (nb_body (wl_nubs ?l ! k)) dpr"
  let ?r = "rect (r_x ?b) (r_y ?b) (r_w ?b + 1) (r_h ?b + 1)"
  show "keeps_to ?r (draw_nub d dpr hov k)"
    using draw_body_keeps unfolding draw_nub_def Let_def l .
  obtain e where e: "b_edge (layout_buttons bd ! k) = e" by simp
  have m: "margin bd e = 40" using margin_bounds(3) [of "layout_buttons bd ! k" bd] k e by simp
  have body: "nb_body (wl_nubs ?l ! k) = nub_body (wl_window ?l) e (start_of bd scale k)"
    using layout_nub [OF k, of scale] e by (simp add: Let_def)
  have pos: "0 \<le> bd_width bd * max 1 scale" "0 \<le> bd_height bd * max 1 scale" using size by simp_all
  note gap = px_fits_gap [OF fits]
  note ms = margin_bounds(1) [of bd EDGE_TOP] margin_bounds(1) [of bd EDGE_LEFT]
    margin_bounds(1) [of bd EDGE_BOTTOM] margin_bounds(1) [of bd EDGE_RIGHT]
  show "rect_apart ?r (to_px (wl_screen ?l) dpr)"
  proof (cases e)
    case EDGE_LEFT
    have "px_at 18 dpr + 1 \<le> px_at 40 dpr" by (rule gap) (use pos ms m EDGE_LEFT in \<open>simp_all add: layout_fields\<close>)
    with m EDGE_LEFT show ?thesis
      by (simp add: body nub_body_def vertical_edge_def NUB_THICK_def HIT_INFLATE_def to_px_px rect_apart_def layout_fields(1,2))
  next
    case EDGE_TOP
    have "px_at 18 dpr + 1 \<le> px_at 40 dpr" by (rule gap) (use pos ms m EDGE_TOP in \<open>simp_all add: layout_fields\<close>)
    with m EDGE_TOP show ?thesis
      by (simp add: body nub_body_def vertical_edge_def NUB_THICK_def HIT_INFLATE_def to_px_px rect_apart_def layout_fields(1,2))
  next
    case EDGE_RIGHT
    have "px_at (r_x (wl_screen ?l) + r_w (wl_screen ?l)) dpr + 0 \<le> px_at (r_w (wl_window ?l) - 18) dpr"
      by (rule gap) (use pos ms m EDGE_RIGHT in \<open>simp_all add: layout_fields\<close>)
    with EDGE_RIGHT show ?thesis
      by (simp add: body nub_body_def vertical_edge_def NUB_THICK_def HIT_INFLATE_def to_px_px rect_apart_def)
  next
    case EDGE_BOTTOM
    have "px_at (r_y (wl_screen ?l) + r_h (wl_screen ?l)) dpr + 0 \<le> px_at (r_h (wl_window ?l) - 18) dpr"
      by (rule gap) (use pos ms m EDGE_BOTTOM in \<open>simp_all add: layout_fields\<close>)
    with EDGE_BOTTOM show ?thesis
      by (simp add: body nub_body_def vertical_edge_def NUB_THICK_def HIT_INFLATE_def to_px_px rect_apart_def)
  qed
qed

lemma draw_more_keeps:
  assumes "0 \<le> r_w (to_px (wl_more_nub (sw_layout w)) dpr)" and "0 \<le> r_h (to_px (wl_more_nub (sw_layout w)) dpr)"
  shows "keeps_to (inflate (to_px (wl_more_nub (sw_layout w)) dpr) (scale_len 1 dpr + 1)) (draw_more w dpr)"
proof -
  let ?m = "to_px (wl_more_nub (sw_layout w)) dpr" and ?r = "scale_len 1 dpr"
  let ?R = "inflate ?m (?r + 1)"
  have r: "1 \<le> ?r" by (simp add: scale_len_def)
  have "rect_le (rect (r_x ?m) (r_y ?m) (r_w ?m + 1) (r_h ?m + 1)) ?R" using r by (simp add: rect_le_def inflate_def)
  then have body: "keeps_to ?R (draw_rounded_rect ?m radius fill bg @ draw_outline ?m t c)" for radius fill bg t c
    by (rule keeps_mono [OF draw_body_keeps])
  have dot: "call_keeps ?R (FillRect (rect (r_x ?m + cdiv (r_w ?m * k) 4 - ?r) (r_y ?m + cdiv (r_h ?m) 2 - ?r) (?r * 2) (?r * 2)))"
    if "k \<in> {1, 2, 3}" for k
  proof (rule call_keeps_rects)
    have "0 \<le> r_w ?m * k" "r_w ?m * k \<le> r_w ?m * 4" using that assms(1) by (auto intro: mult_left_mono)
    then have "0 \<le> cdiv (r_w ?m * k) 4" "cdiv (r_w ?m * k) 4 \<le> r_w ?m" by (simp_all add: cdiv_nonneg)
    moreover have "0 \<le> cdiv (r_h ?m) 2" "cdiv (r_h ?m) 2 \<le> r_h ?m" using assms(2) by (simp_all add: cdiv_nonneg)
    ultimately show "rect_le (rect (r_x ?m + cdiv (r_w ?m * k) 4 - ?r) (r_y ?m + cdiv (r_h ?m) 2 - ?r) (?r * 2) (?r * 2)) ?R"
      using r by (simp add: rect_le_def inflate_def)
  qed
  have max: "max 1 ?r = ?r" using r by simp
  show ?thesis
    using dot [of 1] dot [of 2] dot [of 3] body unfolding draw_more_def Let_def max by simp
qed

lemma draw_more_apart:
  assumes l: "sw_layout w = window_layout (Some bd) scale" and panel: "has_panel w \<longleftrightarrow> bd_has_battery bd \<or> bd_has_rotation bd"
    and fits: "px_fits (window_layout (Some bd) scale) dpr" and size: "0 \<le> bd_width bd" "0 \<le> bd_height bd"
  shows "\<exists>r. keeps_to r (draw_more w dpr) \<and> rect_apart r (to_px (wl_screen (window_layout (Some bd) scale)) dpr)"
proof (cases "has_panel w")
  case False
  let ?s = "to_px (wl_screen (window_layout (Some bd) scale)) dpr"
  have "rect_apart (rect (r_x ?s) 0 0 0) ?s" by (simp add: rect_apart_def)
  with False show ?thesis unfolding draw_more_def by auto
next
  case True
  let ?l = "window_layout (Some bd) scale"
  let ?H = "r_h (wl_window ?l)" and ?W = "r_w (wl_window ?l)"
  have more: "wl_more_nub ?l = rect (?W - 36) (?H - 12) 36 12" using True panel by (simp add: layout_fields(3))
  note ms = margin_bounds(1) [of bd EDGE_TOP] margin_bounds(1) [of bd EDGE_LEFT]
    margin_bounds(1) [of bd EDGE_BOTTOM] margin_bounds(1) [of bd EDGE_RIGHT]
  have pos: "0 \<le> bd_width bd * max 1 scale" "0 \<le> bd_height bd * max 1 scale" using size by simp_all
  note gap = px_fits_gap [OF fits]
  have "px_at (?W - 36) dpr + 0 \<le> px_at (?W - 36 + 36) dpr" "px_at (?H - 12) dpr + 0 \<le> px_at (?H - 12 + 12) dpr"
    by (rule gap; use pos ms in \<open>simp add: layout_fields\<close>)+
  then have "keeps_to (inflate (to_px (wl_more_nub ?l) dpr) (scale_len 1 dpr + 1)) (draw_more w dpr)"
    using draw_more_keeps [of w dpr] by (simp add: l more to_px_px)
  moreover have "px_at (r_y (wl_screen ?l) + r_h (wl_screen ?l)) dpr + (scale_len 1 dpr + 1) \<le> px_at (?H - 12) dpr"
  proof -
    let ?s = "r_y (wl_screen ?l) + r_h (wl_screen ?l)"
    have d: "1 \<le> dpr" "of_int ?H * dpr < 16777216" using fits by (simp_all add: px_fits_def)
    have h: "0 \<le> ?s" "?s + 26 \<le> ?H" "26 \<le> ?H" using pos ms by (simp_all add: layout_fields)
    have le: "of_int a * dpr \<le> of_int b * dpr" if "a \<le> b" for a b :: int
      using d(1) that by (intro mult_right_mono) simp_all
    have lt: "of_int a * dpr < 16777216" if "a \<le> ?H" for a by (rule le_less_trans [OF le [OF that] d(2)])
    have "of_int (px_at ?s dpr) \<le> of_int ?s * dpr + 1" by (rule px_near(2) [OF h(1) d(1) lt]) (use h in simp)
    moreover have "of_int (?H - 12) * dpr - 1 \<le> of_int (px_at (?H - 12) dpr)"
      by (rule px_near(1) [OF _ d(1) lt]) (use h in simp_all)
    moreover have "of_int (px_at 1 dpr) \<le> of_int 1 * dpr + 1" by (rule px_near(2) [OF _ d(1) lt]) (use h in simp_all)
    moreover have "of_int (scale_len 1 dpr) = max 1 (of_int (px_at 1 dpr) :: rat)" by (simp add: scale_len_px)
    moreover have "of_int (?s + 26) * dpr \<le> of_int ?H * dpr" by (rule le [OF h(2)])
    ultimately have "of_int (px_at ?s dpr + (scale_len 1 dpr + 1)) \<le> (of_int (px_at (?H - 12) dpr) :: rat)"
      using d(1) by (simp add: algebra_simps max_def split: if_splits)
    then show ?thesis by (simp only: of_int_le_iff)
  qed
  then have "rect_apart (inflate (to_px (wl_more_nub ?l) dpr) (scale_len 1 dpr + 1)) (to_px (wl_screen ?l) dpr)"
    by (simp add: rect_apart_def inflate_def more to_px_px)
  ultimately show ?thesis by blast
qed

lemma run_window_append:
  "run_window ts d = (True, d1) \<Longrightarrow> run_window (ts @ us) d = run_window us d1"
  by (induction ts d rule: run_window.induct) (auto split: prod.splits if_splits)

lemma calls_after_apart:
  assumes "\<forall>cs \<in> set css. \<exists>r. keeps_to r cs \<and> rect_apart r s"
  shows "\<forall>c \<in> set (concat css). \<forall>x y. covers c x y \<longrightarrow> \<not> win_rect_contains s x y"
  using assms keeps_apart by fastforce

lemma draw_controls_apart:
  assumes open': "sim_window_open True (Some bd) scale = Some w" and same: "same_board (dk_win d) w"
    and closed: "\<not> sw_help_open (dk_win d)" "\<not> sw_panel_open (dk_win d)"
    and hover: "hover_nub (dk_win d) (sw_mouse_x (dk_win d)) (sw_mouse_y (dk_win d)) = None"
    and fits: "px_fits (sw_layout w) dpr" and size: "0 \<le> bd_width bd" "0 \<le> bd_height bd"
  shows "\<forall>c \<in> set (draw_controls d dpr). \<forall>x y. covers c x y \<longrightarrow> \<not> win_rect_contains (to_px (wl_screen (sw_layout w)) dpr) x y"
proof -
  let ?scale = "if scale < 1 then 1 else scale"
  let ?l = "window_layout (Some bd) ?scale"
  have w: "sw_layout w = ?l" "has_panel w \<longleftrightarrow> bd_has_battery bd \<or> bd_has_rotation bd"
    using open' by (auto simp: sim_window_open_def has_panel_def Let_def)
  have d: "sw_layout (dk_win d) = ?l" "has_panel (dk_win d) \<longleftrightarrow> bd_has_battery bd \<or> bd_has_rotation bd"
    using same_board_static(3) [OF same] same w by (simp_all add: same_board_def)
  have n: "nub_count (dk_win d) = length (layout_buttons bd)" unfolding nub_count_def d(1) layout_fields(4) by simp
  note fits = fits [unfolded w(1)]
  have controls: "draw_controls d dpr = concat (map (draw_nub d dpr None) [0..<nub_count (dk_win d)] @ [draw_more (dk_win d) dpr])"
    using closed hover by (simp add: draw_controls_def draw_tooltip_def Let_def)
  have "\<exists>r. keeps_to r cs \<and> rect_apart r (to_px (wl_screen ?l) dpr)"
    if "cs \<in> set (map (draw_nub d dpr None) [0..<nub_count (dk_win d)] @ [draw_more (dk_win d) dpr])" for cs
    using that draw_nub_apart [OF d(1) _ fits size] draw_more_apart [OF d fits size] unfolding n by auto
  then show ?thesis unfolding w(1) controls by (intro calls_after_apart) blast
qed

text \<open>
  Property C28. Nothing the window adds ever hides the device: in any frame of any session in
  which no overlay is open and no button is under the mouse, the current framebuffer is copied
  onto the screen's rectangle and no later call of that frame, be it for a button, its rounded
  corners or the dots of the panel opener, names a point of it, at every pixel ratio of one or
  more. A picture that was asked for is taken after all of it, and asked for only once.
\<close>

theorem screen_stays_visible:
  assumes "sim_window_open True (Some bd) scale = Some w" and "\<not> touch_pressed i"
    and "run_window ts \<lparr>dk_win = w, dk_in = i, dk_gpio = g\<rparr> = (True, d0)"
    and "window_tick c fb es now (d0, capture) = (True, calls, d, capture')"
    and "\<not> sw_help_open (dk_win d)" and "\<not> sw_panel_open (dk_win d)"
    and "hover_nub (dk_win d) (sw_mouse_x (dk_win d)) (sw_mouse_y (dk_win d)) = None"
    and "px_fits (sw_layout w) (pixel_ratio c)" and "0 \<le> bd_width bd" and "0 \<le> bd_height bd"
    and "screen = to_px (wl_screen (sw_layout w)) (pixel_ratio c)"
  shows "capture' = [] \<and> (\<exists>before after.
    calls = before @ [UpdateTexture fb (bd_width bd * 2), RenderCopy screen] @ after \<and>
    (\<forall>call \<in> set after. \<forall>x y. covers call x y \<longrightarrow> \<not> win_rect_contains screen x y) \<and>
    (capture \<noteq> [] \<and> 0 < cn_draw_w c \<and> 0 < cn_draw_h c \<and> cn_reads c \<longrightarrow>
       WritePng capture (cn_draw_w c) (cn_draw_h c) \<in> set after))"
proof -
  obtain go d1 where tick: "sim_window_tick es now d0 = (go, d1)" by force
  with assms(4) have d: "go" "d1 = d" "capture' = []"
    "calls = draw_window fb d (pixel_ratio c) @ draw_capture c capture @ [Present] @ (if cn_vsync c then [] else [Delay 15])"
    by (auto simp: window_tick_def split: if_splits)
  have "run_window (ts @ [(es, now)]) \<lparr>dk_win = w, dk_in = i, dk_gpio = g\<rparr> = (True, d)"
    using run_window_append [OF assms(3)] tick d by simp
  from desk_agrees_run [OF desk_agrees_open [OF assms(1,2)] this] have same: "same_board (dk_win d) w"
    by (auto simp: desk_agrees_def)
  then have board: "sw_layout (dk_win d) = sw_layout w" "sw_board (dk_win d) = bd"
    using assms(1) by (auto simp: same_board_def sim_window_open_def Let_def)
  note apart = draw_controls_apart [OF assms(1) same assms(5-10), folded assms(11)]
  let ?after = "draw_controls d (pixel_ratio c) @ draw_capture c capture @ [Present] @ (if cn_vsync c then [] else [Delay 15])"
  have "calls = draw_bezel (sw_layout w) (pixel_ratio c) @ [UpdateTexture fb (bd_width bd * 2), RenderCopy screen] @ ?after"
    by (simp add: d(4) draw_window_def Let_def board assms(11))
  moreover have "\<forall>call \<in> set ?after. \<forall>x y. covers call x y \<longrightarrow> \<not> win_rect_contains screen x y"
    using apart by (auto simp: draw_capture_def)
  ultimately show ?thesis using d(3) by (intro conjI exI) (assumption | auto simp: draw_capture_def)+
qed

theorem screen_stays_visible_witness:
  "\<exists>before after. fst (snd (window_tick \<lparr>cn_win_w = 236, cn_draw_w = 472, cn_draw_h = 772, cn_reads = True, cn_vsync = True\<rparr>
       [] [] 0 (\<lparr>dk_win = the (sim_window_open True (Some bezel_board) 1), dk_in = input_init, dk_gpio = gpio_init\<rparr>, ''a.png''))) =
     before @ [UpdateTexture [] 340, RenderCopy (rect 52 52 340 640)] @ after \<and> WritePng ''a.png'' 472 772 \<in> set after"
proof -
  define w where "w = the (sim_window_open True (Some bezel_board) 1)"
  define c where "c = \<lparr>cn_win_w = 236, cn_draw_w = 472, cn_draw_h = 772, cn_reads = True, cn_vsync = True\<rparr>"
  define d0 where "d0 = \<lparr>dk_win = w, dk_in = input_init, dk_gpio = gpio_init\<rparr>"
  have w: "sim_window_open True (Some bezel_board) 1 = Some w" by (simp add: w_def sim_window_open_def Let_def)
  have l: "sw_layout w = window_layout (Some bezel_board) 1" by (simp add: w_def sim_window_open_def Let_def)
  have ratio: "pixel_ratio c = of_int 2"
    using f_int_exact [of 2, unfolded f_int_def] f_int_exact [of 472, unfolded f_int_def] f_int_exact [of 236, unfolded f_int_def]
    by (simp add: pixel_ratio_def c_def f_div_def f_int_def)
  obtain calls d cap where tick: "window_tick c [] [] 0 (d0, ''a.png'') = (True, calls, d, cap)"
    by (simp add: window_tick_def sim_window_tick_def)
  have d: "dk_win d = w"
    using tick by (auto simp: window_tick_def sim_window_tick_def pwr_tick_def d0_def w_def sim_window_open_def
        Let_def PWR_LONG_MS_def)
  have none: "hover_nub w (- 1) (- 1) = None"
  proof -
    have "\<not> win_rect_contains (nb_hit (wl_nubs (window_layout (Some bezel_board) 1) ! k)) (- 1) (- 1)"
      if "k < length (layout_buttons bezel_board)" for k
      using hit_on_window(1) [of bezel_board 1 k "- 1" "- 1"] that
      by (auto simp: board_ok_def bezel_board_def bezel_window [unfolded bezel_board_def] win_rect_contains_def)
    then show ?thesis by (simp add: hover_nub_def find_None_iff nub_count_def l layout_fields(4))
  qed
  have w0: "\<not> sw_help_open w" "\<not> sw_panel_open w" "sw_mouse_x w = - 1" "sw_mouse_y w = - 1"
    by (simp_all add: w_def sim_window_open_def Let_def)
  have m: "margin bezel_board EDGE_LEFT = 26" "margin bezel_board EDGE_TOP = 26"
    by (simp_all add: margin_def edge_margin_def has_edge_def layout_consts layout_buttons_def MAX_LAYOUT_BUTTONS_def
        bezel_board_def demo_button_def)
  have scr: "to_px (wl_screen (sw_layout w)) (pixel_ratio c) = rect 52 52 340 640"
  proof -
    have size: "bd_width bezel_board = 170" "bd_height bezel_board = 320" by (simp_all add: bezel_board_def)
    show ?thesis unfolding ratio l layout_fields(1) m size to_px_px by (simp add: px_at_int [of _ 2, simplified])
  qed
  have "px_fits (sw_layout w) (pixel_ratio c)" by (simp add: px_fits_def ratio l bezel_window)
  from screen_stays_visible [OF w _ _ tick _ _ _ this, of input_init "[]" gpio_init]
  have "\<exists>before after. calls = before @ [UpdateTexture [] 340, RenderCopy (rect 52 52 340 640)] @ after \<and>
      WritePng ''a.png'' 472 772 \<in> set after"
    using w0 none by (simp add: d d0_def input_init_def bezel_board_def scr) (auto simp: c_def)
  then show ?thesis using tick by (simp add: d0_def w_def c_def)
qed

section \<open>The panel's battery bar\<close>

text \<open>
  A drag on the bar sets the charge and the next frame draws it: the coloured part ends at the
  mouse, or at most two points before it, since both directions round down.
\<close>

lemma battery_bar_follows_mouse:
  assumes p: "p = layout_panel (sw_layout (dk_win d)) (sw_has_battery (dk_win d)) (sw_has_rotation (dk_win d))"
    and bar: "pl_bat_bar p = rect bx by' bw bh" "0 \<le> bx" "0 \<le> by'" "0 \<le> bh" "bx + bw < 16777216" "by' + bh < 16777216"
    and w: "4 < bw" "bw \<le> 150" and mx: "bx + 2 \<le> mx" "mx \<le> bx + bw - 2"
  shows "\<exists>f. FillRect f \<in> set (draw_battery (battery_pct (dk_in (set_battery_from_x mx d))) p 1 px) \<and>
    r_x f = bx + 2 \<and> mx - 2 \<le> r_x f + r_w f \<and> r_x f + r_w f \<le> mx"
proof -
  let ?q = "mx - (bx + 2)" and ?s = "bw - 4"
  let ?pct = "?q * 100 div ?s"
  have q: "0 \<le> ?q" "?q \<le> ?s" "0 < ?s" using w mx by simp_all
  have "?q * 100 \<le> 100 * ?s" using q by simp
  from zdiv_mono1 [OF this q(3)] have "?pct \<le> 100" using q(3) by (simp only: nonzero_mult_div_cancel_right)
  moreover have "0 \<le> ?pct" using q by (simp add: pos_imp_zdiv_nonneg_iff)
  ultimately have pct: "0 \<le> ?pct" "?pct \<le> 100" by blast+
  have set: "battery_pct (dk_in (set_battery_from_x mx d)) = ?pct"
    using q pct by (simp add: set_battery_from_x_def Let_def p [symmetric] bar(1) cdiv_nonneg)
  have px: "px_at v 1 = v" if "0 \<le> v" "v < 16777216" for v using px_at_int [of v 1] that by simp
  let ?f = "rect (bx + 2) (by' + 2) (cdiv (?s * ?pct) 100) (bh - 4)"
  have drawn: "FillRect ?f \<in> set (draw_battery ?pct p 1 px)"
    using pct w bar by (simp add: draw_battery_def Let_def to_px_px scale_len_px px)
  define m where "m = ?q * 100 mod ?s"
  have "?s * ?pct = ?q * 100 - m" by (simp add: m_def minus_mod_eq_mult_div)
  moreover have "0 \<le> m" "m \<le> 146" using q(3) w(2) pos_mod_bound [OF q(3), of "?q * 100"] pos_mod_sign [OF q(3), of "?q * 100"] unfolding m_def
    by linarith+
  ultimately have "?s * ?pct \<le> ?q * 100" "(?q - 2) * 100 \<le> ?s * ?pct" by (simp_all add: left_diff_distrib)
  moreover have "a - 2 \<le> t div 100 \<and> t div 100 \<le> a" if "t \<le> a * 100" "(a - 2) * 100 \<le> t" for a t :: int
    using that by auto
  ultimately have "?q - 2 \<le> ?s * ?pct div 100 \<and> ?s * ?pct div 100 \<le> ?q" by blast
  then have "mx - 2 \<le> bx + 2 + cdiv (?s * ?pct) 100" "bx + 2 + cdiv (?s * ?pct) 100 \<le> mx"
    using q pct by (simp_all add: cdiv_nonneg)
  with drawn show ?thesis unfolding set by (intro exI [of _ ?f]) simp
qed

section \<open>Where the drawing leaves its rectangle\<close>

text \<open>A nub's corner circles paint a pixel past its right side.\<close>

lemma rounded_rect_spills:
  "\<exists>c \<in> set (draw_rounded_rect (rect 6 100 12 36) 3 kNubIdle kBezelFill). covers c 18 103 \<and>
     \<not> win_rect_contains (rect 6 100 12 36) 18 103"
proof (intro bexI conjI)
  have "round_sqrt (3 * 3 - 0 * 0) = 3" by (simp add: round_sqrt_def upt_conv_Cons power2_eq_square)
  then have "DrawLine 12 103 18 103 \<in> set (fill_circle 15 103 3)"
    unfolding fill_circle_def set_map by (intro image_eqI [of _ _ 0]) (simp_all add: Let_def)
  then show "DrawLine 12 103 18 103 \<in> set (draw_rounded_rect (rect 6 100 12 36) 3 kNubIdle kBezelFill)"
    by (simp add: draw_rounded_rect_def Let_def)
qed (simp_all add: win_rect_contains_def)

text \<open>
  A font pixel is two points, rounded on its own: at a pixel ratio of 5/4 it takes three pixels,
  so a full battery's text is 72 pixels wide where its rectangle has 60, and the charge button,
  drawn next, starts right of that rectangle.
\<close>

lemma percent_text_overflows:
  "text_w ''100%'' (scale_len 2 (5 / 4)) = 72 \<and> r_w (to_px (rect 178 0 48 14) (5 / 4)) = 60"
proof -
  have half: "f32 (5 / 2) = 5 / 2" "f32 (445 / 2) = 445 / 2" "f32 (565 / 2) = 565 / 2"
    using f32_half_exact [of 2] f32_half_exact [of 222] f32_half_exact [of 282] by simp_all
  have i: "f32 (of_int n) = of_int n" if "0 \<le> n" "n < 16777216" for n
    using f_int_exact [OF that] by (simp add: f_int_def)
  have "px_at 2 (5 / 4) = 3" "px_at 178 (5 / 4) = 223" "px_at 226 (5 / 4) = 283"
    using i [of 2] i [of 178] i [of 226] by (simp_all add: px_at_def f_mul_def f_int_def c_lround_def half)
  then show ?thesis by (simp add: scale_len_px to_px_px text_w_def)
qed

end
