(* ===== verification/Dialects.thy ===== *)
theory Dialects
  imports Actions CliText
begin

text \<open>
  What the three dialects of the CLI share (\<^verbatim>\<open>cli/cli.cpp\<close>, \<^verbatim>\<open>cli/scenario.cpp\<close>): posting to the
  firmware's HTTP server, giving the firmware time, writing a screenshot, and what a QEMU target
  can do. The JSON library is a record of the accessors the code uses; the system's answers to
  \<^verbatim>\<open>connect\<close> and \<^verbatim>\<open>send\<close>, and where the bytes go, are functions of the world.
\<close>

section \<open>The environment\<close>

text \<open>
  \<open>js_str d k\<close> is \<^verbatim>\<open>d[k]\<close> where it \<^verbatim>\<open>is<const char*>()\<close>, and so on; \<^verbatim>\<open>d[k] | v\<close> is that value or
  else \<open>v\<close>. \<open>js_text d k\<close> is what \<^verbatim>\<open>serializeJson(d[k], s)\<close> stores.
\<close>

record 'j json_lib =
  js_parse :: "string \<Rightarrow> 'j option"
  js_str :: "'j \<Rightarrow> string \<Rightarrow> string option"
  js_int :: "'j \<Rightarrow> string \<Rightarrow> int option"
  js_uint :: "'j \<Rightarrow> string \<Rightarrow> 32 word option"
  js_long :: "'j \<Rightarrow> string \<Rightarrow> int option"
  js_bool :: "'j \<Rightarrow> string \<Rightarrow> bool option"
  js_text :: "'j \<Rightarrow> string \<Rightarrow> string"
  js_items :: "'j \<Rightarrow> string \<Rightarrow> 'j list"

definition or_else :: "'a option \<Rightarrow> 'a \<Rightarrow> 'a" where
  "or_else v d = (case v of None \<Rightarrow> d | Some a \<Rightarrow> a)"

record ('e, 'j) host =
  h_sim :: "'e sim"
  h_json :: "'j json_lib"
  h_png_ok :: "string \<Rightarrow> bool" \<comment> \<open>whether \<^verbatim>\<open>stbi_write_png\<close> can write the file\<close>
  h_connect :: "int \<Rightarrow> 'e world \<Rightarrow> bool"
  h_sends :: "int \<Rightarrow> 'e world \<Rightarrow> nat list" \<comment> \<open>as in \<^const>\<open>send_all\<close>\<close>
  h_deliver :: "int \<Rightarrow> string \<Rightarrow> 'e world \<Rightarrow> 'e world" \<comment> \<open>a closed connection's bytes, queued at a port\<close>

text \<open>The world and the images written, oldest first.\<close>

record 'e shell =
  sh_w :: "'e world"
  sh_png :: "(string \<times> int \<times> int \<times> 8 word list) list"

abbreviation on_w :: "('e world \<Rightarrow> 'a \<times> 'e world) \<Rightarrow> 'e shell \<Rightarrow> 'a \<times> 'e shell" where
  "on_w f s \<equiv> (case f (sh_w s) of (a, w) \<Rightarrow> (a, s\<lparr>sh_w := w\<rparr>))"

abbreviation upd_w :: "('e world \<Rightarrow> 'e world) \<Rightarrow> 'e shell \<Rightarrow> 'e shell" where
  "upd_w f s \<equiv> s\<lparr>sh_w := f (sh_w s)\<rparr>"

abbreviation host_backend :: "('e, 'j) host \<Rightarrow> 'e world \<Rightarrow> 'e backend" where
  "host_backend H w \<equiv> backend_of (h_sim H) w"

section \<open>Posting to the firmware\<close>

definition MAX_REQUEST :: nat where
  "MAX_REQUEST = 15000"

definition post_request :: "string \<Rightarrow> string \<Rightarrow> string" where
  "post_request path body =
     ''POST '' @ path @ '' HTTP/1.1'' @ crlf @ ''Host: x'' @ crlf @ ''X-Agentgauge: 1'' @ crlf @
     ''Content-Length: '' @ nat_to_string (length body) @ crlf2 @ body"

text \<open>What goes out on the connection, and whether it is the whole request.\<close>

definition post_bytes :: "nat list \<Rightarrow> string \<Rightarrow> bool \<times> string" where
  "post_bytes ns req =
     (if MAX_REQUEST < length req then (False, [])
      else (let t = fst (send_all ns req) in (length t = length req, t)))"

definition sim_wifi_post :: "('e, 'j) host \<Rightarrow> string \<Rightarrow> string \<Rightarrow> 'e world \<Rightarrow> bool \<times> 'e world" where
  "sim_wifi_post H path body w =
     (let (port, w) = be_http_port (host_backend H w) w
      in if port \<le> 0 then (False, w)
         else (let (ok, w) =
                 (if \<not> h_connect H port w then (False, w)
                  else (let (ok, t) = post_bytes (h_sends H port w) (post_request path body)
                        in (ok, h_deliver H port t w)))
               in (ok, steps (h_sim H) 5 w)))"

section \<open>Time and pictures\<close>

definition SERIAL_SETTLE_STEPS :: int where
  "SERIAL_SETTLE_STEPS = 60"

definition SERIAL_SETTLE_QEMU_MS :: "32 word" where
  "SERIAL_SETTLE_QEMU_MS = 500"

definition serial_settle :: "('e, 'j) host \<Rightarrow> int \<Rightarrow> 'e world \<Rightarrow> 'e world" where
  "serial_settle H n w =
     (if be_name (host_backend H w) = ''qemu'' then snd (be_settle_ms (host_backend H w) SERIAL_SETTLE_QEMU_MS w)
      else steps (h_sim H) n w)"

definition sim_screenshot_png :: "('e, 'j) host \<Rightarrow> string \<Rightarrow> 'e shell \<Rightarrow> bool \<times> 'e shell" where
  "sim_screenshot_png H path s = (case screenshot_rgb (w_fb (sh_w s)) of
     None \<Rightarrow> (False, s)
   | Some img \<Rightarrow> if h_png_ok H path then (True, s\<lparr>sh_png := sh_png s @ [(path, img)]\<rparr>) else (False, s))"

section \<open>What a QEMU target can do\<close>

definition qemu_command_allowed :: "string \<Rightarrow> 'w SimTarget option \<Rightarrow> bool" where
  "qemu_command_allowed cmd t =
     (if cmd \<in> {''serial'', ''logs'', ''quit'', ''exit''} then True
      else (let has_display = (case Option.bind t t_board of None \<Rightarrow> False | Some b \<Rightarrow> 0 < bd_width b \<and> 0 < bd_height b);
                has_agent = (case Option.bind t t_qemu of None \<Rightarrow> False | Some q \<Rightarrow> m_agent q);
                has_http = (case Option.bind t t_qemu of None \<Rightarrow> False | Some q \<Rightarrow> 0 < m_http_guest_port q)
            in if cmd = ''screenshot'' then has_display
               else if cmd \<in> {''tap'', ''swipe'', ''gpio'', ''button''} then has_agent
               else if cmd = ''snapshot'' then has_http else False))"

definition qemu_unsupported_msg :: "string \<Rightarrow> string \<Rightarrow> string" where
  "qemu_unsupported_msg cmd key =
     quoted cmd @ '' is not supported on qemu-backed target '' @ quoted key @
     (if cmd = ''screenshot'' then '' (its board spec declares no display)''
      else if cmd \<in> {''tap'', ''swipe'', ''gpio'', ''button''} then '' (its board spec declares no input agent)''
      else if cmd = ''snapshot'' then '' (its board spec declares no http capability)''
      else '' (serial/logs only)'')"

text \<open>The lines the device sent, as the items of a JSON array: a line that is not JSON is quoted.\<close>

definition line_item :: "'j json_lib \<Rightarrow> string \<Rightarrow> string" where
  "line_item J l = (if js_parse J l = None then jstr (json_esc l) else l)"

fun comma_list :: "string list \<Rightarrow> string" where
  "comma_list [] = []"
| "comma_list [x] = x"
| "comma_list (x # xs) = x @ '','' @ comma_list xs"

definition hid_item :: "SimBleHidEvent \<Rightarrow> string" where
  "hid_item ev = ''{'' @ jstr ''press'' @ '':'' @ jbool (hid_press ev) @ '','' @ jstr ''key'' @ '':'' @
     int_to_string (uint (hid_key ev)) @ '','' @ jstr ''modifier'' @ '':'' @ int_to_string (uint (hid_modifier ev)) @ ''}''"

section \<open>A posted request is what the server reads\<close>

text \<open>A pattern that ends in its only \<open>d\<close> can only end at a \<open>d\<close> of the text.\<close>

lemma starts_with_delim:
  assumes "d \<notin> set q" and "d \<notin> set u"
  shows "starts_with (q @ [d]) (u @ d # t) \<longleftrightarrow> u = q"
  using assms
proof (induction u arbitrary: q)
  case Nil
  then show ?case by (cases q) auto
next
  case (Cons c u)
  then show ?case by (cases q) auto
qed

lemma str_find_delim:
  assumes q: "d \<notin> set q" and u: "d \<notin> set u"
  shows "str_find (q @ [d]) (u @ d # t) =
    (if length q \<le> length u \<and> drop (length u - length q) u = q then Some (length u - length q)
     else map_option (\<lambda>k. length u + 1 + k) (str_find (q @ [d]) t))"
  using u
proof (induction u)
  case Nil
  then show ?case using starts_with_delim [OF q, of "[]" t] by (cases q; cases "str_find (q @ [d]) t") auto
next
  case (Cons c u)
  have sw: "starts_with (q @ [d]) (c # u @ d # t) \<longleftrightarrow> c # u = q"
    using starts_with_delim [OF q, of "c # u" t] Cons.prems by simp
  show ?case
  proof (cases "c # u = q")
    case True
    then have "starts_with (q @ [d]) (c # u @ d # t)" using sw by blast
    with True show ?thesis by auto
  next
    case False
    then have step: "str_find (q @ [d]) ((c # u) @ d # t) = map_option Suc (str_find (q @ [d]) (u @ d # t))"
      using sw by simp
    have "length q \<le> Suc (length u) \<and> drop (Suc (length u) - length q) (c # u) = q \<longleftrightarrow>
        length q \<le> length u \<and> drop (length u - length q) u = q"
      using False by (cases "length q = Suc (length u)") (auto simp: Suc_diff_le le_Suc_eq)
    then show ?thesis unfolding step using Cons by (auto simp: Suc_diff_le option.map_comp o_def)
  qed
qed

text \<open>The blank line ends the first line that is followed by another line break.\<close>

lemma str_find_crlf2_line:
  "cr \<notin> set u \<Longrightarrow> str_find crlf2 (u @ crlf @ t) =
     (if starts_with crlf t then Some (length u) else map_option (\<lambda>k. length u + 2 + k) (str_find crlf2 t))"
proof (induction u)
  case Nil
  show ?case by (cases "str_find crlf2 t") auto
next
  case (Cons a u)
  then show ?case by (cases "str_find crlf2 t") auto
qed

lemma str_find_crlf2_end:
  assumes "cr \<notin> set u"
  shows "str_find crlf2 (u @ crlf @ crlf @ t) = Some (length u)"
  using str_find_crlf2_line [OF assms, of "crlf @ t"] by (simp only: starts_with_append if_True)

lemma str_find_crlf2_next:
  assumes "cr \<notin> set u" and "v \<noteq> []" and "hd v \<noteq> cr" and "str_find crlf2 (v @ t) = Some k"
  shows "str_find crlf2 (u @ crlf @ v @ t) = Some (length u + 2 + k)"
proof -
  have "\<not> starts_with crlf (v @ t)" using assms(2,3) by (cases v) auto
  with str_find_crlf2_line [OF assms(1), of "v @ t"] assms(4) show ?thesis by (simp only: if_False option.map)
qed

definition plain_path :: "string \<Rightarrow> bool" where
  "plain_path path \<longleftrightarrow> (\<forall>c \<in> set path. c \<notin> {CHR '' '', cr, CHR '':''})"

definition post_head :: "string \<Rightarrow> nat \<Rightarrow> string" where
  "post_head path n = ''POST '' @ path @ '' HTTP/1.1'' @ crlf @ ''Host: x'' @ crlf @ ''X-Agentgauge: 1'' @ crlf @
     ''Content-Length: '' @ nat_to_string n"

lemma post_request_head: "post_request path body = post_head path (length body) @ crlf2 @ body"
  by (simp add: post_request_def post_head_def)

lemma post_blank_line:
  assumes "plain_path path"
  shows "str_find crlf2 (post_request path body) = Some (length (post_head path (length body)))"
proof -
  have d: "cr \<notin> set (nat_to_string (length body))"
    using nat_to_string_digits [of "length body"] by (auto simp: is_digit_def)
  have p: "cr \<notin> set path" using assms by (auto simp: plain_path_def)
  let ?l = "''Content-Length: '' @ nat_to_string (length body)"
  have 4: "str_find crlf2 (?l @ crlf @ crlf @ body) = Some (length ?l)"
    by (rule str_find_crlf2_end) (use d in simp)
  have 3: "str_find crlf2 (''X-Agentgauge: 1'' @ crlf @ ?l @ crlf @ crlf @ body) = Some (length ''X-Agentgauge: 1'' + 2 + length ?l)"
    by (rule str_find_crlf2_next [OF _ _ _ 4]) simp_all
  have 2: "str_find crlf2 (''Host: x'' @ crlf @ ''X-Agentgauge: 1'' @ crlf @ ?l @ crlf @ crlf @ body) =
      Some (length ''Host: x'' + 2 + (length ''X-Agentgauge: 1'' + 2 + length ?l))"
    by (rule str_find_crlf2_next [OF _ _ _ 3]) simp_all
  have "str_find crlf2 ((''POST '' @ path @ '' HTTP/1.1'') @ crlf @ ''Host: x'' @ crlf @ ''X-Agentgauge: 1'' @ crlf @ ?l @ crlf @ crlf @ body) =
      Some (length (''POST '' @ path @ '' HTTP/1.1'') + 2 + (length ''Host: x'' + 2 + (length ''X-Agentgauge: 1'' + 2 + length ?l)))"
    by (rule str_find_crlf2_next [OF _ _ _ 2]) (use p in simp_all)
  moreover have "post_request path body = (''POST '' @ path @ '' HTTP/1.1'') @ crlf @ ''Host: x'' @ crlf @ ''X-Agentgauge: 1'' @ crlf @
      ?l @ crlf @ crlf @ body"
    by (simp add: post_request_def)
  ultimately show ?thesis by (simp only:) (simp add: post_head_def)
qed

lemma lower_letters:
  "char_of (120 :: nat) = CHR ''x''" "char_of (97 :: nat) = CHR ''a''" "char_of (99 :: nat) = CHR ''c''"
  "char_of (108 :: nat) = CHR ''l''"
  by code_simp+

lemma lower_colon: "lower_char c = CHR '':'' \<longleftrightarrow> c = CHR '':''"
proof (cases "65 \<le> (of_char c :: nat) \<and> (of_char c :: nat) \<le> 90")
  case True
  then have "lower_char c = char_of (of_char c + 32 :: nat)" by (simp add: lower_char_def Let_def)
  then have "(of_char (lower_char c) :: nat) = of_char c + 32" using True by simp
  then have "lower_char c \<noteq> CHR '':''" "c \<noteq> CHR '':''" using True by auto
  then show ?thesis by blast
next
  case False
  then have "lower_char c = c" by (auto simp: lower_char_def Let_def)
  then show ?thesis by simp
qed

lemma colon_in_lower: "CHR '':'' \<in> set (map lower_char xs) \<longleftrightarrow> CHR '':'' \<in> set xs"
proof (induction xs)
  case (Cons c xs)
  have "CHR '':'' = lower_char c \<longleftrightarrow> CHR '':'' = c" using lower_colon [of c] by metis
  with Cons show ?case by simp
qed simp

lemma post_length_found:
  assumes "plain_path path" and "n < 2 ^ 63"
  shows "content_length (post_head path n) = Some n"
proof -
  let ?q = "''content-length''" and ?t = "CHR '' '' # nat_to_string n"
  let ?u = "map lower_char (''POST '' @ path @ '' HTTP/1.1'' @ crlf @ ''Host'')"
  let ?u2 = "'' x'' @ crlf @ ''x-agentgauge''" and ?u3 = "'' 1'' @ crlf @ ''content-length''"
  have digits: "map lower_char (nat_to_string n) = nat_to_string n"
    by (rule map_idI) (use nat_to_string_digits [of n] in \<open>auto simp: lower_char_def is_digit_def\<close>)
  have low: "map lower_char (post_head path n) = ?u @ CHR '':'' # ?u2 @ CHR '':'' # ?u3 @ CHR '':'' # ?t"
    unfolding post_head_def map_append digits by (simp add: lower_char_def lower_letters)
  have "CHR '':'' \<notin> set (''POST '' @ path @ '' HTTP/1.1'' @ crlf @ ''Host'')"
    using assms(1) by (auto simp: plain_path_def)
  then have u: "CHR '':'' \<notin> set ?u" unfolding colon_in_lower .
  have nq: "CHR '':'' \<notin> set ?q" by simp
  have "last ?u = CHR ''t''" by (simp add: lower_char_def)
  moreover have "last ?u = CHR ''h''" if "length ?q \<le> length ?u \<and> drop (length ?u - length ?q) ?u = ?q"
  proof -
    have "last (drop (length ?u - length ?q) ?u) = last ?u" by (rule last_drop) simp
    with that show ?thesis by simp
  qed
  ultimately have n1: "\<not> (length ?q \<le> length ?u \<and> drop (length ?u - length ?q) ?u = ?q)" by auto
  have f3: "str_find (?q @ [CHR '':'']) (?u3 @ CHR '':'' # ?t) = Some 4"
    by (subst str_find_delim) simp_all
  have f2: "str_find (?q @ [CHR '':'']) (?u2 @ CHR '':'' # ?u3 @ CHR '':'' # ?t) = Some (length ?u2 + 1 + 4)"
    unfolding str_find_delim [OF nq, of ?u2, simplified] f3 by simp
  have f1: "str_find (?q @ [CHR '':'']) (map lower_char (post_head path n)) = Some (length ?u + 1 + (length ?u2 + 1 + 4))"
    unfolding low str_find_delim [OF nq u] f2 using n1 by simp
  have rest: "drop (length ?u + 1 + (length ?u2 + 1 + 4) + 15) (map lower_char (post_head path n)) = ?t"
  proof -
    define pre where "pre = ?u @ CHR '':'' # ?u2 @ CHR '':'' # ?u3 @ [CHR '':'']"
    have "map lower_char (post_head path n) = pre @ ?t" unfolding low pre_def by (simp only: append.simps append_assoc)
    moreover have "length ?u + 1 + (length ?u2 + 1 + 4) + 15 = length pre" unfolding pre_def by simp
    ultimately show ?thesis by simp
  qed
  have "c_strtol ?t = Some (int n, [])"
    using c_strtol_int [of "[]" "int n"] by (simp add: c_strtol_blank c_isspace_def int_to_string_def)
  then have "c_strtoul ?t = int n" using assms(2) by (simp add: c_strtoul_def)
  then show ?thesis unfolding content_length_def using f1 rest assms(2) by (simp add: Let_def)
qed

lemma send_all_prefix: "\<exists>r. data = fst (send_all ns data) @ r"
proof (induction ns data rule: send_all.induct)
  case (3 n ns c cs)
  show ?case
  proof (cases "n = 0")
    case False
    then obtain r where "drop n (c # cs) = fst (send_all ns (drop n (c # cs))) @ r" using 3 by blast
    then have "c # cs = take n (c # cs) @ fst (send_all ns (drop n (c # cs))) @ r"
      using append_take_drop_id [of n "c # cs"] by simp
    with False show ?thesis by (intro exI [of _ r]) (simp add: split_def Let_def)
  qed simp
qed simp_all

lemma post_bytes_whole: "post_bytes ns req = (True, t) \<Longrightarrow> t = req \<and> length req \<le> MAX_REQUEST"
  using send_all_prefix [of req ns] by (auto simp: post_bytes_def Let_def split: if_splits)

lemma post_method_path:
  assumes "plain_path path"
  shows "request_method (post_request path body) = ''POST''" and "request_path (post_request path body) = path"
proof -
  have p: "\<forall>c \<in> set path. c \<noteq> CHR '' ''" using assms by (auto simp: plain_path_def)
  obtain t where r: "post_request path body = ''POST '' @ path @ CHR '' '' # t" by (simp add: post_request_def)
  show "request_method (post_request path body) = ''POST''" by (simp add: r request_method_def)
  show "request_path (post_request path body) = path"
    using p by (simp add: r request_path_def takeWhile_append2 takeWhile_eq_all_conv)
qed


definition demo_host :: "(unit, unit) host" where
  "demo_host = \<lparr>h_sim = demo_sim, h_json = \<lparr>js_parse = (\<lambda>s. if s = ''{}'' then Some () else None), js_str = (\<lambda>_ _. None),
     js_int = (\<lambda>_ _. None), js_uint = (\<lambda>_ _. None), js_long = (\<lambda>_ _. None), js_bool = (\<lambda>_ _. None), js_text = (\<lambda>_ _. ''null''), js_items = (\<lambda>_ _. [])\<rparr>,
     h_png_ok = (\<lambda>_. True), h_connect = (\<lambda>port _. port = 8080), h_sends = (\<lambda>_ _. [100]), h_deliver = (\<lambda>_ t w. w)\<rparr>"


end
