(* ===== verification/Scenario.thy ===== *)
theory Scenario
  imports Dialects
begin

text \<open>
  The scenario runner (\<^verbatim>\<open>cli/scenario.cpp\<close>): a JSON file of steps run headless, each step reported
  on its own and the first failure as the result. The content of the file, and the number of
  polls a pixel assertion has before its deadline, are arguments.
\<close>

section \<open>Steps\<close>

abbreviation lift_action ::
  "('e sim \<Rightarrow> 'e world \<Rightarrow> ActionError \<times> 'e world) \<Rightarrow> ('e, 'j) host \<Rightarrow> 'e shell \<Rightarrow> ActionError \<times> 'e shell" where
  "lift_action f H \<equiv> on_w (f (h_sim H))"

definition step_str :: "('e, 'j) host \<Rightarrow> 'j \<Rightarrow> string \<Rightarrow> string \<Rightarrow> string" where
  "step_str H d k v = or_else (js_str (h_json H) d k) v"

definition step_int :: "('e, 'j) host \<Rightarrow> 'j \<Rightarrow> string \<Rightarrow> int \<Rightarrow> int" where
  "step_int H d k v = or_else (js_int (h_json H) d k) v"

abbreviation settle_w :: "('e, 'j) host \<Rightarrow> 'e world \<Rightarrow> 'e world" where
  "settle_w H \<equiv> sim_settle (s_reg (h_sim H))"

text \<open>The pixel assertion: \<open>n\<close> further polls come before the deadline.\<close>

datatype pixel_result = Matched | OutOfBounds | Differs "16 word"

fun pixel_loop :: "nat \<Rightarrow> ('e, 'j) host \<Rightarrow> bool \<Rightarrow> int \<Rightarrow> int \<Rightarrow> 16 word \<Rightarrow> 'e world \<Rightarrow> pixel_result \<times> 'e world" where
  "pixel_loop n H is_qemu x y want w =
     (let w = snd (be_sync_framebuffer (host_backend H w) w); fb = w_fb w;
          oob = (fb_w fb \<le> x \<or> fb_h fb \<le> y); got = fb_pixel fb x y
      in if \<not> oob \<and> got = want then (Matched, w)
         else (case n of
             0 \<Rightarrow> (if oob then OutOfBounds else Differs got, w)
           | Suc n \<Rightarrow> pixel_loop n H is_qemu x y want (if is_qemu then w else settle_w H w)))"

declare pixel_loop.simps [simp del]

definition hex_upper :: "nat \<Rightarrow> char" where
  "hex_upper d = (if d < 10 then char_of (48 + d) else char_of (55 + d))"

definition hex4 :: "16 word \<Rightarrow> string" where
  "hex4 v = (let n = unat v in ''0x'' @ map hex_upper [n div 4096, n div 256 mod 16, n div 16 mod 16, n mod 16])"

definition pixel_error :: "int \<Rightarrow> int \<Rightarrow> 16 word \<Rightarrow> pixel_result \<Rightarrow> Framebuffer \<Rightarrow> ActionError" where
  "pixel_error x y want r fb =
     (let px = ''pixel ('' @ int_to_string x @ '','' @ int_to_string y @ '')''
      in case r of
           Matched \<Rightarrow> None
         | OutOfBounds \<Rightarrow> Some (''bad_args'', px @ '' is outside the '' @ int_to_string (fb_w fb) @ ''x'' @
             int_to_string (fb_h fb) @ '' framebuffer'')
         | Differs got \<Rightarrow> Some (''expect_failed'', px @ '' = '' @ hex4 got @ '', expected '' @ hex4 want))"

text \<open>\<open>rounds ms w\<close>: how many polls after the first come before the deadline.\<close>

definition step_pixel :: "(int \<Rightarrow> 'e world \<Rightarrow> nat) \<Rightarrow> ('e, 'j) host \<Rightarrow> bool \<Rightarrow> 'j \<Rightarrow> 'e world \<Rightarrow> ActionError \<times> 'e world" where
  "step_pixel rounds H is_qemu d w =
     (let x = step_int H d ''x'' (-1); y = step_int H d ''y'' (-1); want = or_else (js_long (h_json H) d ''value'') (-1);
          ms = step_int H d ''timeout_ms'' 5000
      in if x < 0 \<or> y < 0 \<or> want < 0 \<or> 0xFFFF < want \<or> ms < 1 \<or> 120000 < ms
         then (Some (''bad_args'', ''pixel needs x, y, value 0..65535, and optional timeout_ms 1..120000''), w)
         else (case pixel_loop (rounds ms w) H is_qemu x y (word_of_int want) w of
             (r, w) \<Rightarrow> (pixel_error x y (word_of_int want) r (w_fb w), w)))"

definition step_snapshot :: "('e, 'j) host \<Rightarrow> 'j \<Rightarrow> 'e world \<Rightarrow> ActionError \<times> 'e world" where
  "step_snapshot H d w =
     (case sim_wifi_post H (step_str H d ''path'' ''/snapshot'') (js_text (h_json H) d ''data'') w of
        (False, w) \<Rightarrow> (Some (''post_failed'', ''snapshot step not delivered (dropped)''), w)
      | (True, w) \<Rightarrow> (None, snd (be_settle_ms (host_backend H w) 50 w)))"

definition step_screenshot :: "('e, 'j) host \<Rightarrow> bool \<Rightarrow> 'j \<Rightarrow> 'e shell \<Rightarrow> ActionError \<times> 'e shell" where
  "step_screenshot H is_qemu d s =
     (let s = (if is_qemu then s else upd_w (settle_w H) s)
      in case on_w (\<lambda>w. be_sync_framebuffer (host_backend H w) w) s of
           (Some err, s) \<Rightarrow> (Some (''capture_failed'', ''could not capture the display: '' @ err), s)
         | (None, s) \<Rightarrow> (None, snd (sim_screenshot_png H (step_str H d ''out'' ''esprite.png'') s)))"

definition step_settle :: "('e, 'j) host \<Rightarrow> 'j \<Rightarrow> 'e world \<Rightarrow> ActionError \<times> 'e world" where
  "step_settle H d w =
     (let ms = step_int H d ''ms'' 0
      in if ms < 1 \<or> 60000 < ms then (Some (''bad_args'', ''settle needs ms in 1..60000''), w)
         else (None, snd (be_settle_ms (host_backend H w) (word_of_int ms) w)))"

definition step_expect :: "('e, 'j) host \<Rightarrow> bool \<Rightarrow> 'j \<Rightarrow> 'e world \<Rightarrow> ActionError \<times> 'e world" where
  "step_expect H is_qemu d w =
     (let m = step_str H d ''match'' ''exact''
      in if is_qemu
         then (Some (''unsupported'', ''expect reads the native widget tree; use pixel or serial on qemu targets''), w)
         else if m \<noteq> ''exact'' \<and> m \<noteq> ''contains''
         then (Some (''bad_args'', ''expect match must be '' @ quoted ''exact'' @ '' or '' @ quoted ''contains''), w)
         else apply_expect (step_str H d ''text'' []) (step_str H d ''absent'' []) (m = ''exact'') (h_sim H) w)"

definition step_ble :: "('e, 'j) host \<Rightarrow> 'j \<Rightarrow> 'e world \<Rightarrow> ActionError \<times> 'e world" where
  "step_ble H d w =
     (let sub = step_str H d ''sub'' []; S = h_sim H
      in if sub = ''connect'' then apply_ble_connect (or_else (js_uint (h_json H) d ''passkey'') 0) S w
         else if sub = ''pair'' then apply_ble_pair S w
         else if sub = ''disconnect'' then apply_ble_disconnect S w
         else if sub = ''send'' then
           (let body = js_text (h_json H) d ''data''
            in if body = [] \<or> body = ''null'' then (Some (''bad_args'', ''ble send step needs a data object''), w)
               else apply_ble_send body S w)
         else (Some (''bad_args'', ''unknown ble sub '' @ quoted sub), w))"

text \<open>One step of a known name; the error it reports, if any.\<close>

definition run_step :: "(int \<Rightarrow> 'e world \<Rightarrow> nat) \<Rightarrow> ('e, 'j) host \<Rightarrow> bool \<Rightarrow> string \<Rightarrow> 'j \<Rightarrow> 'e shell \<Rightarrow> ActionError \<times> 'e shell" where
  "run_step rounds H is_qemu cmd d s =
     (let J = h_json H; int = step_int H d; str = step_str H d
      in if cmd = ''snapshot'' then on_w (step_snapshot H d) s
         else if cmd = ''screenshot'' then step_screenshot H is_qemu d s
         else if cmd = ''steps'' then
           (if is_qemu then (Some (''unsupported'', ''steps is native-only (loop iterations); use settle''), s)
            else (None, upd_w (steps (h_sim H) (int ''n'' 10)) s))
         else if cmd = ''settle'' then on_w (step_settle H d) s
         else if cmd = ''pixel'' then on_w (step_pixel rounds H is_qemu d) s
         else if cmd = ''battery'' then
           lift_action (apply_battery (int ''pct'' 75) (js_bool J d ''charging'') None) H s
         else if cmd = ''button'' then lift_action (apply_button (str ''which'' ''primary'')) H s
         else if cmd = ''tap'' then lift_action (apply_tap (int ''x'' 0) (int ''y'' 0)) H s
         else if cmd = ''swipe'' then
           lift_action (apply_swipe (int ''x1'' 0) (int ''y1'' 0) (int ''x2'' 0) (int ''y2'' 0)) H s
         else if cmd = ''expect'' then on_w (step_expect H is_qemu d) s
         else if cmd = ''rotate'' then lift_action (apply_rotate (int ''q'' 0)) H s
         else if cmd = ''motion'' then lift_action apply_motion H s
         else if cmd = ''serial'' then lift_action (apply_serial_expect (str ''expect'' []) (str ''absent'' [])) H s
         else if cmd = ''gpio'' then lift_action (apply_gpio (int ''pin'' 0) (int ''level'' 0)) H s
         else if cmd = ''wifi'' then lift_action (apply_wifi (str ''state'' ''up'')) H s
         else if cmd = ''ble'' then on_w (step_ble H d) s
         else (Some (''bad_args'', ''unknown step cmd '' @ quoted cmd), s))"

section \<open>The run\<close>

text \<open>The loop: the failures so far, each with its step number, kind and message.\<close>

fun scenario_steps :: "(int \<Rightarrow> 'e world \<Rightarrow> nat) \<Rightarrow> ('e, 'j) host \<Rightarrow> bool \<Rightarrow> nat \<Rightarrow> 'j list \<Rightarrow> 'e shell
    \<Rightarrow> (nat \<times> string \<times> string) list \<times> 'e shell" where
  "scenario_steps rounds H is_qemu i [] s = ([], s)"
| "scenario_steps rounds H is_qemu i (d # ds) s =
     (case js_str (h_json H) d ''cmd'' of
        None \<Rightarrow> scenario_steps rounds H is_qemu (Suc i) ds s
      | Some cmd \<Rightarrow> (case run_step rounds H is_qemu cmd d s of
          (e, s) \<Rightarrow> (case scenario_steps rounds H is_qemu (Suc i) ds s of
            (fs, s) \<Rightarrow> (case e of None \<Rightarrow> (fs, s) | Some (k, m) \<Rightarrow> ((Suc i, k, m) # fs, s)))))"

text \<open>The exit code, the error envelope's kind and message, and what is left.\<close>

type_synonym outcome = "int \<times> (string \<times> string) option"

definition scenario_result :: "(nat \<times> string \<times> string) list \<Rightarrow> outcome" where
  "scenario_result fs = (case fs of
     [] \<Rightarrow> (0, None)
   | (i, k, m) # _ \<Rightarrow> (kind_exit k, Some (k, nat_to_string (length fs) @ '' step(s) failed, first: '' @ m)))"

definition could_not_boot :: "string \<Rightarrow> string \<Rightarrow> string" where
  "could_not_boot t err = (if err = [] then ''could not boot '' @ quoted t else err)"

definition scenario_run :: "(int \<Rightarrow> 'e world \<Rightarrow> nat) \<Rightarrow> ('e, 'j) host \<Rightarrow> string \<Rightarrow> string option \<Rightarrow> string
    \<Rightarrow> 'e shell \<Rightarrow> outcome \<times> 'e shell" where
  "scenario_run rounds H path content default_target s =
     (let S = h_sim H; reg = s_reg S
      in case content of
           None \<Rightarrow> ((2, Some (''bad_args'', ''scenario: cannot open '' @ path)), s)
         | Some txt \<Rightarrow> (case js_parse (h_json H) txt of
             None \<Rightarrow> ((2, Some (''bad_args'', ''scenario: '' @ path @ '' is not valid JSON'')), s)
           | Some doc \<Rightarrow>
               (let target = step_str H doc ''target'' default_target
                in case sim_target target reg of
                     None \<Rightarrow> ((2, Some (''unknown_target'', ''unknown target '' @ quoted target)), s)
                   | Some i \<Rightarrow>
                       (let s = upd_w (sim_backend_select reg (s_slots S) (Some i)) s
                        in case on_w (\<lambda>w. be_boot (host_backend H w) (Some i) w) s of
                             (Some err, s) \<Rightarrow> ((2, Some (''backend_unavailable'', could_not_boot target err)), s)
                           | (None, s) \<Rightarrow>
                               (case scenario_steps rounds H (t_backend (reg ! i) = BACKEND_QEMU) 0
                                   (js_items (h_json H) doc ''steps'') s of
                                  (fs, s) \<Rightarrow> (scenario_result fs, s))))))"

section \<open>What a run reports\<close>

definition do_step :: "(int \<Rightarrow> 'e world \<Rightarrow> nat) \<Rightarrow> ('e, 'j) host \<Rightarrow> bool \<Rightarrow> 'j \<Rightarrow> 'e shell \<Rightarrow> ActionError \<times> 'e shell" where
  "do_step rounds H q d s = (case js_str (h_json H) d ''cmd'' of None \<Rightarrow> (None, s) | Some cmd \<Rightarrow> run_step rounds H q cmd d s)"

abbreviation after_steps :: "(int \<Rightarrow> 'e world \<Rightarrow> nat) \<Rightarrow> ('e, 'j) host \<Rightarrow> bool \<Rightarrow> 'j list \<Rightarrow> 'e shell \<Rightarrow> 'e shell" where
  "after_steps rounds H q ds s \<equiv> fold (\<lambda>d s. snd (do_step rounds H q d s)) ds s"

text \<open>The failure of the step at a place of the list, if it fails.\<close>

definition step_error :: "(int \<Rightarrow> 'e world \<Rightarrow> nat) \<Rightarrow> ('e, 'j) host \<Rightarrow> bool \<Rightarrow> 'j list \<Rightarrow> 'e shell \<Rightarrow> nat \<Rightarrow> ActionError" where
  "step_error rounds H q ds s k = fst (do_step rounds H q (ds ! k) (after_steps rounds H q (take k ds) s))"

definition numbered_errors :: "nat \<Rightarrow> (nat \<Rightarrow> ActionError) \<Rightarrow> nat \<Rightarrow> (nat \<times> string \<times> string) list" where
  "numbered_errors i err n = concat (map (\<lambda>k. case err k of None \<Rightarrow> [] | Some (kd, m) \<Rightarrow> [(i + Suc k, kd, m)]) [0..<n])"

lemma numbered_errors_Suc:
  "numbered_errors i err (Suc n) =
     (case err 0 of None \<Rightarrow> [] | Some (kd, m) \<Rightarrow> [(Suc i, kd, m)]) @ numbered_errors (Suc i) (\<lambda>k. err (Suc k)) n"
proof -
  have "[0..<Suc n] = 0 # map Suc [0..<n]" by (simp only: upt_conv_Cons map_Suc_upt zero_less_Suc)
  then show ?thesis by (simp add: numbered_errors_def o_def del: upt_Suc cong: option.case_cong)
qed

lemma scenario_steps_errors:
  "scenario_steps rounds H q i ds s =
     (numbered_errors i (step_error rounds H q ds s) (length ds), after_steps rounds H q ds s)"
proof (induction ds arbitrary: i s)
  case Nil
  then show ?case by (simp add: numbered_errors_def)
next
  case (Cons d ds)
  obtain e s1 where d: "do_step rounds H q d s = (e, s1)" by force
  have shift: "(\<lambda>k. step_error rounds H q (d # ds) s (Suc k)) = step_error rounds H q ds s1"
    by (simp add: step_error_def d fun_eq_iff)
  have first: "step_error rounds H q (d # ds) s 0 = e" by (simp add: step_error_def d)
  have "scenario_steps rounds H q i (d # ds) s =
      ((case e of None \<Rightarrow> [] | Some (kd, m) \<Rightarrow> [(Suc i, kd, m)]) @ fst (scenario_steps rounds H q (Suc i) ds s1),
       snd (scenario_steps rounds H q (Suc i) ds s1))"
    using d by (cases "js_str (h_json H) d ''cmd''") (auto simp: do_step_def split: option.splits prod.splits)
  then show ?case
    unfolding list.size(4) add_0_right add_Suc_right numbered_errors_Suc first shift Cons.IH by (simp add: d)
qed


text \<open>A JSON library whose documents are numbers of commands, to try the runner on.\<close>

definition demo_steps :: "string list" where
  "demo_steps = [''steps'', ''jump'', ''motion'']"

definition steps_host :: "(unit, nat) host" where
  "steps_host = \<lparr>h_sim = demo_sim, h_json = \<lparr>js_parse = (\<lambda>_. None), js_str = (\<lambda>d k. if k = ''cmd'' then Some (demo_steps ! d) else None),
     js_int = (\<lambda>_ _. None), js_uint = (\<lambda>_ _. None), js_long = (\<lambda>_ _. None), js_bool = (\<lambda>_ _. None),
     js_text = (\<lambda>_ _. ''null''), js_items = (\<lambda>_ _. [])\<rparr>,
     h_png_ok = (\<lambda>_. False), h_connect = (\<lambda>_ _. False), h_sends = (\<lambda>_ _. []), h_deliver = (\<lambda>_ _ w. w)\<rparr>"

definition demo_shell :: "unit shell" where
  "demo_shell = \<lparr>sh_w = demo_running, sh_png = []\<rparr>"


text \<open>The result of the PNG writer is ignored: a step that wrote nothing does not fail.\<close>

lemma scenario_lost_png:
  assumes "be_sync_framebuffer (host_backend H (sh_w s)) (sh_w s) = (None, w)" and "\<not> h_png_ok H (step_str H d ''out'' ''esprite.png'')"
  shows "step_screenshot H True d s = (None, s\<lparr>sh_w := w\<rparr>)"
  using assms by (simp add: step_screenshot_def sim_screenshot_png_def split: option.splits)

section \<open>The pixel assertion\<close>

text \<open>The world as the poll number \<open>k\<close> looks at it.\<close>

fun polled :: "nat \<Rightarrow> ('e, 'j) host \<Rightarrow> bool \<Rightarrow> 'e world \<Rightarrow> 'e world" where
  "polled 0 H q w = snd (be_sync_framebuffer (host_backend H w) w)"
| "polled (Suc k) H q w =
     polled k H q (if q then snd (be_sync_framebuffer (host_backend H w) w) else settle_w H (snd (be_sync_framebuffer (host_backend H w) w)))"

definition shows_pixel :: "int \<Rightarrow> int \<Rightarrow> 16 word \<Rightarrow> 'e world \<Rightarrow> bool" where
  "shows_pixel x y want w \<longleftrightarrow> x < fb_w (w_fb w) \<and> y < fb_h (w_fb w) \<and> fb_pixel (w_fb w) x y = want"

lemma pixel_loop_step:
  "pixel_loop n H q x y want w =
     (if shows_pixel x y want (polled 0 H q w) then (Matched, polled 0 H q w)
      else (case n of
          0 \<Rightarrow> (if fb_w (w_fb (polled 0 H q w)) \<le> x \<or> fb_h (w_fb (polled 0 H q w)) \<le> y then OutOfBounds
                else Differs (fb_pixel (w_fb (polled 0 H q w)) x y), polled 0 H q w)
        | Suc n \<Rightarrow> pixel_loop n H q x y want (if q then polled 0 H q w else settle_w H (polled 0 H q w))))"
  by (subst pixel_loop.simps) (auto simp: Let_def shows_pixel_def split: nat.split)

text \<open>
  Property C36. A pixel assertion is eventually consistent: if one of the polls before the deadline
  sees the wanted pixel, the assertion holds and the run goes on from the first such poll;
  otherwise it reports what the last poll saw, outside the framebuffer or with another colour.
\<close>

theorem pixel_eventually:
  "(\<forall>k \<le> n. shows_pixel x y want (polled k H q w) \<and> (\<forall>j < k. \<not> shows_pixel x y want (polled j H q w)) \<longrightarrow>
      pixel_loop n H q x y want w = (Matched, polled k H q w)) \<and>
   ((\<forall>k \<le> n. \<not> shows_pixel x y want (polled k H q w)) \<longrightarrow>
      snd (pixel_loop n H q x y want w) = polled n H q w \<and>
      fst (pixel_loop n H q x y want w) =
        (if x < fb_w (w_fb (polled n H q w)) \<and> y < fb_h (w_fb (polled n H q w))
         then Differs (fb_pixel (w_fb (polled n H q w)) x y) else OutOfBounds))"
proof (induction n arbitrary: w)
  case 0
  then show ?case by (auto simp: pixel_loop_step [of 0] not_less)
next
  case (Suc n)
  let ?v = "if q then polled 0 H q w else settle_w H (polled 0 H q w)"
  have next_poll: "polled (Suc k) H q w = polled k H q ?v" for k by simp
  show ?case
  proof (cases "shows_pixel x y want (polled 0 H q w)")
    case True
    then have "pixel_loop (Suc n) H q x y want w = (Matched, polled 0 H q w)"
      using pixel_loop_step [of "Suc n" H q x y want w] by simp
    moreover have "k = 0" if "\<forall>j < k. \<not> shows_pixel x y want (polled j H q w)" for k
      using that True by (cases k) auto
    ultimately show ?thesis using True by (metis le0)
  next
    case False
    then have loop: "pixel_loop (Suc n) H q x y want w = pixel_loop n H q x y want ?v"
      using pixel_loop_step [of "Suc n" H q x y want w] by simp
    show ?thesis
    proof (intro conjI allI impI)
      fix k assume k: "k \<le> Suc n" and sees: "shows_pixel x y want (polled k H q w) \<and> (\<forall>j < k. \<not> shows_pixel x y want (polled j H q w))"
      then obtain m where m: "k = Suc m" using False by (cases k) auto
      have "\<not> shows_pixel x y want (polled j H q ?v)" if "j < m" for j
        using sees that m next_poll [of j] by auto
      with Suc [of ?v] k sees m next_poll [of m] show "pixel_loop (Suc n) H q x y want w = (Matched, polled k H q w)"
        unfolding loop by auto
    next
      assume no: "\<forall>k \<le> Suc n. \<not> shows_pixel x y want (polled k H q w)"
      then have "\<forall>k \<le> n. \<not> shows_pixel x y want (polled k H q ?v)" using next_poll by (metis Suc_le_mono)
      with Suc [of ?v] next_poll [of n] show "snd (pixel_loop (Suc n) H q x y want w) = polled (Suc n) H q w"
        and "fst (pixel_loop (Suc n) H q x y want w) =
          (if x < fb_w (w_fb (polled (Suc n) H q w)) \<and> y < fb_h (w_fb (polled (Suc n) H q w))
           then Differs (fb_pixel (w_fb (polled (Suc n) H q w)) x y) else OutOfBounds)"
        unfolding loop by simp_all
    qed
  qed
qed

theorem pixel_eventually_witness:
  "fst (pixel_loop 3 steps_host True 1 1 0xF800 (demo_running\<lparr>w_fb := fb_fill 0xF800 (fb_init 2 2 fb_new)\<rparr>)) = Matched"
proof -
  let ?w = "demo_running\<lparr>w_fb := fb_fill 0xF800 (fb_init 2 2 fb_new)\<rparr>"
  have be: "host_backend steps_host ?w = native_backend [demo_target] demo_hooks"
    by (simp add: steps_host_def demo_sim_def sim_backend_def initial_slots_def demo_running_def demo_world_def)
  have "polled 0 steps_host True ?w = ?w" unfolding polled.simps be by (simp add: native_backend_def)
  moreover have "shows_pixel 1 1 0xF800 ?w"
    by (simp add: shows_pixel_def fb_fill_def fb_init_def fb_new_def fb_pixel_def size_mul_def)
  ultimately show ?thesis
    using pixel_eventually [of 3 1 1 "0xF800" steps_host True ?w] by (metis fst_conv le0 not_less0)
qed

end
