(* ===== verification/Session.thy ===== *)
theory Session
  imports Scenario Wire
begin

text \<open>
  The persistent session \<^verbatim>\<open>esprite run\<close> (\<^verbatim>\<open>esprite_daemon\<close> in \<^verbatim>\<open>cli/cli.cpp\<close>): one JSON command per
  line in, one reply line out. The input stream is the text still to be read; before each line
  the list \<open>gs\<close> says whether the loop goes on (no interrupt, and the wait for input ended with
  input), a list that ends stands for the interrupt.
\<close>

section \<open>Reading a line\<close>

definition LINE_SIZE :: nat where
  "LINE_SIZE = 131072"

text \<open>\<^verbatim>\<open>fgets\<close>: the bytes, whether the end of the file was hit, and what is left.\<close>

definition fgets :: "string \<Rightarrow> (string \<times> bool \<times> string) option" where
  "fgets s =
     (if s = [] then None
      else (case cut_line s of
          Some (l, r) \<Rightarrow> if length l + 1 < LINE_SIZE then Some (l @ [nl], False, r)
                        else Some (take (LINE_SIZE - 1) s, False, drop (LINE_SIZE - 1) s)
        | None \<Rightarrow> if length s < LINE_SIZE - 1 then Some (s, True, [])
                  else Some (take (LINE_SIZE - 1) s, False, drop (LINE_SIZE - 1) s)))"

definition drain_line :: "string \<Rightarrow> string" where
  "drain_line s = (case cut_line s of None \<Rightarrow> [] | Some (l, r) \<Rightarrow> r)"

section \<open>Replies\<close>

definition ok_line :: string where
  "ok_line = ''{'' @ jstr ''ok'' @ '':true}'' @ [nl]"

definition reply_action :: "ActionError \<times> 'e shell \<Rightarrow> string \<Rightarrow> string \<times> 'e shell" where
  "reply_action r ok = (case r of (None, s) \<Rightarrow> (ok, s) | (Some (k, m), s) \<Rightarrow> (error_line k m, s))"

definition field :: "string \<Rightarrow> string \<Rightarrow> string" where
  "field k v = jstr k @ '':'' @ v"

definition session_screenshot :: "('e, 'j) host \<Rightarrow> 'j \<Rightarrow> 'e shell \<Rightarrow> string \<times> 'e shell" where
  "session_screenshot H d s =
     (let path = step_str H d ''out'' ''esprite.png''; s = upd_w (settle_w H) s
      in case on_w (\<lambda>w. be_sync_framebuffer (host_backend H w) w) s of
           (Some err, s) \<Rightarrow> (error_line ''capture_failed'' (''could not capture the display: '' @ err), s)
         | (None, s) \<Rightarrow> (case sim_screenshot_png H path s of
             (ok, s) \<Rightarrow> (''{'' @ field ''ok'' (jbool ok) @ '','' @ field ''path'' (jstr (json_esc path)) @ '','' @
               field ''w'' (int_to_string (fb_w (w_fb (sh_w s)))) @ '','' @
               field ''h'' (int_to_string (fb_h (w_fb (sh_w s)))) @ ''}'' @ [nl], s)))"

definition tap_line :: "int \<Rightarrow> int \<Rightarrow> string" where
  "tap_line x y = ''{'' @ field ''ok'' ''true'' @ '','' @ field ''x'' (int_to_string x) @ '','' @
     field ''y'' (int_to_string y) @ ''}'' @ [nl]"

definition session_tap :: "('e, 'j) host \<Rightarrow> 'j \<Rightarrow> 'e shell \<Rightarrow> string \<times> 'e shell" where
  "session_tap H d s = (case js_str (h_json H) d ''ref'' of
     Some ref \<Rightarrow> (case lvgl_ref_center ref (w_lv (sh_w s)) of
         (None, lv) \<Rightarrow> (error_line ''ref_not_found'' (''no widget with ref '' @ ref @ '' in the current ui snapshot''),
             upd_w (\<lambda>w. w\<lparr>w_lv := lv\<rparr>) s)
       | (Some (x, y), lv) \<Rightarrow> reply_action (lift_action (apply_tap x y) H (upd_w (\<lambda>w. w\<lparr>w_lv := lv\<rparr>) s)) (tap_line x y))
   | None \<Rightarrow> (let x = step_int H d ''x'' 0; y = step_int H d ''y'' 0
             in reply_action (lift_action (apply_tap x y) H s) (tap_line x y)))"

definition session_expect :: "('e, 'j) host \<Rightarrow> 'j \<Rightarrow> 'e shell \<Rightarrow> string \<times> 'e shell" where
  "session_expect H d s =
     (let m = step_str H d ''match'' ''exact''
      in if m \<noteq> ''exact'' \<and> m \<noteq> ''contains''
         then (error_line ''bad_args'' (''expect match must be '' @ quoted ''exact'' @ '' or '' @ quoted ''contains''), s)
         else reply_action (lift_action (apply_expect (step_str H d ''text'' []) (step_str H d ''absent'' []) (m = ''exact'')) H s)
           ok_line)"

definition session_snapshot :: "('e, 'j) host \<Rightarrow> 'j \<Rightarrow> 'e shell \<Rightarrow> string \<times> 'e shell" where
  "session_snapshot H d s =
     (case on_w (sim_wifi_post H (step_str H d ''path'' ''/snapshot'') (js_text (h_json H) d ''data'')) s of
        (True, s) \<Rightarrow> (ok_line, upd_w (settle_w H) s)
      | (False, s) \<Rightarrow> (error_line ''post_failed''
          ''snapshot not delivered (target server unbound/unreachable or body too large)'', s))"

text \<open>The lines and key events drained for \<^verbatim>\<open>ble recv\<close> and \<^verbatim>\<open>ble hid\<close>.\<close>

definition items_line :: "string list \<Rightarrow> string" where
  "items_line items = ''{'' @ field ''items'' (''['' @ comma_list items @ '']'') @ ''}'' @ [nl]"

definition session_ble :: "('e, 'j) host \<Rightarrow> 'j \<Rightarrow> 'e shell \<Rightarrow> string \<times> 'e shell" where
  "session_ble H d s =
     (let sub = step_str H d ''sub'' []; w = sh_w s
      in if sub = ''connect'' then
           reply_action (lift_action (apply_ble_connect (or_else (js_uint (h_json H) d ''passkey'') 0)) H s) ok_line
         else if sub = ''pair'' then reply_action (lift_action apply_ble_pair H s) ok_line
         else if sub = ''disconnect'' then reply_action (lift_action apply_ble_disconnect H s) ok_line
         else if sub = ''send'' then
           (let body = js_text (h_json H) d ''data''
            in if body = [] \<or> body = ''null'' then (error_line ''bad_args'' ''ble send needs a data object'', s)
               else reply_action (lift_action (apply_ble_send body) H s) ok_line)
         else if sub = ''recv'' \<or> sub = ''hid'' then
           (case ble_guarded w of Some (k, m) \<Rightarrow> (error_line k m, s)
            | None \<Rightarrow>
                if sub = ''recv'' then (case sim_ble_host_drain (w_ble w) of
                    (ls, b) \<Rightarrow> (items_line (map (line_item (h_json H)) ls), upd_w (\<lambda>w. w\<lparr>w_ble := b\<rparr>) s))
                else (case sim_ble_hid_drain (w_ble w) of
                    (evs, b) \<Rightarrow> (items_line (map hid_item evs), upd_w (\<lambda>w. w\<lparr>w_ble := b\<rparr>) s)))
         else (error_line ''bad_args'' ''ble takes sub connect|pair|disconnect|send|recv|hid'', s))"

definition session_serial :: "('e, 'j) host \<Rightarrow> 'j \<Rightarrow> 'e shell \<Rightarrow> string \<times> 'e shell" where
  "session_serial H d s =
     (let sub = step_str H d ''sub'' []
      in if sub = ''send'' then
           (case on_w (\<lambda>w. be_serial_inject (host_backend H w) (step_str H d ''text'' [] @ [nl]) w) s of
              (False, s) \<Rightarrow> (error_line ''backend_unavailable'' ''serial write failed (backend not running or pipe closed)'', s)
            | (True, s) \<Rightarrow> (ok_line, upd_w (serial_settle H 5) s))
         else if sub = ''expect'' then
           (let rx = step_str H d ''regex'' []
            in if \<not> s_rx_valid (h_sim H) rx then (error_line ''bad_args'' (''invalid regex '' @ quoted rx), s)
               else (case on_w (\<lambda>w. be_serial_output (host_backend H w) w) (upd_w (serial_settle H SERIAL_SETTLE_STEPS) s) of
                   (txt, s) \<Rightarrow> (''{'' @ field ''matched'' (jbool (s_rx_search (h_sim H) txt rx)) @ ''}'' @ [nl], s)))
         else (error_line ''bad_args'' ''serial takes sub send|expect'', s))"

section \<open>Commands\<close>

text \<open>A command on the booted target.\<close>

definition session_cmd :: "('e, 'j) host \<Rightarrow> string \<Rightarrow> 'j \<Rightarrow> 'e shell \<Rightarrow> string \<times> 'e shell" where
  "session_cmd H cmd d s =
     (let J = h_json H; int = step_int H d; str = step_str H d; act = (\<lambda>f. reply_action (lift_action f H s) ok_line)
      in if cmd = ''ui'' then (case lvgl_snapshot_json (w_lv (sh_w s)) of
             (j, lv) \<Rightarrow> (j @ [nl], upd_w (\<lambda>w. w\<lparr>w_lv := lv\<rparr>) s))
         else if cmd = ''screenshot'' then session_screenshot H d s
         else if cmd = ''tap'' then session_tap H d s
         else if cmd = ''swipe'' then act (apply_swipe (int ''x1'' 0) (int ''y1'' 0) (int ''x2'' 0) (int ''y2'' 0))
         else if cmd = ''expect'' then session_expect H d s
         else if cmd = ''button'' then act (apply_button (str ''which'' ''primary''))
         else if cmd = ''battery'' then
           act (apply_battery (int ''pct'' 75) (js_bool J d ''charging'') (js_bool J d ''vbus''))
         else if cmd = ''rotate'' then act (apply_rotate (int ''q'' 0))
         else if cmd = ''motion'' then act apply_motion
         else if cmd = ''gpio'' then act (apply_gpio (int ''pin'' 0) (int ''level'' 0))
         else if cmd = ''wifi'' then act (apply_wifi (str ''state'' ''up''))
         else if cmd = ''snapshot'' then session_snapshot H d s
         else if cmd = ''steps'' then (ok_line, upd_w (steps (h_sim H) (int ''n'' 10)) s)
         else if cmd = ''ble'' then session_ble H d s
         else if cmd = ''serial'' then session_serial H d s
         else if cmd = ''logs'' then (case on_w (\<lambda>w. be_serial_output (host_backend H w) w) s of
             (txt, s) \<Rightarrow> (''{'' @ field ''serial'' (jstr (json_esc txt)) @ ''}'' @ [nl], s))
         else (error_line ''bad_args'' (''unknown cmd '' @ quoted cmd), s))"

record 'e session =
  se_shell :: "'e shell"
  se_booted :: bool
  se_qemu :: bool

definition session_boot :: "('e, 'j) host \<Rightarrow> string option \<Rightarrow> 'j \<Rightarrow> 'e session \<Rightarrow> string \<times> 'e session" where
  "session_boot H dflt d st =
     (if se_booted st then (error_line ''already_booted'' ''one boot per run session; start a new session to boot again'', st)
      else (let t = step_str H d ''target'' []; t = (if t = [] then or_else dflt [] else t);
                reg = s_reg (h_sim H)
            in case sim_target t reg of
                 None \<Rightarrow> (error_line ''unknown_target'' (''unknown target '' @ quoted t), st\<lparr>se_booted := False\<rparr>)
               | Some i \<Rightarrow>
                   (let s = upd_w (sim_backend_select reg (s_slots (h_sim H)) (Some i)) (se_shell st);
                        q = (t_backend (reg ! i) = BACKEND_QEMU)
                    in case on_w (\<lambda>w. be_boot (host_backend H w) (Some i) w) s of
                         (None, s) \<Rightarrow> (ok_line, \<lparr>se_shell = s, se_booted = True, se_qemu = q\<rparr>)
                       | (Some err, s) \<Rightarrow> (error_line ''backend_unavailable'' (could_not_boot t err),
                           \<lparr>se_shell = s, se_booted = False, se_qemu = q\<rparr>))))"

text \<open>One command: the reply, \<^const>\<open>None\<close> where the session ends.\<close>

definition session_exec :: "('e, 'j) host \<Rightarrow> string option \<Rightarrow> 'j \<Rightarrow> 'e session \<Rightarrow> string option \<times> 'e session" where
  "session_exec H dflt d st =
     (let cmd = step_str H d ''cmd'' []; active = active_target (h_sim H) (sh_w (se_shell st))
      in if cmd = ''boot'' then (case session_boot H dflt d st of (r, st) \<Rightarrow> (Some r, st))
         else if cmd = ''quit'' \<or> cmd = ''exit'' then (None, st)
         else if \<not> se_booted st then (Some (error_line ''not_booted'' ''boot a target first''), st)
         else if se_qemu st \<and> \<not> qemu_command_allowed cmd active
         then (Some (error_line ''unsupported''
                (qemu_unsupported_msg cmd (case active of None \<Rightarrow> [] | Some t \<Rightarrow> t_key t))), st)
         else (case session_cmd H cmd d (se_shell st) of (r, s) \<Rightarrow> (Some r, st\<lparr>se_shell := s\<rparr>)))"

text \<open>One turn of the loop on what \<^verbatim>\<open>fgets\<close> gave: the reply, the session and the input left.\<close>

definition session_line :: "('e, 'j) host \<Rightarrow> string option \<Rightarrow> string \<times> bool \<times> string \<Rightarrow> 'e session
    \<Rightarrow> string option \<times> 'e session \<times> string" where
  "session_line H dflt got st = (case got of (line, eof, rest) \<Rightarrow>
     if nl \<notin> set (c_str line) \<and> \<not> eof
     then (Some (error_line ''bad_args'' (''line too long (max '' @ nat_to_string (LINE_SIZE - 1) @ '' bytes)'')), st, drain_line rest)
     else (case js_parse (h_json H) (c_str line) of
         None \<Rightarrow> (Some (error_line ''bad_args'' ''line is not valid JSON''), st, rest)
       | Some d \<Rightarrow> (case session_exec H dflt d st of (r, st) \<Rightarrow> (r, st, rest))))"

text \<open>The replies, whether the session was told to quit, the session and the input left.\<close>

fun session_loop :: "bool list \<Rightarrow> ('e, 'j) host \<Rightarrow> string option \<Rightarrow> string \<Rightarrow> 'e session
    \<Rightarrow> string list \<times> bool \<times> 'e session \<times> string" where
  "session_loop [] H dflt inp st = ([], False, st, inp)"
| "session_loop (g # gs) H dflt inp st =
     (if \<not> g then ([], False, st, inp)
      else (case fgets inp of
          None \<Rightarrow> ([], False, st, inp)
        | Some got \<Rightarrow> (case session_line H dflt got st of
            (None, st, rest) \<Rightarrow> ([], True, st, rest)
          | (Some r, st, rest) \<Rightarrow> (case session_loop gs H dflt rest st of
              (rs, q, st, rest) \<Rightarrow> (r # rs, q, st, rest)))))"

text \<open>The daemon, boards installed: the shutdown guard runs as it returns.\<close>

definition esprite_daemon :: "bool list \<Rightarrow> ('e, 'j) host \<Rightarrow> string option \<Rightarrow> string \<Rightarrow> 'e shell
    \<Rightarrow> string list \<times> 'e shell" where
  "esprite_daemon gs H dflt inp s =
     (case session_loop gs H dflt inp \<lparr>se_shell = s, se_booted = False, se_qemu = False\<rparr> of
        (rs, q, st, rest) \<Rightarrow> (rs, upd_w (\<lambda>w. be_shutdown (host_backend H w) w) (se_shell st)))"

section \<open>One line in, one reply out\<close>

definition line_count :: "string \<Rightarrow> nat" where
  "line_count s = (case split_lines s of (ls, t) \<Rightarrow> length ls + (if t = [] then 0 else 1))"

lemma line_count_drain: "s \<noteq> [] \<Longrightarrow> line_count s = Suc (line_count (drain_line s))"
proof (cases "cut_line s")
  case None
  then have "split_lines s = ([], s)" by (simp add: split_lines_none)
  moreover assume "s \<noteq> []"
  ultimately show ?thesis using None by (simp add: line_count_def drain_line_def split_lines_none)
next
  case (Some p)
  obtain l r where p: "p = (l, r)" by force
  then have "s = l @ nl # r" "nl \<notin> set l" using Some by (simp_all add: cut_line_Some)
  then have "split_lines s = (l # fst (split_lines r), snd (split_lines r))"
    by (simp add: split_lines_line split_def Let_def)
  then show ?thesis using Some p by (simp add: line_count_def drain_line_def split_def)
qed

lemma line_count_Nil [simp]: "line_count [] = 0"
  by (simp add: line_count_def split_lines_none)

lemma drain_drop:
  assumes "nl \<notin> set (take k s)"
  shows "drain_line (drop k s) = drain_line s"
proof (cases "cut_line (drop k s)")
  case None
  then have "nl \<notin> set s" using assms append_take_drop_id [of k s] by (metis Un_iff cut_line_None set_append)
  with None show ?thesis by (simp add: drain_line_def)
next
  case (Some p)
  obtain l r where p: "p = (l, r)" by force
  then have "drop k s = l @ nl # r" "nl \<notin> set l" using Some by (simp_all add: cut_line_Some)
  then have "s = (take k s @ l) @ nl # r" by (metis append_assoc append_take_drop_id)
  then have "cut_line s = Some (take k s @ l, r)" using \<open>nl \<notin> set l\<close> assms by (simp add: cut_line_Some)
  with Some p show ?thesis by (simp add: drain_line_def)
qed

lemma c_str_id: "CHR 0x00 \<notin> set s \<Longrightarrow> c_str s = s"
  by (auto simp: c_str_def takeWhile_eq_all_conv)

text \<open>Whatever a turn reads, it consumes exactly one line.\<close>

lemma session_line_rest:
  assumes nul: "CHR 0x00 \<notin> set s" and got: "fgets s = Some (line, eof, rest)"
    and turn: "session_line H dflt (line, eof, rest) st = (r, st', rest')"
  shows "rest' = drain_line s" and "s \<noteq> []"
proof -
  show s: "s \<noteq> []" using got by (auto simp: fgets_def)
  have "(line, eof, rest) = (case cut_line s of
      Some (l, r) \<Rightarrow> if length l + 1 < LINE_SIZE then (l @ [nl], False, r) else (take (LINE_SIZE - 1) s, False, drop (LINE_SIZE - 1) s)
    | None \<Rightarrow> if length s < LINE_SIZE - 1 then (s, True, []) else (take (LINE_SIZE - 1) s, False, drop (LINE_SIZE - 1) s))"
    using got s by (auto simp: fgets_def split: option.splits prod.splits if_splits)
  then consider
      (whole) l where "cut_line s = Some (l, rest)" "line = l @ [nl]" "\<not> eof"
    | (cut) "line = take (LINE_SIZE - 1) s" "rest = drop (LINE_SIZE - 1) s" "\<not> eof" "nl \<notin> set line"
    | (last) "cut_line s = None" "line = s" "eof" "rest = []"
  proof (cases "cut_line s")
    case (Some p)
    obtain l r where p: "p = (l, r)" by force
    with Some have sl: "s = l @ nl # r" "nl \<notin> set l" by (simp_all add: cut_line_Some)
    show ?thesis
    proof (cases "length l + 1 < LINE_SIZE")
      case True
      with Some p show ?thesis using \<open>(line, eof, rest) = _\<close> whole [of l] by simp
    next
      case False
      then have "set (take (LINE_SIZE - 1) s) \<subseteq> set l" unfolding sl(1) by (simp add: set_take_subset)
      with False Some p sl(2) show ?thesis using \<open>(line, eof, rest) = _\<close> cut by auto
    qed
  next
    case None
    then have "nl \<notin> set s" by simp
    then have "nl \<notin> set (take (LINE_SIZE - 1) s)" using in_set_takeD by metis
    with None show ?thesis using \<open>(line, eof, rest) = _\<close> cut last by (auto split: if_splits)
  qed
  then show "rest' = drain_line s"
  proof cases
    case whole
    then have "set line \<subseteq> set s" by (auto simp: cut_line_Some)
    then have "c_str line = line" using nul by (intro c_str_id) auto
    then have "rest' = rest" using turn whole by (auto simp: session_line_def split: option.splits prod.splits)
    with whole show ?thesis by (simp add: drain_line_def)
  next
    case cut
    have "set line \<subseteq> set s" unfolding cut(1) by (rule set_take_subset)
    then have "c_str line = line" using nul by (intro c_str_id) auto
    then have "rest' = drain_line rest" using turn cut by (simp add: session_line_def)
    with cut show ?thesis using drain_drop [of "LINE_SIZE - 1" s] by simp
  next
    case last
    then have "rest' = rest" using turn by (auto simp: session_line_def split: option.splits prod.splits)
    with last show ?thesis by (simp add: drain_line_def)
  qed
qed

lemma nul_drain: "CHR 0x00 \<notin> set s \<Longrightarrow> CHR 0x00 \<notin> set (drain_line s)"
proof (cases "cut_line s")
  case (Some p)
  moreover obtain l r where "p = (l, r)" by force
  moreover assume "CHR 0x00 \<notin> set s"
  ultimately show ?thesis using cut_line_Some [of s l r] by (simp add: drain_line_def)
qed (simp add: drain_line_def)

lemma fgets_some: "s \<noteq> [] \<Longrightarrow> \<exists>line eof r. fgets s = Some (line, eof, r)"
  by (cases "cut_line s") (auto simp: fgets_def)


definition demo_session :: "unit session" where
  "demo_session = \<lparr>se_shell = \<lparr>sh_w = demo_running, sh_png = []\<rparr>, se_booted = False, se_qemu = False\<rparr>"


text \<open>
  A zero byte breaks this: \<^verbatim>\<open>strchr\<close> does not see the newline behind it, so the loop drains the
  next line too and answers both with one error.
\<close>

lemma session_nul_swallows:
  assumes "nl \<notin> set (a @ b @ l)" and "length (a @ CHR 0x00 # b) + 1 < LINE_SIZE"
  shows "\<exists>m. session_loop [True] H dflt (a @ CHR 0x00 # b @ nl # l @ nl # rest) st = ([error_line ''bad_args'' m], False, st, rest)"
proof -
  let ?line = "a @ CHR 0x00 # b"
  have "cut_line (?line @ nl # l @ nl # rest) = Some (?line, l @ nl # rest)" using assms(1) by (subst cut_line_Some) auto
  then have got: "fgets (a @ CHR 0x00 # b @ nl # l @ nl # rest) = Some (?line @ [nl], False, l @ nl # rest)"
    using assms(2) by (simp add: fgets_def)
  have "takeWhile (\<lambda>c. c \<noteq> CHR 0x00) (a @ CHR 0x00 # t) = takeWhile (\<lambda>c. c \<noteq> CHR 0x00) a" for t
    by (induction a) auto
  then have "c_str (?line @ [nl]) = takeWhile (\<lambda>c. c \<noteq> CHR 0x00) a" by (simp add: c_str_def)
  then have no: "nl \<notin> set (c_str (?line @ [nl]))" using assms(1) set_takeWhileD by fastforce
  have "cut_line (l @ nl # rest) = Some (l, rest)" using assms(1) by (subst cut_line_Some) auto
  then have "session_line H dflt (?line @ [nl], False, l @ nl # rest) st =
      (Some (error_line ''bad_args'' (''line too long (max '' @ nat_to_string (LINE_SIZE - 1) @ '' bytes)'')), st, rest)"
    using no unfolding session_line_def by (simp only: prod.case simp_thms if_True drain_line_def option.case)
  with got show ?thesis by (simp only: session_loop.simps option.case prod.case simp_thms if_False) blast
qed

section \<open>The session and the scenario agree\<close>

definition shared_cmds :: "string list" where
  "shared_cmds = [''swipe'', ''tap'', ''button'', ''battery'', ''rotate'', ''motion'', ''gpio'', ''wifi'', ''expect'', ''steps'']"

definition success_line :: "('e, 'j) host \<Rightarrow> string \<Rightarrow> 'j \<Rightarrow> string" where
  "success_line H cmd d = (if cmd = ''tap'' then tap_line (step_int H d ''x'' 0) (step_int H d ''y'' 0) else ok_line)"

text \<open>
  The dialects cannot drift apart: a command of the session on a native target does
  to the world exactly what the scenario step with the same fields does, and replies with the
  error envelope of the same kind and message where that step fails.
\<close>

theorem session_scenario_agree:
  assumes "cmd \<in> set shared_cmds" and "js_str (h_json H) d ''ref'' = None" and "js_bool (h_json H) d ''vbus'' = None"
  shows "session_cmd H cmd d s = reply_action (run_step rounds H False cmd d s) (success_line H cmd d)"
proof -
  have tap: "session_cmd H ''tap'' d s = session_tap H d s"
    by (simp add: session_cmd_def Let_def)
  show ?thesis
    using assms(1) unfolding shared_cmds_def list.set insert_iff
  proof (elim disjE emptyE)
    assume "cmd = ''swipe''"
    then show ?thesis
      by (simp add: session_cmd_def run_step_def success_line_def Let_def)
  next
    assume "cmd = ''tap''"
    then show ?thesis
      by (simp add: tap session_tap_def assms(2) run_step_def success_line_def Let_def)
  next
    assume "cmd = ''expect''"
    then show ?thesis
      by (simp add: session_cmd_def run_step_def session_expect_def step_expect_def success_line_def Let_def reply_action_def)
  next
    assume "cmd = ''steps''"
    then show ?thesis by (simp add: session_cmd_def run_step_def success_line_def Let_def reply_action_def)
  qed (simp_all add: session_cmd_def run_step_def success_line_def Let_def assms(3))
qed

definition unbooted :: "unit shell" where
  "unbooted = \<lparr>sh_w = demo_world, sh_png = []\<rparr>"

theorem session_scenario_agree_witness:
  "fst (session_cmd demo_host ''rotate'' () unbooted) =
     error_line ''unsupported'' ''this board does not support rotation''"
proof -
  have "run_step (\<lambda>_ _. 0) demo_host False ''rotate'' () unbooted =
      (Some (''unsupported'', ''this board does not support rotation''), unbooted)"
    by (simp add: run_step_def apply_rotate_def active_board_def active_target_def demo_host_def demo_sim_def unbooted_def
        demo_world_def step_int_def or_else_def Let_def)
  then show ?thesis
    using session_scenario_agree [of "''rotate''" demo_host "()" unbooted "\<lambda>_ _. 0"]
    by (simp add: shared_cmds_def demo_host_def reply_action_def)
qed

section \<open>The post that is not waited for\<close>

lemma settle_idle: "active_loop reg w = None \<Longrightarrow> settle_loop n start ms reg w = w"
  by (induction n) (simp_all add: sim_step_def)

text \<open>
  The session gives a delivered post time with the in-process settle, which on a target without an
  in-process loop (a QEMU target) does nothing: the reply comes before the guest has run at all. The
  other two dialects wait fifty milliseconds through the backend.
\<close>

lemma session_snapshot_unsettled:
  assumes "on_w (sim_wifi_post H (step_str H d ''path'' ''/snapshot'') (js_text (h_json H) d ''data'')) s = (True, s')"
    and "active_loop (s_reg (h_sim H)) (sh_w s') = None"
  shows "session_snapshot H d s = (ok_line, s')"
  using assms by (simp add: session_snapshot_def   sim_settle_def sim_settle_ms_def settle_idle)

end
