(* ===== verification/GuestAgent.thy ===== *)
theory GuestAgent
  imports QemuBackend QemuBoard Actions
begin

text \<open>
  The input agent that runs inside an emulated firmware
  (\<^verbatim>\<open>tools/qemu/esprite_qemu_agent/esprite_qemu_agent.c\<close>): a task that reads command lines byte by
  byte from the second UART, changes the injected touch and pin state, and answers each line;
  the accessors that firmware tasks poll. The other end is \<open>AgentLink\<close>, so the last section puts
  the two programs together.
\<close>

section \<open>The injected state\<close>

definition MAX_PIN :: int where
  "MAX_PIN = 63"

record guest_input =
  g_held :: bool
  g_x :: int
  g_y :: int
  g_touches :: int
  g_level :: "int list" \<comment> \<open>\<open>-1\<close>: never injected\<close>
  g_events :: "int list"

text \<open>The statics, after \<^verbatim>\<open>esprite_agent_start\<close> has set every level to \<open>-1\<close>.\<close>

definition guest_init :: guest_input where
  "guest_init = \<lparr>g_held = False, g_x = 0, g_y = 0, g_touches = 0,
     g_level = replicate 64 (- 1), g_events = replicate 64 0\<rparr>"

definition esprite_agent_touch :: "guest_input \<Rightarrow> (int \<times> int) option" where
  "esprite_agent_touch g = (if \<not> g_held g then None else Some (g_x g, g_y g))"

definition esprite_agent_touch_events :: "guest_input \<Rightarrow> int \<times> int \<times> int" where
  "esprite_agent_touch_events g = (g_touches g, g_x g, g_y g)"

definition esprite_agent_gpio_level :: "int \<Rightarrow> int \<Rightarrow> guest_input \<Rightarrow> int" where
  "esprite_agent_gpio_level pin dflt g =
     (if pin < 0 \<or> MAX_PIN < pin then dflt
      else (let v = g_level g ! nat pin in if v < 0 then dflt else v))"

definition esprite_agent_gpio_events :: "int \<Rightarrow> guest_input \<Rightarrow> int" where
  "esprite_agent_gpio_events pin g =
     (if pin < 0 \<or> MAX_PIN < pin then 0 else g_events g ! nat pin)"

section \<open>A command line\<close>

text \<open>\<^verbatim>\<open>strtok_r\<close> with a blank as the only delimiter: the token and what is left.\<close>

definition strtok :: "string \<Rightarrow> (string \<times> string) option" where
  "strtok s = (let s = dropWhile (\<lambda>c. c = CHR '' '') s
     in if s = [] then None
        else Some (takeWhile (\<lambda>c. c \<noteq> CHR '' '') s, drop 1 (dropWhile (\<lambda>c. c \<noteq> CHR '' '') s)))"

text \<open>
  A number outside \<^verbatim>\<open>long\<close> is clamped by \<^verbatim>\<open>strtol\<close> and then out of every range used here, as it
  is unclamped.
\<close>

definition parse_int :: "string \<Rightarrow> int \<Rightarrow> int \<Rightarrow> int option" where
  "parse_int tok lo hi =
     (if tok = [] then None
      else (case c_strtol tok of None \<Rightarrow> None
        | Some (v, r) \<Rightarrow> if r \<noteq> [] \<or> v < lo \<or> v > hi then None else Some v))"

definition next_int :: "int \<Rightarrow> int \<Rightarrow> string \<Rightarrow> (int \<times> string) option" where
  "next_int lo hi s = (case strtok s of None \<Rightarrow> None
     | Some (tok, r) \<Rightarrow> (case parse_int tok lo hi of None \<Rightarrow> None | Some v \<Rightarrow> Some (v, r)))"

definition set_level :: "int \<Rightarrow> int \<Rightarrow> guest_input \<Rightarrow> guest_input" where
  "set_level pin level g = g\<lparr>g_level := (g_level g)[nat pin := level]\<rparr>"

definition count_event :: "int \<Rightarrow> guest_input \<Rightarrow> guest_input" where
  "count_event pin g = g\<lparr>g_events := (g_events g)[nat pin := g_events g ! nat pin + 1]\<rparr>"

definition press_touch :: "int \<Rightarrow> int \<Rightarrow> guest_input \<Rightarrow> guest_input" where
  "press_touch x y g = g\<lparr>g_x := x, g_y := y, g_held := True, g_touches := g_touches g + 1\<rparr>"

text \<open>
  What a command does: the reply, the state it leaves, and the states other tasks see while it
  waits, each with the wait in milliseconds. The handlers get the rest of the line.
\<close>

type_synonym served = "string \<times> guest_input \<times> (guest_input \<times> int) list"

definition do_gpio :: "string \<Rightarrow> guest_input \<Rightarrow> served" where
  "do_gpio s g = (case next_int 0 MAX_PIN s of None \<Rightarrow> (''err gpio needs <pin 0-63> <0|1>'', g, [])
     | Some (pin, s) \<Rightarrow> (case next_int 0 1 s of None \<Rightarrow> (''err gpio needs <pin 0-63> <0|1>'', g, [])
       | Some (level, s) \<Rightarrow>
           (''ok'', set_level pin level
              (if level = 0 \<and> g_level g ! nat pin \<noteq> 0 then count_event pin g else g), [])))"

definition do_pulse :: "string \<Rightarrow> guest_input \<Rightarrow> served" where
  "do_pulse s g = (let bad = (''err pulse needs <pin 0-63> <0|1> <ms 1-10000>'', g, [])
     in case next_int 0 MAX_PIN s of None \<Rightarrow> bad
     | Some (pin, s) \<Rightarrow> (case next_int 0 1 s of None \<Rightarrow> bad
       | Some (level, s) \<Rightarrow> (case next_int 1 10000 s of None \<Rightarrow> bad
         | Some (ms, s) \<Rightarrow>
             (let down = set_level pin level g
              in (''ok'', count_event pin (set_level pin (if level = 0 then 1 else 0) down), [(down, ms)])))))"

definition do_touch :: "string \<Rightarrow> guest_input \<Rightarrow> served" where
  "do_touch s g = (case next_int 0 4095 s of None \<Rightarrow> (''err touch needs <x> <y>'', g, [])
     | Some (x, s) \<Rightarrow> (case next_int 0 4095 s of None \<Rightarrow> (''err touch needs <x> <y>'', g, [])
       | Some (y, s) \<Rightarrow> (''ok'', press_touch x y g, [])))"

definition do_tap :: "string \<Rightarrow> guest_input \<Rightarrow> served" where
  "do_tap s g = (let bad = (''err tap needs <x> <y> <ms 1-10000>'', g, [])
     in case next_int 0 4095 s of None \<Rightarrow> bad
     | Some (x, s) \<Rightarrow> (case next_int 0 4095 s of None \<Rightarrow> bad
       | Some (y, s) \<Rightarrow> (case next_int 1 10000 s of None \<Rightarrow> bad
         | Some (ms, s) \<Rightarrow>
             (let down = press_touch x y g in (''ok'', down\<lparr>g_held := False\<rparr>, [(down, ms)])))))"

definition handle_line :: "string \<Rightarrow> guest_input \<Rightarrow> served" where
  "handle_line line g = (case strtok (c_str line) of None \<Rightarrow> (''err empty command'', g, [])
     | Some (cmd, s) \<Rightarrow>
        if cmd = ''ping'' then (''ok esprite-agent v1'', g, [])
        else if cmd = ''gpio'' then do_gpio s g
        else if cmd = ''pulse'' then do_pulse s g
        else if cmd = ''touch'' then do_touch s g
        else if cmd = ''release'' then (''ok'', g\<lparr>g_held := False\<rparr>, [])
        else if cmd = ''tap'' then do_tap s g
        else (''err unknown command'', g, []))"

section \<open>The task\<close>

definition LINE_MAX :: nat where
  "LINE_MAX = 128"

record agent_task =
  gt_line :: string
  gt_in :: guest_input
  gt_out :: string \<comment> \<open>the bytes written to the UART\<close>
  gt_holds :: "(guest_input \<times> int) list" \<comment> \<open>the states held during a wait, oldest first\<close>

definition reply :: "string \<Rightarrow> agent_task \<Rightarrow> agent_task" where
  "reply l t = t\<lparr>gt_out := gt_out t @ l @ [nl]\<rparr>"

definition agent_start :: agent_task where
  "agent_start = reply ''esprite-agent v1''
     \<lparr>gt_line = [], gt_in = guest_init, gt_out = [], gt_holds = []\<rparr>"

definition run_line :: "agent_task \<Rightarrow> agent_task" where
  "run_line t = (case handle_line (gt_line t) (gt_in t) of (r, g, hs) \<Rightarrow>
     reply r (t\<lparr>gt_line := [], gt_in := g, gt_holds := gt_holds t @ hs\<rparr>))"

definition agent_byte :: "char \<Rightarrow> agent_task \<Rightarrow> agent_task" where
  "agent_byte c t =
     (if c = nl \<or> c = cr then (if gt_line t \<noteq> [] then run_line t else t)
      else if length (gt_line t) < LINE_MAX - 1 then t\<lparr>gt_line := gt_line t @ [c]\<rparr>
      else reply ''err line too long'' (t\<lparr>gt_line := []\<rparr>))"

abbreviation agent_bytes :: "string \<Rightarrow> agent_task \<Rightarrow> agent_task" where
  "agent_bytes s \<equiv> fold agent_byte s"

section \<open>Parsing what the host prints\<close>

lemma strtok_word [simp]:
  assumes "w \<noteq> []" and "CHR '' '' \<notin> set w"
  shows "strtok (w @ CHR '' '' # r) = Some (w, r)" and "strtok w = Some (w, [])"
proof -
  obtain c cs where "w = c # cs" "c \<noteq> CHR '' ''" using assms by (cases w) auto
  then have "dropWhile (\<lambda>c. c = CHR '' '') (w @ u) = w @ u" for u by simp
  from this [of "CHR '' '' # r"] this [of "[]"]
  have d: "dropWhile (\<lambda>c. c = CHR '' '') (w @ CHR '' '' # r) = w @ CHR '' '' # r"
    "dropWhile (\<lambda>c. c = CHR '' '') w = w" by simp_all
  have "takeWhile (\<lambda>c. c \<noteq> CHR '' '') (w @ CHR '' '' # r) = w" "takeWhile (\<lambda>c. c \<noteq> CHR '' '') w = w"
    "dropWhile (\<lambda>c. c \<noteq> CHR '' '') (w @ CHR '' '' # r) = CHR '' '' # r" "dropWhile (\<lambda>c. c \<noteq> CHR '' '') w = []"
    using assms(2) by (auto simp: takeWhile_tail dropWhile_append takeWhile_eq_all_conv)
  with d show "strtok (w @ CHR '' '' # r) = Some (w, r)" and "strtok w = Some (w, [])"
    using assms(1) by (simp_all only: strtok_def Let_def append_is_Nil_conv if_False simp_thms list.size drop_Suc_Cons drop0 drop_Nil One_nat_def)
qed

lemma int_to_string_chars: "c \<in> set (int_to_string v) \<Longrightarrow> is_digit c \<or> c = CHR ''-''"
  using nat_to_string_digits by (auto simp: int_to_string_def split: if_splits)

lemma int_to_string_plain [simp]:
  "int_to_string v \<noteq> []" "CHR '' '' \<notin> set (int_to_string v)" "nl \<notin> set (int_to_string v)"
  "cr \<notin> set (int_to_string v)" "CHR 0x00 \<notin> set (int_to_string v)"
proof -
  show "int_to_string v \<noteq> []" by (simp add: int_to_string_def)
qed (auto simp: is_digit_def dest: int_to_string_chars)

lemma parse_int_print [simp]: "lo \<le> v \<Longrightarrow> v \<le> hi \<Longrightarrow> parse_int (int_to_string v) lo hi = Some v"
  using c_strtol_int [of "[]" v] by (simp add: parse_int_def)

lemma next_int_print [simp]:
  "lo \<le> v \<Longrightarrow> v \<le> hi \<Longrightarrow> next_int lo hi (int_to_string v @ CHR '' '' # r) = Some (v, r)"
  "lo \<le> v \<Longrightarrow> v \<le> hi \<Longrightarrow> next_int lo hi (int_to_string v) = Some (v, [])"
  by (simp_all add: next_int_def)

lemma next_int_range: "next_int lo hi s = Some (v, r) \<Longrightarrow> lo \<le> v \<and> v \<le> hi"
  by (auto simp: next_int_def parse_int_def split: option.splits prod.splits if_splits)

section \<open>The commands of the protocol\<close>

text \<open>What each command means, as the header of the component documents it.\<close>

datatype agent_cmd = Ping | Gpio int int | Pulse int int int | Touch int int | Release | Tap int int int

fun cmd_text :: "agent_cmd \<Rightarrow> string" where
  "cmd_text Ping = ''ping''"
| "cmd_text (Gpio pin level) = ''gpio '' @ int_to_string pin @ '' '' @ int_to_string level"
| "cmd_text (Pulse pin level ms) = ''pulse '' @ int_to_string pin @ '' '' @ int_to_string level @ '' '' @ int_to_string ms"
| "cmd_text (Touch x y) = ''touch '' @ int_to_string x @ '' '' @ int_to_string y"
| "cmd_text Release = ''release''"
| "cmd_text (Tap x y ms) = ''tap '' @ int_to_string x @ '' '' @ int_to_string y @ '' '' @ int_to_string ms"

fun cmd_ok :: "agent_cmd \<Rightarrow> bool" where
  "cmd_ok (Gpio pin level) \<longleftrightarrow> 0 \<le> pin \<and> pin \<le> 63 \<and> 0 \<le> level \<and> level \<le> 1"
| "cmd_ok (Pulse pin level ms) \<longleftrightarrow> 0 \<le> pin \<and> pin \<le> 63 \<and> 0 \<le> level \<and> level \<le> 1 \<and> 1 \<le> ms \<and> ms \<le> 10000"
| "cmd_ok (Touch x y) \<longleftrightarrow> 0 \<le> x \<and> x \<le> 4095 \<and> 0 \<le> y \<and> y \<le> 4095"
| "cmd_ok (Tap x y ms) \<longleftrightarrow> 0 \<le> x \<and> x \<le> 4095 \<and> 0 \<le> y \<and> y \<le> 4095 \<and> 1 \<le> ms \<and> ms \<le> 10000"
| "cmd_ok _ \<longleftrightarrow> True"

fun cmd_reply :: "agent_cmd \<Rightarrow> string" where
  "cmd_reply Ping = ''ok esprite-agent v1''"
| "cmd_reply _ = ''ok''"

text \<open>The state a command leaves, and the ones it holds while it waits.\<close>

fun cmd_effect :: "agent_cmd \<Rightarrow> guest_input \<Rightarrow> guest_input" where
  "cmd_effect Ping g = g"
| "cmd_effect (Gpio pin level) g =
     set_level pin level (if level = 0 \<and> g_level g ! nat pin \<noteq> 0 then count_event pin g else g)"
| "cmd_effect (Pulse pin level ms) g = count_event pin (set_level pin (1 - level) (set_level pin level g))"
| "cmd_effect (Touch x y) g = press_touch x y g"
| "cmd_effect Release g = g\<lparr>g_held := False\<rparr>"
| "cmd_effect (Tap x y ms) g = (press_touch x y g)\<lparr>g_held := False\<rparr>"

fun cmd_holds :: "agent_cmd \<Rightarrow> guest_input \<Rightarrow> (guest_input \<times> int) list" where
  "cmd_holds (Pulse pin level ms) g = [(set_level pin level g, ms)]"
| "cmd_holds (Tap x y ms) g = [(press_touch x y g, ms)]"
| "cmd_holds _ g = []"

lemma handle_line_cmd:
  assumes "cmd_ok c"
  shows "handle_line (cmd_text c) g = (cmd_reply c, cmd_effect c g, cmd_holds c g)"
proof -
  have word: "strtok (c_str (w @ CHR '' '' # s)) = Some (w, c_str s)"
    if "w \<noteq> []" "CHR '' '' \<notin> set w" "CHR 0x00 \<notin> set w" for w s
  proof -
    have "c_str (w @ CHR '' '' # s) = w @ CHR '' '' # c_str s"
      using that(3) by (induction w) (auto simp: c_str_def)
    with that(1,2) show ?thesis by simp
  qed
  have plain: "c_str s = s" if "CHR 0x00 \<notin> set s" for s using that by (auto simp: c_str_def takeWhile_eq_all_conv)
  show ?thesis
  proof (cases c)
    case (Gpio pin level)
    with assms word [of "''gpio''" "int_to_string pin @ '' '' @ int_to_string level"] show ?thesis
      by (simp add: handle_line_def do_gpio_def plain MAX_PIN_def)
  next
    case (Pulse pin level ms)
    with assms have "level = 0 \<or> level = 1" by auto
    with assms Pulse word [of "''pulse''" "int_to_string pin @ '' '' @ int_to_string level @ '' '' @ int_to_string ms"]
    show ?thesis by (auto simp: handle_line_def do_pulse_def plain MAX_PIN_def Let_def)
  next
    case (Touch x y)
    with assms word [of "''touch''" "int_to_string x @ '' '' @ int_to_string y"] show ?thesis
      by (simp add: handle_line_def do_touch_def plain)
  next
    case (Tap x y ms)
    with assms word [of "''tap''" "int_to_string x @ '' '' @ int_to_string y @ '' '' @ int_to_string ms"] show ?thesis
      by (simp add: handle_line_def do_tap_def plain Let_def)
  qed (simp_all add: handle_line_def plain)
qed

text \<open>Everything the host can print fits the line buffer, blank-free of line ends.\<close>

lemma int_to_string_length: "0 \<le> v \<Longrightarrow> v \<le> 10000 \<Longrightarrow> length (int_to_string v) \<le> 5"
  using length_nat_to_string [of "nat v" 5] by (simp add: int_to_string_def)

lemma cmd_text_line:
  assumes "cmd_ok c"
  shows "cmd_text c \<noteq> []" and "length (cmd_text c) < LINE_MAX" and "nl \<notin> set (cmd_text c)" and "cr \<notin> set (cmd_text c)"
proof -
  have n: "length (int_to_string v) \<le> 5" if "0 \<le> v \<and> v \<le> 10000" for v
    using int_to_string_length that by blast
  show "length (cmd_text c) < LINE_MAX"
  proof (cases c)
    case (Gpio pin level)
    with assms n [of pin] n [of level] show ?thesis by (simp add: LINE_MAX_def)
  next
    case (Pulse pin level ms)
    with assms n [of pin] n [of level] n [of ms] show ?thesis by (simp add: LINE_MAX_def)
  next
    case (Touch x y)
    with assms n [of x] n [of y] show ?thesis by (simp add: LINE_MAX_def)
  next
    case (Tap x y ms)
    with assms n [of x] n [of y] n [of ms] show ?thesis by (simp add: LINE_MAX_def)
  qed (simp_all add: LINE_MAX_def)
qed (cases c; simp)+

section \<open>The task serves lines\<close>

lemma agent_bytes_word:
  assumes "nl \<notin> set s" and "cr \<notin> set s" and "length (gt_line t) + length s < LINE_MAX"
  shows "agent_bytes s t = t\<lparr>gt_line := gt_line t @ s\<rparr>"
  using assms by (induction s arbitrary: t) (auto simp: agent_byte_def)

lemma agent_bytes_line:
  assumes "gt_line t = []" and "s \<noteq> []" and "nl \<notin> set s" and "cr \<notin> set s" and "length s < LINE_MAX"
  shows "agent_bytes (s @ [nl]) t = run_line (t\<lparr>gt_line := s\<rparr>)"
  using agent_bytes_word [of s t] assms by (simp add: agent_byte_def)

text \<open>The wire text of a list of commands, and what serving one command does to the task.\<close>

definition wire :: "agent_cmd list \<Rightarrow> string" where
  "wire cs = concat (map (\<lambda>c. cmd_text c @ [nl]) cs)"

definition replies :: "agent_cmd list \<Rightarrow> string" where
  "replies cs = concat (map (\<lambda>c. cmd_reply c @ [nl]) cs)"

lemma wire_simps [simp]:
  "wire [] = []" "wire (c # cs) = cmd_text c @ nl # wire cs" "wire (cs @ ds) = wire cs @ wire ds"
  "replies [] = []" "replies (c # cs) = cmd_reply c @ nl # replies cs" "replies (cs @ ds) = replies cs @ replies ds"
  by (simp_all add: wire_def replies_def)

fun all_holds :: "agent_cmd list \<Rightarrow> guest_input \<Rightarrow> (guest_input \<times> int) list" where
  "all_holds [] g = []"
| "all_holds (c # cs) g = cmd_holds c g @ all_holds cs (cmd_effect c g)"

lemma serve_cmd:
  assumes "cmd_ok c" and "gt_line t = []"
  shows "agent_bytes (cmd_text c @ [nl]) t = t\<lparr>gt_in := cmd_effect c (gt_in t),
    gt_out := gt_out t @ cmd_reply c @ [nl], gt_holds := gt_holds t @ cmd_holds c (gt_in t)\<rparr>"
  using agent_bytes_line [OF assms(2) cmd_text_line(1,3,4,2) [OF assms(1)]] handle_line_cmd [OF assms(1)] assms(2)
  by (simp add: run_line_def reply_def)

lemma serve_cmds:
  assumes "list_all cmd_ok cs" and "gt_line t = []"
  shows "agent_bytes (wire cs) t = t\<lparr>gt_in := fold cmd_effect cs (gt_in t),
    gt_out := gt_out t @ replies cs, gt_holds := gt_holds t @ all_holds cs (gt_in t)\<rparr>"
  using assms
proof (induction cs arbitrary: t)
  case (Cons c cs)
  have "agent_bytes (wire (c # cs)) t = agent_bytes (wire cs) (agent_bytes (cmd_text c @ [nl]) t)" by simp
  with Cons serve_cmd [of c t] show ?case by simp
qed simp

section \<open>Whatever arrives on the line\<close>

text \<open>The values the firmware can read, and the states it can see while a command waits.\<close>

definition guest_ok :: "guest_input \<Rightarrow> bool" where
  "guest_ok g \<longleftrightarrow> 0 \<le> g_x g \<and> g_x g \<le> 4095 \<and> 0 \<le> g_y g \<and> g_y g \<le> 4095 \<and> 0 \<le> g_touches g \<and>
     length (g_level g) = 64 \<and> list_all (\<lambda>v. v \<in> {- 1, 0, 1}) (g_level g) \<and>
     length (g_events g) = 64 \<and> list_all (\<lambda>n. 0 \<le> n) (g_events g)"

definition task_ok :: "agent_task \<Rightarrow> bool" where
  "task_ok t \<longleftrightarrow> length (gt_line t) < LINE_MAX \<and> nl \<notin> set (gt_line t) \<and> cr \<notin> set (gt_line t) \<and>
     guest_ok (gt_in t) \<and> list_all (\<lambda>(g, ms). guest_ok g \<and> 1 \<le> ms \<and> ms \<le> 10000) (gt_holds t)"

definition is_err :: "string \<Rightarrow> bool" where
  "is_err r \<longleftrightarrow> starts_with ''err '' r"

text \<open>A line is answered in one of two ways: an error and nothing else, or \<open>ok\<close> and a good state.\<close>

definition served_ok :: "guest_input \<Rightarrow> served \<Rightarrow> bool" where
  "served_ok g r = (case r of (l, g', hs) \<Rightarrow>
     (is_err l \<and> g' = g \<and> hs = [] \<or> starts_with ''ok'' l) \<and> nl \<notin> set l \<and> guest_ok g' \<and>
     list_all (\<lambda>(g, ms). guest_ok g \<and> 1 \<le> ms \<and> ms \<le> 10000) hs)"

lemma guest_ok_set_level [intro]: "guest_ok g \<Longrightarrow> v \<in> {0, 1} \<Longrightarrow> guest_ok (set_level pin v g)"
  by (auto simp: guest_ok_def set_level_def list_all_iff dest!: set_update_subset_insert [THEN subsetD])

lemma guest_ok_count_event [intro]:
  assumes "guest_ok g" and "0 \<le> pin" and "pin \<le> MAX_PIN"
  shows "guest_ok (count_event pin g)"
proof -
  have "nat pin < length (g_events g)" using assms by (simp add: guest_ok_def MAX_PIN_def)
  with assms(1) show ?thesis
    by (auto simp: guest_ok_def count_event_def list_all_iff dest!: set_update_subset_insert [THEN subsetD])
qed

lemma guest_ok_touch [intro]:
  "guest_ok g \<Longrightarrow> 0 \<le> x \<and> x \<le> 4095 \<Longrightarrow> 0 \<le> y \<and> y \<le> 4095 \<Longrightarrow> guest_ok (press_touch x y g)"
  "guest_ok g \<Longrightarrow> guest_ok (g\<lparr>g_held := b\<rparr>)"
  by (simp_all add: guest_ok_def press_touch_def)

lemma served_err: "guest_ok g \<Longrightarrow> is_err l \<Longrightarrow> nl \<notin> set l \<Longrightarrow> served_ok g (l, g, [])"
  by (simp add: served_ok_def)

lemma served_done:
  "guest_ok g' \<Longrightarrow> list_all (\<lambda>(g, ms). guest_ok g \<and> 1 \<le> ms \<and> ms \<le> 10000) hs \<Longrightarrow> served_ok g (''ok'', g', hs)"
  by (simp add: served_ok_def)

lemma usage_errs [simp]:
  "is_err ''err gpio needs <pin 0-63> <0|1>''" "is_err ''err touch needs <x> <y>''"
  "is_err ''err pulse needs <pin 0-63> <0|1> <ms 1-10000>''" "is_err ''err tap needs <x> <y> <ms 1-10000>''"
  by (simp_all add: is_err_def)

lemma level_bit: "next_int 0 1 s = Some (v, r) \<Longrightarrow> v \<in> {0, 1}"
  by (drule next_int_range) auto

lemma do_gpio_ok:
  assumes "guest_ok g"
  shows "served_ok g (do_gpio s g)"
proof (cases "next_int 0 MAX_PIN s")
  case (Some p)
  obtain pin s2 where p: "p = (pin, s2)" by force
  show ?thesis
  proof (cases "next_int 0 1 s2")
    case (Some q)
    obtain level s3 where q: "q = (level, s3)" by force
    have "guest_ok (set_level pin level (if level = 0 \<and> g_level g ! nat pin \<noteq> 0 then count_event pin g else g))"
      using assms next_int_range [OF \<open>next_int 0 MAX_PIN s = Some p\<close> [unfolded p]] level_bit [OF Some [unfolded q]]
      by (intro guest_ok_set_level) auto
    with \<open>next_int 0 MAX_PIN s = Some p\<close> Some p q show ?thesis by (simp add: do_gpio_def served_done)
  qed (use Some p assms in \<open>simp add: do_gpio_def served_err\<close>)
qed (use assms in \<open>simp add: do_gpio_def served_err\<close>)

lemma do_pulse_ok:
  assumes "guest_ok g"
  shows "served_ok g (do_pulse s g)"
proof (cases "next_int 0 MAX_PIN s")
  case (Some p)
  note 1 = this
  obtain pin s2 where p: "p = (pin, s2)" by force
  show ?thesis
  proof (cases "next_int 0 1 s2")
    case (Some q)
    note 2 = this
    obtain level s3 where q: "q = (level, s3)" by force
    show ?thesis
    proof (cases "next_int 1 10000 s3")
      case (Some r)
      obtain ms s4 where r: "r = (ms, s4)" by force
      have d: "guest_ok (set_level pin level g)" using assms level_bit [OF 2 [unfolded q]] by (intro guest_ok_set_level)
      then have "guest_ok (count_event pin (set_level pin (if level = 0 then 1 else 0) (set_level pin level g)))"
        using next_int_range [OF 1 [unfolded p]] by (intro guest_ok_count_event [OF guest_ok_set_level]) auto
      with d 1 2 Some p q r next_int_range [OF Some [unfolded r]] show ?thesis
        by (simp add: do_pulse_def served_done Let_def)
    qed (use 1 2 p q assms in \<open>simp add: do_pulse_def served_err Let_def\<close>)
  qed (use 1 p assms in \<open>simp add: do_pulse_def served_err Let_def\<close>)
qed (use assms in \<open>simp add: do_pulse_def served_err Let_def\<close>)

lemma do_touch_ok:
  assumes "guest_ok g"
  shows "served_ok g (do_touch s g)"
proof (cases "next_int 0 4095 s")
  case (Some p)
  note 1 = this
  obtain x s2 where p: "p = (x, s2)" by force
  show ?thesis
  proof (cases "next_int 0 4095 s2")
    case (Some q)
    obtain y s3 where q: "q = (y, s3)" by force
    have "guest_ok (press_touch x y g)"
      using assms next_int_range [OF 1 [unfolded p]] next_int_range [OF Some [unfolded q]] by (rule guest_ok_touch)
    with 1 Some p q show ?thesis by (simp add: do_touch_def served_done)
  qed (use 1 p assms in \<open>simp add: do_touch_def served_err\<close>)
qed (use assms in \<open>simp add: do_touch_def served_err\<close>)

lemma do_tap_ok:
  assumes "guest_ok g"
  shows "served_ok g (do_tap s g)"
proof (cases "next_int 0 4095 s")
  case (Some p)
  note 1 = this
  obtain x s2 where p: "p = (x, s2)" by force
  show ?thesis
  proof (cases "next_int 0 4095 s2")
    case (Some q)
    note 2 = this
    obtain y s3 where q: "q = (y, s3)" by force
    show ?thesis
    proof (cases "next_int 1 10000 s3")
      case (Some r)
      obtain ms s4 where r: "r = (ms, s4)" by force
      have "guest_ok (press_touch x y g)"
        using assms next_int_range [OF 1 [unfolded p]] next_int_range [OF 2 [unfolded q]] by (rule guest_ok_touch)
      with guest_ok_touch(2) [OF this, of False] 1 2 Some p q r next_int_range [OF Some [unfolded r]] show ?thesis
        by (simp add: do_tap_def served_done Let_def)
    qed (use 1 2 p q assms in \<open>simp add: do_tap_def served_err Let_def\<close>)
  qed (use 1 p assms in \<open>simp add: do_tap_def served_err Let_def\<close>)
qed (use assms in \<open>simp add: do_tap_def served_err Let_def\<close>)

lemma handle_line_ok:
  assumes "guest_ok g"
  shows "served_ok g (handle_line line g)"
proof (cases "strtok (c_str line)")
  case None
  with assms show ?thesis by (simp add: handle_line_def served_ok_def is_err_def)
next
  case (Some p)
  obtain cmd s where p: "p = (cmd, s)" by force
  have "served_ok g (''ok esprite-agent v1'', g, [])" "served_ok g (''ok'', g\<lparr>g_held := False\<rparr>, [])"
    "served_ok g (''err unknown command'', g, [])"
    using assms by (auto simp: served_ok_def is_err_def)
  with assms Some p do_gpio_ok [of g s] do_pulse_ok [of g s] do_touch_ok [of g s] do_tap_ok [of g s] show ?thesis
    by (simp add: handle_line_def)
qed

lemma agent_byte_ok:
  assumes "task_ok t"
  shows "task_ok (agent_byte c t)"
proof -
  obtain r g hs where h: "handle_line (gt_line t) (gt_in t) = (r, g, hs)" by (metis prod_cases3)
  have "served_ok (gt_in t) (r, g, hs)" using handle_line_ok [of "gt_in t" "gt_line t"] assms h by (simp add: task_ok_def)
  with assms h have "task_ok (run_line t)"
    by (simp add: task_ok_def run_line_def reply_def served_ok_def LINE_MAX_def)
  with assms show ?thesis by (auto simp: agent_byte_def task_ok_def reply_def)
qed

lemma agent_bytes_ok: "task_ok t \<Longrightarrow> task_ok (agent_bytes s t)"
  by (induction s arbitrary: t) (simp_all add: agent_byte_ok)

lemma agent_start_ok: "task_ok agent_start"
  by (simp add: task_ok_def agent_start_def reply_def guest_init_def guest_ok_def LINE_MAX_def list_all_iff)

section \<open>Host and guest together\<close>

text \<open>The child runs, no event says it will end, and the host has an open link to its agent.\<close>

definition agent_up :: "QemuBackend \<Rightarrow> bool" where
  "agent_up q \<longleftrightarrow> qe_agent_capable q \<and> qp_pid (qe_process q) \<and> Reaped \<notin> set (qp_wait (qe_process q)) \<and>
     al_open (qe_agent q) \<and> al_out (qe_agent q) = []"

text \<open>\<open>answering ans tail sent q\<close>: the host has sent \<open>sent\<close>, and the bytes \<open>ans\<close> are on their way to it.\<close>

definition answering :: "string \<Rightarrow> net_event list \<Rightarrow> string \<Rightarrow> QemuBackend \<Rightarrow> bool" where
  "answering ans tail sent q \<longleftrightarrow> agent_up q \<and> stream_holds ans tail (al_rx (qe_agent q)) (al_in (qe_agent q)) \<and>
     al_sent (qe_agent q) = sent"

lemma wait_nohang_running: "Reaped \<notin> set es \<Longrightarrow> \<exists>es'. wait_nohang es = (True, es') \<and> Reaped \<notin> set es'"
  by (induction es) (auto split: wait_event.split)

lemma qe_running_up:
  assumes "agent_up q"
  shows "\<exists>q'. qe_running q = (True, q') \<and> agent_up q' \<and> qe_agent q' = qe_agent q"
proof -
  obtain es where "wait_nohang (qp_wait (qe_process q)) = (True, es)" "Reaped \<notin> set es"
    using wait_nohang_running assms by (auto simp: agent_up_def)
  with assms show ?thesis by (simp add: qe_running_def qp_running_def agent_up_def)
qed

lemma ensure_agent_up:
  assumes "answering ans tail sent q"
  shows "\<exists>q'. ensure_agent q = (None, q') \<and> answering ans tail sent q'"
proof -
  have up: "agent_up q" using assms by (simp add: answering_def)
  obtain q' where q': "qe_running q = (True, q')" "agent_up q'" "qe_agent q' = qe_agent q"
    using qe_running_up [OF up] by blast
  with up have "ensure_agent q = (None, q')"
    by (simp add: ensure_agent_def qe_agent_available_def agent_up_def)
  with q' assms show ?thesis by (simp add: answering_def)
qed

lemma qe_execute_up: "agent_up q \<Longrightarrow> agent_up (snd (qe_execute L c a q)) \<and> qe_agent (snd (qe_execute L c a q)) = qe_agent q"
  by (auto simp: qe_execute_def agent_up_def split: prod.splits)

lemma qe_read_dump_up: "agent_up (snd (qe_read_dump q)) = agent_up q" "qe_agent (snd (qe_read_dump q)) = qe_agent q"
  by (auto simp: qe_read_dump_def agent_up_def split: list.splits)

lemma qe_sync_up:
  assumes "agent_up q"
  shows "agent_up (fst (snd (qe_sync L (q, fb)))) \<and> qe_agent (fst (snd (qe_sync L (q, fb)))) = qe_agent q"
proof (cases "qe_socket_dir q = []")
  case False
  obtain q1 where q1: "qe_running q = (True, q1)" "agent_up q1" "qe_agent q1 = qe_agent q"
    using qe_running_up [OF assms] by blast
  let ?x = "qe_execute L ''screendump'' (json_filename (qe_socket_dir q1 @ ''/screen.ppm'')) q1"
  have x: "agent_up (snd ?x)" "qe_agent (snd ?x) = qe_agent q" using qe_execute_up [OF q1(2)] q1(3) by simp_all
  obtain r q2 where r: "?x = (r, q2)" by force
  obtain d q3 where d: "qe_read_dump q2 = (d, q3)" by force
  have "agent_up q2" "qe_agent q2 = qe_agent q" "agent_up q3" "qe_agent q3 = qe_agent q"
    using x r qe_read_dump_up [of q2] d by simp_all
  then show ?thesis using False q1(1) r d
    by (auto simp: qe_sync_def Let_def split: sum.splits option.splits)
qed (use assms in \<open>simp add: qe_sync_def\<close>)

lemma pump_answering: "answering ans tail sent q \<Longrightarrow> answering ans tail sent (fst (pump_display L (q, fb)))"
  using qe_sync_up [of q L fb] by (simp add: answering_def pump_display_def)

lemma pumps_answering: "answering ans tail sent (fst s) \<Longrightarrow> answering ans tail sent (fst ((pump_display L ^^ n) s))"
proof (induction n)
  case (Suc n)
  then show ?case using pump_answering [of ans tail sent "fst ((pump_display L ^^ n) s)" L "snd ((pump_display L ^^ n) s)"] by simp
qed simp

text \<open>One command over the link, answered by the guest's reply to it.\<close>

lemma cmd_reply_line:
  "nl \<notin> set (cmd_reply c)" "chomp_cr (cmd_reply c) = cmd_reply c" "\<not> banner (cmd_reply c)" "agent_verdict (cmd_reply c) = None"
  by (cases c; simp add: chomp_cr_def banner_def agent_verdict_def)+

lemma qe_request_answered:
  assumes "answering (cmd_reply c @ nl # ans) tail sent q"
  shows "\<exists>q'. qe_request (cmd_text c) q = (None, q') \<and> answering ans tail (sent @ cmd_text c @ [nl]) q'"
proof -
  have "banner ''esprite-agent''" "nl \<notin> set ''esprite-agent''" by (simp_all add: banner_def chomp_cr_def)
  with assms cmd_reply_line [of c] obtain rx es where
    "agent_request (cmd_text c) (qe_agent q) = (None, Some (cmd_reply c),
        (qe_agent q)\<lparr>al_out := [], al_sent := al_sent (qe_agent q) @ cmd_text c @ [nl], al_rx := rx, al_in := es\<rparr>)"
    and "stream_holds ans tail rx es"
    using agent_reply_line [of "qe_agent q" "''esprite-agent''" "cmd_reply c" False ans tail "cmd_text c"]
    by (auto simp: answering_def agent_up_def)
  with assms show ?thesis by (simp add: qe_request_def answering_def agent_up_def)
qed

lemma qe_gpio_answered:
  assumes "answering (cmd_reply (Gpio pin level) @ nl # ans) tail sent q"
  shows "\<exists>q'. qe_gpio pin level q = (None, q') \<and> answering ans tail (sent @ cmd_text (Gpio pin level) @ [nl]) q'"
proof -
  obtain q1 where q1: "ensure_agent q = (None, q1)" "answering (cmd_reply (Gpio pin level) @ nl # ans) tail sent q1"
    using ensure_agent_up [OF assms] by blast
  from qe_request_answered [OF q1(2)] q1(1) show ?thesis by (simp add: qe_gpio_def)
qed

lemma qe_pulse_answered:
  assumes "answering (cmd_reply (Pulse pin level ms) @ nl # ans) tail sent q"
  shows "\<exists>q'. qe_pulse pin level ms q = (None, q') \<and> answering ans tail (sent @ cmd_text (Pulse pin level ms) @ [nl]) q'"
proof -
  obtain q1 where q1: "ensure_agent q = (None, q1)" "answering (cmd_reply (Pulse pin level ms) @ nl # ans) tail sent q1"
    using ensure_agent_up [OF assms] by blast
  from qe_request_answered [OF q1(2)] q1(1) show ?thesis by (simp add: qe_pulse_def)
qed

lemma qe_tap_answered:
  assumes "answering (cmd_reply (Tap x y ms) @ nl # ans) tail sent q"
  shows "\<exists>q' fb'. qe_tap L x y ms (q, fb) = (None, q', fb') \<and> answering ans tail (sent @ cmd_text (Tap x y ms) @ [nl]) q'"
proof -
  obtain q1 where q1: "ensure_agent q = (None, q1)" "answering (cmd_reply (Tap x y ms) @ nl # ans) tail sent q1"
    using ensure_agent_up [OF assms] by blast
  obtain q2 fb2 where p: "pump_display L (q1, fb) = (q2, fb2)" by force
  have "answering (cmd_reply (Tap x y ms) @ nl # ans) tail sent q2" using pump_answering [OF q1(2), of L fb] p by simp
  then obtain q3 where q3: "qe_request (cmd_text (Tap x y ms)) q2 = (None, q3)"
    "answering ans tail (sent @ cmd_text (Tap x y ms) @ [nl]) q3" using qe_request_answered by blast
  obtain q4 fb4 where e: "(pump_display L ^^ 8) (q3, fb2) = (q4, fb4)" by force
  have "answering ans tail (sent @ cmd_text (Tap x y ms) @ [nl]) q4"
    using pumps_answering [where s = "(q3, fb2)" and L = L and n = 8] q3(2) e by fastforce
  with q1(1) p q3(1) e show ?thesis by (simp add: qe_tap_def)
qed

definition touch_cmd :: "bool \<Rightarrow> int \<Rightarrow> int \<Rightarrow> agent_cmd" where
  "touch_cmd down x y = (if down then Touch x y else Release)"

lemma qe_touch_answered:
  assumes "answering (cmd_reply (touch_cmd down x y) @ nl # ans) tail sent q"
  shows "\<exists>q' fb'. qe_touch L down x y (q, fb) = (None, q', fb') \<and>
    answering ans tail (sent @ cmd_text (touch_cmd down x y) @ [nl]) q'"
proof -
  obtain q1 where q1: "ensure_agent q = (None, q1)" "answering (cmd_reply (touch_cmd down x y) @ nl # ans) tail sent q1"
    using ensure_agent_up [OF assms] by blast
  obtain q2 fb2 where p: "pump_display L (q1, fb) = (q2, fb2)" by force
  have "answering (cmd_reply (touch_cmd down x y) @ nl # ans) tail sent q2" using pump_answering [OF q1(2), of L fb] p by simp
  then obtain q3 where q3: "qe_request (cmd_text (touch_cmd down x y)) q2 = (None, q3)"
    "answering ans tail (sent @ cmd_text (touch_cmd down x y) @ [nl]) q3" using qe_request_answered by blast
  obtain q4 fb4 where e: "pump_display L (q3, fb2) = (q4, fb4)" by force
  have "answering ans tail (sent @ cmd_text (touch_cmd down x y) @ [nl]) q4" using pump_answering [OF q3(2), of L fb2] e by simp
  moreover have "(if down then ''touch '' @ int_to_string x @ '' '' @ int_to_string y else ''release'') = cmd_text (touch_cmd down x y)"
    by (simp add: touch_cmd_def)
  ultimately show ?thesis using q1(1) p q3(1) e by (simp add: qe_touch_def)
qed

section \<open>Actions on a QEMU target\<close>

datatype injection = Tap_at int int | Swipe_to int int int int | Set_gpio int int | Press string

fun inject :: "injection \<Rightarrow> 'e sim \<Rightarrow> 'e world \<Rightarrow> ActionError \<times> 'e world" where
  "inject (Tap_at x y) S w = apply_tap x y S w"
| "inject (Swipe_to x1 y1 x2 y2) S w = apply_swipe x1 y1 x2 y2 S w"
| "inject (Set_gpio pin level) S w = apply_gpio pin level S w"
| "inject (Press label) S w = apply_button label S w"

fun accepted :: "injection \<Rightarrow> 'e sim \<Rightarrow> 'e world \<Rightarrow> bool" where
  "accepted (Tap_at x y) S w \<longleftrightarrow> in_board (active_board S w) x y"
| "accepted (Swipe_to x1 y1 x2 y2) S w \<longleftrightarrow> in_board (active_board S w) x1 y1 \<and> in_board (active_board S w) x2 y2"
| "accepted (Set_gpio pin level) S w \<longleftrightarrow> 0 \<le> pin \<and> pin \<le> 63 \<and> (level = 0 \<or> level = 1)"
| "accepted (Press label) S w \<longleftrightarrow>
     label \<notin> {''pwr'', ''pwr-long'', ''pwr-release'', ''primary'', ''secondary''} \<and> find_button_by_label label S w \<noteq> None"

definition pressed_level :: "SimButton \<Rightarrow> int" where
  "pressed_level b = (if b_active_low b then 0 else 1)"

fun injected_cmds :: "injection \<Rightarrow> 'e sim \<Rightarrow> 'e world \<Rightarrow> agent_cmd list" where
  "injected_cmds (Tap_at x y) S w = [Tap x y 120]"
| "injected_cmds (Swipe_to x1 y1 x2 y2) S w = map (\<lambda>(x, y). Touch x y) (swipe_points x1 y1 x2 y2) @ [Release]"
| "injected_cmds (Set_gpio pin level) S w = [Gpio pin level]"
| "injected_cmds (Press label) S w = (case find_button_by_label label S w of None \<Rightarrow> []
     | Some b \<Rightarrow> [Pulse (b_gpio b) (pressed_level b) 120])"

text \<open>What the firmware's polls see of an injection, from state \<open>g\<close> to \<open>g'\<close> with the states held.\<close>

fun injection_seen :: "int \<Rightarrow> injection \<Rightarrow> 'e sim \<Rightarrow> 'e world \<Rightarrow> guest_input \<Rightarrow> (guest_input \<times> int) list \<Rightarrow> guest_input \<Rightarrow> bool" where
  "injection_seen d (Tap_at x y) S w g hs g' \<longleftrightarrow>
     map (\<lambda>(h, ms). (esprite_agent_touch h, ms)) hs = [(Some (x, y), 120)] \<and>
     esprite_agent_touch g' = None \<and> esprite_agent_touch_events g' = (g_touches g + 1, x, y)"
| "injection_seen d (Swipe_to x1 y1 x2 y2) S w g hs g' \<longleftrightarrow>
     esprite_agent_touch g' = None \<and> esprite_agent_touch_events g' = (g_touches g + 6, x2, y2)"
| "injection_seen d (Set_gpio pin level) S w g hs g' \<longleftrightarrow>
     esprite_agent_gpio_level pin d g' = level \<and>
     esprite_agent_gpio_events pin g' = esprite_agent_gpio_events pin g +
       (if level = 0 \<and> esprite_agent_gpio_level pin 1 g = 1 then 1 else 0)"
| "injection_seen d (Press label) S w g hs g' \<longleftrightarrow> (case find_button_by_label label S w of None \<Rightarrow> False
     | Some b \<Rightarrow>
        map (\<lambda>(h, ms). (esprite_agent_gpio_level (b_gpio b) d h, ms)) hs = [(pressed_level b, 120)] \<and>
        esprite_agent_gpio_level (b_gpio b) d g' = 1 - pressed_level b \<and>
        esprite_agent_gpio_events (b_gpio b) g' = esprite_agent_gpio_events (b_gpio b) g + 1)"

lemma find_button_of_board:
  assumes "find_button_by_label label S w = Some b" and "active_target S w = Some (board_target s)"
  shows "b \<in> set (map board_button (bs_buttons s))"
proof -
  have "active_board S w = t_board (board_target s :: 'a world SimTarget)" using assms(2) by (simp add: active_board_def)
  with assms(1) show ?thesis
    by (auto simp: find_button_by_label_def board_target_def find_Some_iff intro!: imageI nth_mem)
qed

lemma board_button_gpio:
  assumes "board_valid s" and "b \<in> set (map board_button (bs_buttons s))"
  shows "b_action b = ACT_GPIO \<and> 0 \<le> b_gpio b \<and> b_gpio b \<le> 63"
  using assms by (auto simp: board_valid_def board_button_def button_valid_def)

lemma in_board_touchable:
  assumes "in_board (active_board S w) x y" and "active_target S w = Some (board_target s)" and "board_valid s"
  shows "0 \<le> x \<and> x \<le> 4095 \<and> 0 \<le> y \<and> y \<le> 4095"
  using assms by (auto simp: active_board_def in_board_def board_target_def board_valid_def)

lemma injected_cmds_ok:
  assumes "board_valid s" and "active_target S w = Some (board_target s)" and "accepted act S w"
  shows "list_all cmd_ok (injected_cmds act S w)"
proof (cases act)
  case (Tap_at x y)
  with assms in_board_touchable [of S w x y s] show ?thesis by simp
next
  case (Swipe_to x1 y1 x2 y2)
  have "cmd_ok (Touch x y)" if "(x, y) \<in> set (swipe_points x1 y1 x2 y2)" for x y
  proof -
    have "in_board (active_board S w) x y"
      using swipe_on_board [of "active_board S w" x1 y1 x2 y2] assms(3) Swipe_to that by auto
    from in_board_touchable [OF this assms(2,1)] show ?thesis by simp
  qed
  with Swipe_to show ?thesis by (auto simp: list_all_iff)
next
  case (Set_gpio pin level)
  with assms show ?thesis by auto
next
  case (Press label)
  with assms obtain b where b: "find_button_by_label label S w = Some b" by auto
  from board_button_gpio [OF assms(1) find_button_of_board [OF b assms(2)]] b Press show ?thesis
    by (simp add: pressed_level_def)
qed

lemma swipe_touches:
  assumes "ps \<noteq> []"
  shows "fold cmd_effect (map (\<lambda>(x, y). Touch x y) ps) g =
    g\<lparr>g_x := fst (last ps), g_y := snd (last ps), g_held := True, g_touches := g_touches g + int (length ps)\<rparr>"
  using assms
proof (induction ps arbitrary: g)
  case (Cons p ps)
  then show ?case by (cases "ps = []") (auto simp: press_touch_def split: prod.splits)
qed simp

lemma injection_seen_effect:
  assumes "board_valid s" and "active_target S w = Some (board_target s)" and "accepted act S w" and "guest_ok g"
  shows "injection_seen d act S w g (all_holds (injected_cmds act S w) g) (fold cmd_effect (injected_cmds act S w) g)"
proof (cases act)
  case (Tap_at x y)
  then show ?thesis by (simp add: esprite_agent_touch_def esprite_agent_touch_events_def press_touch_def)
next
  case (Swipe_to x1 y1 x2 y2)
  have l: "length (swipe_points x1 y1 x2 y2) = 6" "last (swipe_points x1 y1 x2 y2) = (x2, y2)"
    using swipe_on_board [of "active_board S w" x1 y1 x2 y2] assms(3) Swipe_to by auto
  then have "swipe_points x1 y1 x2 y2 \<noteq> []" by auto
  from swipe_touches [OF this] l Swipe_to show ?thesis
    by (simp add: esprite_agent_touch_def esprite_agent_touch_events_def)
next
  case (Set_gpio pin level)
  have len: "nat pin < length (g_level g)" "nat pin < length (g_events g)"
    using assms(3,4) Set_gpio by (auto simp: guest_ok_def)
  then have "g_level g ! nat pin \<in> {- 1, 0, 1}" using assms(4) by (auto simp: guest_ok_def list_all_length)
  with Set_gpio assms(3) len show ?thesis
    by (auto simp: esprite_agent_gpio_level_def esprite_agent_gpio_events_def set_level_def count_event_def MAX_PIN_def)
next
  case (Press label)
  with assms obtain b where b: "find_button_by_label label S w = Some b" by auto
  from board_button_gpio [OF assms(1) find_button_of_board [OF b assms(2)]]
  have p: "0 \<le> b_gpio b" "b_gpio b \<le> 63" by simp_all
  then have "nat (b_gpio b) < length (g_level g)" "nat (b_gpio b) < length (g_events g)"
    using assms(4) by (auto simp: guest_ok_def)
  with Press b p show ?thesis
    by (simp add: esprite_agent_gpio_level_def esprite_agent_gpio_events_def set_level_def count_event_def
        MAX_PIN_def pressed_level_def)
qed

text \<open>The backend's operations on the world.\<close>

definition on_qemu :: "qemu_lib \<Rightarrow> QemuBoardSpec \<Rightarrow> QemuBackend sim \<Rightarrow> qworld \<Rightarrow> bool" where
  "on_qemu L s S w \<longleftrightarrow> active_target S w = Some (board_target s) \<and>
     (\<exists>writes reg. s_slots S (w_impl w) = Some (qemu_backend L writes reg))"

lemma on_qemu_frame [simp]:
  "on_qemu L s S (w\<lparr>w_ext := q\<rparr>) = on_qemu L s S w" "on_qemu L s S (w\<lparr>w_ext := q, w_fb := fb\<rparr>) = on_qemu L s S w"
  by (simp_all add: on_qemu_def active_target_def)

lemma on_qemu_ops:
  assumes "on_qemu L s S w"
  shows "be_agent_gpio (backend_of S w) = (\<lambda>pin level. on_ext (qe_gpio pin level))"
    and "be_agent_pulse (backend_of S w) = (\<lambda>pin level ms. on_ext (qe_pulse pin level ms))"
    and "be_agent_touch (backend_of S w) = (\<lambda>down x y. on_display (qe_touch L down x y))"
    and "be_agent_tap (backend_of S w) = (\<lambda>x y ms. on_display (qe_tap L x y ms))"
    and "qemu_agent_active S w"
  using assms by (auto simp: on_qemu_def sim_backend_def qemu_backend_def qemu_agent_active_def board_target_def)

lemma agent_waypoints_answered:
  assumes "on_qemu L s S w" and "answering (replies (map (\<lambda>(x, y). Touch x y) ps) @ ans) tail sent (w_ext w)"
  shows "\<exists>w'. agent_waypoints ps S w = (None, w') \<and> on_qemu L s S w' \<and>
    answering ans tail (sent @ wire (map (\<lambda>(x, y). Touch x y) ps)) (w_ext w')"
  using assms
proof (induction ps arbitrary: w sent)
  case Nil
  then show ?case by simp
next
  case (Cons p ps)
  obtain x y where p: "p = (x, y)" by force
  from Cons.prems(2) p have "answering (cmd_reply (touch_cmd True x y) @ nl # replies (map (\<lambda>(x, y). Touch x y) ps) @ ans)
      tail sent (w_ext w)" by (simp add: touch_cmd_def)
  from qe_touch_answered [OF this, of L "w_fb w"] obtain q fb where
    q: "qe_touch L True x y (w_ext w, w_fb w) = (None, q, fb)"
      "answering (replies (map (\<lambda>(x, y). Touch x y) ps) @ ans) tail (sent @ cmd_text (Touch x y) @ [nl]) q"
    by (auto simp: touch_cmd_def)
  from Cons.IH [of "w\<lparr>w_ext := q, w_fb := fb\<rparr>" "sent @ cmd_text (Touch x y) @ [nl]"] Cons.prems(1) q p show ?case
    by (simp add: on_qemu_ops on_display_def)
qed

lemma inject_answered:
  assumes "on_qemu L s S w" and "board_valid s" and "accepted act S w"
    and "answering (replies (injected_cmds act S w)) tail sent (w_ext w)"
  shows "\<exists>w'. inject act S w = (None, w') \<and> answering [] tail (sent @ wire (injected_cmds act S w)) (w_ext w')"
proof (cases act)
  case (Tap_at x y)
  from assms(4) Tap_at have "answering (cmd_reply (Tap x y 120) @ nl # []) tail sent (w_ext w)" by simp
  from qe_tap_answered [OF this, of L "w_fb w"] obtain q fb where
    "qe_tap L x y 120 (w_ext w, w_fb w) = (None, q, fb)" "answering [] tail (sent @ cmd_text (Tap x y 120) @ [nl]) q" by blast
  with assms(3) Tap_at show ?thesis by (simp add: apply_tap_def on_qemu_ops [OF assms(1)] on_display_def)
next
  case (Swipe_to x1 y1 x2 y2)
  let ?ps = "swipe_points x1 y1 x2 y2"
  have "answering (replies (map (\<lambda>(x, y). Touch x y) ?ps) @ cmd_reply Release @ nl # []) tail sent (w_ext w)"
    using assms(4) Swipe_to by simp
  from agent_waypoints_answered [OF assms(1) this] obtain w' where
    w': "agent_waypoints ?ps S w = (None, w')" "on_qemu L s S w'"
      "answering (cmd_reply (touch_cmd False x2 y2) @ nl # []) tail (sent @ wire (map (\<lambda>(x, y). Touch x y) ?ps)) (w_ext w')"
    by (auto simp: touch_cmd_def)
  from qe_touch_answered [OF w'(3), of L "w_fb w'"] obtain q fb where
    "qe_touch L False x2 y2 (w_ext w', w_fb w') = (None, q, fb)"
    "answering [] tail ((sent @ wire (map (\<lambda>(x, y). Touch x y) ?ps)) @ cmd_text Release @ [nl]) q"
    by (auto simp: touch_cmd_def)
  with assms(3) Swipe_to w' show ?thesis
    by (simp add: apply_swipe_def on_qemu_ops [OF assms(1)] on_qemu_ops [OF w'(2)] on_display_def)
next
  case (Set_gpio pin level)
  from assms(4) Set_gpio have "answering (cmd_reply (Gpio pin level) @ nl # []) tail sent (w_ext w)" by simp
  from qe_gpio_answered [OF this] assms(3) Set_gpio show ?thesis
    by (auto simp: apply_gpio_def on_qemu_ops [OF assms(1)] on_ext_def)
next
  case (Press label)
  with assms(3) obtain b where b: "find_button_by_label label S w = Some b" by auto
  have "b_action b = ACT_GPIO"
    using board_button_gpio [OF assms(2) find_button_of_board [OF b]] assms(1) by (simp add: on_qemu_def)
  moreover from assms(4) Press b have "answering (cmd_reply (Pulse (b_gpio b) (pressed_level b) 120) @ nl # []) tail sent (w_ext w)" by simp
  from qe_pulse_answered [OF this] obtain q where
    "qe_pulse (b_gpio b) (pressed_level b) 120 (w_ext w) = (None, q)"
    "answering [] tail (sent @ cmd_text (Pulse (b_gpio b) (pressed_level b) 120) @ [nl]) q" by blast
  ultimately show ?thesis using assms(3) Press b
    by (simp add: apply_button_def on_qemu_ops [OF assms(1)] on_ext_def pressed_level_def [symmetric] del: cmd_text.simps)
qed

section \<open>Properties\<close>

text \<open>
  Property C2. Injections arrive: when the CLI accepts a tap, a swipe, a pin level or a button press on a
  running QEMU target, what it sends over the link makes the guest's agent do exactly that (the
  firmware's polls see the press held at the point or the pin, then released, and its event
  counters move by the number of presses), and the guest's answers, however they are cut on the
  way back, make the action succeed and leave both ends in step for the next one.
\<close>

theorem injection_reaches_guest:
  assumes "qemu_board_parse parse json = Inr s" and "on_qemu L s S w" and "accepted act S w"
    and "task_ok t" and "gt_line t = []"
    and "gt_out (agent_bytes (wire (injected_cmds act S w)) t) = gt_out t @ ans"
    and "answering ans tail sent (w_ext w)"
  shows "\<exists>w' hs. inject act S w = (None, w') \<and> answering [] tail (sent @ wire (injected_cmds act S w)) (w_ext w') \<and>
    (let t' = agent_bytes (wire (injected_cmds act S w)) t
     in gt_line t' = [] \<and> gt_holds t' = gt_holds t @ hs \<and> injection_seen d act S w (gt_in t) hs (gt_in t'))"
proof -
  have v: "board_valid s" by (rule qemu_board_parse_valid [OF assms(1)])
  have a: "active_target S w = Some (board_target s)" using assms(2) by (simp add: on_qemu_def)
  have ok: "list_all cmd_ok (injected_cmds act S w)" by (rule injected_cmds_ok [OF v a assms(3)])
  have t': "agent_bytes (wire (injected_cmds act S w)) t = t\<lparr>gt_in := fold cmd_effect (injected_cmds act S w) (gt_in t),
      gt_out := gt_out t @ replies (injected_cmds act S w), gt_holds := gt_holds t @ all_holds (injected_cmds act S w) (gt_in t)\<rparr>"
    by (rule serve_cmds [OF ok assms(5)])
  with assms(6,7) have "answering (replies (injected_cmds act S w)) tail sent (w_ext w)" by simp
  from inject_answered [OF assms(2) v assms(3) this] obtain w' where
    "inject act S w = (None, w')" "answering [] tail (sent @ wire (injected_cmds act S w)) (w_ext w')" by blast
  moreover have "guest_ok (gt_in t)" using assms(4) by (simp add: task_ok_def)
  from injection_seen_effect [OF v a assms(3) this, of d]
  have "injection_seen d act S w (gt_in t) (all_holds (injected_cmds act S w) (gt_in t))
      (fold cmd_effect (injected_cmds act S w) (gt_in t))" .
  ultimately show ?thesis using t' assms(5) by (auto simp: Let_def)
qed

definition demo_spec :: QemuBoardSpec where
  "demo_spec = (case qemu_board_parse (\<lambda>_. Some demo_doc) [] of Inr s \<Rightarrow> s)"

definition demo_qsim :: "QemuBackend sim" where
  "demo_qsim = \<lparr>s_reg = [board_target demo_spec], s_hooks = [],
     s_slots = (\<lambda>k. if k = BACKEND_QEMU then Some (qemu_backend demo_lib (\<lambda>_ _. []) []) else None),
     s_rx_valid = (\<lambda>_. True), s_rx_search = (\<lambda>_ _. False)\<rparr>"

definition demo_guest_world :: "net_event list \<Rightarrow> qworld" where
  "demo_guest_world es = (QemuBackend.demo_running [])\<lparr>w_active := Some 0, w_ext := (demo_agent [])\<lparr>qe_agent :=
     \<lparr>al_open = True, al_rx = [], al_in = es, al_out = [], al_sent = []\<rparr>\<rparr>\<rparr>"

theorem injection_reaches_guest_witness:
  "\<exists>w' hs. inject (Press ''boot'') demo_qsim (demo_guest_world [Chunk ''o'', Chunk [CHR ''k'', nl]]) = (None, w') \<and>
     al_sent (qe_agent (w_ext w')) = ''pulse 9 0 120'' @ [nl] \<and>
     gt_holds (agent_bytes (''pulse 9 0 120'' @ [nl]) agent_start) = hs \<and>
     map (\<lambda>(h, ms). (esprite_agent_gpio_level 9 1 h, ms)) hs = [(0, 120)]"
proof -
  let ?w = "demo_guest_world [Chunk ''o'', Chunk [CHR ''k'', nl]]" and ?a = "Press ''boot''"
  have s: "qemu_board_parse (\<lambda>_. Some demo_doc) [] = Inr demo_spec"
    by (simp add: demo_spec_def qemu_board_parse_def demo_doc_def edges_def)
  have btn: "map board_button (bs_buttons demo_spec) = [\<lparr>b_label = ''BOOT'', b_action = ACT_GPIO, b_gpio = 9,
      b_key = CHR 0x00, b_edge = EDGE_LEFT, b_pos = - 1, b_active_low = True\<rparr>]"
    by (simp add: demo_spec_def qemu_board_parse_def demo_doc_def edges_def board_button_def parse_edge_def)
  have act: "active_target demo_qsim ?w = Some (board_target demo_spec)"
    by (simp add: active_target_def demo_qsim_def demo_guest_world_def)
  have on: "on_qemu demo_lib demo_spec demo_qsim ?w"
    using act by (auto simp: on_qemu_def demo_qsim_def demo_guest_world_def QemuBackend.demo_running_def demo_qworld_def)
  have low: "map lower_char ''BOOT'' = map lower_char ''boot''" by code_simp
  have found: "find_button_by_label ''boot'' demo_qsim ?w = Some \<lparr>b_label = ''BOOT'', b_action = ACT_GPIO, b_gpio = 9,
      b_key = CHR 0x00, b_edge = EDGE_LEFT, b_pos = - 1, b_active_low = True\<rparr>"
    using low by (simp add: find_button_by_label_def active_board_def act board_target_def btn del: list.map(2))
  have cmds: "injected_cmds ?a demo_qsim ?w = [Pulse 9 0 120]" by (simp add: found pressed_level_def)
  have wire: "wire [Pulse 9 0 120] = ''pulse 9 0 120'' @ [nl]" by code_simp
  have out: "gt_out (agent_bytes (wire [Pulse 9 0 120]) agent_start) = gt_out agent_start @ ''ok'' @ [nl]"
    by code_simp
  have ans: "answering (''ok'' @ [nl]) [] [] (w_ext ?w)"
    using stream_holds_start [of "[''o'', ''k'' @ [nl]]" "[]"]
    by (simp add: answering_def agent_up_def demo_guest_world_def demo_agent_def QemuBackend.demo_running_def
        demo_qworld_def demo_qemu_def demo_process_def)
  have line: "gt_line agent_start = []" "gt_holds agent_start = []" by (simp_all add: agent_start_def reply_def)
  have acc: "accepted ?a demo_qsim ?w" using found by simp
  obtain w' hs where "inject ?a demo_qsim ?w = (None, w') \<and> answering [] [] ([] @ ''pulse 9 0 120'' @ [nl]) (w_ext w') \<and>
    gt_line (agent_bytes (''pulse 9 0 120'' @ [nl]) agent_start) = [] \<and>
    gt_holds (agent_bytes (''pulse 9 0 120'' @ [nl]) agent_start) = gt_holds agent_start @ hs \<and>
    injection_seen 1 ?a demo_qsim ?w (gt_in agent_start) hs (gt_in (agent_bytes (''pulse 9 0 120'' @ [nl]) agent_start))"
    using injection_reaches_guest [OF s on acc agent_start_ok line(1) out [folded cmds] ans, of 1, unfolded cmds wire Let_def]
    by (elim exE) (rule that)
  note all = this
  note r1 = all [THEN conjunct1] and r2 = all [THEN conjunct2, THEN conjunct1]
    and r3 = all [THEN conjunct2, THEN conjunct2, THEN conjunct2, THEN conjunct1]
    and r4 = all [THEN conjunct2, THEN conjunct2, THEN conjunct2, THEN conjunct2]
  have "map (\<lambda>(h, ms). (esprite_agent_gpio_level 9 1 h, ms)) hs = [(0, 120)]"
    using r4 unfolding injection_seen.simps found option.case pressed_level_def by simp
  moreover have "al_sent (qe_agent (w_ext w')) = ''pulse 9 0 120'' @ [nl]" using r2 unfolding answering_def append_Nil by (elim conjE)
  ultimately show ?thesis using r1 r3 unfolding line(2) append_Nil by (intro exI conjI)
qed

definition polls_typed :: "int \<Rightarrow> int \<Rightarrow> guest_input \<Rightarrow> bool" where
  "polls_typed pin d g \<longleftrightarrow>
     (case esprite_agent_touch g of None \<Rightarrow> True | Some (x, y) \<Rightarrow> {x, y} \<subseteq> {0..4095}) \<and>
     (case esprite_agent_touch_events g of (n, x, y) \<Rightarrow> 0 \<le> n \<and> {x, y} \<subseteq> {0..4095}) \<and>
     esprite_agent_gpio_level pin d g \<in> {0, 1, d} \<and> 0 \<le> esprite_agent_gpio_events pin g"

lemma guest_ok_polls:
  assumes "guest_ok g"
  shows "polls_typed pin d g"
proof (cases "pin < 0 \<or> MAX_PIN < pin")
  case False
  then have "nat pin < length (g_level g)" "nat pin < length (g_events g)"
    using assms by (auto simp: guest_ok_def MAX_PIN_def)
  then have "g_level g ! nat pin \<in> {- 1, 0, 1}" "0 \<le> g_events g ! nat pin"
    using assms by (auto simp: guest_ok_def list_all_length)
  with assms show ?thesis
    by (auto simp: polls_typed_def guest_ok_def esprite_agent_touch_def esprite_agent_touch_events_def
        esprite_agent_gpio_level_def esprite_agent_gpio_events_def Let_def)
qed (use assms in \<open>auto simp: polls_typed_def guest_ok_def esprite_agent_touch_def esprite_agent_touch_events_def
    esprite_agent_gpio_level_def esprite_agent_gpio_events_def\<close>)

text \<open>
  Property C40. Whatever bytes arrive on the agent's UART, the firmware only ever polls touch points of a
  panel up to 4096 pixels, pin levels zero or one (or its own default) and counters that are not
  negative, at rest and during a press; the line buffer never overflows; and the next line is
  either refused with \<open>err\<close> and changes nothing, or served with \<open>ok\<close>.
\<close>

theorem guest_state_typed:
  "case agent_bytes bytes agent_start of t \<Rightarrow>
     list_all (\<lambda>(g, ms). polls_typed pin d g) ((gt_in t, 0) # gt_holds t) \<and> length (gt_line t) < LINE_MAX \<and>
     (case handle_line line (gt_in t) of (r, g, hs) \<Rightarrow> if is_err r then g = gt_in t \<and> hs = [] else starts_with ''ok'' r)"
proof -
  let ?t = "agent_bytes bytes agent_start"
  have ok: "task_ok ?t" by (rule agent_bytes_ok [OF agent_start_ok])
  obtain r g hs where h: "handle_line line (gt_in ?t) = (r, g, hs)" by (metis prod_cases3)
  have "served_ok (gt_in ?t) (r, g, hs)" using handle_line_ok [of "gt_in ?t" line] ok h by (simp add: task_ok_def)
  moreover have "\<not> is_err r" if "starts_with ''ok'' r" using that by (auto simp: is_err_def starts_with_iff)
  ultimately show ?thesis using ok h
    by (auto simp: task_ok_def guest_ok_polls served_ok_def list_all_iff)
qed

text \<open>
  A line of 128 characters or more does not end at the next line break: the first 128
  are dropped with an error, and what follows them on the same line is served as a command of
  its own, so the host gets two answers to one line.
\<close>

theorem guest_oversized_desync:
  assumes "cmd_ok c" and "gt_line t = []" and "length u = LINE_MAX" and "nl \<notin> set u" and "cr \<notin> set u"
  shows "agent_bytes (u @ cmd_text c @ [nl]) t = t\<lparr>gt_in := cmd_effect c (gt_in t),
    gt_out := gt_out t @ ''err line too long'' @ [nl] @ cmd_reply c @ [nl], gt_holds := gt_holds t @ cmd_holds c (gt_in t)\<rparr>"
proof -
  obtain v x where u: "u = v @ [x]" using assms(3) by (cases u rule: rev_cases) (auto simp: LINE_MAX_def)
  have "agent_bytes v t = t\<lparr>gt_line := v\<rparr>" using agent_bytes_word [of v t] assms u by simp
  moreover have "x \<noteq> nl" "x \<noteq> cr" using assms(4,5) u by auto
  ultimately have "agent_bytes u t = reply ''err line too long'' t"
    using assms u by (simp add: agent_byte_def reply_def LINE_MAX_def)
  with serve_cmd [OF assms(1), of "reply ''err line too long'' t"] assms(2) show ?thesis by (simp add: reply_def)
qed

theorem guest_oversized_desync_witness:
  "gt_out (agent_bytes (replicate 128 (CHR ''x'') @ cmd_text (Gpio 4 1) @ [nl]) agent_start)
   = ''esprite-agent v1'' @ [nl] @ ''err line too long'' @ [nl] @ ''ok'' @ [nl]"
proof -
  have "gt_line agent_start = []" "length (replicate 128 (CHR ''x'')) = LINE_MAX"
    by (simp_all add: agent_start_def reply_def LINE_MAX_def)
  moreover have "nl \<notin> set (replicate 128 (CHR ''x''))" "cr \<notin> set (replicate 128 (CHR ''x''))" by simp_all
  ultimately show ?thesis
    using guest_oversized_desync [of "Gpio 4 1" agent_start "replicate 128 (CHR ''x'')"]
    by (simp add: agent_start_def reply_def del: cmd_text.simps replicate.simps)
qed

end
