(* ===== verification/OneShot.thy ===== *)
theory OneShot
  imports Session QemuBoard
begin

text \<open>
  The one-shot commands of the CLI (\<^verbatim>\<open>esprite_main\<close> in \<^verbatim>\<open>cli/cli.cpp\<close>, from the target listing to
  the dispatch): boot the target, do one thing, print a result or an error envelope, exit with a
  code. A result is the exit code, the error envelope's kind and message if there is one, and
  what goes to standard output.
\<close>

section \<open>Results\<close>

type_synonym result = "int \<times> (string \<times> string) option \<times> string"

definition fail :: "string \<Rightarrow> string \<Rightarrow> int \<Rightarrow> result" where
  "fail kind msg code = (code, Some (kind, msg), [])"

text \<open>\<open>g\<close> is \<^verbatim>\<open>g_json\<close>.\<close>

definition emit :: "bool \<Rightarrow> string \<Rightarrow> string \<Rightarrow> string" where
  "emit g json txt = (if g then json else txt) @ [nl]"

definition ok_result :: "bool \<Rightarrow> string \<Rightarrow> string \<Rightarrow> result" where
  "ok_result g json txt = (0, None, emit g json txt)"

definition output_json :: "string list \<Rightarrow> bool \<Rightarrow> bool" where
  "output_json argv tty =
     (let om = (case opt_val argv ''--output'' of Some v \<Rightarrow> Some v | None \<Rightarrow> opt_val argv ''-o'');
          m = or_else om ''auto'';
          m = (if opt_flag argv ''--json'' then ''json'' else m)
      in if m = ''json'' then True else if m = ''text'' then False else \<not> tty)"

text \<open>The pieces of the JSON results.\<close>

definition object :: "string list \<Rightarrow> string" where
  "object ms = ''{'' @ comma_list ms @ ''}''"

definition ok_object :: "string list \<Rightarrow> string" where
  "ok_object ms = object (field ''ok'' ''true'' # ms)"

section \<open>Targets\<close>

definition resolve_target :: "string list \<Rightarrow> 'w registry \<Rightarrow> string" where
  "resolve_target argv reg = (case opt_val argv ''--target'' of
     Some t \<Rightarrow> t
   | None \<Rightarrow> if sim_target_count reg = 1 then t_key (reg ! 0) else [])"

text \<open>The error envelope with the exit code, \<^const>\<open>None\<close> where the target booted.\<close>

definition boot_or_die :: "('e, 'j) host \<Rightarrow> string list \<Rightarrow> 'e shell \<Rightarrow> result option \<times> 'e shell" where
  "boot_or_die H argv s =
     (let reg = s_reg (h_sim H); t = resolve_target argv reg
      in if t = [] then (Some (fail ''no_target'' ''no --target and more than one target registered'' 2), s)
         else (case sim_target t reg of
             None \<Rightarrow> (Some (fail ''unknown_target'' (''unknown target '' @ quoted t) 2), s)
           | Some i \<Rightarrow>
               (let s = upd_w (sim_backend_select reg (s_slots (h_sim H)) (Some i)) s
                in case on_w (\<lambda>w. be_boot (host_backend H w) (Some i) w) s of
                     (None, s) \<Rightarrow> (None, s)
                   | (Some err, s) \<Rightarrow> (Some (fail ''backend_unavailable'' (could_not_boot t err) 2), s))))"

definition maybe_shot :: "('e, 'j) host \<Rightarrow> string list \<Rightarrow> 'e shell \<Rightarrow> 'e shell" where
  "maybe_shot H argv s = (case opt_val argv ''--shot'' of
     None \<Rightarrow> s | Some path \<Rightarrow> snd (sim_screenshot_png H path s))"

definition opt_int :: "string list \<Rightarrow> string \<Rightarrow> int \<Rightarrow> int" where
  "opt_int argv name dflt = (case opt_val argv name of None \<Rightarrow> dflt | Some v \<Rightarrow> atoi v)"

section \<open>Listing the targets\<close>

text \<open>\<^verbatim>\<open>std::to_string\<close> of a float: six decimals, the exact value rounded half to even.\<close>

definition round_even :: "rat \<Rightarrow> int" where
  "round_even r = (let f = \<lfloor>r\<rfloor>; d = r - of_int f
     in if d < 1/2 then f else if 1/2 < d then f + 1 else if even f then f else f + 1)"

definition pad_left :: "nat \<Rightarrow> string \<Rightarrow> string" where
  "pad_left n s = replicate (n - length s) (CHR ''0'') @ s"

definition float_text :: "rat \<Rightarrow> string" where
  "float_text v = (let n = nat (round_even (\<bar>v\<bar> * 1000000))
     in (if v < 0 then ''-'' else []) @ nat_to_string (n div 1000000) @ ''.'' @ pad_left 6 (nat_to_string (n mod 1000000)))"

definition edge_name :: "SimEdge \<Rightarrow> string" where
  "edge_name e = (case e of EDGE_RIGHT \<Rightarrow> ''right'' | EDGE_LEFT \<Rightarrow> ''left'' | EDGE_TOP \<Rightarrow> ''top'' | EDGE_BOTTOM \<Rightarrow> ''bottom'')"

definition control_item :: "SimButton \<Rightarrow> string" where
  "control_item b = object [field ''label'' (jstr (json_esc (b_label b))), field ''edge'' (jstr (edge_name (b_edge b))),
     field ''position'' (float_text (b_pos b)),
     field ''key'' (jstr (json_esc (if b_key b = CHR 0x00 then [] else [b_key b])))]"

text \<open>The code reads the board of every target; a target without one is printed with its key only.\<close>

definition target_item :: "string option \<Rightarrow> 'w SimTarget \<Rightarrow> string" where
  "target_item flds t =
     object (map snd (filter (\<lambda>(f, m). field_selected flds f)
       ((''key'', field ''key'' (jstr (t_key t))) #
        (case t_board t of None \<Rightarrow> []
         | Some b \<Rightarrow>
            [(''name'', field ''name'' (jstr (json_esc (bd_name b)))),
             (''width'', field ''width'' (int_to_string (bd_width b))),
             (''height'', field ''height'' (int_to_string (bd_height b))),
             (''buttons'', field ''buttons'' (nat_to_string (length (bd_buttons b)))),
             (''controls'', field ''controls'' (''['' @ comma_list (map control_item (bd_buttons b)) @ '']'')),
             (''battery'', field ''battery'' (jbool (bd_has_battery b))),
             (''rotation'', field ''rotation'' (jbool (bd_has_rotation b)))]) @
        [(''backend'', field ''backend'' (jstr (if t_backend t = BACKEND_QEMU then ''qemu'' else ''native'')))])))"

definition target_line :: "'w SimTarget \<Rightarrow> string" where
  "target_line t = (case t_board t of None \<Rightarrow> t_key t
     | Some b \<Rightarrow> t_key t @ ''  '' @ int_to_string (bd_width b) @ ''x'' @ int_to_string (bd_height b) @ ''  '' @ bd_name b)"

definition list_targets :: "bool \<Rightarrow> string list \<Rightarrow> 'w registry \<Rightarrow> result" where
  "list_targets g argv reg =
     (let offset = max 0 (opt_int argv ''--offset'' 0); limit = opt_int argv ''--limit'' 100;
          shown = page offset limit reg;
          json = page_text (map (target_item (opt_val argv ''--fields'')) shown) (sim_target_count reg) offset (int (length shown))
      in ok_result g json (if shown = [] then ''(no targets)'' else join_with [nl] (map target_line shown)))"

section \<open>The commands\<close>

text \<open>The environment beyond the host: the JSON array of objects as \<^verbatim>\<open>project_array\<close> uses it.\<close>

record json_array =
  ja_read :: "string \<Rightarrow> (string \<times> string) list list" \<comment> \<open>members with their text\<close>
  ja_write :: "(string \<times> string) list list \<Rightarrow> string"

definition project_array :: "json_array \<Rightarrow> string \<Rightarrow> string option \<Rightarrow> string" where
  "project_array A input flds = (case flds of None \<Rightarrow> input
     | Some _ \<Rightarrow> ja_write A (map (filter (\<lambda>(k, v). field_selected flds k)) (ja_read A input)))"

definition acted :: "ActionError \<times> 'e shell \<Rightarrow> ('e shell \<Rightarrow> result \<times> 'e shell) \<Rightarrow> result \<times> 'e shell" where
  "acted r f = (case r of (None, s) \<Rightarrow> f s | (Some (k, m), s) \<Rightarrow> (fail k m (kind_exit k), s))"

text \<open>After an action: the optional picture, then the result.\<close>

definition shot_ok :: "('e, 'j) host \<Rightarrow> bool \<Rightarrow> string list \<Rightarrow> ('e world \<Rightarrow> string) \<Rightarrow> ('e world \<Rightarrow> string)
    \<Rightarrow> 'e shell \<Rightarrow> result \<times> 'e shell" where
  "shot_ok H g argv json txt s = (let s = maybe_shot H argv s in (ok_result g (json (sh_w s)) (txt (sh_w s)), s))"

definition cmd_ui :: "json_array \<Rightarrow> bool \<Rightarrow> string list \<Rightarrow> 'e shell \<Rightarrow> result \<times> 'e shell" where
  "cmd_ui A g argv s = (case lvgl_snapshot_json (w_lv (sh_w s)) of
     (j, lv) \<Rightarrow> (let tree = project_array A j (opt_val argv ''--fields'')
       in (ok_result g (bounded_array tree (opt_int argv ''--offset'' 0) (opt_int argv ''--limit'' 100)) tree,
           upd_w (\<lambda>w. w\<lparr>w_lv := lv\<rparr>) s)))"

definition qemu_active :: "'e sim \<Rightarrow> 'e world \<Rightarrow> bool" where
  "qemu_active S w = (case active_target S w of None \<Rightarrow> False | Some t \<Rightarrow> t_backend t = BACKEND_QEMU)"

definition cmd_screenshot :: "('e, 'j) host \<Rightarrow> bool \<Rightarrow> string list \<Rightarrow> 'e shell \<Rightarrow> result \<times> 'e shell" where
  "cmd_screenshot H g argv s =
     (let path = positional argv 0; path = (if path = [] then ''esprite.png'' else path)
      in if opt_val argv ''--steps'' \<noteq> None \<and> qemu_active (h_sim H) (sh_w s)
         then (fail ''unsupported'' ''--steps is native-only (loop iterations); qemu targets capture current display state'' 7, s)
         else (let s = (case opt_val argv ''--steps'' of None \<Rightarrow> s | Some v \<Rightarrow> upd_w (steps (h_sim H) (atoi v)) s)
           in case on_w (\<lambda>w. be_sync_framebuffer (host_backend H w) w) s of
                (Some err, s) \<Rightarrow> (fail ''capture_failed'' (''could not capture the display: '' @ err) 9, s)
              | (None, s) \<Rightarrow> (case sim_screenshot_png H path s of
                  (False, s) \<Rightarrow> (fail ''capture_failed'' (''could not write PNG to '' @ path) 9, s)
                | (True, s) \<Rightarrow> (let w = int_to_string (fb_w (w_fb (sh_w s))); h = int_to_string (fb_h (w_fb (sh_w s)))
                    in (ok_result g (ok_object [field ''path'' (jstr (json_esc path)), field ''w'' w, field ''h'' h])
                          (''wrote '' @ path @ '' ('' @ w @ ''x'' @ h @ '')''), s)))))"

definition cmd_snapshot :: "('e, 'j) host \<Rightarrow> bool \<Rightarrow> string list \<Rightarrow> 'e shell \<Rightarrow> result \<times> 'e shell" where
  "cmd_snapshot H g argv s =
     (let json = positional argv 0
      in if json = [] \<or> js_parse (h_json H) json = None
         then (fail ''bad_args'' ''snapshot needs a valid JSON body'' 2, s)
         else (case on_w (sim_wifi_post H (or_else (opt_val argv ''--path'') ''/snapshot'') json) s of
             (False, s) \<Rightarrow> (fail ''post_failed'' ''snapshot not delivered (target server unbound/unreachable or body too large)'' 6, s)
           | (True, s) \<Rightarrow> shot_ok H g argv (\<lambda>_. ok_object []) (\<lambda>_. ''posted snapshot'')
               (upd_w (\<lambda>w. snd (be_settle_ms (host_backend H w) 50 w)) s)))"

definition tap_at :: "('e, 'j) host \<Rightarrow> bool \<Rightarrow> string list \<Rightarrow> string list \<Rightarrow> int \<Rightarrow> int \<Rightarrow> 'e shell \<Rightarrow> result \<times> 'e shell" where
  "tap_at H g argv extra x y s = acted (lift_action (apply_tap x y) H s)
     (shot_ok H g argv (\<lambda>_. ok_object (extra @ [field ''x'' (int_to_string x), field ''y'' (int_to_string y)]))
       (\<lambda>_. ''tapped '' @ int_to_string x @ '','' @ int_to_string y))"

definition cmd_tap :: "('e, 'j) host \<Rightarrow> bool \<Rightarrow> string list \<Rightarrow> 'e shell \<Rightarrow> result \<times> 'e shell" where
  "cmd_tap H g argv s = (case opt_val argv ''--ref'' of
     Some ref \<Rightarrow>
       if positional argv 0 \<noteq> [] then (fail ''conflict'' ''tap takes --ref or x/y, not both'' 5, s)
       else (case lvgl_ref_center ref (w_lv (sh_w s)) of
           (None, lv) \<Rightarrow> (fail ''ref_not_found'' (''no widget with ref '' @ ref @ '' in the current ui snapshot'') 4,
                upd_w (\<lambda>w. w\<lparr>w_lv := lv\<rparr>) s)
         | (Some (x, y), lv) \<Rightarrow> tap_at H g argv [field ''ref'' (jstr (json_esc ref))] x y (upd_w (\<lambda>w. w\<lparr>w_lv := lv\<rparr>) s))
   | None \<Rightarrow> (case (to_long (positional argv 0) 0 100000, to_long (positional argv 1) 0 100000) of
       (Some x, Some y) \<Rightarrow> tap_at H g argv [] x y s
     | _ \<Rightarrow> (fail ''bad_args'' ''tap needs integer x y coordinates (or --ref)'' 2, s)))"

definition cmd_swipe :: "('e, 'j) host \<Rightarrow> bool \<Rightarrow> string list \<Rightarrow> 'e shell \<Rightarrow> result \<times> 'e shell" where
  "cmd_swipe H g argv s = (case map (\<lambda>i. to_long (positional argv i) 0 100000) [0, 1, 2, 3] of
     [Some x1, Some y1, Some x2, Some y2] \<Rightarrow>
       acted (lift_action (apply_swipe x1 y1 x2 y2) H s) (shot_ok H g argv (\<lambda>_. ok_object []) (\<lambda>_. ''swiped''))
   | _ \<Rightarrow> (fail ''bad_args'' ''swipe needs integer x1 y1 x2 y2'' 2, s))"

definition cmd_button :: "('e, 'j) host \<Rightarrow> bool \<Rightarrow> string list \<Rightarrow> 'e shell \<Rightarrow> result \<times> 'e shell" where
  "cmd_button H g argv s = (let which = positional argv 0
     in acted (lift_action (apply_button which) H s)
          (shot_ok H g argv (\<lambda>_. ok_object [field ''button'' (jstr (json_esc which))]) (\<lambda>_. ''pressed '' @ which)))"

definition cmd_battery :: "('e, 'j) host \<Rightarrow> bool \<Rightarrow> string list \<Rightarrow> 'e shell \<Rightarrow> result \<times> 'e shell" where
  "cmd_battery H g argv s = (case to_long (positional argv 0) 0 100 of
     None \<Rightarrow> (fail ''bad_args'' ''battery needs a percentage 0-100'' 2, s)
   | Some pct \<Rightarrow>
       acted (lift_action (apply_battery pct (if opt_flag argv ''--charging'' then Some True else None)
           (if opt_flag argv ''--no-vbus'' then Some False else None)) H s)
         (shot_ok H g argv
           (\<lambda>w. ok_object [field ''pct'' (int_to_string (battery_pct (w_input w))),
              field ''charging'' (jbool (charging (w_input w))), field ''vbus'' (jbool (vbus (w_input w)))])
           (\<lambda>w. ''battery '' @ int_to_string (battery_pct (w_input w)) @ ''%'')))"

definition cmd_rotate :: "('e, 'j) host \<Rightarrow> bool \<Rightarrow> string list \<Rightarrow> 'e shell \<Rightarrow> result \<times> 'e shell" where
  "cmd_rotate H g argv s = (case to_long (positional argv 0) (- 1000) 1000 of
     None \<Rightarrow> (fail ''bad_args'' ''rotate needs a quadrant 0-3'' 2, s)
   | Some q \<Rightarrow> acted (lift_action (apply_rotate q) H s)
       (shot_ok H g argv (\<lambda>w. ok_object [field ''quadrant'' (int_to_string (quadrant (w_input w)))])
         (\<lambda>w. ''quadrant '' @ int_to_string (quadrant (w_input w)))))"

definition cmd_motion :: "('e, 'j) host \<Rightarrow> bool \<Rightarrow> string list \<Rightarrow> 'e shell \<Rightarrow> result \<times> 'e shell" where
  "cmd_motion H g argv s = acted (lift_action apply_motion H s)
     (shot_ok H g argv (\<lambda>_. ok_object []) (\<lambda>_. ''motion nudge injected''))"

definition cmd_gpio :: "('e, 'j) host \<Rightarrow> bool \<Rightarrow> string list \<Rightarrow> 'e shell \<Rightarrow> result \<times> 'e shell" where
  "cmd_gpio H g argv s = (case (to_long (positional argv 0) (- 1000) 1000, to_long (positional argv 1) (- 1000) 1000) of
     (Some pin, Some lvl) \<Rightarrow> (let level = int_to_string (if lvl \<noteq> 0 then 1 else 0)
       in acted (lift_action (apply_gpio pin lvl) H s)
            (\<lambda>s. (ok_result g (ok_object [field ''pin'' (int_to_string pin), field ''level'' level])
               (''gpio '' @ int_to_string pin @ ''='' @ level), s)))
   | _ \<Rightarrow> (fail ''bad_args'' ''gpio needs a pin 0-63 and a level 0|1'' 2, s))"

definition cmd_wifi :: "('e, 'j) host \<Rightarrow> bool \<Rightarrow> string list \<Rightarrow> 'e shell \<Rightarrow> result \<times> 'e shell" where
  "cmd_wifi H g argv s = (let state = positional argv 0
     in acted (lift_action (apply_wifi state) H s)
          (shot_ok H g argv (\<lambda>_. ok_object [field ''state'' (jstr (json_esc state))]) (\<lambda>_. ''wifi '' @ state)))"

text \<open>The lines and key events drained for the text output, one per line.\<close>

definition drained_text :: "string list \<Rightarrow> string" where
  "drained_text ls = concat (map (\<lambda>l. l @ [nl]) ls)"

definition hid_line :: "SimBleHidEvent \<Rightarrow> string" where
  "hid_line ev = (if hid_press ev then ''press'' else ''release'') @ '' key='' @ int_to_string (uint (hid_key ev)) @
     '' mod='' @ int_to_string (uint (hid_modifier ev))"

definition drain_lines :: "'e shell \<Rightarrow> string list \<times> 'e shell" where
  "drain_lines = on_w (\<lambda>w. case sim_ble_host_drain (w_ble w) of (ls, b) \<Rightarrow> (ls, w\<lparr>w_ble := b\<rparr>))"

definition drain_hid :: "'e shell \<Rightarrow> SimBleHidEvent list \<times> 'e shell" where
  "drain_hid = on_w (\<lambda>w. case sim_ble_hid_drain (w_ble w) of (evs, b) \<Rightarrow> (evs, w\<lparr>w_ble := b\<rparr>))"

definition items_object :: "string list \<Rightarrow> string" where
  "items_object items = object [field ''items'' (''['' @ comma_list items @ '']'')]"

definition ble_connect :: "('e, 'j) host \<Rightarrow> bool \<Rightarrow> string list \<Rightarrow> 'e shell \<Rightarrow> result \<times> 'e shell" where
  "ble_connect H g argv s =
     (let pk = (case opt_val argv ''--passkey'' of None \<Rightarrow> 0 | Some p \<Rightarrow> or_else (to_long p 1 999999) 0)
      in acted (lift_action (apply_ble_connect (word_of_int pk)) H s)
           (\<lambda>s. let b = w_ble (sh_w s)
             in (ok_result g (ok_object [field ''secure'' (jbool (secure b)), field ''passkey'' (int_to_string (uint (passkey b)))])
                   (if secure b then ''connected (bonded)'' else ''connected, pairing''), s)))"

text \<open>A one-shot send boots fresh, so it connects first where no connection is up.\<close>

definition ble_send :: "('e, 'j) host \<Rightarrow> bool \<Rightarrow> string list \<Rightarrow> 'e shell \<Rightarrow> result \<times> 'e shell" where
  "ble_send H g argv s =
     (let line = positional argv 1
      in if line = [] \<or> js_parse (h_json H) line = None
         then (fail ''bad_args'' ''ble send needs a valid JSON line'' 2, s)
         else acted (if ble_state (w_ble (sh_w s)) \<noteq> SIM_BLE_CONNECTED
                     then lift_action (apply_ble_connect 0) H s else (None, s))
           (\<lambda>s. acted (lift_action (apply_ble_send line) H s)
             (\<lambda>s. case drain_lines s of (ls, s) \<Rightarrow>
               (let txt = drained_text ls
                in (ok_result g (ok_object [field ''replies'' (''['' @ comma_list (map (line_item (h_json H)) ls) @ '']'')])
                      (''sent'' @ (if txt = [] then [] else nl # txt)), maybe_shot H argv s)))))"

definition cmd_ble :: "('e, 'j) host \<Rightarrow> bool \<Rightarrow> string list \<Rightarrow> 'e shell \<Rightarrow> result \<times> 'e shell" where
  "cmd_ble H g argv s =
     (let sub = positional argv 0
      in if sub = ''connect'' then ble_connect H g argv s
         else if sub = ''pair'' then acted (lift_action apply_ble_pair H s)
           (\<lambda>s. (ok_result g (ok_object [field ''secure'' ''true'']) ''paired'', s))
         else if sub = ''disconnect'' then acted (lift_action apply_ble_disconnect H s)
           (\<lambda>s. (ok_result g (ok_object []) ''disconnected'', s))
         else if sub = ''send'' then ble_send H g argv s
         else if sub = ''recv'' then acted (ble_guarded (sh_w s), s)
           (\<lambda>s. case drain_lines s of (ls, s) \<Rightarrow>
             (ok_result g (items_object (map (line_item (h_json H)) ls))
                (if ls = [] then ''(no lines)'' else drained_text ls), s))
         else if sub = ''hid'' then acted (ble_guarded (sh_w s), s)
           (\<lambda>s. case drain_hid s of (evs, s) \<Rightarrow>
             (ok_result g (items_object (map hid_item evs))
                (if evs = [] then ''(no hid events)'' else drained_text (map hid_line evs)), s))
         else (fail ''bad_args'' ''ble takes connect|pair|disconnect|send|recv|hid'' 2, s))"

definition cmd_serial :: "('e, 'j) host \<Rightarrow> bool \<Rightarrow> string list \<Rightarrow> 'e shell \<Rightarrow> result \<times> 'e shell" where
  "cmd_serial H g argv s =
     (let sub = positional argv 0; arg = positional argv 1
      in if sub = ''send'' then
           (case on_w (\<lambda>w. be_serial_inject (host_backend H w) (arg @ [nl]) w) s of
              (False, s) \<Rightarrow> (fail ''backend_unavailable'' ''serial write failed (backend not running or pipe closed)'' 2, s)
            | (True, s) \<Rightarrow> (ok_result g (ok_object []) ''sent'', upd_w (serial_settle H 5) s))
         else if sub = ''expect'' then
           (if \<not> s_rx_valid (h_sim H) arg then (fail ''bad_args'' (''invalid regex '' @ quoted arg) 2, s)
            else (case on_w (\<lambda>w. be_serial_output (host_backend H w) w) (upd_w (serial_settle H SERIAL_SETTLE_STEPS) s) of
                (txt, s) \<Rightarrow> (let matched = s_rx_search (h_sim H) txt arg
                  in ((if matched then 0 else 1, None,
                       emit g (object [field ''matched'' (jbool matched)]) (if matched then ''matched'' else ''no match'')), s))))
         else (fail ''bad_args'' (''serial takes '' @ quoted ''send TEXT'' @ '' or '' @ quoted ''expect REGEX'') 2, s))"

definition cmd_logs :: "('e, 'j) host \<Rightarrow> bool \<Rightarrow> 'e shell \<Rightarrow> result \<times> 'e shell" where
  "cmd_logs H g s = (case on_w (\<lambda>w. be_serial_output (host_backend H w) w) s of
     (txt, s) \<Rightarrow> (ok_result g (object [field ''serial'' (jstr (json_esc txt))]) txt, s))"

section \<open>The dispatch\<close>

definition kBootCommands :: "string list" where
  "kBootCommands = [''ui'', ''screenshot'', ''snapshot'', ''tap'', ''swipe'', ''button'', ''battery'', ''rotate'',
     ''motion'', ''gpio'', ''wifi'', ''ble'', ''serial'', ''logs'']"

definition unknown_command :: "string \<Rightarrow> result" where
  "unknown_command cmd = fail ''bad_args'' (''unknown command '' @ quoted cmd @ '' (try: esprite schema)'') 2"

text \<open>The gate in front of the boot: \<^const>\<open>None\<close> where the target can do the command.\<close>

definition qemu_gate :: "string list \<Rightarrow> string \<Rightarrow> 'w registry \<Rightarrow> result option" where
  "qemu_gate argv cmd reg = (let rt = resolve_target argv reg
     in case (if rt = [] then None else sim_target rt reg) of
          None \<Rightarrow> None
        | Some i \<Rightarrow> if t_backend (reg ! i) = BACKEND_QEMU \<and> \<not> qemu_command_allowed cmd (Some (reg ! i))
                    then Some (fail ''unsupported'' (qemu_unsupported_msg cmd rt) 7) else None)"

definition run_command :: "('e, 'j) host \<Rightarrow> json_array \<Rightarrow> bool \<Rightarrow> string list \<Rightarrow> string \<Rightarrow> 'e shell \<Rightarrow> result \<times> 'e shell" where
  "run_command H A g argv cmd s =
     (if cmd = ''ui'' then cmd_ui A g argv s
      else if cmd = ''screenshot'' then cmd_screenshot H g argv s
      else if cmd = ''snapshot'' then cmd_snapshot H g argv s
      else if cmd = ''tap'' then cmd_tap H g argv s
      else if cmd = ''swipe'' then cmd_swipe H g argv s
      else if cmd = ''button'' then cmd_button H g argv s
      else if cmd = ''battery'' then cmd_battery H g argv s
      else if cmd = ''rotate'' then cmd_rotate H g argv s
      else if cmd = ''motion'' then cmd_motion H g argv s
      else if cmd = ''gpio'' then cmd_gpio H g argv s
      else if cmd = ''wifi'' then cmd_wifi H g argv s
      else if cmd = ''ble'' then cmd_ble H g argv s
      else if cmd = ''serial'' then cmd_serial H g argv s
      else if cmd = ''logs'' then cmd_logs H g s
      else (unknown_command cmd, s))"

text \<open>A failed boot has printed its own envelope; the exit code is 2 whatever it was.\<close>

definition one_shot :: "('e, 'j) host \<Rightarrow> json_array \<Rightarrow> bool \<Rightarrow> string list \<Rightarrow> string \<Rightarrow> 'e shell \<Rightarrow> result \<times> 'e shell" where
  "one_shot H A g argv cmd s =
     (if cmd \<notin> set kBootCommands then (unknown_command cmd, s)
      else (case qemu_gate argv cmd (s_reg (h_sim H)) of
          Some r \<Rightarrow> (r, s)
        | None \<Rightarrow> (case boot_or_die H argv s of
            (Some (code, e, out), s) \<Rightarrow> ((2, e, out), s)
          | (None, s) \<Rightarrow> run_command H A g argv cmd s)))"

definition cmd_scenario :: "(int \<Rightarrow> 'e world \<Rightarrow> nat) \<Rightarrow> ('e, 'j) host \<Rightarrow> bool \<Rightarrow> (string \<Rightarrow> string option) \<Rightarrow> string list
    \<Rightarrow> 'e shell \<Rightarrow> result \<times> 'e shell" where
  "cmd_scenario rounds H g files argv s =
     (let file = positional argv 0; dflt = resolve_target argv (s_reg (h_sim H));
          effective = (if dflt = [] then ''waveshare_amoled_18'' else dflt)
      in if file = [] then (fail ''bad_args'' ''scenario needs a file path'' 2, s)
         else (case scenario_run rounds H file (files file) effective s of
             ((code, e), s) \<Rightarrow>
               (if code = 0 then ok_result g (ok_object []) ''scenario passed'' else (code, e, []), s)))"

section \<open>Exit codes\<close>

text \<open>The table \<^verbatim>\<open>errors\<close> of the schema the program prints: kind and exit code.\<close>

definition schema_errors :: "(string \<times> int) list" where
  "schema_errors = [(''no_target'', 2), (''unknown_target'', 2), (''bind_failed'', 3), (''ref_not_found'', 4),
     (''conflict'', 5), (''post_failed'', 6), (''unsupported'', 7), (''bad_args'', 2), (''expect_failed'', 8),
     (''backend_unavailable'', 2), (''capture_failed'', 9), (''agent_failed'', 10)]"

definition known_kind :: "string \<Rightarrow> bool" where
  "known_kind k \<longleftrightarrow> k \<in> fst ` set schema_errors"

definition known_error :: "ActionError \<Rightarrow> bool" where
  "known_error e \<longleftrightarrow> (case e of None \<Rightarrow> True | Some (k, m) \<Rightarrow> known_kind k)"

text \<open>
  A result of the CLI is documented: an error has a kind of the table, its exit code and nothing
  on standard output; without an error the code is 0, or 1 for \<open>no_match\<close>.
\<close>

definition documented :: "result \<Rightarrow> bool" where
  "documented r \<longleftrightarrow> (case r of (code, e, out) \<Rightarrow> (case e of
     Some (k, m) \<Rightarrow> map_of schema_errors k = Some code \<and> out = []
   | None \<Rightarrow> code \<in> {0, 1}))"

lemma known_kinds [simp]:
  "known_kind ''bad_args''" "known_kind ''unsupported''" "known_kind ''post_failed''" "known_kind ''agent_failed''"
  "known_kind ''expect_failed''" "known_kind ''capture_failed''"
  by (simp_all add: known_kind_def schema_errors_def)

lemma known_error_simps [simp]: "known_error None" "known_error (Some (k, m)) = known_kind k"
  by (simp_all add: known_error_def)

lemma known_kind_exit: "known_kind k \<Longrightarrow> map_of schema_errors k = Some (kind_exit k)"
  unfolding known_kind_def schema_errors_def by (auto simp: kind_exit_def)

lemma documented_simps [simp]:
  "documented (fail k m c) = (map_of schema_errors k = Some c)" "documented (ok_result g j t)"
  "documented (c, None, out) = (c \<in> {0, 1})" "documented (c, Some (k, m), []) = (map_of schema_errors k = Some c)"
  by (auto simp: documented_def fail_def ok_result_def emit_def)

lemma schema_codes [simp]:
  "map_of schema_errors ''bad_args'' = Some 2" "map_of schema_errors ''unsupported'' = Some 7"
  "map_of schema_errors ''no_target'' = Some 2" "map_of schema_errors ''unknown_target'' = Some 2"
  "map_of schema_errors ''backend_unavailable'' = Some 2" "map_of schema_errors ''capture_failed'' = Some 9"
  "map_of schema_errors ''post_failed'' = Some 6" "map_of schema_errors ''conflict'' = Some 5"
  "map_of schema_errors ''ref_not_found'' = Some 4" "map_of schema_errors ''bind_failed'' = Some 3"
  by (simp_all add: schema_errors_def)

lemma ble_known: "known_error (ble_guarded w)"
  by (simp add: ble_guarded_def)

lemma ble_guarded_known: "ble_guarded w = Some e \<Longrightarrow> known_error (Some e)"
  using ble_known [of w] by simp

lemma actions_known [simp]:
  "known_error (fst (apply_battery pct ch vb S w))" "known_error (fst (apply_rotate q S w))"
  "known_error (fst (apply_motion S w))" "known_error (fst (apply_wifi st S w))"
  "known_error (fst (apply_ble_connect pk S w))" "known_error (fst (apply_ble_pair S w))"
  "known_error (fst (apply_ble_disconnect S w))" "known_error (fst (apply_ble_send l S w))"
  "known_error (fst (apply_expect t a x S w))"
  by (simp_all add: apply_battery_def apply_rotate_def apply_motion_def apply_wifi_def apply_ble_connect_def
      apply_ble_pair_def apply_ble_disconnect_def apply_ble_send_def apply_expect_def Let_def ble_guarded_def
      split: option.splits)

lemma agent_error_known: "known_error (fst (case r of (Some err, w) \<Rightarrow> (Some (''agent_failed'', err), w) | (None, w) \<Rightarrow> (None, w)))"
  by (cases r; cases "fst r") auto

lemma tap_known [simp]: "known_error (fst (apply_tap x y S w))"
  unfolding apply_tap_def Let_def by (simp add: agent_error_known if_distrib [of fst] if_distrib [of known_error])

lemma swipe_known [simp]: "known_error (fst (apply_swipe x y x2 y2 S w))"
  unfolding apply_swipe_def Let_def
  by (cases "agent_waypoints (swipe_points x y x2 y2) S w"; cases "fst (agent_waypoints (swipe_points x y x2 y2) S w)")
    (auto simp: agent_error_known if_distrib [of fst] if_distrib [of known_error])

lemma gpio_known [simp]: "known_error (fst (apply_gpio pin level S w))"
  unfolding apply_gpio_def Let_def by (simp add: agent_error_known if_distrib [of fst] if_distrib [of known_error])

lemma button_known [simp]: "known_error (fst (apply_button which S w))"
  unfolding apply_button_def Let_def
  by (cases "find_button_by_label which S w") (simp_all add: agent_error_known if_distrib [of fst] if_distrib [of known_error])

lemma serial_expect_known [simp]: "known_error (fst (apply_serial_expect t a S w))"
  by (simp add: apply_serial_expect_def Let_def split: prod.splits)

lemma acted_documented:
  assumes "known_error (fst r)" and "\<And>s. documented (fst (f s))"
  shows "documented (fst (acted r f))"
proof -
  obtain e s0 where r: "r = (e, s0)" by force
  show ?thesis
  proof (cases e)
    case None
    with assms(2) r show ?thesis by (simp add: acted_def)
  next
    case (Some p)
    obtain k m where "p = (k, m)" by force
    with assms(1) r Some known_kind_exit [of k] show ?thesis by (simp add: acted_def)
  qed
qed

lemma shot_ok_documented [simp]: "documented (fst (shot_ok H g argv j t s))"
  by (simp add: shot_ok_def Let_def)

lemma lift_known: "known_error (fst (f (h_sim H) (sh_w s))) \<Longrightarrow> known_error (fst (lift_action f H s))"
  by (simp add: split_def)

lemmas act_documented = acted_documented [OF lift_known]

lemma unknown_documented [simp]: "documented (unknown_command cmd)"
  by (simp add: unknown_command_def)

lemma tap_at_documented [simp]: "documented (fst (tap_at H g argv extra x y s))"
  unfolding tap_at_def by (rule act_documented) simp_all

lemma cmd_tap_documented: "documented (fst (cmd_tap H g argv s))"
  by (simp add: cmd_tap_def split: option.split prod.split)

lemma cmd_swipe_documented: "documented (fst (cmd_swipe H g argv s))"
  unfolding cmd_swipe_def by (auto intro!: act_documented split: list.split option.split)

lemma cmd_gpio_documented: "documented (fst (cmd_gpio H g argv s))"
  unfolding cmd_gpio_def Let_def by (auto intro!: act_documented split: option.split)

lemma cmd_screenshot_documented: "documented (fst (cmd_screenshot H g argv s))"
  unfolding cmd_screenshot_def Let_def by (simp split: option.split prod.split bool.split)

lemma cmd_snapshot_documented: "documented (fst (cmd_snapshot H g argv s))"
  unfolding cmd_snapshot_def Let_def by (simp split: prod.split bool.split)

lemma cmd_serial_documented: "documented (fst (cmd_serial H g argv s))"
  unfolding cmd_serial_def Let_def by (simp split: prod.split bool.split)

lemma ble_send_documented: "documented (fst (ble_send H g argv s))"
  unfolding ble_send_def Let_def
  by (auto intro!: acted_documented lift_known simp: split_def split: prod.split)

lemma cmd_ble_documented: "documented (fst (cmd_ble H g argv s))"
proof -
  have "documented (fst (ble_connect H g argv s))"
    unfolding ble_connect_def Let_def by (rule act_documented) simp_all
  moreover have "documented (fst (acted (ble_guarded (sh_w s), s) f))" if "\<And>s. documented (fst (f s))" for f
    by (rule acted_documented) (simp_all add: ble_known that)
  moreover have "documented (fst (acted (lift_action f H s) (\<lambda>s. (ok_result g j t, s))))"
    if "known_error (fst (f (h_sim H) (sh_w s)))" for f j t
    by (rule act_documented) (simp_all add: that)
  ultimately show ?thesis unfolding cmd_ble_def Let_def by (simp add: ble_send_documented split: prod.split)
qed

lemma battery_documented: "documented (fst (cmd_battery H g argv s))"
  unfolding cmd_battery_def by (auto intro!: act_documented split: option.split)

lemma rotate_documented: "documented (fst (cmd_rotate H g argv s))"
  unfolding cmd_rotate_def by (auto intro!: act_documented split: option.split)

lemma run_command_documented: "documented (fst (run_command H A g argv cmd s))"
proof -
  have "documented (fst (cmd_ui A g argv s))" "documented (fst (cmd_logs H g s))"
    by (simp_all add: cmd_ui_def cmd_logs_def Let_def split: prod.split)
  moreover have "documented (fst (cmd_button H g argv s))" "documented (fst (cmd_motion H g argv s))"
    "documented (fst (cmd_wifi H g argv s))"
    by (auto simp: cmd_button_def cmd_motion_def cmd_wifi_def Let_def intro!: act_documented)
  ultimately show ?thesis
    unfolding run_command_def
    by (simp add: cmd_tap_documented cmd_swipe_documented cmd_gpio_documented cmd_screenshot_documented
        cmd_snapshot_documented cmd_serial_documented cmd_ble_documented battery_documented rotate_documented)
qed

lemma boot_or_die_documented: "boot_or_die H argv s = (Some r, s') \<Longrightarrow> documented r \<and> fst r = 2"
  by (auto simp: boot_or_die_def Let_def fail_def split: if_splits option.splits prod.splits)

lemma qemu_gate_documented: "qemu_gate argv cmd reg = Some r \<Longrightarrow> documented r"
  by (auto simp: qemu_gate_def Let_def split: if_splits option.splits)

lemma one_shot_documented: "documented (fst (one_shot H A g argv cmd s))"
proof (cases "cmd \<in> set kBootCommands \<and> qemu_gate argv cmd (s_reg (h_sim H)) = None")
  case True
  obtain b s' where b: "boot_or_die H argv s = (b, s')" by force
  show ?thesis
  proof (cases b)
    case None
    with True b show ?thesis by (simp add: one_shot_def run_command_documented)
  next
    case (Some r)
    obtain c e out where r: "r = (c, e, out)" by (metis prod_cases3)
    from boot_or_die_documented [of H argv s r s'] b Some r have "documented (2, e, out)" by auto
    with True b Some r show ?thesis by (simp add: one_shot_def)
  qed
next
  case False
  then show ?thesis using qemu_gate_documented [of argv cmd "s_reg (h_sim H)"] by (auto simp: one_shot_def)
qed

lemma list_targets_documented: "documented (list_targets g argv reg)"
  by (simp add: list_targets_def Let_def)

text \<open>The failures of a scenario have kinds of the table too.\<close>

lemma on_w_known: "known_error (fst (f (sh_w s))) \<Longrightarrow> known_error (fst (on_w f s))"
  by (simp add: split_def)

lemma step_known:
  "known_error (fst (step_snapshot H d w))" "known_error (fst (step_settle H d w))" "known_error (fst (step_expect H q d w))"
  "known_error (fst (step_ble H d w))" "known_error (fst (step_screenshot H q d s))"
  unfolding step_snapshot_def step_settle_def step_expect_def step_ble_def step_screenshot_def Let_def
  by (simp_all split: prod.split bool.split option.split)

lemma step_pixel_known: "known_error (fst (step_pixel rounds H q d w))"
  unfolding step_pixel_def Let_def pixel_error_def by (simp split: prod.split pixel_result.split)

lemma run_step_known: "known_error (fst (run_step rounds H q cmd d s))"
  unfolding run_step_def Let_def
  by (simp add: on_w_known step_known step_pixel_known if_distrib [of fst] if_distrib [of known_error])

lemma scenario_steps_known: "(i, k, m) \<in> set (fst (scenario_steps rounds H q n ds s)) \<Longrightarrow> known_kind k"
proof (induction ds arbitrary: n s)
  case (Cons d ds)
  show ?case
  proof (cases "js_str (h_json H) d ''cmd''")
    case None
    with Cons show ?thesis by simp
  next
    case (Some cmd)
    obtain e s' where e: "run_step rounds H q cmd d s = (e, s')" by force
    with run_step_known [of rounds H q cmd d s] have "known_error e" by simp
    with Cons.prems Cons.IH [of "Suc n" s'] Some e show ?thesis by (auto split: option.splits prod.splits)
  qed
qed simp

lemma scenario_run_documented:
  assumes "scenario_run rounds H path content dflt s = ((code, e), s')"
  shows "if code = 0 then e = None else documented (code, e, [])"
proof -
  have res: "if fst (scenario_result fs) = 0 then snd (scenario_result fs) = None
      else documented (fst (scenario_result fs), snd (scenario_result fs), [])"
    if "\<forall>(i, k, m) \<in> set fs. known_kind k" for fs
  proof (cases fs)
    case (Cons f fs')
    obtain i k m where "f = (i, k, m)" by (metis prod_cases3)
    with Cons that known_kind_exit [of k] show ?thesis by (auto simp: scenario_result_def kind_exit_def)
  qed (simp add: scenario_result_def)
  have steps: "if code = 0 then e = None else documented (code, e, [])"
    if "scenario_steps rounds H q n ds s = (fs, s')" and "scenario_result fs = (code, e)" for q n ds s s' fs
  proof -
    have "\<forall>(i, k, m) \<in> set fs. known_kind k"
      using scenario_steps_known [of _ _ _ rounds H q n ds s] that(1) by auto
    from res [OF this] show ?thesis unfolding that(2) by (auto split: if_splits)
  qed
  from assms show ?thesis
    unfolding scenario_run_def Let_def
    by (simp split: option.splits prod.splits) (auto dest: steps)
qed

lemma cmd_scenario_documented: "documented (fst (cmd_scenario rounds H g files argv s))"
proof -
  let ?d = "resolve_target argv (s_reg (h_sim H))"
  obtain code e s' where r: "scenario_run rounds H (positional argv 0) (files (positional argv 0))
      (if ?d = [] then ''waveshare_amoled_18'' else ?d) s = ((code, e), s')" by (metis prod.collapse)
  from scenario_run_documented [OF r] show ?thesis by (simp add: cmd_scenario_def Let_def r)
qed

section \<open>The dialects agree\<close>

lemma to_long_print: "lo \<le> v \<Longrightarrow> v \<le> hi \<Longrightarrow> - 100000 \<le> v \<Longrightarrow> v \<le> 100000 \<Longrightarrow> to_long (int_to_string v) lo hi = Some v"
  using c_strtol_int [of "[]" v] by (auto simp: to_long_def long_ok_def int_to_string_def)

text \<open>Argument \<open>i\<close> of the command line is the number that the JSON object has at \<open>k\<close>.\<close>

definition int_arg :: "('e, 'j) host \<Rightarrow> string list \<Rightarrow> 'j \<Rightarrow> nat \<Rightarrow> string \<Rightarrow> int \<Rightarrow> int \<Rightarrow> bool" where
  "int_arg H argv d i k lo hi \<longleftrightarrow> (case js_int (h_json H) d k of None \<Rightarrow> False
     | Some v \<Rightarrow> positional argv i = int_to_string v \<and> lo \<le> v \<and> v \<le> hi)"

definition same_args :: "('e, 'j) host \<Rightarrow> string list \<Rightarrow> 'j \<Rightarrow> string \<Rightarrow> bool" where
  "same_args H argv d cmd \<longleftrightarrow>
     (if cmd = ''tap'' then opt_val argv ''--ref'' = None \<and> int_arg H argv d 0 ''x'' 0 100000 \<and> int_arg H argv d 1 ''y'' 0 100000
      else if cmd = ''swipe'' then int_arg H argv d 0 ''x1'' 0 100000 \<and> int_arg H argv d 1 ''y1'' 0 100000 \<and>
        int_arg H argv d 2 ''x2'' 0 100000 \<and> int_arg H argv d 3 ''y2'' 0 100000
      else if cmd = ''button'' then js_str (h_json H) d ''which'' = Some (positional argv 0)
      else if cmd = ''battery'' then int_arg H argv d 0 ''pct'' 0 100 \<and> \<not> opt_flag argv ''--no-vbus'' \<and>
        js_bool (h_json H) d ''charging'' = (if opt_flag argv ''--charging'' then Some True else None)
      else if cmd = ''rotate'' then int_arg H argv d 0 ''q'' (- 1000) 1000
      else if cmd = ''gpio'' then int_arg H argv d 0 ''pin'' (- 1000) 1000 \<and> int_arg H argv d 1 ''level'' (- 1000) 1000
      else if cmd = ''wifi'' then js_str (h_json H) d ''state'' = Some (positional argv 0)
      else cmd = ''motion'')"

lemma int_arg_read:
  assumes "int_arg H argv d i k lo hi" and "- 100000 \<le> lo" and "hi \<le> 100000"
  shows "to_long (positional argv i) lo hi = Some (step_int H d k v)"
  using assms to_long_print by (auto simp: int_arg_def step_int_def or_else_def split: option.splits)

text \<open>What a one-shot command does once its action succeeded: it reports 0 and, at most, writes a picture.\<close>

definition reports_ok :: "('e shell \<Rightarrow> result \<times> 'e shell) \<Rightarrow> bool" where
  "reports_ok f \<longleftrightarrow> (\<forall>s. fst (fst (f s)) = 0 \<and> fst (snd (fst (f s))) = None \<and> sh_w (snd (f s)) = sh_w s)"

lemma maybe_shot_world [simp]: "sh_w (maybe_shot H argv s) = sh_w s"
  by (auto simp: maybe_shot_def sim_screenshot_png_def split: option.split)

lemma reports_ok_shot [simp]: "reports_ok (shot_ok H g argv j t)"
  by (simp add: reports_ok_def shot_ok_def ok_result_def Let_def)

lemma reports_ok_result [simp]: "reports_ok (\<lambda>s. (ok_result g j t, s))"
  by (simp add: reports_ok_def ok_result_def)

lemma oneshot_parts:
  assumes "same_args H argv d cmd"
  shows "cmd = ''tap'' \<Longrightarrow> \<exists>f. reports_ok f \<and> cmd_tap H g argv s = acted (run_step rounds H False ''tap'' d s) f"
    and "cmd = ''swipe'' \<Longrightarrow> \<exists>f. reports_ok f \<and> cmd_swipe H g argv s = acted (run_step rounds H False ''swipe'' d s) f"
    and "cmd = ''button'' \<Longrightarrow> \<exists>f. reports_ok f \<and> cmd_button H g argv s = acted (run_step rounds H False ''button'' d s) f"
    and "cmd = ''battery'' \<Longrightarrow> \<exists>f. reports_ok f \<and> cmd_battery H g argv s = acted (run_step rounds H False ''battery'' d s) f"
    and "cmd = ''rotate'' \<Longrightarrow> \<exists>f. reports_ok f \<and> cmd_rotate H g argv s = acted (run_step rounds H False ''rotate'' d s) f"
    and "cmd = ''gpio'' \<Longrightarrow> \<exists>f. reports_ok f \<and> cmd_gpio H g argv s = acted (run_step rounds H False ''gpio'' d s) f"
    and "cmd = ''wifi'' \<Longrightarrow> \<exists>f. reports_ok f \<and> cmd_wifi H g argv s = acted (run_step rounds H False ''wifi'' d s) f"
    and "cmd = ''motion'' \<Longrightarrow> \<exists>f. reports_ok f \<and> cmd_motion H g argv s = acted (run_step rounds H False ''motion'' d s) f"
proof -
  note read = int_arg_read [where H = H and argv = argv and d = d and v = 0]
  { assume "cmd = ''tap''"
    with assms have "opt_val argv ''--ref'' = None" "to_long (positional argv 0) 0 100000 = Some (step_int H d ''x'' 0)"
      "to_long (positional argv 1) 0 100000 = Some (step_int H d ''y'' 0)"
      by (simp_all add: same_args_def read)
    then have "cmd_tap H g argv s = tap_at H g argv [] (step_int H d ''x'' 0) (step_int H d ''y'' 0) s"
      by (simp add: cmd_tap_def)
    then show "\<exists>f. reports_ok f \<and> cmd_tap H g argv s = acted (run_step rounds H False ''tap'' d s) f"
      unfolding tap_at_def run_step_def Let_def by (auto intro!: exI conjI) }
  { assume "cmd = ''swipe''"
    with assms have "to_long (positional argv 0) 0 100000 = Some (step_int H d ''x1'' 0)"
      "to_long (positional argv 1) 0 100000 = Some (step_int H d ''y1'' 0)"
      "to_long (positional argv 2) 0 100000 = Some (step_int H d ''x2'' 0)"
      "to_long (positional argv 3) 0 100000 = Some (step_int H d ''y2'' 0)"
      by (simp_all add: same_args_def read)
    then show "\<exists>f. reports_ok f \<and> cmd_swipe H g argv s = acted (run_step rounds H False ''swipe'' d s) f"
      unfolding cmd_swipe_def run_step_def Let_def by (auto intro!: exI conjI) }
  { assume "cmd = ''button''"
    with assms show "\<exists>f. reports_ok f \<and> cmd_button H g argv s = acted (run_step rounds H False ''button'' d s) f"
      unfolding cmd_button_def run_step_def Let_def by (auto simp: same_args_def step_str_def or_else_def intro!: exI conjI) }
  { assume "cmd = ''battery''"
    with assms have "to_long (positional argv 0) 0 100 = Some (step_int H d ''pct'' 75)" "\<not> opt_flag argv ''--no-vbus''"
      "js_bool (h_json H) d ''charging'' = (if opt_flag argv ''--charging'' then Some True else None)"
      using int_arg_read [where H = H and argv = argv and d = d and v = 75] by (simp_all add: same_args_def)
    then show "\<exists>f. reports_ok f \<and> cmd_battery H g argv s = acted (run_step rounds H False ''battery'' d s) f"
      unfolding cmd_battery_def run_step_def Let_def by (auto intro!: exI conjI) }
  { assume "cmd = ''rotate''"
    with assms have "to_long (positional argv 0) (- 1000) 1000 = Some (step_int H d ''q'' 0)"
      by (simp add: same_args_def read)
    then show "\<exists>f. reports_ok f \<and> cmd_rotate H g argv s = acted (run_step rounds H False ''rotate'' d s) f"
      unfolding cmd_rotate_def run_step_def Let_def by (auto intro!: exI conjI) }
  { assume "cmd = ''gpio''"
    with assms have "to_long (positional argv 0) (- 1000) 1000 = Some (step_int H d ''pin'' 0)"
      "to_long (positional argv 1) (- 1000) 1000 = Some (step_int H d ''level'' 0)"
      by (simp_all add: same_args_def read)
    then show "\<exists>f. reports_ok f \<and> cmd_gpio H g argv s = acted (run_step rounds H False ''gpio'' d s) f"
      unfolding cmd_gpio_def run_step_def Let_def by (auto intro!: exI conjI) }
  { assume "cmd = ''wifi''"
    with assms show "\<exists>f. reports_ok f \<and> cmd_wifi H g argv s = acted (run_step rounds H False ''wifi'' d s) f"
      unfolding cmd_wifi_def run_step_def Let_def by (auto simp: same_args_def step_str_def or_else_def intro!: exI conjI) }
  { assume "cmd = ''motion''"
    then show "\<exists>f. reports_ok f \<and> cmd_motion H g argv s = acted (run_step rounds H False ''motion'' d s) f"
      unfolding cmd_motion_def run_step_def Let_def by (auto intro!: exI conjI) }
qed

definition action_cmds :: "string list" where
  "action_cmds = [''tap'', ''swipe'', ''button'', ''battery'', ''rotate'', ''motion'', ''gpio'', ''wifi'']"

lemma oneshot_acts:
  assumes "cmd \<in> set action_cmds" and "same_args H argv d cmd"
  shows "\<exists>f. reports_ok f \<and> run_command H A g argv cmd s = acted (run_step rounds H False cmd d s) f"
  using assms(1) oneshot_parts [OF assms(2), of g s rounds] unfolding action_cmds_def list.set insert_iff
  by (elim disjE emptyE) (simp_all add: run_command_def)

lemma acted_reports:
  assumes "reports_ok f" and "r = (e, s')"
  shows "fst (snd (fst (acted r f))) = e" and "sh_w (snd (acted r f)) = sh_w s'"
  using assms by (cases e; force simp: acted_def reports_ok_def fail_def)+

text \<open>
  Property C38. The three dialects of the CLI cannot drift apart: the same action with the same arguments,
  given on the command line, as a line of the run session or as a scenario step, does the same
  to the world and fails with the same kind and message.
\<close>

theorem dialects_agree:
  assumes "cmd \<in> set action_cmds" and "same_args H argv d cmd"
    and "js_str (h_json H) d ''ref'' = None" and "js_bool (h_json H) d ''vbus'' = None"
    and "run_step rounds H False cmd d s = (e, s')"
  shows "fst (snd (fst (run_command H A g argv cmd s))) = e \<and> sh_w (snd (run_command H A g argv cmd s)) = sh_w s' \<and>
    session_cmd H cmd d s = reply_action (e, s') (success_line H cmd d)"
proof -
  obtain f where f: "reports_ok f" "run_command H A g argv cmd s = acted (e, s') f"
    using oneshot_acts [OF assms(1,2), of A g s rounds] assms(5) by auto
  have "cmd \<in> set shared_cmds" using assms(1) by (auto simp: action_cmds_def shared_cmds_def)
  from session_scenario_agree [OF this assms(3,4), of s rounds] f acted_reports [OF f(1), of "(e, s')" e s'] assms(5)
  show ?thesis by simp
qed

definition arg_host :: "(unit, unit) host" where
  "arg_host = demo_host\<lparr>h_json := (h_json demo_host)\<lparr>js_int := (\<lambda>_ k. if k = ''q'' then Some 7 else None)\<rparr>\<rparr>"

theorem dialects_agree_witness:
  "fst (snd (fst (run_command arg_host \<lparr>ja_read = \<lambda>_. [], ja_write = \<lambda>_. []\<rparr> True [''esprite'', ''rotate'', ''7''] ''rotate'' unbooted)))
     = Some (''bad_args'', ''rotate needs a quadrant 0-3'') \<and>
   fst (session_cmd arg_host ''rotate'' () unbooted) = error_line ''bad_args'' ''rotate needs a quadrant 0-3''"
proof -
  have seven: "int_to_string 7 = ''7''" by code_simp
  have "positional [''esprite'', ''rotate'', ''7''] 0 = ''7''" by code_simp
  then have args: "same_args arg_host [''esprite'', ''rotate'', ''7''] () ''rotate''"
    by (simp add: same_args_def int_arg_def arg_host_def seven)
  have step: "run_step (\<lambda>_ _. 0) arg_host False ''rotate'' () unbooted = (Some (''bad_args'', ''rotate needs a quadrant 0-3''), unbooted)"
    by (simp add: run_step_def step_int_def or_else_def arg_host_def apply_rotate_def Let_def)
  have "''rotate'' \<in> set action_cmds" "js_str (h_json arg_host) () ''ref'' = None" "js_bool (h_json arg_host) () ''vbus'' = None"
    by (simp_all add: action_cmds_def arg_host_def demo_host_def)
  from dialects_agree [OF this(1) args this(2,3) step] show ?thesis by (simp add: reply_action_def)
qed

end
