(* ===== verification/CliMain.thy ===== *)
theory CliMain
  imports OneShot BleBridge SimWindow QemuBackend
begin

text \<open>
  The live server \<^verbatim>\<open>esprite serve\<close> and the entry point \<^verbatim>\<open>esprite_main\<close> (\<^verbatim>\<open>cli/cli.cpp\<close>): argument
  normalisation and validation, board registration, the command, and the guard that shuts the
  backend down however the invocation ends.
\<close>

section \<open>Serving\<close>

text \<open>What one round of the loop meets: the bridge's sockets, the window's events, the clocks in ms.\<close>

record serve_round =
  sr_waiting :: bool
  sr_recvs :: "net_event list"
  sr_sends :: "send_event list"
  sr_events :: "(32 word \<times> win_event) list"
  sr_ticks :: "32 word"
  sr_sync_now :: int
  sr_now :: int

text \<open>The loop's variables; \<open>lv_capture\<close> is the path the window was asked to write its picture to.\<close>

record 'e live =
  lv_shell :: "'e shell"
  lv_bridge :: "BleBridge option"
  lv_win :: "SimWindow option"
  lv_capture :: "string option"
  lv_last :: int
  lv_last_sync :: int

definition bridge_round :: "serve_round \<Rightarrow> 'e live \<Rightarrow> 'e live" where
  "bridge_round r v = (case lv_bridge v of None \<Rightarrow> v
     | Some b \<Rightarrow> (case ble_bridge_tick (sr_waiting r) (sr_recvs r) (sr_sends r) (b, w_ble (sh_w (lv_shell v))) of
         (b, bus) \<Rightarrow> v\<lparr>lv_bridge := Some b, lv_shell := upd_w (\<lambda>w. w\<lparr>w_ble := bus\<rparr>) (lv_shell v)\<rparr>))"

definition sync_now :: "('e, 'j) host \<Rightarrow> 'e shell \<Rightarrow> 'e shell" where
  "sync_now H s = snd (on_w (\<lambda>w. be_sync_framebuffer (host_backend H w) w) s)"

definition window_round :: "('e, 'j) host \<Rightarrow> bool \<Rightarrow> serve_round \<Rightarrow> SimWindow \<Rightarrow> 'e live \<Rightarrow> bool \<times> 'e live" where
  "window_round H qemu_display r win v =
     (let v = (if qemu_display \<and> 100 \<le> sr_sync_now r - lv_last_sync v
               then v\<lparr>lv_shell := sync_now H (lv_shell v), lv_last_sync := sr_sync_now r\<rparr> else v);
          w = sh_w (lv_shell v)
      in case sim_window_tick (sr_events r) (sr_ticks r) \<lparr>dk_win = win, dk_in = w_input w, dk_gpio = w_gpio w\<rparr> of
           (go, d) \<Rightarrow> (go, v\<lparr>lv_win := Some (dk_win d),
             lv_shell := upd_w (\<lambda>w. w\<lparr>w_input := dk_in d, w_gpio := dk_gpio d\<rparr>) (lv_shell v)\<rparr>))"

definition shot_round :: "('e, 'j) host \<Rightarrow> string option \<Rightarrow> int \<Rightarrow> serve_round \<Rightarrow> 'e live \<Rightarrow> 'e live" where
  "shot_round H shot interval r v = (case shot of None \<Rightarrow> v
     | Some path \<Rightarrow>
         if interval \<le> sr_now r - lv_last v
         then (let s = sync_now H (lv_shell v)
               in if lv_win v \<noteq> None then v\<lparr>lv_shell := s, lv_capture := Some path, lv_last := sr_now r\<rparr>
                  else v\<lparr>lv_shell := snd (sim_screenshot_png H path s), lv_last := sr_now r\<rparr>)
         else v)"

definition serve_step :: "('e, 'j) host \<Rightarrow> bool \<Rightarrow> string option \<Rightarrow> int \<Rightarrow> serve_round \<Rightarrow> 'e live \<Rightarrow> bool \<times> 'e live" where
  "serve_step H qemu_display shot interval r v =
     (let v = v\<lparr>lv_shell := upd_w (\<lambda>w. be_tick (host_backend H w) w) (lv_shell v)\<rparr>;
          v = bridge_round r v
      in case (case lv_win v of None \<Rightarrow> (True, v) | Some win \<Rightarrow> window_round H qemu_display r win v) of
           (go, v) \<Rightarrow> if go then (True, shot_round H shot interval r v) else (False, v))"

text \<open>The rounds until the interrupt, which the end of the list stands for.\<close>

fun serve_loop :: "('e, 'j) host \<Rightarrow> bool \<Rightarrow> string option \<Rightarrow> int \<Rightarrow> serve_round list \<Rightarrow> 'e live \<Rightarrow> 'e live" where
  "serve_loop H q shot interval [] v = v"
| "serve_loop H q shot interval (r # rs) v = (case serve_step H q shot interval r v of
     (go, v) \<Rightarrow> if go then serve_loop H q shot interval rs v else v)"

text \<open>The environment of one invocation.\<close>

record ('e, 'j) cli_env =
  ce_host :: "'e world registry \<Rightarrow> ('e, 'j) host"
  ce_json :: json_array
  ce_parse :: board_parse
  ce_builtins :: "string list"
  ce_gate :: "string option"
  ce_board :: "(string \<times> string option) option"
  ce_tty :: bool
  ce_version :: string
  ce_schema :: string
  ce_files :: "string \<Rightarrow> string option"
  ce_polls :: "int \<Rightarrow> 'e world \<Rightarrow> nat"
  ce_goes :: "bool list" \<comment> \<open>for \<^verbatim>\<open>run\<close>: the session's waits\<close>
  ce_stdin :: string
  ce_sdl :: bool \<comment> \<open>for \<^verbatim>\<open>serve\<close>: whether a window can be opened\<close>
  ce_listen :: "bool \<times> int option" \<comment> \<open>whether the bridge's port can be bound, and the port assigned\<close>
  ce_serve :: "serve_round list"
  ce_start :: int

text \<open>The checks in front of the boot, which a request that cannot be satisfied does not pass.\<close>

definition has_display :: "'w SimTarget \<Rightarrow> bool" where
  "has_display t \<longleftrightarrow> t_backend t = BACKEND_QEMU \<and>
     (case t_board t of None \<Rightarrow> False | Some b \<Rightarrow> 0 < bd_width b \<and> 0 < bd_height b)"

definition serve_refused :: "string list \<Rightarrow> string \<Rightarrow> 'w SimTarget \<Rightarrow> result option" where
  "serve_refused argv key t =
     (let is_qemu = (t_backend t = BACKEND_QEMU)
      in if is_qemu \<and> \<not> has_display t \<and> opt_val argv ''--shot'' \<noteq> None
         then Some (fail ''unsupported'' (''--shot needs a display; '' @ quoted key @ '' declares none in its board spec'') 7)
         else if is_qemu \<and> \<not> has_display t \<and> opt_flag argv ''--window''
         then Some (fail ''unsupported'' (''--window needs a display; '' @ quoted key @ '' declares none in its board spec'') 7)
         else if is_qemu \<and> opt_val argv ''--ble-port'' \<noteq> None
         then Some (fail ''unsupported'' (''--ble-port needs the native BLE link; '' @ quoted key @ '' boots via qemu'') 7)
         else None)"

text \<open>A QEMU display: the framebuffer takes the size of the board, then one capture is tried.\<close>

definition size_display :: "('e, 'j) host \<Rightarrow> 'w SimTarget \<Rightarrow> 'e shell \<Rightarrow> 'e shell" where
  "size_display H t s = (case t_board t of None \<Rightarrow> s
     | Some b \<Rightarrow>
        (let fb = w_fb (sh_w s);
             s = (if fb_w fb \<noteq> bd_width b \<or> fb_h fb \<noteq> bd_height b
                  then upd_w (\<lambda>w. w\<lparr>w_fb := fb_fill 0 (fb_init (bd_width b) (bd_height b) (w_fb w))\<rparr>) s else s)
         in sync_now H s))"

definition open_window :: "('e, 'j) cli_env \<Rightarrow> ('e, 'j) host \<Rightarrow> string list \<Rightarrow> 'e shell \<Rightarrow> SimWindow option" where
  "open_window E H argv s =
     (if opt_flag argv ''--window''
      then sim_window_open (ce_sdl E) (active_board (h_sim H) (sh_w s)) (opt_int argv ''--scale'' 1) else None)"

text \<open>The bridge, where one is asked for: the error result on the left.\<close>

definition open_bridge :: "('e, 'j) cli_env \<Rightarrow> string list \<Rightarrow> 'e shell \<Rightarrow> result + BleBridge option" where
  "open_bridge E argv s = (case opt_val argv ''--ble-port'' of None \<Rightarrow> Inr None
     | Some bp \<Rightarrow>
        if \<not> sim_ble_available (w_ble (sh_w s))
        then Inl (fail ''unsupported'' ''this firmware has no BLE (boot a buddy target)'' 7)
        else (case ble_bridge_open (atoi bp) (fst (ce_listen E)) (snd (ce_listen E)) of
            None \<Rightarrow> Inl (fail ''bind_failed'' (''could not bind BLE bridge port '' @ bp) 3)
          | Some b \<Rightarrow> Inr (Some b)))"

definition close_bridge :: "'e live \<Rightarrow> 'e shell" where
  "close_bridge v = (case lv_bridge v of None \<Rightarrow> lv_shell v
     | Some b \<Rightarrow> upd_w (\<lambda>w. w\<lparr>w_ble := ble_bridge_close (b, w_ble w)\<rparr>) (lv_shell v))"

text \<open>Serving the booted target.\<close>

definition serve_target :: "('e, 'j) cli_env \<Rightarrow> ('e, 'j) host \<Rightarrow> string list \<Rightarrow> 'e world SimTarget \<Rightarrow> 'e shell
    \<Rightarrow> result \<times> 'e shell" where
  "serve_target E H argv t s =
     (let is_qemu = (t_backend t = BACKEND_QEMU); shot = opt_val argv ''--shot''
      in if \<not> is_qemu \<and> w_http (sh_w s) = 0
         then (fail ''bind_failed'' (''could not bind HTTP port '' @ or_else (w_env_port (sh_w s)) ''8080'') 3, s)
         else (let s = (if has_display t then size_display H t s else s);
                   win = open_window E H argv s;
                   s = (if is_qemu then snd (on_w (\<lambda>w. be_http_port (host_backend H w) w) s)
                        else (case shot of None \<Rightarrow> s | Some path \<Rightarrow> snd (sim_screenshot_png H path s)))
               in case open_bridge E argv s of
                    Inl r \<Rightarrow> (r, s)
                  | Inr br \<Rightarrow> ((0, None, []), close_bridge (serve_loop H (has_display t) shot (opt_int argv ''--interval-ms'' 1000)
                      (ce_serve E) \<lparr>lv_shell = s, lv_bridge = br, lv_win = win, lv_capture = None,
                        lv_last = ce_start E, lv_last_sync = ce_start E\<rparr>))))"

definition cmd_serve :: "('e, 'j) cli_env \<Rightarrow> ('e, 'j) host \<Rightarrow> string list \<Rightarrow> 'e shell \<Rightarrow> result \<times> 'e shell" where
  "cmd_serve E H argv s =
     (let s = (case opt_val argv ''--port'' of None \<Rightarrow> s | Some p \<Rightarrow> upd_w (\<lambda>w. w\<lparr>w_env_port := Some p\<rparr>) s);
          reg = s_reg (h_sim H); key = resolve_target argv reg
      in if key = [] then (fail ''no_target'' ''no --target and more than one target registered'' 2, s)
         else (case sim_target key reg of
             None \<Rightarrow> (fail ''unknown_target'' (''unknown target '' @ quoted key) 2, s)
           | Some i \<Rightarrow> (case serve_refused argv key (reg ! i) of
               Some r \<Rightarrow> (r, s)
             | None \<Rightarrow>
                 (let s = upd_w (sim_backend_select reg (s_slots (h_sim H)) (Some i)) s
                  in case on_w (\<lambda>w. be_boot (host_backend H w) (Some i) w) s of
                       (Some err, s) \<Rightarrow> (fail ''backend_unavailable'' (could_not_boot key err) 2, s)
                     | (None, s) \<Rightarrow> serve_target E H argv (reg ! i) s))))"

section \<open>The entry point\<close>

definition shutdown_guard :: "('e, 'j) host \<Rightarrow> 'e shell \<Rightarrow> 'e shell" where
  "shutdown_guard H s = upd_w (\<lambda>w. be_shutdown (host_backend H w) w) s"

definition version_result :: "('e, 'j) cli_env \<Rightarrow> bool \<Rightarrow> result" where
  "version_result E g = ok_result g (object [field ''name'' (jstr ''esprite''), field ''version'' (jstr (ce_version E))])
     (''esprite '' @ ce_version E)"

text \<open>A command once the options are valid and the boards registered.\<close>

definition dispatch :: "('e, 'j) cli_env \<Rightarrow> ('e, 'j) host \<Rightarrow> string list \<Rightarrow> string \<Rightarrow> 'e shell \<Rightarrow> result \<times> 'e shell" where
  "dispatch E H argv cmd s =
     (let g = output_json argv (ce_tty E)
      in if cmd = ''list-targets'' then (list_targets g argv (s_reg (h_sim H)), s)
         else if cmd = ''run'' then (case esprite_daemon (ce_goes E) H (opt_val argv ''--target'') (ce_stdin E) s of
             (rs, s) \<Rightarrow> ((0, None, concat rs), s))
         else if cmd = ''scenario'' then cmd_scenario (ce_polls E) H g (ce_files E) argv s
         else if cmd = ''serve'' then cmd_serve E H argv s
         else one_shot H (ce_json E) g argv cmd s)"

text \<open>\<open>esprite_main\<close> once the arguments are in order: the result, the boards and the shell.\<close>

definition main_body :: "('e, 'j) cli_env \<Rightarrow> string list \<Rightarrow> 'e world boards \<times> 'e shell \<Rightarrow> result \<times> 'e world boards \<times> 'e shell" where
  "main_body E argv = (\<lambda>(b, s).
     (let schema = (\<lambda>code. ((code, None, ce_schema E @ [nl]) :: result))
      in if length argv < 2 then (schema 1, b, s)
         else (let cmd = argv ! 1
               in if cmd = ''--help'' \<or> cmd = ''help'' \<or> cmd = ''schema'' then (schema 0, b, s)
                  else if cmd = ''--version'' \<or> cmd = ''version'' \<or> opt_flag argv ''--version''
                  then (version_result E (output_json argv (ce_tty E)), b, s)
                  else if opt_flag argv ''--help'' then (schema 0, b, s)
                  else (case validate_options argv of
                      Some m \<Rightarrow> (fail ''bad_args'' m 2, b, s)
                    | None \<Rightarrow> (case install_qemu_boards_gated (ce_parse E) (ce_builtins E) (ce_gate E) (ce_board E) b of
                        (Some m, b) \<Rightarrow> (fail ''bad_args'' m 2, b, s)
                      | (None, b) \<Rightarrow> (case dispatch E (ce_host E (bo_reg b)) argv cmd s of
                          (r, s) \<Rightarrow> (r, b, s)))))))"

text \<open>The guard stands in front of everything but the normalisation of the arguments.\<close>

definition esprite_main :: "('e, 'j) cli_env \<Rightarrow> string list \<Rightarrow> 'e world boards \<times> 'e shell \<Rightarrow> result \<times> 'e world boards \<times> 'e shell" where
  "esprite_main E argv st = (case normalize_argv argv of
     Inl m \<Rightarrow> (fail ''bad_args'' m 2, st)
   | Inr argv \<Rightarrow> (case main_body E argv st of
       (r, b, s) \<Rightarrow> (r, b, shutdown_guard (ce_host E (bo_reg b)) s)))"

section \<open>Every exit is documented\<close>

lemma serve_refused_documented: "serve_refused argv key t = Some r \<Longrightarrow> documented r"
  by (auto simp: serve_refused_def Let_def split: if_splits)

lemma open_bridge_documented: "open_bridge E argv s = Inl r \<Longrightarrow> documented r"
  by (auto simp: open_bridge_def split: option.splits if_splits)

lemma serve_target_documented: "documented (fst (serve_target E H argv t s))"
  unfolding serve_target_def Let_def by (auto split: sum.split dest: open_bridge_documented)

lemma cmd_serve_documented: "documented (fst (cmd_serve E H argv s))"
  unfolding cmd_serve_def Let_def
  by (simp add: serve_target_documented split: option.split prod.split) (auto dest: serve_refused_documented)

lemma dispatch_documented: "documented (fst (dispatch E H argv cmd s))"
  unfolding dispatch_def Let_def
  by (simp add: list_targets_documented cmd_scenario_documented cmd_serve_documented one_shot_documented split: prod.split)

lemma main_body_documented: "documented (fst (main_body E argv st))"
proof -
  obtain b s where st: "st = (b, s)" by force
  obtain m b' where i: "install_qemu_boards_gated (ce_parse E) (ce_builtins E) (ce_gate E) (ce_board E) b = (m, b')" by force
  obtain r s' where d: "dispatch E (ce_host E (bo_reg b')) argv (argv ! 1) s = (r, s')" by (cases "dispatch E (ce_host E (bo_reg b')) argv (argv ! 1) s")
  have "documented r" using dispatch_documented [of E "ce_host E (bo_reg b')" argv "argv ! 1" s] d by simp
  then show ?thesis using i d
    by (simp add: st main_body_def Let_def version_result_def split: option.split)
qed

text \<open>
  Property C39. The exit code tells scripts what went wrong: whatever the arguments, an invocation that
  fails prints one error envelope whose kind is in the table of the schema, exits with the code
  the table gives that kind and prints no result; one that does not fail exits with 0, or 1.
\<close>

theorem exit_codes_documented:
  "documented (fst (esprite_main E argv st))"
proof (cases "normalize_argv argv")
  case (Inr av)
  obtain r b s where m: "main_body E av st = (r, b, s)" by (metis prod_cases3)
  with main_body_documented [of E av st] Inr show ?thesis by (simp add: esprite_main_def)
qed (simp add: esprite_main_def)

end
