(* ===== verification/Lifetime.thy ===== *)
theory Lifetime
  imports CliMain
begin

text \<open>
  The life of the QEMU child over a whole invocation: whatever command runs, in whatever
  dialect, and however it fails, what it does in between keeps the books of the backend, so the
  guard at the end of \<^verbatim>\<open>esprite_main\<close> finds the child and the scratch directory and removes both.
\<close>

section \<open>What an operation keeps\<close>

definition qkeep :: "QemuBackend \<Rightarrow> QemuBackend \<Rightarrow> bool" where
  "qkeep q q' \<longleftrightarrow> qe_socket_dir q' = qe_socket_dir q \<and> os_dirs (qe_os q') = os_dirs (qe_os q) \<and>
     os_boots (qe_os q') = os_boots (qe_os q)"

definition active_in :: "nat \<Rightarrow> qworld \<Rightarrow> bool" where
  "active_in n w \<longleftrightarrow> (case w_active w of None \<Rightarrow> True | Some i \<Rightarrow> i < n)"

text \<open>\<open>n\<close> is the size of the registry.\<close>

definition keeps :: "nat \<Rightarrow> qworld \<Rightarrow> qworld \<Rightarrow> bool" where
  "keeps n w w' \<longleftrightarrow> (active_in n w \<longrightarrow> active_in n w' \<and> w_impl w' = w_impl w \<and>
     (if w_impl w = BACKEND_QEMU then qkeep (w_ext w) (w_ext w') else w_ext w' = w_ext w))"

named_theorems keep

lemma keeps_refl [keep]: "keeps n w w"
  by (simp add: keeps_def qkeep_def)

lemma keeps_trans: "keeps n w w' \<Longrightarrow> keeps n w' w'' \<Longrightarrow> keeps n w w''"
  by (auto simp: keeps_def qkeep_def split: if_splits)

lemma keeps_same:
  "w_ext w' = w_ext v \<Longrightarrow> w_impl w' = w_impl v \<Longrightarrow> w_active w' = w_active v \<Longrightarrow> keeps n w v \<Longrightarrow> keeps n w w'"
  by (simp add: keeps_def active_in_def)

lemma keeps_fields [keep]:
  "keeps n w w' \<Longrightarrow> keeps n w (w'\<lparr>w_input := a\<rparr>)" "keeps n w w' \<Longrightarrow> keeps n w (w'\<lparr>w_gpio := b\<rparr>)"
  "keeps n w w' \<Longrightarrow> keeps n w (w'\<lparr>w_ble := c\<rparr>)" "keeps n w w' \<Longrightarrow> keeps n w (w'\<lparr>w_lv := d\<rparr>)"
  "keeps n w w' \<Longrightarrow> keeps n w (w'\<lparr>w_wifi := e\<rparr>)" "keeps n w w' \<Longrightarrow> keeps n w (w'\<lparr>w_fb := f\<rparr>)"
  "keeps n w w' \<Longrightarrow> keeps n w (w'\<lparr>w_serial := g\<rparr>)" "keeps n w w' \<Longrightarrow> keeps n w (w'\<lparr>w_env_port := h\<rparr>)"
  "keeps n w w' \<Longrightarrow> keeps n w (w'\<lparr>w_input := a, w_gpio := b\<rparr>)"
  by (simp_all add: keeps_def active_in_def)

text \<open>
  The host is wired as \<^verbatim>\<open>qemu_backend_install\<close> leaves it, and the code compiled in with a native
  target cannot reach the backend's private object.
\<close>

definition firmware_apart :: "qworld SimTarget \<Rightarrow> bool" where
  "firmware_apart t \<longleftrightarrow> (\<forall>f w. t_setup t = Some f \<or> t_loop t = Some f \<longrightarrow>
     w_ext (f w) = w_ext w \<and> w_impl (f w) = w_impl w \<and> w_active (f w) = w_active w)"

abbreviation targets :: "(QemuBackend, 'j) host \<Rightarrow> nat" where
  "targets H \<equiv> length (s_reg (h_sim H))"

definition wired :: "qemu_lib \<Rightarrow> (QemuBackend, 'j) host \<Rightarrow> bool" where
  "wired L H \<longleftrightarrow> (\<exists>writes. s_slots (h_sim H) = qemu_backend_install L writes (s_reg (h_sim H))
       (initial_slots (s_reg (h_sim H)) (s_hooks (h_sim H)))) \<and>
     (\<forall>t \<in> set (s_reg (h_sim H)). firmware_apart t) \<and>
     (\<forall>port bytes w. w_ext (h_deliver H port bytes w) = w_ext w \<and> w_impl (h_deliver H port bytes w) = w_impl w \<and>
       w_active (h_deliver H port bytes w) = w_active w)"

lemma wired_qemu:
  assumes "wired L H" and "w_impl w = BACKEND_QEMU"
  shows "\<exists>writes. backend_of (h_sim H) w = qemu_backend L writes (s_reg (h_sim H))"
  using assms by (auto simp: wired_def sim_backend_def qemu_backend_install_def sim_backend_register_def)

lemma wired_native:
  assumes "wired L H" and "w_impl w \<noteq> BACKEND_QEMU"
  shows "backend_of (h_sim H) w = native_backend (s_reg (h_sim H)) (s_hooks (h_sim H))"
  using assms by (cases "w_impl w")
    (auto simp: wired_def sim_backend_def qemu_backend_install_def sim_backend_register_def initial_slots_def)

section \<open>The QEMU backend\<close>

lemma qkeep_refl [simp]: "qkeep q q"
  by (simp add: qkeep_def)

lemma qkeep_trans: "qkeep a b \<Longrightarrow> qkeep b c \<Longrightarrow> qkeep a c"
  by (simp add: qkeep_def)

lemma qkeep_parts [simp]:
  "qkeep q (q'\<lparr>qe_process := p\<rparr>) = qkeep q q'" "qkeep q (q'\<lparr>qe_agent := a\<rparr>) = qkeep q q'"
  "qkeep q (q'\<lparr>qe_os := (qe_os q')\<lparr>os_interrupted := i\<rparr>\<rparr>) = qkeep q q'"
  "qkeep q (q'\<lparr>qe_os := (qe_os q')\<lparr>os_dumps := d\<rparr>\<rparr>) = qkeep q q'"
  "qkeep q (q'\<lparr>qe_agent := a, qe_os := (qe_os q')\<lparr>os_agents := e\<rparr>\<rparr>) = qkeep q q'"
  by (simp_all add: qkeep_def)

lemma qe_pump_keep [simp]: "qkeep q (qe_pump q') = qkeep q q'"
  by (simp add: qe_pump_def)

lemma qe_running_keep [simp]: "qkeep q (snd (qe_running q')) = qkeep q q'"
  by (simp add: qe_running_def split_def)

lemma qe_execute_keep [simp]: "qkeep q (snd (qe_execute L c a q')) = qkeep q q'"
  by (simp add: qe_execute_def split_def)

lemma qe_interrupted_keep [simp]: "qkeep q (snd (qe_interrupted q')) = qkeep q q'"
  by (simp add: qe_interrupted_def split: list.split)

lemma qe_settle_loop_keep: "qkeep q q' \<Longrightarrow> qkeep q (snd (qe_settle_loop n q'))"
proof (induction n arbitrary: q')
  case (Suc n)
  then show ?case by (simp add: split_def)
qed simp

lemma qe_settle_keep [simp]: "qkeep q (snd (qe_settle_ms ms q))"
  using qe_settle_loop_keep [of q "qe_pump q"] by (simp add: qe_settle_ms_def)

lemma qe_read_dump_keep [simp]: "qkeep q (snd (qe_read_dump q')) = qkeep q q'"
  by (simp add: qe_read_dump_def split: list.split)

lemma qe_sync_keep [simp]: "qkeep q (fst (snd (qe_sync L (q, fb))))"
  by (simp add: qe_sync_def split_def Let_def split: sum.split option.split)

lemma qe_request_keep [simp]: "qkeep q (snd (qe_request l q')) = qkeep q q'"
  by (simp add: qe_request_def split_def)

lemma qe_agent_available_keep [simp]: "qkeep q (snd (qe_agent_available q')) = qkeep q q'"
  by (simp add: qe_agent_available_def)

lemma qe_connect_agent_keep [simp]: "qkeep q (snd (qe_connect_agent q')) = qkeep q q'"
  by (simp add: qe_connect_agent_def split_def split: list.split)

lemma ensure_agent_keep [simp]: "qkeep q (snd (ensure_agent q')) = qkeep q q'"
  by (simp add: ensure_agent_def split_def split: option.split)

lemma qe_gpio_keep [simp]: "qkeep q (snd (qe_gpio pin level q))"
  by (simp add: qe_gpio_def split_def split: option.split)

lemma qe_pulse_keep [simp]: "qkeep q (snd (qe_pulse pin level ms q))"
  by (simp add: qe_pulse_def split_def split: option.split)

lemma pump_keep: "qkeep q (fst s) \<Longrightarrow> qkeep q (fst (pump_display L s))"
  using qkeep_trans [of q "fst s"] qe_sync_keep [of "fst s" L "snd s"] by (simp add: pump_display_def)

lemma pumps_keep: "qkeep q (fst s) \<Longrightarrow> qkeep q (fst ((pump_display L ^^ n) s))"
  by (induction n) (simp_all add: pump_keep)

lemma qe_touch_keep [simp]: "qkeep q (fst (snd (qe_touch L down x y (q, fb))))"
  by (simp add: qe_touch_def split_def Let_def pump_keep split: option.split)

lemma qe_tap_keep [simp]: "qkeep q (fst (snd (qe_tap L x y ms (q, fb))))"
  by (simp add: qe_tap_def split_def Let_def pump_keep pumps_keep split: option.split)

lemma on_ext_keeps: "(\<And>q. qkeep q (snd (f q))) \<Longrightarrow> w_impl w = BACKEND_QEMU \<Longrightarrow> keeps n w (snd (on_ext f w))"
  by (simp add: on_ext_def split_def keeps_def active_in_def)

lemma on_display_keeps:
  "(\<And>q fb. qkeep q (fst (snd (f (q, fb))))) \<Longrightarrow> w_impl w = BACKEND_QEMU \<Longrightarrow> keeps n w (snd (on_display f w))"
  by (simp add: on_display_def split_def keeps_def active_in_def)

section \<open>Whichever backend runs\<close>

lemma sim_step_keep:
  assumes "wired L H"
  shows "keeps (targets H) w (sim_step (s_reg (h_sim H)) w)"
proof (cases "active_loop (s_reg (h_sim H)) w")
  case (Some f)
  show ?thesis
  proof (cases "active_in (targets H) w")
    case True
    with Some have "\<exists>t \<in> set (s_reg (h_sim H)). t_loop t = Some f"
      by (auto simp: active_loop_def active_in_def split: option.splits intro: nth_mem)
    then have "w_ext (f w) = w_ext w \<and> w_impl (f w) = w_impl w \<and> w_active (f w) = w_active w"
      using assms by (auto simp: wired_def firmware_apart_def)
    with Some show ?thesis by (simp add: sim_step_def keeps_def active_in_def)
  qed (simp add: keeps_def)
qed (simp add: sim_step_def keeps_refl)

lemma steps_keep:
  assumes "wired L H" and "keeps (targets H) w0 w"
  shows "keeps (targets H) w0 (sim_run_steps n (s_reg (h_sim H)) w)"
  by (rule run_steps_inv [where P = "keeps (targets H) w0"])
    (use assms sim_step_keep keeps_trans in blast)+

lemma settle_keep:
  assumes "wired L H" and "keeps (targets H) w0 w"
  shows "keeps (targets H) w0 (sim_settle_ms ms k (s_reg (h_sim H)) w)"
proof -
  have "keeps (targets H) w0 ((sim_step (s_reg (h_sim H)) ^^ j) w)" for j
  proof (induction j)
    case (Suc j)
    from keeps_trans [OF this sim_step_keep [OF assms(1)]] show ?case by simp
  qed (simp add: assms(2))
  moreover obtain j where "sim_settle_ms ms k (s_reg (h_sim H)) w = (sim_step (s_reg (h_sim H)) ^^ j) w"
    unfolding sim_settle_ms_def using settle_loop_steps [of "nat k" "millis (w_clock w)" ms "s_reg (h_sim H)" w] by blast
  ultimately show ?thesis by simp
qed

lemma settle50_keep: "wired L H \<Longrightarrow> keeps (targets H) w0 w \<Longrightarrow> keeps (targets H) w0 (sim_settle (s_reg (h_sim H)) w)"
  by (simp add: sim_settle_def settle_keep)

text \<open>The operations of the backend that neither boot nor shut down.\<close>

definition ops_keep :: "nat \<Rightarrow> QemuBackend backend \<Rightarrow> qworld \<Rightarrow> bool" where
  "ops_keep n be w \<longleftrightarrow> keeps n w (be_tick be w) \<and> (\<forall>ms. keeps n w (snd (be_settle_ms be ms w))) \<and>
     keeps n w (snd (be_serial_output be w)) \<and> (\<forall>d. keeps n w (snd (be_serial_inject be d w))) \<and>
     keeps n w (snd (be_sync_framebuffer be w)) \<and> (\<forall>pin l. keeps n w (snd (be_agent_gpio be pin l w))) \<and>
     (\<forall>pin l ms. keeps n w (snd (be_agent_pulse be pin l ms w))) \<and>
     (\<forall>down x y. keeps n w (snd (be_agent_touch be down x y w))) \<and>
     (\<forall>x y ms. keeps n w (snd (be_agent_tap be x y ms w))) \<and> keeps n w (snd (be_http_port be w))"

lemma ops_keep_qemu:
  assumes "w_impl w = BACKEND_QEMU"
  shows "ops_keep n (qemu_backend L writes reg) w"
proof -
  have "qkeep q (snd (qe_http q))" for q by (simp add: qe_http_def split_def)
  moreover have "keeps n w (w\<lparr>w_ext := qe_pump (w_ext w)\<rparr>)" using assms by (simp add: keeps_def active_in_def)
  ultimately show ?thesis
    by (simp add: ops_keep_def qemu_backend_def on_ext_keeps on_display_keeps assms keeps_refl)
qed

lemma ops_keep_host:
  assumes "wired L H"
  shows "ops_keep (targets H) (host_backend H w) w"
proof (cases "w_impl w = BACKEND_QEMU")
  case True
  with wired_qemu [OF assms True] ops_keep_qemu show ?thesis by metis
next
  case False
  show ?thesis unfolding wired_native [OF assms False]
    by (simp add: ops_keep_def native_backend_def steps_keep [OF assms] settle_keep [OF assms] keeps_refl keeps_fields)
qed

lemma backend_keep:
  assumes "wired L H" and "keeps (targets H) w0 w"
  shows "keeps (targets H) w0 (be_tick (host_backend H w) w)"
    and "keeps (targets H) w0 (snd (be_settle_ms (host_backend H w) ms w))"
    and "keeps (targets H) w0 (snd (be_serial_output (host_backend H w) w))"
    and "keeps (targets H) w0 (snd (be_serial_inject (host_backend H w) d w))"
    and "keeps (targets H) w0 (snd (be_sync_framebuffer (host_backend H w) w))"
    and "keeps (targets H) w0 (snd (be_agent_gpio (host_backend H w) pin level w))"
    and "keeps (targets H) w0 (snd (be_agent_pulse (host_backend H w) pin level p w))"
    and "keeps (targets H) w0 (snd (be_agent_touch (host_backend H w) down x y w))"
    and "keeps (targets H) w0 (snd (be_agent_tap (host_backend H w) x y t w))"
    and "keeps (targets H) w0 (snd (be_http_port (host_backend H w) w))"
  using keeps_trans [OF assms(2)] ops_keep_host [OF assms(1), of w] by (auto simp: ops_keep_def)

lemma deliver_keep: "wired L H \<Longrightarrow> keeps n w0 w \<Longrightarrow> keeps n w0 (h_deliver H port b w)"
  by (rule keeps_same) (auto simp: wired_def)

lemmas host_keep = backend_keep steps_keep settle50_keep deliver_keep

section \<open>The actions\<close>

lemma set_touch_keep [keep]:
  "keeps n w0 w \<Longrightarrow> keeps n w0 (Actions.set_touch p x y w)" "keeps n w0 w \<Longrightarrow> keeps n w0 (release_touch w)"
  by (simp_all add: Actions.set_touch_def release_touch_def keep)

lemma hold_keep:
  assumes "wired L H" and "keeps (targets H) w0 w"
  shows "keeps (targets H) w0 (hold_button i (h_sim H) w)" "keeps (targets H) w0 (push_pwr ev (h_sim H) w)"
    "keeps (targets H) w0 (pulse_gpio pin l (h_sim H) w)"
  using assms by (simp_all add: hold_button_def push_pwr_def pulse_gpio_def Let_def host_keep keep)

lemma apply_button_keep:
  assumes "wired L H" and "keeps (targets H) w0 w"
  shows "keeps (targets H) w0 (snd (apply_button which (h_sim H) w))"
  using assms unfolding apply_button_def Let_def
  by (simp add: split_def hold_keep host_keep if_distrib [of snd] split: option.split)

lemma waypoints_keep:
  assumes "wired L H"
  shows "keeps (targets H) w0 w \<Longrightarrow> keeps (targets H) w0 (snd (agent_waypoints ps (h_sim H) w))"
proof (induction ps arbitrary: w)
  case (Cons p ps)
  obtain x y where p: "p = (x, y)" by force
  have "keeps (targets H) w0 (snd (be_agent_touch (host_backend H w) True x y w))"
    using backend_keep [OF assms Cons.prems] by simp
  with Cons.IH show ?case by (simp add: p split_def split: option.split)
qed simp

lemma swipe_fold_keep:
  assumes "wired L H"
  shows "keeps (targets H) w0 w \<Longrightarrow> keeps (targets H) w0 (fold (\<lambda>(x, y) w.
     sim_run_steps 8 (s_reg (h_sim H)) (w\<lparr>w_input := (w_input w)\<lparr>touch_x := x, touch_y := y\<rparr>\<rparr>)) ps w)"
proof (induction ps arbitrary: w)
  case (Cons p ps)
  show ?case using Cons.IH Cons.prems by (cases p) (simp add: steps_keep [OF assms] keep)
qed simp

lemma apply_swipe_keep:
  assumes "wired L H" and "keeps (targets H) w0 w"
  shows "keeps (targets H) w0 (snd (apply_swipe x1 y1 x2 y2 (h_sim H) w))"
  using waypoints_keep [OF assms] swipe_fold_keep [OF assms(1)] assms unfolding apply_swipe_def Let_def
  by (simp add: split_def host_keep keep if_distrib [of snd] split: option.split)

lemma actions_keep:
  assumes "wired L H" and "keeps (targets H) w0 w"
  shows "keeps (targets H) w0 (snd (apply_battery pct chg vb (h_sim H) w))"
    and "keeps (targets H) w0 (snd (apply_rotate q (h_sim H) w))" "keeps (targets H) w0 (snd (apply_motion (h_sim H) w))"
    and "keeps (targets H) w0 (snd (apply_wifi st (h_sim H) w))" "keeps (targets H) w0 (snd (apply_gpio pin level (h_sim H) w))"
    and "keeps (targets H) w0 (snd (apply_tap x y (h_sim H) w))" "keeps (targets H) w0 (snd (apply_expect txt ab ex (h_sim H) w))"
    and "keeps (targets H) w0 (snd (apply_ble_connect pk (h_sim H) w))" "keeps (targets H) w0 (snd (apply_ble_pair (h_sim H) w))"
    and "keeps (targets H) w0 (snd (apply_ble_disconnect (h_sim H) w))" "keeps (targets H) w0 (snd (apply_ble_send l (h_sim H) w))"
    and "keeps (targets H) w0 (snd (apply_serial_expect rx rxa (h_sim H) w))"
  using assms
  by (simp_all add: apply_battery_def apply_rotate_def apply_motion_def apply_wifi_def apply_gpio_def apply_tap_def
      apply_expect_def apply_ble_connect_def apply_ble_pair_def apply_ble_disconnect_def apply_ble_send_def
      apply_serial_expect_def Let_def split_def host_keep keep if_distrib [of snd] split: option.split)

lemmas act_keep = apply_button_keep apply_swipe_keep actions_keep

section \<open>The dialects\<close>

abbreviation keeps_s :: "nat \<Rightarrow> qworld \<Rightarrow> QemuBackend shell \<Rightarrow> bool" where
  "keeps_s n w0 s \<equiv> keeps n w0 (sh_w s)"

lemma on_w_keep [simp]: "sh_w (snd (on_w f s)) = snd (f (sh_w s))" "sh_w (upd_w g s) = g (sh_w s)"
  by (simp_all add: split_def)

lemma png_keep [simp]: "sh_w (snd (sim_screenshot_png H path s)) = sh_w s"
  by (simp add: sim_screenshot_png_def split: option.split)

lemma post_keep:
  "wired L H \<Longrightarrow> keeps (targets H) w0 w \<Longrightarrow> keeps (targets H) w0 (snd (sim_wifi_post H path body w))"
  by (simp add: sim_wifi_post_def split_def Let_def host_keep)

lemma serial_settle_keep:
  "wired L H \<Longrightarrow> keeps (targets H) w0 w \<Longrightarrow> keeps (targets H) w0 (serial_settle H n w)"
  by (simp add: serial_settle_def host_keep)

lemma pixel_loop_keep:
  assumes "wired L H"
  shows "keeps (targets H) w0 w \<Longrightarrow> keeps (targets H) w0 (snd (pixel_loop n H q x y want w))"
proof (induction n arbitrary: w)
  case 0
  then show ?case using backend_keep(5) [OF assms 0] by (subst pixel_loop.simps) (simp add: Let_def)
next
  case (Suc n)
  then show ?case using backend_keep(5) [OF assms Suc.prems] settle50_keep [OF assms]
    by (subst pixel_loop.simps) (simp add: Let_def)
qed

lemma steps_of_scenario_keep:
  assumes "wired L H" and "keeps (targets H) w0 w"
  shows "keeps (targets H) w0 (snd (step_snapshot H d w))" "keeps (targets H) w0 (snd (step_settle H d w))"
    "keeps (targets H) w0 (snd (step_expect H q d w))" "keeps (targets H) w0 (snd (step_ble H d w))"
    "keeps (targets H) w0 (snd (step_pixel rounds H q d w))"
  using assms
  by (simp_all add: step_snapshot_def step_settle_def step_expect_def step_ble_def step_pixel_def Let_def split_def
      post_keep host_keep act_keep pixel_loop_keep if_distrib [of snd] split: bool.split)

lemma run_step_keep:
  assumes "wired L H" and "keeps_s (targets H) w0 s"
  shows "keeps_s (targets H) w0 (snd (run_step rounds H q cmd d s))"
proof -
  have "keeps_s (targets H) w0 (snd (step_screenshot H q d s))"
    using assms by (simp add: step_screenshot_def Let_def split_def host_keep split: option.split)
  with assms show ?thesis
    unfolding run_step_def Let_def
    by (simp add: if_distrib [of snd] if_distrib [of sh_w] steps_of_scenario_keep act_keep host_keep del: split_paired_All)
qed

lemma scenario_steps_keep:
  assumes "wired L H"
  shows "keeps_s (targets H) w0 s \<Longrightarrow> keeps_s (targets H) w0 (snd (scenario_steps rounds H q i ds s))"
proof (induction ds arbitrary: i s)
  case (Cons d ds)
  have "keeps_s (targets H) w0 (snd (scenario_steps rounds H q (Suc i) ds (snd (run_step rounds H q cmd d s))))" for cmd
    by (rule Cons.IH [OF run_step_keep [OF assms Cons.prems]])
  with Cons show ?case by (simp add: split_def split: option.split)
qed simp

lemma reply_keep [simp]: "snd (reply_action r ok) = snd r"
  by (simp add: reply_action_def split_def split: option.split)

lemma session_cmd_keep:
  assumes "wired L H" and "keeps_s (targets H) w0 s"
  shows "keeps_s (targets H) w0 (snd (session_cmd H cmd d s))"
proof -
  have shot: "keeps_s (targets H) w0 (snd (session_screenshot H d s))"
    using assms by (simp add: session_screenshot_def Let_def split_def host_keep split: option.split)
  have tap: "keeps_s (targets H) w0 (snd (session_tap H d s))"
    using assms by (simp add: session_tap_def Let_def split_def act_keep keep split: option.split)
  have snap: "keeps_s (targets H) w0 (snd (session_snapshot H d s))"
    using assms by (simp add: session_snapshot_def split_def post_keep host_keep split: bool.split)
  have ble: "keeps_s (targets H) w0 (snd (session_ble H d s))"
    using assms by (simp add: session_ble_def Let_def split_def act_keep keep if_distrib [of snd] if_distrib [of sh_w] split: option.split)
  have ser: "keeps_s (targets H) w0 (snd (session_serial H d s))"
    using assms by (simp add: session_serial_def Let_def split_def host_keep serial_settle_keep if_distrib [of snd] if_distrib [of sh_w] split: bool.split)
  have exp: "keeps_s (targets H) w0 (snd (session_expect H d s))"
    using assms by (simp add: session_expect_def Let_def act_keep if_distrib [of snd] if_distrib [of sh_w])
  show ?thesis
    using assms shot tap snap ble ser exp unfolding session_cmd_def Let_def
    by (simp add: split_def act_keep host_keep keep if_distrib [of snd] if_distrib [of sh_w])
qed

lemma maybe_shot_keep [simp]: "sh_w (maybe_shot H argv s) = sh_w s"
  by (simp add: maybe_shot_def split: option.split)

lemma acted_keep:
  "keeps_s n w0 (snd r) \<Longrightarrow> (\<And>s. keeps_s n w0 s \<Longrightarrow> keeps_s n w0 (snd (f s))) \<Longrightarrow> keeps_s n w0 (snd (acted r f))"
  by (simp add: acted_def split_def split: option.split)

lemma shot_ok_keep: "keeps_s n w0 s \<Longrightarrow> keeps_s n w0 (snd (shot_ok H g argv j t s))"
  by (simp add: shot_ok_def Let_def)

lemma drains_keep: "keeps_s n w0 s \<Longrightarrow> keeps_s n w0 (snd (drain_lines s))" "keeps_s n w0 s \<Longrightarrow> keeps_s n w0 (snd (drain_hid s))"
  by (simp_all add: drain_lines_def drain_hid_def split_def keep)

lemma cmd_ble_keep:
  assumes "wired L H" and "keeps_s (targets H) w0 s"
  shows "keeps_s (targets H) w0 (snd (cmd_ble H g argv s))"
proof -
  have con: "keeps_s (targets H) w0 (snd (ble_connect H g argv s))"
    unfolding ble_connect_def Let_def by (rule acted_keep) (use assms in \<open>simp_all add: act_keep\<close>)
  have send: "keeps_s (targets H) w0 (snd (ble_send H g argv s))"
    using assms unfolding ble_send_def Let_def
    by (auto intro!: acted_keep simp: act_keep split_def drains_keep)
  have plain: "keeps_s (targets H) w0 (snd (acted (lift_action f H s) (\<lambda>s. (F, s))))"
    if "keeps (targets H) w0 (snd (f (h_sim H) (sh_w s)))" for f F
    by (rule acted_keep) (simp_all add: that)
  have drain: "keeps_s (targets H) w0 (snd (acted (e, s) (\<lambda>s. case drain_lines s of (ls, s) \<Rightarrow> (F ls, s))))"
    "keeps_s (targets H) w0 (snd (acted (e, s) (\<lambda>s. case drain_hid s of (evs, s) \<Rightarrow> (G evs, s))))" for e F G
    by (rule acted_keep; use assms in \<open>simp add: split_def drains_keep\<close>)+
  show ?thesis using assms con send drain plain unfolding cmd_ble_def Let_def
    by (simp add: act_keep if_distrib [of snd] if_distrib [of sh_w])
qed

lemma run_command_keep:
  assumes "wired L H" and "keeps_s (targets H) w0 s"
  shows "keeps_s (targets H) w0 (snd (run_command H A g argv cmd s))"
proof -
  have act: "keeps_s (targets H) w0 (snd (acted (lift_action f H v) (shot_ok H g argv j t)))"
    if "keeps (targets H) w0 (snd (f (h_sim H) (sh_w v)))" for f j t v
    by (rule acted_keep) (simp_all add: that shot_ok_keep)
  have act2: "keeps_s (targets H) w0 (snd (acted (lift_action f H v) (\<lambda>s. (F, s))))"
    if "keeps (targets H) w0 (snd (f (h_sim H) (sh_w v)))" for f F v
    by (rule acted_keep) (simp_all add: that)
  have ui: "keeps_s (targets H) w0 (snd (cmd_ui A g argv s))" "keeps_s (targets H) w0 (snd (cmd_logs H g s))"
    using assms by (simp_all add: cmd_ui_def cmd_logs_def split_def Let_def keep host_keep)
  have shot: "keeps_s (targets H) w0 (snd (cmd_screenshot H g argv s))"
    using assms by (simp add: cmd_screenshot_def Let_def split_def host_keep if_distrib [of snd] if_distrib [of sh_w]
        split: option.split bool.split)
  have snap: "keeps_s (targets H) w0 (snd (cmd_snapshot H g argv s))"
    using assms by (simp add: cmd_snapshot_def Let_def split_def host_keep post_keep shot_ok_keep if_distrib [of snd] if_distrib [of sh_w]
        split: bool.split)
  have tap_at: "keeps_s (targets H) w0 (snd (tap_at H g argv e x y v))" if "keeps_s (targets H) w0 v" for e x y v
    unfolding tap_at_def by (rule act) (use assms that in \<open>simp add: act_keep\<close>)
  have tap: "keeps_s (targets H) w0 (snd (cmd_tap H g argv s))"
    using assms by (simp add: cmd_tap_def split_def tap_at keep split: option.split)
  have ser: "keeps_s (targets H) w0 (snd (cmd_serial H g argv s))"
    using assms by (simp add: cmd_serial_def Let_def split_def host_keep serial_settle_keep if_distrib [of snd] if_distrib [of sh_w]
        split: bool.split)
  have swipe: "keeps_s (targets H) w0 (snd (cmd_swipe H g argv s))"
    using assms by (auto simp: cmd_swipe_def act act_keep split: list.split option.split)
  have gpio: "keeps_s (targets H) w0 (snd (cmd_gpio H g argv s))"
    using assms by (auto simp: cmd_gpio_def Let_def act2 act_keep split: option.split)
  have others: "keeps_s (targets H) w0 (snd (cmd_button H g argv s))" "keeps_s (targets H) w0 (snd (cmd_battery H g argv s))"
    "keeps_s (targets H) w0 (snd (cmd_rotate H g argv s))" "keeps_s (targets H) w0 (snd (cmd_motion H g argv s))"
    "keeps_s (targets H) w0 (snd (cmd_wifi H g argv s))"
    using assms by (auto simp: cmd_button_def cmd_battery_def cmd_rotate_def cmd_motion_def cmd_wifi_def Let_def act act_keep
        split: option.split)
  show ?thesis
    using assms ui shot snap tap ser swipe gpio others cmd_ble_keep [OF assms] unfolding run_command_def
    by (simp add: if_distrib [of snd] if_distrib [of sh_w])
qed

section \<open>Boot and shutdown\<close>

definition boots_ok :: "QemuBackend \<Rightarrow> bool" where
  "boots_ok q \<longleftrightarrow> (\<forall>e \<in> set (os_boots (qe_os q)). bv_dir e \<noteq> Inr [])"

text \<open>At any time of an invocation, and where no child may be left.\<close>

definition lives :: "nat \<Rightarrow> qworld \<Rightarrow> bool" where
  "lives n w \<longleftrightarrow> active_in n w \<and> dirs_ok (w_ext w) \<and> boots_ok (w_ext w) \<and>
     (w_impl w \<noteq> BACKEND_QEMU \<longrightarrow> qe_idle (w_ext w))"

definition no_child :: "nat \<Rightarrow> qworld \<Rightarrow> bool" where
  "no_child n w \<longleftrightarrow> active_in n w \<and> boots_ok (w_ext w) \<and> qe_idle (w_ext w)"

lemma qe_idle_dirs: "qe_idle q \<Longrightarrow> dirs_ok q"
  by (simp add: qe_idle_def dirs_ok_def)

lemma no_child_lives: "no_child n w \<Longrightarrow> lives n w"
  by (simp add: no_child_def lives_def qe_idle_dirs)

lemma keeps_lives: "keeps n w w' \<Longrightarrow> lives n w \<Longrightarrow> lives n w'"
  by (auto simp: keeps_def lives_def qkeep_def dirs_ok_def boots_ok_def split: if_splits)

lemma no_child_select [simp]: "no_child n (sim_backend_select reg slots t w) = no_child n w"
  by (simp add: no_child_def sim_backend_select_def active_in_def Let_def)

lemma qe_shutdown_boots [simp]: "os_boots (qe_os (qe_shutdown L q)) = os_boots (qe_os q)"
  by (simp add: qe_shutdown_def cleanup_dir_def qe_stop_def)

lemma cleanup_boots [simp]: "os_boots (qe_os (cleanup_dir q)) = os_boots (qe_os q)"
  by (simp add: cleanup_dir_def)

lemma qe_stop_boots [simp]: "os_boots (qe_os (qe_stop L q)) = os_boots (qe_os q)"
  by (simp add: qe_stop_def)

lemma qkeep_boots: "qkeep q q' \<Longrightarrow> os_boots (qe_os q') = os_boots (qe_os q)"
  by (simp add: qkeep_def)

lemma qe_prepare_boots: "os_boots (qe_os (snd (qe_prepare m bin img e q))) = os_boots (qe_os q)"
  by (simp add: qe_prepare_def Let_def split: sum.split)

lemma qe_confirm_boots: "os_boots (qe_os (snd (qe_confirm L q))) = os_boots (qe_os q)"
proof -
  obtain i q1 where i: "qe_interrupted q = (i, q1)" by force
  obtain r q2 where x: "qe_execute L ''query-status'' [] q1 = (r, q2)" by force
  obtain ok q3 where o: "qe_settle_ms kBootSettleMs q2 = (ok, q3)" by force
  have "qkeep q q1" "qkeep q q2" "qkeep q2 q3"
    using qe_interrupted_keep [of q q] qe_execute_keep [of q L "''query-status''" "[]" q1] qe_settle_keep [of q2 kBootSettleMs] i x o
    by simp_all
  then have "os_boots (qe_os q1) = os_boots (qe_os q)" "os_boots (qe_os q2) = os_boots (qe_os q)" "os_boots (qe_os q3) = os_boots (qe_os q)"
    by (simp_all add: qkeep_def)
  then show ?thesis unfolding qe_confirm_def i prod.case x o
    by (simp split: sum.split option.split)
qed

lemma qe_boot_boots:
  assumes "boots_ok q"
  shows "boots_ok (snd (qe_boot L ms q))"
proof -
  let ?q = "qe_shutdown L q"
  have ok: "boots_ok ?q" using assms by (simp add: boots_ok_def)
  show ?thesis
  proof (cases "\<exists>m bin img e es. ms = Some m \<and> resolve_qemu_bin (m_arch m) ?q = Inr bin \<and> resolve_image ?q = Inr img
      \<and> os_boots (qe_os ?q) = e # es")
    case False
    with ok show ?thesis by (auto simp: qe_boot_def Let_def split: option.split sum.split list.split)
  next
    case True
    then obtain m bin img e es where r: "ms = Some m" "resolve_qemu_bin (m_arch m) ?q = Inr bin" "resolve_image ?q = Inr img"
      "os_boots (qe_os ?q) = e # es" by blast
    let ?q1 = "?q\<lparr>qe_os := (qe_os ?q)\<lparr>os_boots := es\<rparr>\<rparr>"
    obtain p q2 where p: "qe_prepare m bin img e ?q1 = (p, q2)" by force
    have q2: "os_boots (qe_os q2) = es" using qe_prepare_boots [of m bin img e ?q1] p by simp
    have "os_boots (qe_os (snd (qe_boot L ms q))) = es"
      using q2 qe_confirm_boots unfolding qe_boot_def r Let_def option.case sum.case list.case p
      by (simp add: r(1-4) p split_def split: sum.split option.split)
    with ok r(4) show ?thesis by (simp add: boots_ok_def)
  qed
qed

lemma fold_hooks_frame:
  "w_ext (fold run_hook hooks w) = w_ext w \<and> w_impl (fold run_hook hooks w) = w_impl w \<and>
   w_active (fold run_hook hooks w) = w_active w"
proof (induction hooks arbitrary: w)
  case (Cons h hooks)
  then show ?case by (cases h) (simp_all add: split_def Let_def)
qed simp

lemma boot_state_frame:
  "w_ext (boot_state reg hooks i w) = w_ext w" "w_impl (boot_state reg hooks i w) = w_impl w"
  "w_active (boot_state reg hooks i w) = Some i"
  using fold_hooks_frame [of hooks "w\<lparr>w_active := Some i\<rparr>"] by (simp_all add: boot_state_def Let_def split: option.split)

lemma boot_lives:
  assumes "wired L H" and "no_child (targets H) w" and "i < targets H"
    and "be_boot (host_backend H w) (Some i) w = (e, w')"
  shows "if e = None then lives (targets H) w' else no_child (targets H) w'"
proof (cases "w_impl w = BACKEND_QEMU")
  case True
  obtain writes where b: "host_backend H w = qemu_backend L writes (s_reg (h_sim H))"
    using wired_qemu [OF assms(1) True] by blast
  obtain q' where q: "qe_boot L (t_qemu (s_reg (h_sim H) ! i)) (w_ext w) = (e, q')" and w': "w_ext w' = q'" "w_impl w' = w_impl w"
    "active_in (targets H) w'"
    using assms(2,3,4) by (auto simp: b qemu_backend_def qemu_boot_def on_ext_def sim_set_active_target_def active_in_def no_child_def
        split: prod.splits option.splits)
  have d: "dirs_ok (w_ext w)" "boots_ok (w_ext w)" using assms(2) by (simp_all add: no_child_def qe_idle_dirs)
  have "boots_ok q'" using qe_boot_boots [OF d(2), of L "t_qemu (s_reg (h_sim H) ! i)"] q by simp
  with qe_boot_result [OF q d(1) d(2) [unfolded boots_ok_def]] w' True show ?thesis
    by (auto simp: lives_def no_child_def)
next
  case False
  note n = wired_native [OF assms(1) False]
  obtain ok w1 where sb: "sim_boot (s_reg (h_sim H)) (s_hooks (h_sim H)) (t_key (s_reg (h_sim H) ! i)) w = (ok, w1)" by force
  have base: "lives (targets H) w \<and> no_child (targets H) w" using no_child_lives assms(2) by blast
  show ?thesis
  proof (cases ok)
    case False
    with sim_boot_unknown [of "s_reg (h_sim H)" "s_hooks (h_sim H)" "t_key (s_reg (h_sim H) ! i)" w] sb have "w1 = w" by simp
    with False sb assms(4) base show ?thesis by (auto simp: n native_backend_def native_boot_def)
  next
    case True
    with sb obtain j where j: "sim_target (t_key (s_reg (h_sim H) ! i)) (s_reg (h_sim H)) = Some j"
      and w1: "w1 = (case t_setup (s_reg (h_sim H) ! j) of None \<Rightarrow> boot_state (s_reg (h_sim H)) (s_hooks (h_sim H)) j w
        | Some f \<Rightarrow> f (boot_state (s_reg (h_sim H)) (s_hooks (h_sim H)) j w))"
      by (auto simp: sim_boot_def Let_def split: option.splits)
    have jn: "j < targets H" using sim_target_Some [OF j] by simp
    then have "firmware_apart (s_reg (h_sim H) ! j)" using assms(1) by (simp add: wired_def)
    then have w1f: "w_ext w1 = w_ext w \<and> w_impl w1 = w_impl w \<and> w_active w1 = Some j"
      unfolding w1 by (auto simp: boot_state_frame firmware_apart_def split: option.split)
    have "lives (targets H) w1" using base w1f jn by (auto simp: lives_def no_child_def active_in_def qe_idle_dirs)
    moreover have "e = None" "w' = sim_run_steps WARMUP_STEPS (s_reg (h_sim H)) w1"
      using assms(4) sb True by (auto simp: n native_backend_def native_boot_def)
    ultimately show ?thesis
      using keeps_lives [OF steps_keep [OF assms(1) keeps_refl]] by simp
  qed
qed

lemma shutdown_lives:
  assumes "wired L H" and "lives (targets H) w"
  shows "no_child (targets H) (be_shutdown (host_backend H w) w)"
proof (cases "w_impl w = BACKEND_QEMU")
  case True
  obtain writes where b: "host_backend H w = qemu_backend L writes (s_reg (h_sim H))"
    using wired_qemu [OF assms(1) True] by blast
  have "qe_idle (qe_shutdown L (w_ext w))" using assms(2) by (intro qe_shutdown_idle) (simp add: lives_def)
  with assms(2) show ?thesis by (simp add: b qemu_backend_def no_child_def lives_def active_in_def boots_ok_def)
next
  case False
  with assms(2) show ?thesis by (simp add: wired_native [OF assms(1)] native_backend_def no_child_def lives_def)
qed

text \<open>Selecting and booting the target found in the registry.\<close>

lemma select_boot_lives:
  assumes "wired L H" and "no_child (targets H) (sh_w s)" and "sim_target key (s_reg (h_sim H)) = Some i"
    and "on_w (\<lambda>w. be_boot (host_backend H w) (Some i) w) (upd_w (sim_backend_select reg slots (Some i)) s) = (e, s')"
  shows "if e = None then lives (targets H) (sh_w s') else no_child (targets H) (sh_w s')"
proof -
  have "i < targets H" using sim_target_Some [OF assms(3)] by simp
  moreover have "no_child (targets H) (sim_backend_select reg slots (Some i) (sh_w s))" using assms(2) by simp
  moreover have "be_boot (host_backend H (sim_backend_select reg slots (Some i) (sh_w s))) (Some i)
      (sim_backend_select reg slots (Some i) (sh_w s)) = (e, sh_w s')"
    using assms(4) by (auto split: prod.splits)
  ultimately show ?thesis using boot_lives [OF assms(1)] by blast
qed

section \<open>The life of an invocation\<close>

definition session_ok :: "nat \<Rightarrow> QemuBackend session \<Rightarrow> bool" where
  "session_ok n st \<longleftrightarrow> lives n (sh_w (se_shell st)) \<and> (\<not> se_booted st \<longrightarrow> no_child n (sh_w (se_shell st)))"

lemma session_exec_ok:
  assumes "wired L H" and "session_ok (targets H) st"
  shows "session_ok (targets H) (snd (session_exec H dflt d st))"
proof -
  obtain r s' where c: "session_cmd H (step_str H d ''cmd'' []) d (se_shell st) = (r, s')" by force
  have cmd: "session_ok (targets H) (st\<lparr>se_shell := s'\<rparr>)" if "se_booted st"
    using session_cmd_keep [OF assms(1) keeps_refl, where s = "se_shell st" and cmd = "step_str H d ''cmd'' []" and d = d]
      keeps_lives assms(2) that by (auto simp: session_ok_def c)
  have boot: "session_ok (targets H) (snd (session_boot H dflt d st))"
  proof (cases "se_booted st")
    case False
    let ?t = "if step_str H d ''target'' [] = [] then or_else dflt [] else step_str H d ''target'' []"
    have nc: "no_child (targets H) (sh_w (se_shell st))" using assms(2) False by (simp add: session_ok_def)
    show ?thesis
    proof (cases "sim_target ?t (s_reg (h_sim H))")
      case None
      with False nc no_child_lives show ?thesis by (auto simp: session_boot_def Let_def session_ok_def)
    next
      case (Some i)
      obtain e s1 where b: "on_w (\<lambda>w. be_boot (host_backend H w) (Some i) w)
          (upd_w (sim_backend_select (s_reg (h_sim H)) (s_slots (h_sim H)) (Some i)) (se_shell st)) = (e, s1)" by (metis prod.exhaust)
      from select_boot_lives [OF assms(1) nc Some b] no_child_lives
      have "if e = None then lives (targets H) (sh_w s1) else no_child (targets H) (sh_w s1) \<and> lives (targets H) (sh_w s1)" by auto
      with False show ?thesis unfolding session_boot_def Let_def Some option.case b
        by (cases e) (simp_all add: session_ok_def)
    qed
  qed (use assms(2) in \<open>simp add: session_boot_def\<close>)
  show ?thesis using assms(2) boot cmd c by (auto simp: session_exec_def Let_def split_def)
qed

lemma session_line_ok:
  "wired L H \<Longrightarrow> session_ok (targets H) st \<Longrightarrow> session_ok (targets H) (fst (snd (session_line H dflt got st)))"
  using session_exec_ok by (auto simp: session_line_def split_def split: option.split)

lemma session_loop_ok:
  assumes "wired L H"
  shows "session_ok (targets H) st \<Longrightarrow> session_ok (targets H) (fst (snd (snd (session_loop gs H dflt inp st))))"
proof (induction gs arbitrary: inp st)
  case (Cons g gs)
  have "session_ok (targets H) (fst (snd (session_line H dflt got st)))" for got
    by (rule session_line_ok [OF assms Cons.prems])
  with Cons show ?case by (auto simp: split_def split: option.split)
qed simp

lemma daemon_lives:
  assumes "wired L H" and "no_child (targets H) (sh_w s)"
  shows "no_child (targets H) (sh_w (snd (esprite_daemon gs H dflt inp s)))"
proof -
  let ?st = "\<lparr>se_shell = s, se_booted = False, se_qemu = False\<rparr>"
  have "session_ok (targets H) ?st" using assms(2) no_child_lives by (simp add: session_ok_def)
  from session_loop_ok [OF assms(1) this, of gs dflt inp] shutdown_lives [OF assms(1)]
  show ?thesis by (simp add: esprite_daemon_def split_def session_ok_def)
qed

lemma one_shot_lives:
  assumes "wired L H" and "no_child (targets H) (sh_w s)"
  shows "lives (targets H) (sh_w (snd (one_shot H A g argv cmd s)))"
proof -
  have base: "lives (targets H) (sh_w s)" by (rule no_child_lives [OF assms(2)])
  obtain r s' where b: "boot_or_die H argv s = (r, s')" by force
  have s': "lives (targets H) (sh_w s')"
  proof (cases "resolve_target argv (s_reg (h_sim H)) = [] \<or> sim_target (resolve_target argv (s_reg (h_sim H))) (s_reg (h_sim H)) = None")
    case True
    with b base show ?thesis by (auto simp: boot_or_die_def Let_def split: if_splits)
  next
    case False
    then obtain i where i: "sim_target (resolve_target argv (s_reg (h_sim H))) (s_reg (h_sim H)) = Some i" by auto
    obtain e s1 where bt: "on_w (\<lambda>w. be_boot (host_backend H w) (Some i) w)
        (upd_w (sim_backend_select (s_reg (h_sim H)) (s_slots (h_sim H)) (Some i)) s) = (e, s1)" by (metis prod.exhaust)
    have "s' = s1" using b False unfolding boot_or_die_def Let_def i option.case bt by (cases e) simp_all
    with select_boot_lives [OF assms i bt] no_child_lives show ?thesis by (cases e) auto
  qed
  have "lives (targets H) (sh_w (snd (run_command H A g argv cmd s')))"
    using keeps_lives [OF run_command_keep [OF assms(1) keeps_refl] s'] by simp
  with base s' b show ?thesis by (auto simp: one_shot_def split_def split: option.split prod.split)
qed

lemma scenario_lives:
  assumes "wired L H" and "no_child (targets H) (sh_w s)"
  shows "lives (targets H) (sh_w (snd (scenario_run rounds H path content dflt s)))"
proof -
  have base: "lives (targets H) (sh_w s)" by (rule no_child_lives [OF assms(2)])
  have scen_end: "lives (targets H) (sh_w s2)"
    if "sim_target t (s_reg (h_sim H)) = Some i" and "on_w (\<lambda>w. be_boot (host_backend H w) (Some i) w)
        (upd_w (sim_backend_select (s_reg (h_sim H)) (s_slots (h_sim H)) (Some i)) s) = (e, s1)"
      and "s2 = s1 \<or> s2 = snd (scenario_steps rounds H q k ds s1)" for t i e s1 s2 q k ds
  proof -
    have "lives (targets H) (sh_w s1)" using select_boot_lives [OF assms that(1,2)] no_child_lives by (cases e) auto
    with that(3) keeps_lives [OF scenario_steps_keep [OF assms(1) keeps_refl]] show ?thesis by auto
  qed
  show ?thesis
  proof (cases "\<exists>body doc i. content = Some body \<and> js_parse (h_json H) body = Some doc \<and>
      sim_target (step_str H doc ''target'' dflt) (s_reg (h_sim H)) = Some i")
    case False
    with base show ?thesis by (auto simp: scenario_run_def Let_def split: option.split)
  next
    case True
    then obtain body doc i where c: "content = Some body" "js_parse (h_json H) body = Some doc"
      "sim_target (step_str H doc ''target'' dflt) (s_reg (h_sim H)) = Some i" by blast
    obtain e s1 where bt: "on_w (\<lambda>w. be_boot (host_backend H w) (Some i) w)
        (upd_w (sim_backend_select (s_reg (h_sim H)) (s_slots (h_sim H)) (Some i)) s) = (e, s1)" by (metis prod.exhaust)
    have "lives (targets H) (sh_w s1)" "lives (targets H) (sh_w (snd (scenario_steps rounds H q k ds s1)))" for q k ds
      using scen_end [OF c(3) bt] by blast+
    then show ?thesis unfolding scenario_run_def Let_def c option.case bt
      by (cases e) (simp_all add: split_def)
  qed
qed

lemma cmd_scenario_lives:
  "wired L H \<Longrightarrow> no_child (targets H) (sh_w s) \<Longrightarrow> lives (targets H) (sh_w (snd (cmd_scenario rounds H g files argv s)))"
  using scenario_lives no_child_lives by (auto simp: cmd_scenario_def Let_def split_def)

lemma serve_step_lives:
  assumes "wired L H" and "lives (targets H) (sh_w (lv_shell v))"
  shows "lives (targets H) (sh_w (lv_shell (snd (serve_step H qd shot interval r v))))"
proof -
  define n where "n = targets H"
  have sync: "lives n (sh_w (sync_now H s))" if "lives n (sh_w s)" for s
    using keeps_lives [OF backend_keep(5) [OF assms(1) keeps_refl]] that by (simp add: sync_now_def n_def split_def)
  have field: "lives n (w\<lparr>w_ble := b\<rparr>) = lives n w" "lives n (w\<lparr>w_input := i, w_gpio := g\<rparr>) = lives n w" for w b i g
    by (simp_all add: lives_def active_in_def)
  have shot_r: "lives n (sh_w (lv_shell (shot_round H shot interval r v)))" if "lives n (sh_w (lv_shell v))" for v
    using sync that by (simp add: shot_round_def Let_def split: option.split)
  have win: "lives n (sh_w (lv_shell (snd (window_round H qd r w v))))" if "lives n (sh_w (lv_shell v))" for w v
    using sync that by (simp add: window_round_def Let_def split_def field)
  have br: "lives n (sh_w (lv_shell (bridge_round r v)))" if "lives n (sh_w (lv_shell v))" for v
    using that by (simp add: bridge_round_def split_def field split: option.split)
  have tick: "lives n (be_tick (host_backend H (sh_w (lv_shell v))) (sh_w (lv_shell v)))"
    using keeps_lives [OF backend_keep(1) [OF assms(1) keeps_refl]] assms(2) by (simp add: n_def)
  let ?v = "bridge_round r (v\<lparr>lv_shell := upd_w (\<lambda>w. be_tick (host_backend H w) w) (lv_shell v)\<rparr>)"
  have "lives n (sh_w (lv_shell ?v))" by (rule br) (simp add: tick)
  then show ?thesis using win shot_r
    by (auto simp: serve_step_def Let_def split_def n_def [symmetric] split: option.split)
qed

lemma serve_loop_lives:
  assumes "wired L H"
  shows "lives (targets H) (sh_w (lv_shell v)) \<Longrightarrow> lives (targets H) (sh_w (lv_shell (serve_loop H qd shot interval rs v)))"
proof (induction rs arbitrary: v)
  case (Cons r rs)
  with serve_step_lives [OF assms Cons.prems] show ?case by (simp add: split_def)
qed simp

lemma serve_target_lives:
  assumes "wired L H" and "lives (targets H) (sh_w s)"
  shows "lives (targets H) (sh_w (snd (serve_target E H argv t s)))"
proof -
  have field: "lives n (w\<lparr>w_fb := f\<rparr>) = lives n w" "lives n (w\<lparr>w_ble := b\<rparr>) = lives n w" for n w f b
    by (simp_all add: lives_def active_in_def)
  have size: "lives (targets H) (sh_w (size_display H t s))"
    using assms(2) keeps_lives [OF backend_keep(5) [OF assms(1) keeps_refl]]
    by (simp add: size_display_def sync_now_def Let_def split_def field split: option.split)
  define s1 where "s1 = (if has_display t then size_display H t s else s)"
  define s2 where "s2 = (if t_backend t = BACKEND_QEMU then snd (on_w (\<lambda>w. be_http_port (host_backend H w) w) s1)
      else (case opt_val argv ''--shot'' of None \<Rightarrow> s1 | Some path \<Rightarrow> snd (sim_screenshot_png H path s1)))"
  have l1: "lives (targets H) (sh_w s1)" using size assms(2) by (simp add: s1_def)
  have "lives (targets H) (snd (be_http_port (host_backend H (sh_w s1)) (sh_w s1)))"
    by (rule keeps_lives [OF backend_keep(10) [OF assms(1) keeps_refl] l1])
  with l1 have l2: "lives (targets H) (sh_w s2)" unfolding s2_def by (simp split: option.split)
  show ?thesis
    using assms(2) l2 serve_loop_lives [OF assms(1)]
    unfolding serve_target_def Let_def s1_def [symmetric] s2_def [symmetric]
    by (auto simp: close_bridge_def field split: sum.split option.split)
qed

lemma cmd_serve_lives:
  assumes "wired L H" and "no_child (targets H) (sh_w s)"
  shows "lives (targets H) (sh_w (snd (cmd_serve E H argv s)))"
proof -
  define s1 where "s1 = (case opt_val argv ''--port'' of None \<Rightarrow> s | Some p \<Rightarrow> upd_w (\<lambda>w. w\<lparr>w_env_port := Some p\<rparr>) s)"
  have nc: "no_child (targets H) (sh_w s1)"
    by (cases "opt_val argv ''--port''"; use assms(2) in \<open>simp add: s1_def no_child_def active_in_def\<close>)
  note base = no_child_lives [OF nc]
  define key where "key = resolve_target argv (s_reg (h_sim H))"
  show ?thesis
  proof (cases "\<exists>i. key \<noteq> [] \<and> sim_target key (s_reg (h_sim H)) = Some i \<and> serve_refused argv key (s_reg (h_sim H) ! i) = None")
    case False
    with base show ?thesis unfolding cmd_serve_def Let_def s1_def [symmetric] key_def [symmetric]
      by (auto split: option.split)
  next
    case True
    then obtain i where i: "key \<noteq> []" "sim_target key (s_reg (h_sim H)) = Some i" "serve_refused argv key (s_reg (h_sim H) ! i) = None"
      by blast
    obtain e s2 where bt: "on_w (\<lambda>w. be_boot (host_backend H w) (Some i) w)
        (upd_w (sim_backend_select (s_reg (h_sim H)) (s_slots (h_sim H)) (Some i)) s1) = (e, s2)" by (metis prod.exhaust)
    have l: "lives (targets H) (sh_w s2)"
      using select_boot_lives [OF assms(1) nc i(2) bt] no_child_lives by (cases e) auto
    then show ?thesis unfolding cmd_serve_def Let_def s1_def [symmetric] key_def [symmetric] i option.case bt
      using i(1) serve_target_lives [OF assms(1) l] by (cases e) simp_all
  qed
qed

lemma dispatch_lives:
  assumes "wired L H" and "no_child (targets H) (sh_w s)"
  shows "lives (targets H) (sh_w (snd (dispatch E H argv cmd s)))"
proof -
  have "lives (targets H) (sh_w (snd (esprite_daemon gs H dflt inp s)))" for gs dflt inp
    by (rule no_child_lives [OF daemon_lives [OF assms]])
  with no_child_lives [OF assms(2)] show ?thesis
    unfolding dispatch_def Let_def
    by (simp add: split_def cmd_serve_lives [OF assms] cmd_scenario_lives [OF assms] one_shot_lives [OF assms])
qed

text \<open>Registering boards adds targets whose code runs in the child only.\<close>

lemma board_target_apart [simp]: "firmware_apart (board_target s)"
  by (simp add: firmware_apart_def board_target_def)

definition grown :: "qworld registry \<Rightarrow> qworld registry \<Rightarrow> bool" where
  "grown reg reg' \<longleftrightarrow> (\<exists>bs. reg' = reg @ map board_target bs)"

lemma grown_refl [simp]: "grown reg reg"
  unfolding grown_def by (rule exI [of _ "[]"]) simp

lemma grown_trans: "grown a b \<Longrightarrow> grown b c \<Longrightarrow> grown a c"
  unfolding grown_def by (metis append.assoc map_append)

lemma register_grown: "grown reg (snd (qemu_board_register s reg))"
proof -
  have "grown reg (reg @ [board_target s])" unfolding grown_def by (rule exI [of _ "[s]"]) simp
  then show ?thesis by (simp add: qemu_board_register_def sim_register_target_def)
qed

lemma install_list_grown: "grown reg (snd (install_list parse js reg))"
proof (induction js arbitrary: reg)
  case (Cons j js)
  show ?case
  proof (cases "qemu_board_parse parse j")
    case (Inr s)
    obtain m reg1 where r: "qemu_board_register s reg = (m, reg1)" by force
    with register_grown [of reg s] have "grown reg reg1" by simp
    with Inr r Cons [of reg1] grown_trans show ?thesis by (cases m) auto
  qed simp
qed simp

lemma install_boards_grown:
  assumes "install_qemu_boards_gated parse bs gate env b = (m, b')"
  shows "grown (bo_reg b) (bo_reg b')"
proof -
  have builtin: "grown (bo_reg b) (bo_reg (snd (qemu_builtin_boards_install parse bs b)))" for b :: "qworld boards"
  proof -
    obtain m reg where r: "install_list parse bs (bo_reg b) = (m, reg)" by force
    with install_list_grown [of "bo_reg b" parse bs] show ?thesis
      by (cases m) (simp_all add: qemu_builtin_boards_install_def)
  qed
  have env: "grown (bo_reg b) (bo_reg (snd (qemu_env_board_install parse env b)))" for b :: "qworld boards"
  proof (cases env)
    case (Some p)
    obtain path content where p: "p = (path, content)" by force
    obtain m reg where r: "qemu_board_register_file parse path content (bo_reg b) = (m, reg)" by force
    have "grown (bo_reg b) (snd (qemu_board_register_file parse path content (bo_reg b)))"
      using register_grown by (simp add: qemu_board_register_file_def split: option.split sum.split)
    with Some p r show ?thesis by (cases m) (simp_all add: qemu_env_board_install_def)
  qed (simp add: qemu_env_board_install_def)
  obtain m1 b1 where one: "(if gate = Some ''0'' then (None, b) else qemu_builtin_boards_install parse bs b) = (m1, b1)" by force
  have g1: "grown (bo_reg b) (bo_reg b1)" using builtin [of b] one by (cases "gate = Some ''0''") auto
  show ?thesis
  proof (cases m1)
    case None
    with assms one have "b' = snd (qemu_env_board_install parse env b1)" by (simp add: install_qemu_boards_gated_def)
    with grown_trans [OF g1 env] show ?thesis by simp
  next
    case (Some x)
    with assms one g1 show ?thesis by (simp add: install_qemu_boards_gated_def)
  qed
qed

section \<open>Properties\<close>

text \<open>
  The environment is wired as \<^verbatim>\<open>esprite_main\<close> wires it: the host works on the registry, the QEMU
  backend stands in its slot, and what a peer sends cannot reach the backend's object.
\<close>

definition env_wired :: "qemu_lib \<Rightarrow> (QemuBackend, 'j) cli_env \<Rightarrow> bool" where
  "env_wired L E \<longleftrightarrow> (\<forall>reg. s_reg (h_sim (ce_host E reg)) = reg \<and>
     (\<exists>writes. s_slots (h_sim (ce_host E reg)) =
        qemu_backend_install L writes reg (initial_slots reg (s_hooks (h_sim (ce_host E reg))))) \<and>
     (\<forall>port bytes w. w_ext (h_deliver (ce_host E reg) port bytes w) = w_ext w \<and>
        w_impl (h_deliver (ce_host E reg) port bytes w) = w_impl w \<and>
        w_active (h_deliver (ce_host E reg) port bytes w) = w_active w))"

text \<open>The process before an invocation: no child, and native firmware in the registry.\<close>

definition cli_ready :: "qworld boards \<times> QemuBackend shell \<Rightarrow> bool" where
  "cli_ready = (\<lambda>(b, s). no_child (length (bo_reg b)) (sh_w s) \<and> (\<forall>t \<in> set (bo_reg b). firmware_apart t))"

lemma env_wired_host:
  assumes "env_wired L E" and "\<forall>t \<in> set reg. firmware_apart t"
  shows "wired L (ce_host E reg)" and "targets (ce_host E reg) = length reg"
  using assms unfolding env_wired_def wired_def by metis+

lemma no_child_mono: "no_child n w \<Longrightarrow> n \<le> m \<Longrightarrow> no_child m w"
  by (auto simp: no_child_def active_in_def split: option.splits)

lemma main_body_lives:
  assumes "env_wired L E" and "cli_ready (b, s)" and "main_body E argv (b, s) = (r, b', s')"
  shows "lives (length (bo_reg b')) (sh_w s') \<and> (\<forall>t \<in> set (bo_reg b'). firmware_apart t)"
proof -
  have base: "lives (length (bo_reg b)) (sh_w s) \<and> (\<forall>t \<in> set (bo_reg b). firmware_apart t)"
    using assms(2) no_child_lives by (auto simp: cli_ready_def)
  obtain m b1 where i: "install_qemu_boards_gated (ce_parse E) (ce_builtins E) (ce_gate E) (ce_board E) b = (m, b1)" by force
  have g: "grown (bo_reg b) (bo_reg b1)" by (rule install_boards_grown [OF i])
  then have apart: "\<forall>t \<in> set (bo_reg b1). firmware_apart t" and len: "length (bo_reg b) \<le> length (bo_reg b1)"
    using base by (auto simp: grown_def)
  have nc: "no_child (length (bo_reg b1)) (sh_w s)" using assms(2) no_child_mono [OF _ len] by (simp add: cli_ready_def)
  let ?H = "ce_host E (bo_reg b1)"
  obtain r2 s2 where d: "dispatch E ?H argv (argv ! 1) s = (r2, s2)" by (metis prod.exhaust)
  have "lives (length (bo_reg b1)) (sh_w s2)"
    using dispatch_lives [OF env_wired_host(1) [OF assms(1) apart], of s E argv "argv ! 1"] nc
      env_wired_host(2) [OF assms(1) apart] d by simp
  with assms(3) base i d apart no_child_lives [OF nc] show ?thesis
    by (auto simp: main_body_def Let_def split: if_splits option.splits)
qed


text \<open>A run on a QEMU board whose child starts, reports and prints a log.\<close>

definition demo_env :: "(QemuBackend, unit) cli_env" where
  "demo_env = \<lparr>ce_host = (\<lambda>reg. \<lparr>h_sim = \<lparr>s_reg = reg, s_hooks = [],
       s_slots = qemu_backend_install demo_lib (\<lambda>_ _. []) reg (initial_slots reg []), s_rx_valid = (\<lambda>_. True), s_rx_search = (\<lambda>_ _. False)\<rparr>,
       h_json = h_json demo_host, h_png_ok = (\<lambda>_. True), h_connect = (\<lambda>_ _. False), h_sends = (\<lambda>_ _. []), h_deliver = (\<lambda>_ _ w. w)\<rparr>),
     ce_json = \<lparr>ja_read = \<lambda>_. [], ja_write = \<lambda>_. []\<rparr>, ce_parse = (\<lambda>_. Some demo_doc), ce_builtins = [[]], ce_gate = None, ce_board = None,
     ce_tty = False, ce_version = ''dev'', ce_schema = ''{}'', ce_files = (\<lambda>_. None), ce_polls = (\<lambda>_ _. 0), ce_goes = [], ce_stdin = [],
     ce_sdl = False, ce_listen = (False, None), ce_serve = [], ce_start = 0\<rparr>"

lemma demo_env_boots:
  "fst (fst (esprite_main demo_env [''esprite'', ''logs'', ''--target'', ''c3''] (\<lparr>bo_reg = [], bo_builtin_done = False, bo_env_done = False\<rparr>,
     \<lparr>sh_w = demo_qworld [demo_boot_env QemuBackend.demo_session], sh_png = []\<rparr>))) = 0"
  by code_simp


end
