(* ===== verification/Signals.thy ===== *)
theory Signals
  imports Main
begin

text \<open>
  Signals and the wait of the session loop (\<^verbatim>\<open>cli/cli.cpp\<close>): the flag and the self-pipe that
  \<^verbatim>\<open>SIGINT\<close> and \<^verbatim>\<open>SIGTERM\<close> set, and \<^verbatim>\<open>daemon_wait_input\<close>, which waits for a command line and must
  not sleep through either of them. A signal runs its handler between any two steps of the wait;
  only while the thread is inside \<^verbatim>\<open>poll\<close> does it also end that call with \<^verbatim>\<open>EINTR\<close>. The capacity of
  the pipe is a parameter \<open>cap\<close>.
\<close>

section \<open>The flag and the pipe\<close>

record signals =
  sg_interrupted :: bool                \<comment> \<open>\<^verbatim>\<open>g_interrupted\<close>\<close>
  sg_pipe :: "string option"            \<comment> \<open>bytes in \<^verbatim>\<open>g_sigpipe\<close>; \<^const>\<open>None\<close> while it does not exist\<close>

text \<open>\<^verbatim>\<open>pipe(2)\<close> may fail (\<open>ok\<close>); a pipe that exists is kept.\<close>

definition install_signal_handlers :: "bool \<Rightarrow> signals \<Rightarrow> signals" where
  "install_signal_handlers ok s = (if sg_pipe s = None \<and> ok then s\<lparr>sg_pipe := Some []\<rparr> else s)"

definition on_signal :: "nat \<Rightarrow> signals \<Rightarrow> signals" where
  "on_signal cap s =
     (let s = s\<lparr>sg_interrupted := True\<rparr>
      in case sg_pipe s of
           None \<Rightarrow> s
         | Some q \<Rightarrow> if length q < cap then s\<lparr>sg_pipe := Some (q @ ''x'')\<rparr> else s)"

text \<open>The reads of \<^verbatim>\<open>drain_sigpipe\<close>, sixteen bytes at a time until nothing is left.\<close>

fun drain_bytes :: "string \<Rightarrow> string" where
  "drain_bytes [] = []"
| "drain_bytes (c # q) = drain_bytes (drop 15 q)"

definition drain_sigpipe :: "signals \<Rightarrow> signals" where
  "drain_sigpipe s = s\<lparr>sg_pipe := map_option drain_bytes (sg_pipe s)\<rparr>"

section \<open>The wait\<close>

datatype wait_pc =
    Checking            \<comment> \<open>the top of the loop, before \<^verbatim>\<open>sim_interrupted()\<close>\<close>
  | Arming              \<comment> \<open>the flag was clear and \<^verbatim>\<open>poll\<close> is not yet entered\<close>
  | Polling
  | Returned bool

record waiting =
  wt_pc :: wait_pc
  wt_sig :: signals
  wt_ready :: bool      \<comment> \<open>the input has bytes, or is closed\<close>

text \<open>
  The next step of \<^verbatim>\<open>daemon_wait_input\<close> itself, \<^const>\<open>None\<close> when it sleeps or has returned. The pipe is
  looked at before the input.
\<close>

fun advance :: "waiting \<Rightarrow> waiting option" where
  "advance w = (case wt_pc w of
     Checking \<Rightarrow> Some (w\<lparr>wt_pc := if sg_interrupted (wt_sig w) then Returned False else Arming\<rparr>)
   | Arming \<Rightarrow> Some (w\<lparr>wt_pc := Polling\<rparr>)
   | Polling \<Rightarrow>
       if sg_pipe (wt_sig w) \<noteq> None \<and> sg_pipe (wt_sig w) \<noteq> Some [] then Some (w\<lparr>wt_pc := Returned False\<rparr>)
       else if wt_ready w then Some (w\<lparr>wt_pc := Returned True\<rparr>)
       else None
   | Returned b \<Rightarrow> None)"

declare advance.simps [simp del]

text \<open>A signal delivered: the handler runs, and a \<^verbatim>\<open>poll\<close> that is under way ends.\<close>

definition interrupt :: "nat \<Rightarrow> waiting \<Rightarrow> waiting" where
  "interrupt cap w = w\<lparr>wt_sig := on_signal cap (wt_sig w),
     wt_pc := if wt_pc w = Polling then Checking else wt_pc w\<rparr>"

inductive wait_step :: "nat \<Rightarrow> waiting \<Rightarrow> waiting \<Rightarrow> bool" for cap where
  own: "advance w = Some w' \<Longrightarrow> wait_step cap w w'"
| signal: "wait_step cap w (interrupt cap w)"
| input: "wait_step cap w (w\<lparr>wt_ready := True\<rparr>)"
| poll_failed: "wt_pc w = Polling \<Longrightarrow> wait_step cap w (w\<lparr>wt_pc := Returned False\<rparr>)"

abbreviation wait_runs :: "nat \<Rightarrow> waiting \<Rightarrow> waiting \<Rightarrow> bool" where
  "wait_runs cap \<equiv> (wait_step cap)\<^sup>*\<^sup>*"

inductive_cases wait_stepE: "wait_step cap w w'"

definition daemon_wait_input :: "signals \<Rightarrow> bool \<Rightarrow> waiting" where
  "daemon_wait_input s ready = \<lparr>wt_pc = Checking, wt_sig = s, wt_ready = ready\<rparr>"

text \<open>\<open>n\<close> steps of the wait with nothing happening around it.\<close>

fun alone :: "nat \<Rightarrow> waiting \<Rightarrow> waiting" where
  "alone 0 w = w"
| "alone (Suc n) w = (case advance w of None \<Rightarrow> w | Some w' \<Rightarrow> alone n w')"

section \<open>The flag is never missed\<close>

lemma two_steps: "r a b \<Longrightarrow> r b c \<Longrightarrow> r\<^sup>*\<^sup>* a c"
  by (rule rtranclp.rtrancl_into_rtrancl [OF r_into_rtranclp])

lemma drain_bytes_all: "drain_bytes q = []"
  by (induction q rule: drain_bytes.induct) auto

lemma drain_empties: "sg_pipe (drain_sigpipe s) = map_option (\<lambda>_. []) (sg_pipe s)"
  by (cases "sg_pipe s") (auto simp: drain_sigpipe_def drain_bytes_all)

lemma advance_cases:
  assumes "advance w = Some w'"
  shows "\<exists>pc. w' = w\<lparr>wt_pc := pc\<rparr> \<and> (case wt_pc w of
     Checking \<Rightarrow> pc = (if sg_interrupted (wt_sig w) then Returned False else Arming)
   | Arming \<Rightarrow> pc = Polling
   | Polling \<Rightarrow> (\<exists>c q. pc = Returned False \<and> sg_pipe (wt_sig w) = Some (c # q)) \<or>
        (pc = Returned True \<and> wt_ready w \<and> sg_pipe (wt_sig w) \<in> {None, Some []})
   | Returned b \<Rightarrow> False)"
  using assms by (auto simp: advance.simps neq_Nil_conv split: wait_pc.splits if_splits)

text \<open>Past the check of the flag, a flag that is set has left a byte in the pipe.\<close>

definition wake_pending :: "waiting \<Rightarrow> bool" where
  "wake_pending w \<longleftrightarrow> sg_pipe (wt_sig w) \<noteq> None \<and>
     (wt_pc w \<in> {Arming, Polling} \<longrightarrow> sg_interrupted (wt_sig w) \<longrightarrow> sg_pipe (wt_sig w) \<noteq> Some [])"

lemma on_signal_pipe:
  assumes "sg_pipe s \<noteq> None" "0 < cap"
  shows "\<exists>c q. sg_pipe (on_signal cap s) = Some (c # q)"
proof -
  obtain q where "sg_pipe s = Some q" using assms by auto
  then show ?thesis using assms(2) by (cases q) (auto simp: on_signal_def Let_def)
qed

lemma wake_pending_step:
  assumes "0 < cap" "wait_step cap w w'" "wake_pending w"
  shows "wake_pending w'"
  using assms(2)
proof (cases rule: wait_step.cases)
  case own
  then show ?thesis using assms(3)
    by (auto simp: wake_pending_def dest!: advance_cases split: wait_pc.splits if_splits)
next
  case signal
  then show ?thesis using assms(3) on_signal_pipe [of "wt_sig w" cap] assms(1)
    by (auto simp: wake_pending_def interrupt_def)
qed (use assms(3) in \<open>auto simp: wake_pending_def\<close>)

lemma wake_pending_runs: "0 < cap \<Longrightarrow> wait_runs cap w w' \<Longrightarrow> wake_pending w \<Longrightarrow> wake_pending w'"
  by (rotate_tac 1, induction rule: rtranclp_induct) (auto dest: wake_pending_step)

lemma interrupted_stays: "wait_runs cap w w' \<Longrightarrow> sg_interrupted (wt_sig w) \<Longrightarrow> sg_interrupted (wt_sig w')"
proof (induction rule: rtranclp_induct)
  case (step u v)
  then show ?case
    by (auto elim!: wait_stepE dest!: advance_cases simp: interrupt_def on_signal_def Let_def split: option.splits)
qed

text \<open>Property C10. No wake-up is lost\<close>

theorem signal_ends_wait:
  assumes "sg_pipe s \<noteq> None" and "0 < cap" and "wait_runs cap (daemon_wait_input s ready) w"
    and "sg_interrupted (wt_sig w)" and "\<nexists>b. wt_pc w = Returned b"
  shows "advance w \<noteq> None \<and> wt_pc (alone 2 w) = Returned False"
proof -
  have "wake_pending (daemon_wait_input s ready)"
    using assms(1) by (simp add: wake_pending_def daemon_wait_input_def)
  from wake_pending_runs [OF assms(2,3) this] have inv: "wake_pending w" .
  show ?thesis
  proof (cases "wt_pc w")
    case Checking
    then show ?thesis using assms(4) by (simp add: numeral_2_eq_2 advance.simps)
  next
    case Arming
    then show ?thesis using assms(4) inv by (auto simp: wake_pending_def numeral_2_eq_2 advance.simps)
  next
    case Polling
    then show ?thesis using assms(4) inv by (auto simp: wake_pending_def numeral_2_eq_2 advance.simps)
  qed (use assms(5) in blast)
qed

theorem signal_ends_wait_witness:
  "wt_pc (alone 2 \<lparr>wt_pc = Arming, wt_sig = \<lparr>sg_interrupted = True, sg_pipe = Some ''x''\<rparr>, wt_ready = True\<rparr>)
     = Returned False"
proof -
  let ?s = "\<lparr>sg_interrupted = False, sg_pipe = Some []\<rparr> :: signals"
  let ?a = "\<lparr>wt_pc = Arming, wt_sig = ?s, wt_ready = True\<rparr>"
  let ?w = "\<lparr>wt_pc = Arming, wt_sig = \<lparr>sg_interrupted = True, sg_pipe = Some ''x''\<rparr>, wt_ready = True\<rparr>"
  have 1: "wait_step 1 (daemon_wait_input ?s True) ?a"
    by (rule wait_step.own) (simp add: daemon_wait_input_def advance.simps)
  have 2: "wait_step 1 ?a ?w"
    using wait_step.signal [of 1 ?a] by (simp add: interrupt_def on_signal_def)
  show ?thesis
    by (rule conjunct2 [OF signal_ends_wait [where s = ?s and cap = 1 and ready = True, OF _ _ two_steps [of "wait_step 1", OF 1 2]]]) simp_all
qed

section \<open>What ends the wait\<close>

text \<open>Without a signal, and unless \<^verbatim>\<open>poll\<close> fails, a freshly drained session is told to read, and only when input is there.\<close>

inductive quiet_step :: "waiting \<Rightarrow> waiting \<Rightarrow> bool" where
  quiet_own: "advance w = Some w' \<Longrightarrow> quiet_step w w'"
| quiet_input: "quiet_step w (w\<lparr>wt_ready := True\<rparr>)"

lemma quiet_wait_reads:
  assumes "\<not> sg_interrupted s" and "quiet_step\<^sup>*\<^sup>* (daemon_wait_input (drain_sigpipe s) ready) w"
  shows "wt_pc w \<noteq> Returned False \<and> (wt_pc w = Returned True \<longrightarrow> wt_ready w)"
proof -
  have "\<not> sg_interrupted (wt_sig w) \<and> sg_pipe (wt_sig w) \<in> {None, Some []} \<and>
      wt_pc w \<noteq> Returned False \<and> (wt_pc w = Returned True \<longrightarrow> wt_ready w)"
    using assms(2)
  proof (induction rule: rtranclp_induct)
    case base
    show ?case using assms(1) drain_empties [of s]
      by (auto simp: daemon_wait_input_def drain_sigpipe_def)
  next
    case (step u v)
    from step.hyps(2) step.IH show ?case
      by (cases rule: quiet_step.cases) (auto dest!: advance_cases split: wait_pc.splits)
  qed
  then show ?thesis by blast
qed

text \<open>The pipe is what closes the gap: without it the signal that comes between the check and \<^verbatim>\<open>poll\<close> is slept through.\<close>

lemma no_pipe_sleeps:
  "\<exists>w. wait_runs cap (daemon_wait_input \<lparr>sg_interrupted = False, sg_pipe = None\<rparr> False) w \<and>
     sg_interrupted (wt_sig w) \<and> wt_pc w = Polling \<and> advance w = None"
proof -
  let ?s = "\<lparr>sg_interrupted = False, sg_pipe = None\<rparr> :: signals"
  let ?a = "\<lparr>wt_pc = Arming, wt_sig = ?s, wt_ready = False\<rparr>"
  let ?i = "?s\<lparr>sg_interrupted := True\<rparr>"
  have 1: "wait_step cap (daemon_wait_input ?s False) ?a"
    by (rule wait_step.own) (simp add: daemon_wait_input_def advance.simps)
  have 2: "wait_step cap ?a (?a\<lparr>wt_sig := ?i\<rparr>)"
    using wait_step.signal [of cap ?a] by (simp add: interrupt_def on_signal_def)
  have 3: "wait_step cap (?a\<lparr>wt_sig := ?i\<rparr>) (?a\<lparr>wt_sig := ?i, wt_pc := Polling\<rparr>)"
    by (rule wait_step.own) (simp add: advance.simps)
  have "wait_runs cap (daemon_wait_input ?s False) (?a\<lparr>wt_sig := ?i, wt_pc := Polling\<rparr>)"
    by (rule rtranclp.rtrancl_into_rtrancl [OF two_steps [of "wait_step cap", OF 1 2] 3])
  moreover have "advance (?a\<lparr>wt_sig := ?i, wt_pc := Polling\<rparr>) = None" by (simp add: advance.simps)
  ultimately show ?thesis by (intro exI [of _ "?a\<lparr>wt_sig := ?i, wt_pc := Polling\<rparr>"]) simp
qed

end
