(* ===== verification/Sketches.thy ===== *)
theory Sketches
  imports Actions Gfx
begin

text \<open>
  The firmware that is linked into the simulator, with its board tables (\<^verbatim>\<open>targets/\<close>): the touch
  painter \<^verbatim>\<open>cyd\<close>, the button panel \<^verbatim>\<open>cyd_tft\<close> and the bar \<^verbatim>\<open>sample_gfx\<close>. Their file-scope statics
  are the extension of the world. A sketch is what the runtime calls as \<^verbatim>\<open>setup\<close> and \<^verbatim>\<open>loop\<close>, so
  here the runtime, the input bus, the shims and the framebuffer run together.
\<close>

record tft_button =
  bt_x :: int
  bt_y :: int
  bt_w :: int
  bt_h :: int
  bt_label :: string
  bt_color :: "16 word"
  bt_on :: bool

record statics =
  cy_brush :: "16 word"
  ct_tft :: TFT_eSPI
  ct_buttons :: "tft_button list"
  ct_was_touched :: bool

type_synonym fw = "statics world"

definition say :: "string \<Rightarrow> 'e world \<Rightarrow> 'e world" where
  "say t w = w\<lparr>w_serial := snd (Serial_println t (w_serial w))\<rparr>"

definition on_fb :: "(Framebuffer \<Rightarrow> Framebuffer) \<Rightarrow> 'e world \<Rightarrow> 'e world" where
  "on_fb f w = w\<lparr>w_fb := f (w_fb w)\<rparr>"

definition wait_ms :: "32 word \<Rightarrow> 'e world \<Rightarrow> 'e world" where
  "wait_ms ms w = w\<lparr>w_clock := delay ms (w_clock w)\<rparr>"

section \<open>The painter\<close>

definition PALETTE :: "16 word list" where
  "PALETTE = [0xF800, 0xFC00, 0xFFE0, 0x07E0, 0x07FF, 0xF81F]"

definition SWATCH_W :: int where
  "SWATCH_W = cdiv 320 6"

definition BAR_H :: int where
  "BAR_H = 34"

definition cyd_gfx :: Arduino_GFX where
  "cyd_gfx = \<lparr>gfx_w = 320, gfx_h = 240\<rparr>"

definition draw_palette :: "Framebuffer \<Rightarrow> Framebuffer" where
  "draw_palette fb =
     gfx_drawRect 0 0 320 BAR_H 0xFFFF
       (fold (\<lambda>i. gfx_fillRect (i * SWATCH_W) 0 SWATCH_W BAR_H (PALETTE ! nat i)) [0..5] fb)"

definition cyd_setup :: "fw \<Rightarrow> fw" where
  "cyd_setup w =
     (let w = say ''cyd: booting'' w;
          w = on_fb (\<lambda>fb. snd (gfx_begin cyd_gfx fb)) w;
          w = on_fb (gfx_fillScreen (color565 16 16 20)) w;
          w = on_fb draw_palette w
      in say ''cyd: ready'' w)"

text \<open>A circle of radius 8 always returns (\<open>cyd_dot_returns\<close>), so the last branch is never taken.\<close>

definition cyd_loop :: "fw \<Rightarrow> fw" where
  "cyd_loop w =
     wait_ms 5 (case sim_touch (w_input w) of None \<Rightarrow> w
       | Some (x, y) \<Rightarrow>
           if y < BAR_H then
             (let i = cdiv x SWATCH_W; i = (if i < 0 then 0 else i); i = (if i > 5 then 5 else i)
              in w\<lparr>w_ext := (w_ext w)\<lparr>cy_brush := PALETTE ! nat i\<rparr>\<rparr>)
           else (case gfx_fillCircle (s16 x) (s16 y) 8 (cy_brush (w_ext w)) (w_fb w) of
               Some fb \<Rightarrow> w\<lparr>w_fb := fb\<rparr> | None \<Rightarrow> w))"

definition boot_button :: SimButton where
  "boot_button = \<lparr>b_label = ''BOOT'', b_action = ACT_PRIMARY, b_gpio = 0, b_key = CHR '' '',
     b_edge = EDGE_RIGHT, b_pos = -1, b_active_low = False\<rparr>"

definition cyd_board :: BoardDesc where
  "cyd_board = \<lparr>bd_name = ''ESP32-2432S028R (CYD)'', bd_width = 320, bd_height = 240,
     bd_has_rotation = False, bd_has_battery = False, bd_has_imu = False, bd_buttons = [boot_button]\<rparr>"

definition cyd_target :: "fw SimTarget" where
  "cyd_target = \<lparr>t_key = ''cyd'',
     t_description = ''Cheap Yellow Display (ESP32-2432S028R): 320x240 ILI9341 + touch paint demo'',
     t_setup = Some cyd_setup, t_loop = Some cyd_loop, t_board = Some cyd_board,
     t_backend = BACKEND_NATIVE, t_qemu = None\<rparr>"

section \<open>What painting means\<close>

text \<open>
  The abstract painter: a brush and an image. A tap in the bar picks the swatch it hits, a tap
  below paints a disc.
\<close>

definition on_screen :: "int \<Rightarrow> int \<Rightarrow> bool" where
  "on_screen u v \<longleftrightarrow> 0 \<le> u \<and> u < 320 \<and> 0 \<le> v \<and> v < 240"

definition tap_spec :: "int \<times> int \<Rightarrow> 16 word \<times> (int \<Rightarrow> int \<Rightarrow> 16 word) \<Rightarrow> 16 word \<times> (int \<Rightarrow> int \<Rightarrow> 16 word)" where
  "tap_spec = (\<lambda>(x, y) (brush, img).
     if y < 34 then (PALETTE ! nat (min 5 (x div 53)), img)
     else (brush, \<lambda>u v. if on_screen u v \<and> (u - x)\<^sup>2 + (v - y)\<^sup>2 \<le> 64 then brush else img u v))"

definition boot_image :: "int \<Rightarrow> int \<Rightarrow> 16 word" where
  "boot_image u v =
     (if \<not> on_screen u v then 0
      else if v = 0 \<or> v = 33 \<or> (v < 34 \<and> (u = 0 \<or> u = 319)) then 0xFFFF
      else if v < 34 \<and> u < 318 then PALETTE ! nat (u div 53)
      else rgb565 16 16 20)"

definition painting :: "fw \<Rightarrow> 16 word \<times> (int \<Rightarrow> int \<Rightarrow> 16 word)" where
  "painting w = (cy_brush (w_ext w), fb_pixel (w_fb w))"

text \<open>The painter is running: it is the active target and its framebuffer has the panel's size.\<close>

definition cyd_runs :: "statics sim \<Rightarrow> fw \<Rightarrow> bool" where
  "cyd_runs S w \<longleftrightarrow> (\<exists>i < length (s_reg S). w_active w = Some i \<and> s_reg S ! i = cyd_target) \<and>
     fb_ok (w_fb w) \<and> fb_w (w_fb w) = 320 \<and> fb_h (w_fb w) = 240"

lemma cyd_dot_returns: "gfx_fillCircle x y 8 c fb \<noteq> None"
  using gfx_fillCircle_fold [of 8 x y c fb] by simp

lemma screen_inside: "fb_w fb = 320 \<Longrightarrow> fb_h fb = 240 \<Longrightarrow> fb_inside fb u v = on_screen u v"
  by (simp add: fb_inside_def on_screen_def)

lemma fb_pixel_outside: "\<not> fb_inside fb u v \<Longrightarrow> fb_pixel fb u v = 0"
  by (auto simp: fb_pixel_def fb_inside_def)

lemma fb_pixel_paint:
  assumes "fb_ok fb"
  shows "fb_pixel (paint fb_put pts c fb) u v
    = (if fb_inside fb u v \<and> (u, v) \<in> set pts then c else fb_pixel fb u v)"
  using fb.get_paint [OF assms] fb.inside_paint [OF assms] fb_pixel_outside by metis

lemma cyd_target_native:
  assumes "cyd_runs S w"
  shows "\<not> qemu_agent_active S w" "active_board S w = Some cyd_board"
    "sim_step (s_reg S) w = cyd_loop w"
  using assms
  by (auto simp: cyd_runs_def qemu_agent_active_def active_board_def active_target_def sim_step_def
      active_loop_def cyd_target_def)

lemma swatch_index:
  assumes "0 \<le> x"
  shows "(let i = cdiv x SWATCH_W; i = (if i < 0 then 0 else i) in if i > 5 then 5 else i) = min 5 (x div 53)"
proof -
  have w: "SWATCH_W = 53" by (simp add: SWATCH_W_def cdiv_nonneg)
  have "cdiv x SWATCH_W = x div 53" "0 \<le> x div 53"
    using assms by (simp_all add: w cdiv_nonneg pos_imp_zdiv_nonneg_iff)
  then show ?thesis by (simp add: Let_def)
qed

lemma painting_clock [simp]: "painting (wait_ms ms w) = painting w" "cyd_runs S (wait_ms ms w) = cyd_runs S w"
  "w_input (wait_ms ms w) = w_input w" "w_clock (wait_ms ms w) = w_clock w + ms"
  by (simp_all add: painting_def cyd_runs_def wait_ms_def delay_def)

lemma cyd_dot:
  assumes "cyd_runs S w" "on_screen x y" "gfx_fillCircle (s16 x) (s16 y) 8 c (w_fb w) = Some fb"
  shows "fb = paint fb_put (disc_pts x y 8) c (w_fb w)"
    "fb_pixel fb u v = (if on_screen u v \<and> (u - x)\<^sup>2 + (v - y)\<^sup>2 \<le> 64 then c else fb_pixel (w_fb w) u v)"
proof -
  have "in_s16 x" "in_s16 y" using assms(2) by (simp_all add: on_screen_def in_s16_def)
  then have s: "s16 x = x" "s16 y = y" by (simp_all add: s16_id)
  show fb: "fb = paint fb_put (disc_pts x y 8) c (w_fb w)"
    using assms(2,3) by (simp add: s gfx_fillCircle_paint on_screen_def)
  have "fb_ok (w_fb w)" "fb_w (w_fb w) = 320" "fb_h (w_fb w) = 240" using assms(1) by (simp_all add: cyd_runs_def)
  then show "fb_pixel fb u v = (if on_screen u v \<and> (u - x)\<^sup>2 + (v - y)\<^sup>2 \<le> 64 then c else fb_pixel (w_fb w) u v)"
    by (simp add: fb fb_pixel_paint screen_inside set_disc_pts power2_eq_square)
qed

lemma cyd_loop_held:
  assumes "cyd_runs S w" "on_screen x y" "sim_touch (w_input w) = Some (x, y)"
  shows "painting (cyd_loop w) = tap_spec (x, y) (painting w)" "cyd_runs S (cyd_loop w)"
    "w_input (cyd_loop w) = w_input w" "w_clock (cyd_loop w) = w_clock w + 5"
proof -
  obtain fb where fb: "gfx_fillCircle (s16 x) (s16 y) 8 (cy_brush (w_ext w)) (w_fb w) = Some fb"
    using cyd_dot_returns [of "s16 x" "s16 y" "cy_brush (w_ext w)" "w_fb w"] by auto
  note d = cyd_dot [OF assms(1,2) fb]
  have ok: "cyd_runs S (w\<lparr>w_fb := fb\<rparr>)"
    using assms(1) by (simp add: cyd_runs_def d(1) fb.paint_ok)
  have l: "cyd_loop w = wait_ms 5 (if y < 34
      then w\<lparr>w_ext := (w_ext w)\<lparr>cy_brush := PALETTE ! nat (min 5 (x div 53))\<rparr>\<rparr> else w\<lparr>w_fb := fb\<rparr>)"
    using swatch_index [of x] assms(2) by (simp add: cyd_loop_def assms(3) fb BAR_H_def Let_def on_screen_def)
  show "painting (cyd_loop w) = tap_spec (x, y) (painting w)"
    by (auto simp: l painting_def tap_spec_def d(2) wait_ms_def fun_eq_iff)
  show "cyd_runs S (cyd_loop w)" using ok assms(1) by (auto simp: l) (simp add: cyd_runs_def)
qed (simp_all add: cyd_loop_def Let_def assms(3) split: option.split)

lemma cyd_loop_idle:
  "\<not> touch_pressed (w_input w) \<Longrightarrow> cyd_loop w = wait_ms 5 w"
  by (simp add: cyd_loop_def sim_touch_def)

lemma tap_spec_again: "tap_spec p (tap_spec p s) = tap_spec p s"
  by (cases p; cases s) (auto simp: tap_spec_def fun_eq_iff)

lemma cyd_held_steps:
  assumes "cyd_runs S w" "on_screen x y" "sim_touch (w_input w) = Some (x, y)"
  defines "v n \<equiv> (cyd_loop ^^ n) w"
  shows "cyd_runs S (v n) \<and> w_input (v n) = w_input w \<and> w_clock (v n) = w_clock w + 5 * of_nat n \<and>
    painting (v n) = (if n = 0 then painting w else tap_spec (x, y) (painting w))"
  unfolding v_def
proof (induction n)
  case (Suc n)
  then have "cyd_runs S ((cyd_loop ^^ n) w)" "sim_touch (w_input ((cyd_loop ^^ n) w)) = Some (x, y)"
    using assms(3) by simp_all
  from cyd_loop_held [OF this(1) assms(2) this(2)] Suc show ?case
    by (auto simp: tap_spec_again algebra_simps)
qed (use assms in simp)

lemma cyd_idle_steps:
  assumes "cyd_runs S w" "\<not> touch_pressed (w_input w)"
  defines "v n \<equiv> (cyd_loop ^^ n) w"
  shows "cyd_runs S (v n) \<and> w_input (v n) = w_input w \<and> w_clock (v n) = w_clock w + 5 * of_nat n \<and>
    painting (v n) = painting w"
  unfolding v_def by (induction n) (use assms in \<open>auto simp: cyd_loop_idle algebra_simps\<close>)

text \<open>While the painter runs, a step of the runtime is a call of its loop.\<close>

lemma cyd_steps:
  assumes "cyd_runs S w" "\<And>k. cyd_runs S ((cyd_loop ^^ k) w)"
  shows "steps S (int n) w = (cyd_loop ^^ n) w"
proof -
  have "(sim_step (s_reg S) ^^ k) w = (cyd_loop ^^ k) w" for k
    by (induction k) (simp_all add: cyd_target_native(3) [OF assms(2)])
  then show ?thesis by (simp add: sim_run_steps_def run_steps_funpow)
qed

lemma cyd_tap:
  assumes "cyd_runs S w" "on_screen x y"
  shows "\<exists>w'. apply_tap x y S w = (None, w') \<and> cyd_runs S w' \<and> painting w' = tap_spec (x, y) (painting w) \<and>
    \<not> touch_pressed (w_input w') \<and> w_clock w' = w_clock w + 40"
proof -
  let ?a = "set_touch True x y w"
  have a: "cyd_runs S ?a" "sim_touch (w_input ?a) = Some (x, y)" "painting ?a = painting w" "w_clock ?a = w_clock w"
    using assms(1) by (simp_all add: set_touch_def cyd_runs_def sim_touch_def painting_def)
  note h = cyd_held_steps [OF a(1) assms(2) a(2)]
  have sa: "steps S 4 ?a = (cyd_loop ^^ 4) ?a" using cyd_steps [OF a(1), of 4] h by simp
  define b where "b = release_touch ((cyd_loop ^^ 4) ?a)"
  have b: "cyd_runs S b" "\<not> touch_pressed (w_input b)" "painting b = tap_spec (x, y) (painting w)"
    "w_clock b = w_clock w + 20"
    using h [of 4] a(3,4) by (simp_all add: b_def release_touch_def cyd_runs_def painting_def)
  note i = cyd_idle_steps [OF b(1,2)]
  have sb: "steps S 4 b = (cyd_loop ^^ 4) b" using cyd_steps [OF b(1), of 4] i by simp
  have "apply_tap x y S w = (None, (cyd_loop ^^ 4) b)"
    using assms by (simp add: apply_tap_def Let_def cyd_target_native in_board_def cyd_board_def on_screen_def
        sa sb b_def [symmetric])
  then show ?thesis using i [of 4] b by simp
qed

section \<open>Booting it\<close>

lemma swatch_column: "i * 53 \<le> u \<and> u < i * 53 + 53 \<longleftrightarrow> u div 53 = (i :: int)"
  by presburger

lemma swatches_pixels:
  assumes "set is \<subseteq> {0..5}" "fb_ok fb" "fb_w fb = 320" "fb_h fb = 240"
  shows "let fb' = fold (\<lambda>i. gfx_fillRect (i * 53) 0 53 34 (c i)) is fb
    in fb_ok fb' \<and> fb_w fb' = 320 \<and> fb_h fb' = 240 \<and> (\<forall>u v. fb_pixel fb' u v =
      (if on_screen u v \<and> v < 34 \<and> u div 53 \<in> set is then c (u div 53) else fb_pixel fb u v))"
  using assms
proof (induction "is" arbitrary: fb)
  case (Cons i "is")
  let ?f = "paint fb_put (rect_pts (i * 53) 0 53 34) (c i) fb"
  have g: "gfx_fillRect (i * 53) 0 53 34 (c i) fb = ?f"
    using Cons.prems(1) by (intro gfx_fillRect_paint) (auto simp: in_s16_def)
  have ok: "fb_ok ?f" "fb_w ?f = 320" "fb_h ?f = 240" using Cons.prems by (simp_all add: fb.paint_ok)
  have px: "fb_pixel ?f u v = (if on_screen u v \<and> v < 34 \<and> u div 53 = i then c i else fb_pixel fb u v)" for u v
  proof -
    have "(u, v) \<in> set (rect_pts (i * 53) 0 53 34) \<longleftrightarrow> u div 53 = i \<and> 0 \<le> v \<and> v < 34"
      using swatch_column [of i u] by (auto simp: set_rect_pts)
    then show ?thesis
      using Cons.prems(2-4) by (auto simp: fb_pixel_paint screen_inside on_screen_def)
  qed
  from Cons.IH [OF _ ok] Cons.prems(1) show ?case by (auto simp: g px Let_def)
qed simp

lemma draw_palette_pixels:
  assumes "fb_ok fb" "fb_w fb = 320" "fb_h fb = 240" "\<And>u v. on_screen u v \<Longrightarrow> fb_pixel fb u v = rgb565 16 16 20"
  shows "fb_ok (draw_palette fb) \<and> fb_w (draw_palette fb) = 320 \<and> fb_h (draw_palette fb) = 240 \<and>
    fb_pixel (draw_palette fb) = boot_image"
proof -
  let ?c = "\<lambda>i. PALETTE ! nat i"
  define f where "f = fold (\<lambda>i. gfx_fillRect (i * 53) 0 53 34 (?c i)) [0..5] fb"
  have f: "fb_ok f" "fb_w f = 320" "fb_h f = 240"
    "\<And>u v. fb_pixel f u v = (if on_screen u v \<and> v < 34 \<and> u div 53 \<in> set [0..5] then ?c (u div 53) else fb_pixel fb u v)"
    using swatches_pixels [of "[0..5]" fb ?c] assms(1-3) by (simp_all add: f_def Let_def)
  have w: "SWATCH_W = 53" by (simp add: SWATCH_W_def cdiv_nonneg)
  have d: "draw_palette fb = paint fb_put (rect_border 0 0 320 34) 0xFFFF f"
    by (simp add: draw_palette_def w BAR_H_def f_def gfx_drawRect_paint in_s16_def)
  have edge: "(u, v) \<in> set (rect_border 0 0 320 34) \<longleftrightarrow>
      v = 0 \<and> 0 \<le> u \<and> u < 320 \<or> v = 33 \<and> 0 \<le> u \<and> u < 320 \<or> (u = 0 \<or> u = 319) \<and> 0 \<le> v \<and> v < 34" for u v
    by (auto simp: rect_border_def)
  have col: "0 \<le> u \<Longrightarrow> u div 53 \<in> set [0..5] \<longleftrightarrow> u < 318" for u :: int
    by (simp add: pos_imp_zdiv_nonneg_iff) presburger
  have "fb_pixel (draw_palette fb) u v = boot_image u v" for u v
  proof (cases "on_screen u v")
    case True
    then show ?thesis
      using col [of u] assms(4) [OF True]
      by (simp add: d fb_pixel_paint f screen_inside edge boot_image_def) (auto simp: on_screen_def)
  next
    case False
    moreover have "\<not> fb_inside fb u v" using False assms(2,3) by (simp add: screen_inside)
    ultimately show ?thesis
      by (simp add: d fb_pixel_paint f screen_inside boot_image_def fb_pixel_outside)
  qed
  then show ?thesis by (auto simp: d f fb.paint_ok)
qed

lemma cyd_setup_paints:
  "painting (cyd_setup w) = (cy_brush (w_ext w), boot_image)" "w_active (cyd_setup w) = w_active w"
  "fb_ok (w_fb (cyd_setup w)) \<and> fb_w (w_fb (cyd_setup w)) = 320 \<and> fb_h (w_fb (cyd_setup w)) = 240"
proof -
  let ?fb = "gfx_fillScreen (color565 16 16 20) (snd (gfx_begin cyd_gfx (w_fb w)))"
  have b: "snd (gfx_begin cyd_gfx (w_fb w)) = fb_init 320 240 (w_fb w)"
    by (simp add: gfx_begin_def cyd_gfx_def)
  have ok: "fb_ok (fb_init 320 240 (w_fb w))" by (rule fb_ok_init) simp_all
  have "fb_ok ?fb" "fb_w ?fb = 320" "fb_h ?fb = 240"
    using ok by (simp_all add: b gfx_fillScreen_def fb_fill_def fb_ok_def) (simp_all add: fb_init_def)
  moreover have "fb_pixel ?fb u v = rgb565 16 16 20" if "on_screen u v" for u v
    unfolding gfx_fillScreen_def b color565_rgb565
    by (rule fb_pixel_fill [OF ok]) (use that in \<open>simp add: fb_inside_def fb_init_def on_screen_def\<close>)
  ultimately have "fb_ok (draw_palette ?fb) \<and> fb_w (draw_palette ?fb) = 320 \<and> fb_h (draw_palette ?fb) = 240 \<and>
    fb_pixel (draw_palette ?fb) = boot_image" by (rule draw_palette_pixels)
  then show "painting (cyd_setup w) = (cy_brush (w_ext w), boot_image)"
    "fb_ok (w_fb (cyd_setup w)) \<and> fb_w (w_fb (cyd_setup w)) = 320 \<and> fb_h (w_fb (cyd_setup w)) = 240"
    by (simp_all add: cyd_setup_def Let_def say_def on_fb_def painting_def)
  show "w_active (cyd_setup w) = w_active w" by (simp add: cyd_setup_def Let_def say_def on_fb_def)
qed

lemma hooks_keep: "w_active (fold run_hook hooks w) = w_active w \<and> w_ext (fold run_hook hooks w) = w_ext w"
proof (induction hooks arbitrary: w)
  case (Cons h hooks)
  then show ?case by (cases h) (simp_all add: webserver_boot_reset_def)
qed simp

lemma boot_state_keeps: "w_active (boot_state reg hooks i w) = Some i \<and> w_ext (boot_state reg hooks i w) = w_ext w"
  using hooks_keep [of hooks "w\<lparr>w_active := Some i\<rparr>"] by (auto simp: boot_state_def Let_def split: option.split)

definition tap_all :: "'e sim \<Rightarrow> (int \<times> int) list \<Rightarrow> 'e world \<Rightarrow> 'e world" where
  "tap_all S ps w = fold (\<lambda>(x, y) w. snd (apply_tap x y S w)) ps w"

lemma cyd_taps:
  "cyd_runs S w \<Longrightarrow> \<forall>(x, y) \<in> set ps. on_screen x y \<Longrightarrow>
     cyd_runs S (tap_all S ps w) \<and> painting (tap_all S ps w) = fold tap_spec ps (painting w)"
proof (induction ps arbitrary: w)
  case (Cons p ps)
  obtain x y where p: "p = (x, y)" by force
  with Cons.prems cyd_tap [of S w x y] obtain w' where
    "apply_tap x y S w = (None, w')" "cyd_runs S w'" "painting w' = tap_spec (x, y) (painting w)" by auto
  with Cons.IH [of w'] Cons.prems(2) show ?case by (simp add: p tap_all_def)
qed (simp add: tap_all_def)

text \<open>
  Property C5. The painter draws what the taps say, from the command line down to the pixels:
  booted under its name, whatever ran before, and then tapped at any points of the screen, it
  leaves exactly the brush and the image that the abstract painter makes of them from the start
  image: the palette, and a disc for each tap on the canvas, clipped to the screen.
\<close>

theorem cyd_paints_taps:
  assumes "sim_target ''cyd'' (s_reg S) = Some i" and "s_reg S ! i = cyd_target"
    and "\<forall>(x, y) \<in> set ps. on_screen x y"
  shows "\<exists>w0. sim_boot (s_reg S) hooks ''cyd'' w = (True, w0) \<and>
    painting (tap_all S ps w0) = fold tap_spec ps (cy_brush (w_ext w), boot_image)"
proof -
  let ?b = "boot_state (s_reg S) hooks i w"
  have b: "w_active ?b = Some i" "w_ext ?b = w_ext w" by (simp_all add: boot_state_keeps)
  have "cyd_runs S (cyd_setup ?b)"
    using cyd_setup_paints [of ?b] sim_target_Some [OF assms(1)] assms(2) b(1) by (auto simp: cyd_runs_def)
  moreover have "sim_boot (s_reg S) hooks ''cyd'' w = (True, cyd_setup ?b)"
    by (simp add: sim_boot_def assms(1,2) Let_def cyd_target_def)
  ultimately show ?thesis
    using cyd_taps [OF _ assms(3)] cyd_setup_paints(1) [of ?b] b(2) by auto
qed

definition demo_statics :: statics where
  "demo_statics = \<lparr>cy_brush = 0x07FF, ct_tft = tft_new 240 320, ct_buttons = [], ct_was_touched = False\<rparr>"

definition demo_fw :: fw where
  "demo_fw = \<lparr>w_input = input_init, w_gpio = gpio_init, w_clock = 0, w_restart = False, w_serial = serial_init,
     w_ble = ble_init, w_fb = fb_new, w_lv = lv_init_state, w_wifi = True, w_http = -1, w_servers = [],
     w_active = None, w_impl = BACKEND_NATIVE, w_env_port = None, w_ext = demo_statics\<rparr>"

definition demo_cyd :: "statics sim" where
  "demo_cyd = \<lparr>s_reg = [cyd_target], s_hooks = [], s_slots = initial_slots [cyd_target] [],
     s_rx_valid = (\<lambda>_. True), s_rx_search = (\<lambda>text rx. str_find rx text \<noteq> None)\<rparr>"

theorem cyd_paints_taps_witness:
  "\<exists>w0. sim_boot [cyd_target] [HookInput] ''cyd'' demo_fw = (True, w0) \<and>
     fb_pixel (w_fb (tap_all demo_cyd [(60, 5), (100, 100)] w0)) 104 103 = 0xFC00 \<and>
     fb_pixel (w_fb (tap_all demo_cyd [(60, 5), (100, 100)] w0)) 60 5 = 0xFC00"
proof -
  have p: "\<forall>(x, y) \<in> set [(60, 5), (100, 100)]. on_screen x y" by (simp add: on_screen_def)
  have t: "sim_target ''cyd'' (s_reg demo_cyd) = Some 0" "s_reg demo_cyd ! 0 = cyd_target"
    by (simp_all add: demo_cyd_def cyd_target_def)
  obtain w0 where w0: "sim_boot (s_reg demo_cyd) [HookInput] ''cyd'' demo_fw = (True, w0)"
    "painting (tap_all demo_cyd [(60, 5), (100, 100)] w0)
      = fold tap_spec [(60, 5), (100, 100)] (cy_brush (w_ext demo_fw), boot_image)"
    using cyd_paints_taps [OF t p, of "[HookInput]" demo_fw] by blast
  have "fb_pixel (w_fb (tap_all demo_cyd [(60, 5), (100, 100)] w0))
      = snd (fold tap_spec [(60, 5), (100, 100)] (cy_brush (w_ext demo_fw), boot_image))"
    using w0(2) by (metis painting_def snd_conv)
  then show ?thesis using w0(1)
    by (simp add: demo_cyd_def tap_spec_def on_screen_def boot_image_def PALETTE_def)
qed

section \<open>The bar\<close>

definition sample_setup :: "'e world \<Rightarrow> 'e world" where
  "sample_setup w =
     (let w = say ''sample_gfx: booting'' w;
          w = on_fb (\<lambda>fb. snd (gfx_begin cyd_gfx fb)) w;
          w = on_fb (gfx_fillScreen (color565 20 20 30)) w;
          w = on_fb (gfx_fillRect 0 0 106 60 0xF800) w;
          w = on_fb (gfx_fillRect 106 0 107 60 0x07E0) w;
          w = on_fb (gfx_fillRect 213 0 107 60 0x001F) w;
          w = on_fb (gfx_drawRect 0 0 320 240 0xFFFF) w;
          w = on_fb (gfx_drawRect 1 1 318 238 0xFFFF) w;
          w = (case gfx_fillCircle 160 130 40 0xFC00 (w_fb w) of Some fb \<Rightarrow> w\<lparr>w_fb := fb\<rparr> | None \<Rightarrow> w)
      in say ''sample_gfx: ready'' w)"

definition sample_loop :: "'e world \<Rightarrow> 'e world" where
  "sample_loop w =
     (let t = millis (w_clock w); n = uint ((t div 10) mod 300);
          w = on_fb (gfx_fillRect 10 210 300 14 (color565 40 40 40)) w;
          w = on_fb (gfx_fillRect 10 210 n 14 0x07FF) w
      in wait_ms 5 w)"

definition sample_board :: BoardDesc where
  "sample_board = \<lparr>bd_name = ''Generic GFX 320x240'', bd_width = 320, bd_height = 240,
     bd_has_rotation = False, bd_has_battery = False, bd_has_imu = False, bd_buttons = []\<rparr>"

definition sample_target :: "'e world SimTarget" where
  "sample_target = \<lparr>t_key = ''sample_gfx'',
     t_description = ''Minimal Arduino_GFX sketch (generality proof, zero app-specific sim code)'',
     t_setup = Some sample_setup, t_loop = Some sample_loop, t_board = Some sample_board,
     t_backend = BACKEND_NATIVE, t_qemu = None\<rparr>"

text \<open>The bar shows the virtual time: one column for each ten milliseconds, empty again after three seconds.\<close>

lemma sample_bar:
  assumes "fb_ok (w_fb w)" "fb_w (w_fb w) = 320" "fb_h (w_fb w) = 240" "10 \<le> u" "u < 310" "210 \<le> v" "v < 224"
  shows "fb_pixel (w_fb (sample_loop w)) u v =
    (if u < 10 + uint (w_clock w) div 10 mod 300 then 0x07FF else rgb565 40 40 40)"
proof -
  have n: "uint ((w_clock w div 10) mod 300) = uint (w_clock w) div 10 mod 300"
    by (simp add: uint_div uint_mod)
  have b: "0 \<le> uint (w_clock w) div 10 mod 300" "uint (w_clock w) div 10 mod 300 < 300" by simp_all
  have g: "gfx_fillRect 10 210 300 14 c fb = paint fb_put (rect_pts 10 210 300 14) c fb"
    "gfx_fillRect 10 210 (uint (w_clock w) div 10 mod 300) 14 c fb
      = paint fb_put (rect_pts 10 210 (uint (w_clock w) div 10 mod 300) 14) c fb" for c fb
    using b by (simp_all add: gfx_fillRect_paint in_s16_def)
  show ?thesis
    using assms by (simp add: sample_loop_def Let_def on_fb_def wait_ms_def millis_def g fb_pixel_paint fb.paint_ok
        fb.inside_paint screen_inside on_screen_def set_rect_pts color565_rgb565 n)
qed

end
