(* ===== verification/Panel.thy ===== *)
theory Panel
  imports Sketches
begin

text \<open>
  The button panel (\<^verbatim>\<open>targets/cyd_tft\<close>): three buttons drawn through the TFT_eSPI shim, toggled on
  the press edge of a touch.
\<close>

section \<open>The sketch\<close>

definition draw_button :: "tft_button \<Rightarrow> tft_st \<Rightarrow> tft_st option" where
  "draw_button b s =
     (let s = fillRoundRect (bt_x b) (bt_y b) (bt_w b) (bt_h b) 8 (if bt_on b then bt_color b else 0x7BEF) s
      in Option.bind (drawRoundRect (bt_x b) (bt_y b) (bt_w b) (bt_h b) 8 0xFFFF s) (\<lambda>s.
         let s = setTextDatum 4 (setTextSize 2 (setTextColor 0xFFFF s));
             s = snd (drawString (bt_label b) (bt_x b + cdiv (bt_w b) 2) (bt_y b + cdiv (bt_h b) 2) s)
         in Some (setTextDatum 0 s)))"

fun draw_buttons :: "tft_button list \<Rightarrow> tft_st \<Rightarrow> tft_st option" where
  "draw_buttons [] s = Some s"
| "draw_buttons (b # bs) s = Option.bind (draw_button b s) (draw_buttons bs)"

definition is_hit :: "int \<Rightarrow> int \<Rightarrow> tft_button \<Rightarrow> bool" where
  "is_hit x y b \<longleftrightarrow> x \<ge> bt_x b \<and> x < bt_x b + bt_w b \<and> y \<ge> bt_y b \<and> y < bt_y b + bt_h b"

fun press_buttons :: "int \<Rightarrow> int \<Rightarrow> tft_button list \<Rightarrow> tft_st \<Rightarrow> (tft_button list \<times> tft_st) option" where
  "press_buttons x y [] s = Some ([], s)"
| "press_buttons x y (b # bs) s =
     (if is_hit x y b
      then (let b = b\<lparr>bt_on := \<not> bt_on b\<rparr>
            in Option.bind (draw_button b s) (\<lambda>s.
               map_option (\<lambda>(bs, s). (b # bs, s)) (press_buttons x y bs s)))
      else map_option (\<lambda>(bs, s). (b # bs, s)) (press_buttons x y bs s))"

text \<open>The display object and the framebuffer as the shim sees them.\<close>

definition tft_of :: "fw \<Rightarrow> tft_st" where
  "tft_of w = (ct_tft (w_ext w), w_fb w)"

definition put_tft :: "tft_st \<Rightarrow> fw \<Rightarrow> fw" where
  "put_tft s w = w\<lparr>w_ext := (w_ext w)\<lparr>ct_tft := fst s\<rparr>, w_fb := snd s\<rparr>"

text \<open>The outlines always return (\<open>draw_button_returns\<close>), so no \<^const>\<open>None\<close> branch is ever taken.\<close>

definition cydtft_setup :: "fw \<Rightarrow> fw" where
  "cydtft_setup w =
     (let w = say ''cyd_tft: booting'' w;
          s = fillScreen 0 (setRotation 1 (tft_init (tft_of w)));
          s = setTextDatum 1 (setTextSize 3 (setTextColor 0xFFE0 s));
          s = snd (drawString ''CYD Control'' (cdiv (tf_w (fst s)) 2) 14 s);
          s = setTextDatum 0 s;
          w = (case draw_buttons (ct_buttons (w_ext w)) s of Some s \<Rightarrow> put_tft s w | None \<Rightarrow> w)
      in say ''cyd_tft: ready'' w)"

definition cydtft_loop :: "fw \<Rightarrow> fw" where
  "cydtft_loop w =
     (let now = getTouch (ct_tft (w_ext w)) (w_input w);
          w = (case now of
              Some (x, y) \<Rightarrow>
                if \<not> ct_was_touched (w_ext w) then
                  (case press_buttons (uint x) (uint y) (ct_buttons (w_ext w)) (tft_of w) of
                     Some (bs, s) \<Rightarrow> (put_tft s w)\<lparr>w_ext := (w_ext (put_tft s w))\<lparr>ct_buttons := bs\<rparr>\<rparr>
                   | None \<Rightarrow> w)
                else w
            | None \<Rightarrow> w);
          w = w\<lparr>w_ext := (w_ext w)\<lparr>ct_was_touched := (now \<noteq> None)\<rparr>\<rparr>
      in wait_ms 10 w)"

definition panel_buttons :: "tft_button list" where
  "panel_buttons =
     [\<lparr>bt_x = 20, bt_y = 70, bt_w = 130, bt_h = 60, bt_label = ''LED'', bt_color = 0x001F, bt_on = False\<rparr>,
      \<lparr>bt_x = 170, bt_y = 70, bt_w = 130, bt_h = 60, bt_label = ''FAN'', bt_color = 0x07E0, bt_on = False\<rparr>,
      \<lparr>bt_x = 20, bt_y = 160, bt_w = 280, bt_h = 55, bt_label = ''RESET'', bt_color = 0x7800, bt_on = False\<rparr>]"

definition cydtft_board :: BoardDesc where
  "cydtft_board = \<lparr>bd_name = ''ESP32-2432S028R (CYD, TFT_eSPI)'', bd_width = 320, bd_height = 240,
     bd_has_rotation = False, bd_has_battery = False, bd_has_imu = False, bd_buttons = [boot_button]\<rparr>"

definition cydtft_target :: "fw SimTarget" where
  "cydtft_target = \<lparr>t_key = ''cyd_tft'',
     t_description = ''Cheap Yellow Display running a real TFT_eSPI touch-button UI'',
     t_setup = Some cydtft_setup, t_loop = Some cydtft_loop, t_board = Some cydtft_board,
     t_backend = BACKEND_NATIVE, t_qemu = None\<rparr>"

section \<open>Drawing on the screen leaves the object alone\<close>

definition pure_draw :: "(tft_st \<Rightarrow> tft_st) \<Rightarrow> bool" where
  "pure_draw f \<longleftrightarrow> (\<forall>s. tf_buf (fst s) = None \<longrightarrow> fst (f s) = fst s)"

lemma pure_drawD: "pure_draw f \<Longrightarrow> tf_buf (fst s) = None \<Longrightarrow> fst (f s) = fst s"
  unfolding pure_draw_def by blast

lemma pure_drawI: "(\<And>s. tf_buf (fst s) = None \<Longrightarrow> fst (f s) = fst s) \<Longrightarrow> pure_draw f"
  unfolding pure_draw_def by blast

lemma pure_draw_comp: "pure_draw f \<Longrightarrow> pure_draw g \<Longrightarrow> pure_draw (\<lambda>s. f (g s))"
  by (rule pure_drawI) (simp add: pure_drawD)

lemma pure_draw_put: "pure_draw (putpx x y c)"
  by (rule pure_drawI) (auto simp: putpx_def Let_def split_def)

lemma pure_draw_fold: "(\<And>i. pure_draw (f i)) \<Longrightarrow> pure_draw (fold f xs)"
proof (induction xs)
  case (Cons a xs)
  then show ?case using pure_draw_comp [of "fold f xs" "f a"] by (simp add: comp_def)
qed (rule pure_drawI, simp)

lemma pure_draw_for: "(\<And>i. pure_draw (f i)) \<Longrightarrow> pure_draw (for_upto n f)"
  unfolding for_upto_def by (rule pure_draw_fold)

lemma pure_draw_paint: "pure_draw (paint putpx pts c)"
proof -
  have "pure_draw (fold (\<lambda>(x, y). putpx x y c) pts)"
    by (rule pure_draw_fold) (simp add: split_def pure_draw_put)
  then show ?thesis by (rule back_subst [of pure_draw]) (rule ext, simp add: paint_def)
qed

lemma pure_draw_rect: "pure_draw (fillRect x y w h c)"
  by (rule pure_drawI) (simp add: fillRect_paint pure_drawD [OF pure_draw_paint])

lemma pure_draw_disc: "pure_draw (fillCircle x y r c)"
  by (rule pure_drawI) (simp add: fillCircle_paint pure_drawD [OF pure_draw_paint])

lemma pure_draw_round: "pure_draw (fillRoundRect x y w h r c)"
  by (rule pure_drawI) (simp add: fillRoundRect_def Let_def pure_drawD [OF pure_draw_disc] pure_drawD [OF pure_draw_rect])

lemma pure_draw_char: "pure_draw (drawChar x y ch fg bg sz)"
  unfolding drawChar_def Let_def
  by (intro pure_draw_for pure_drawI) (simp add: pure_drawD [OF pure_draw_rect])

lemma pure_draw_text: "pure_draw (drawString_loop str sx sy)"
proof (rule pure_drawI)
  show "tf_buf (fst s) = None \<Longrightarrow> fst (drawString_loop str sx sy s) = fst s" for s
    by (induction str sx sy s rule: drawString_loop.induct)
      (simp_all add: pure_drawD [OF pure_draw_char] Let_def)
qed

lemma pure_draw_string: "tf_buf (fst s) = None \<Longrightarrow> fst (snd (drawString str x y s)) = fst s"
  by (simp add: drawString_def Let_def pure_drawD [OF pure_draw_text])

lemma drawRoundRect_returns:
  assumes "0 < r" "2 * r \<le> w" "2 * r \<le> h"
  obtains pts where "\<And>s. drawRoundRect x y w h r c s = Some (paint putpx (pts :: (int \<times> int) list) c s)"
proof -
  have r: "cdiv w 2 = w div 2" "cdiv h 2 = h div 2" using assms by (simp_all add: cdiv_nonneg)
  have le: "\<not> r > w div 2" "\<not> r > h div 2" using assms by linarith+
  have circ: "\<exists>ps. \<forall>s. drawCircle a b r c s = Some (paint putpx ps c s)" for a b
    using circle_walk [OF circle_start [OF assms(1)], of a b] by (auto simp: drawCircle_def)
  obtain p1 p2 p3 p4 where
    "\<And>s. drawCircle (x + r) (y + r) r c s = Some (paint putpx p1 c s)"
    "\<And>s. drawCircle (x + w - r - 1) (y + r) r c s = Some (paint putpx p2 c s)"
    "\<And>s. drawCircle (x + r) (y + h - r - 1) r c s = Some (paint putpx p3 c s)"
    "\<And>s. drawCircle (x + w - r - 1) (y + h - r - 1) r c s = Some (paint putpx p4 c s)"
    using circ by metis
  then have "drawRoundRect x y w h r c s = Some (paint putpx (map (\<lambda>i. (x + r + i, y)) [0..w - 2 * r - 1]
      @ map (\<lambda>i. (x + r + i, y + h - 1)) [0..w - 2 * r - 1] @ map (\<lambda>i. (x, y + r + i)) [0..h - 2 * r - 1]
      @ map (\<lambda>i. (x + w - 1, y + r + i)) [0..h - 2 * r - 1] @ p1 @ p2 @ p3 @ p4) c s)" for s
    using le by (simp add: drawRoundRect_def r drawFastHLine_paint drawFastVLine_paint paint_append)
  then show thesis by (rule that)
qed

text \<open>What the text setters change: an object keeps its target and its rotation.\<close>

definition panel_tft :: "TFT_eSPI \<Rightarrow> bool" where
  "panel_tft t \<longleftrightarrow> tf_buf t = None \<and> \<not> tf_is_sprite t \<and> tf_rotation t = 1"

lemma panel_tft_setters [simp]:
  "panel_tft (fst (setTextDatum d s)) = panel_tft (fst s)" "panel_tft (fst (setTextSize n s)) = panel_tft (fst s)"
  "panel_tft (fst (setTextColor c s)) = panel_tft (fst s)"
  by (simp_all add: panel_tft_def setTextDatum_def setTextSize_def setTextColor_def split_def)

lemma panel_tft_buf: "panel_tft t \<Longrightarrow> tf_buf t = None"
  by (simp add: panel_tft_def)

definition button_ok :: "tft_button \<Rightarrow> bool" where
  "button_ok b \<longleftrightarrow> 16 \<le> bt_w b \<and> 16 \<le> bt_h b"

lemma draw_button_returns:
  assumes "button_ok b" "panel_tft (fst s)"
  shows "\<exists>s'. draw_button b s = Some s' \<and> panel_tft (fst s')"
proof -
  obtain pts where pts: "\<And>s. drawRoundRect (bt_x b) (bt_y b) (bt_w b) (bt_h b) 8 0xFFFF s = Some (paint putpx pts 0xFFFF s)"
    by (rule drawRoundRect_returns [of 8 "bt_w b" "bt_h b" "bt_x b" "bt_y b"]) (use assms(1) in \<open>auto simp: button_ok_def\<close>)
  let ?f = "fillRoundRect (bt_x b) (bt_y b) (bt_w b) (bt_h b) 8 (if bt_on b then bt_color b else 0x7BEF) s"
  let ?p = "paint putpx pts 0xFFFF ?f"
  let ?t = "setTextDatum 4 (setTextSize 2 (setTextColor 0xFFFF ?p))"
  have "fst ?f = fst s" "fst ?p = fst ?f"
    using panel_tft_buf [OF assms(2)] pure_drawD [OF pure_draw_round] pure_drawD [OF pure_draw_paint] by metis+
  then have t: "panel_tft (fst ?t)" using assms(2) by simp
  then show ?thesis
    using pure_draw_string [OF panel_tft_buf [OF t]] by (simp add: draw_button_def Let_def pts)
qed

lemma draw_buttons_returns:
  "\<forall>b \<in> set bs. button_ok b \<Longrightarrow> panel_tft (fst s) \<Longrightarrow> \<exists>s'. draw_buttons bs s = Some s' \<and> panel_tft (fst s')"
proof (induction bs arbitrary: s)
  case (Cons b bs)
  with draw_button_returns [of b s] show ?case by fastforce
qed simp

text \<open>Pressing: the buttons under the point are toggled and no other is.\<close>

definition toggle_at :: "int \<Rightarrow> int \<Rightarrow> tft_button \<Rightarrow> tft_button" where
  "toggle_at x y b = (if is_hit x y b then b\<lparr>bt_on := \<not> bt_on b\<rparr> else b)"

lemma button_ok_toggle [simp]: "button_ok (toggle_at x y b) = button_ok b" "button_ok (b\<lparr>bt_on := v\<rparr>) = button_ok b"
  by (simp_all add: toggle_at_def button_ok_def)

lemma press_buttons_toggle:
  "\<forall>b \<in> set bs. button_ok b \<Longrightarrow> panel_tft (fst s) \<Longrightarrow>
     \<exists>s'. press_buttons x y bs s = Some (map (toggle_at x y) bs, s') \<and> panel_tft (fst s')"
proof (induction bs arbitrary: s)
  case (Cons b bs)
  show ?case
  proof (cases "is_hit x y b")
    case True
    have "button_ok (b\<lparr>bt_on := \<not> bt_on b\<rparr>)" using Cons.prems(1) by simp
    from draw_button_returns [OF this Cons.prems(2)] obtain s1 where
      "draw_button (b\<lparr>bt_on := \<not> bt_on b\<rparr>) s = Some s1" "panel_tft (fst s1)" by blast
    with Cons.IH [of s1] Cons.prems(1) True show ?thesis by (auto simp: toggle_at_def)
  next
    case False
    with Cons.IH [of s] Cons.prems show ?thesis by (auto simp: toggle_at_def)
  qed
qed simp

section \<open>A tap toggles once\<close>

definition panel_runs :: "statics sim \<Rightarrow> fw \<Rightarrow> bool" where
  "panel_runs S w \<longleftrightarrow> (\<exists>i < length (s_reg S). w_active w = Some i \<and> s_reg S ! i = cydtft_target) \<and>
     panel_tft (ct_tft (w_ext w)) \<and> (\<forall>b \<in> set (ct_buttons (w_ext w)). button_ok b)"

lemma panel_target_native:
  assumes "panel_runs S w"
  shows "\<not> qemu_agent_active S w" "active_board S w = Some cydtft_board" "sim_step (s_reg S) w = cydtft_loop w"
  using assms
  by (auto simp: panel_runs_def qemu_agent_active_def active_board_def active_target_def sim_step_def
      active_loop_def cydtft_target_def)

lemma panel_loop:
  assumes "panel_runs S w" "sim_touch (w_input w) = (if p then Some (x, y) else None)" "on_screen x y"
  shows "panel_runs S (cydtft_loop w) \<and> w_input (cydtft_loop w) = w_input w \<and>
    ct_was_touched (w_ext (cydtft_loop w)) = p \<and>
    ct_buttons (w_ext (cydtft_loop w))
      = (if p \<and> \<not> ct_was_touched (w_ext w) then map (toggle_at x y) (ct_buttons (w_ext w)) else ct_buttons (w_ext w))"
proof -
  have P: "panel_tft (ct_tft (w_ext w))" "\<forall>b \<in> set (ct_buttons (w_ext w)). button_ok b"
    using assms(1) by (simp_all add: panel_runs_def)
  have r: "tf_rotation (ct_tft (w_ext w)) = 1" using P(1) by (simp add: panel_tft_def)
  have t: "getTouch (ct_tft (w_ext w)) (w_input w) = (if p then Some (word_of_int x, word_of_int y) else None)"
    using assms(2) by (simp add: getTouch_def r)
  have u: "uint (word_of_int x :: 16 word) = x" "uint (word_of_int y :: 16 word) = y"
    using assms(3) by (simp_all add: on_screen_def unsigned_of_int take_bit_int_eq_self)
  obtain s where s: "press_buttons x y (ct_buttons (w_ext w)) (tft_of w) = Some (map (toggle_at x y) (ct_buttons (w_ext w)), s)"
    "panel_tft (fst s)"
    using press_buttons_toggle [OF P(2), of "tft_of w" x y] P(1) by (auto simp: tft_of_def)
  show ?thesis
    using assms(1) P s by (auto simp: cydtft_loop_def t u Let_def wait_ms_def put_tft_def panel_runs_def)
qed

lemma panel_loops:
  assumes "panel_runs S w" "sim_touch (w_input w) = (if p then Some (x, y) else None)" "on_screen x y"
  shows "(\<forall>k. panel_runs S ((cydtft_loop ^^ k) w)) \<and> steps S (int (Suc n)) w = (cydtft_loop ^^ Suc n) w \<and>
    (let v = (cydtft_loop ^^ Suc n) w in w_input v = w_input w \<and> ct_was_touched (w_ext v) = p \<and>
      ct_buttons (w_ext v)
        = (if p \<and> \<not> ct_was_touched (w_ext w) then map (toggle_at x y) (ct_buttons (w_ext w)) else ct_buttons (w_ext w)))"
proof -
  have all: "panel_runs S ((cydtft_loop ^^ k) w) \<and> w_input ((cydtft_loop ^^ k) w) = w_input w \<and>
    (0 < k \<longrightarrow> ct_was_touched (w_ext ((cydtft_loop ^^ k) w)) = p \<and> ct_buttons (w_ext ((cydtft_loop ^^ k) w))
      = (if p \<and> \<not> ct_was_touched (w_ext w) then map (toggle_at x y) (ct_buttons (w_ext w)) else ct_buttons (w_ext w)))" for k
  proof (induction k)
    case (Suc k)
    let ?v = "(cydtft_loop ^^ k) w"
    have "panel_runs S ?v" "sim_touch (w_input ?v) = (if p then Some (x, y) else None)"
      using Suc assms(2) by auto
    from panel_loop [OF this assms(3)] Suc show ?case by (cases k) auto
  qed (use assms in simp)
  have st: "(sim_step (s_reg S) ^^ k) w = (cydtft_loop ^^ k) w" for k
    by (induction k) (simp_all add: panel_target_native(3) [OF conjunct1 [OF all]])
  have "steps S (int (Suc n)) w = (cydtft_loop ^^ Suc n) w"
    unfolding sim_run_steps_def run_steps_funpow nat_int by (rule st)
  then show ?thesis using all [of "Suc n"] all by (simp only: Let_def) blast
qed

lemma panel_tap:
  assumes "panel_runs S w" "on_screen x y" "\<not> ct_was_touched (w_ext w)"
  shows "\<exists>w'. apply_tap x y S w = (None, w') \<and> panel_runs S w' \<and> \<not> ct_was_touched (w_ext w') \<and>
    ct_buttons (w_ext w') = map (toggle_at x y) (ct_buttons (w_ext w))"
proof -
  let ?a = "set_touch True x y w"
  have a: "panel_runs S ?a" "sim_touch (w_input ?a) = (if True then Some (x, y) else None)"
    "w_ext ?a = w_ext w"
    using assms(1) by (simp_all add: set_touch_def panel_runs_def sim_touch_def)
  note h = panel_loops [OF a(1,2) assms(2), of 3, unfolded Let_def]
  define b where "b = release_touch (steps S 4 ?a)"
  have s4: "steps S 4 ?a = (cydtft_loop ^^ 4) ?a" using h by (simp del: funpow.simps)
  have h4: "panel_runs S (steps S 4 ?a)" "ct_was_touched (w_ext (steps S 4 ?a))"
    "ct_buttons (w_ext (steps S 4 ?a)) = map (toggle_at x y) (ct_buttons (w_ext w))"
    unfolding s4 using h assms(3) a(3) by (simp_all del: funpow.simps)
  have b: "panel_runs S b" "sim_touch (w_input b) = (if False then Some (x, y) else None)"
    "ct_buttons (w_ext b) = map (toggle_at x y) (ct_buttons (w_ext w))"
    using h4 by (simp_all add: b_def release_touch_def panel_runs_def sim_touch_def)
  note i = panel_loops [OF b(1,2) assms(2), of 3, unfolded Let_def]
  have t4: "steps S 4 b = (cydtft_loop ^^ 4) b" using i by (simp del: funpow.simps)
  have i4: "panel_runs S (steps S 4 b)" "\<not> ct_was_touched (w_ext (steps S 4 b))"
    "ct_buttons (w_ext (steps S 4 b)) = map (toggle_at x y) (ct_buttons (w_ext w))"
    unfolding t4 using i b(3) by (simp_all del: funpow.simps)
  have "apply_tap x y S w = (None, steps S 4 b)"
    using assms by (simp add: apply_tap_def Let_def panel_target_native in_board_def cydtft_board_def on_screen_def
        b_def [symmetric])
  with i4 show ?thesis by simp
qed

lemma panel_taps:
  "panel_runs S w \<Longrightarrow> \<not> ct_was_touched (w_ext w) \<Longrightarrow> \<forall>(x, y) \<in> set ps. on_screen x y \<Longrightarrow>
     ct_buttons (w_ext (tap_all S ps w)) = fold (\<lambda>(x, y). map (toggle_at x y)) ps (ct_buttons (w_ext w))"
proof (induction ps arbitrary: w)
  case (Cons p ps)
  obtain x y where p: "p = (x, y)" by force
  with Cons.prems panel_tap [of S w x y] obtain w' where
    "apply_tap x y S w = (None, w')" "panel_runs S w'" "\<not> ct_was_touched (w_ext w')"
    "ct_buttons (w_ext w') = map (toggle_at x y) (ct_buttons (w_ext w))" by auto
  with Cons.IH [of w'] Cons.prems(3) show ?case by (simp add: p tap_all_def)
qed (simp add: tap_all_def)

lemma toggles_state:
  "map bt_on (fold (\<lambda>(x, y). map (toggle_at x y)) ps bs)
     = map (\<lambda>b. bt_on b \<noteq> odd (length (filter (\<lambda>(x, y). is_hit x y b) ps))) bs"
proof (induction ps arbitrary: bs)
  case (Cons p ps)
  obtain x y where p: "p = (x, y)" by force
  have "is_hit u v (toggle_at x y b) = is_hit u v b" for u v b by (simp add: is_hit_def toggle_at_def)
  then show ?case by (auto simp: p Cons.IH) (auto simp: toggle_at_def)
qed simp

lemma panel_setup:
  assumes "tf_buf (ct_tft (w_ext w)) = None" "\<not> tf_is_sprite (ct_tft (w_ext w))"
    and "\<forall>b \<in> set (ct_buttons (w_ext w)). button_ok b"
  shows "panel_tft (ct_tft (w_ext (cydtft_setup w))) \<and> ct_buttons (w_ext (cydtft_setup w)) = ct_buttons (w_ext w) \<and>
    ct_was_touched (w_ext (cydtft_setup w)) = ct_was_touched (w_ext w) \<and> w_active (cydtft_setup w) = w_active w"
proof -
  have e: "w_ext (say t v) = w_ext v" "w_active (say t v) = w_active v" "tft_of (say t v) = tft_of v" for t and v :: fw
    by (simp_all add: say_def tft_of_def)
  define s0 where "s0 = fillScreen 0 (setRotation 1 (tft_init (tft_of w)))"
  have "panel_tft (fst s0)"
    using assms(1,2) by (simp add: s0_def fillScreen_def setRotation_def tft_init_def tft_of_def panel_tft_def Let_def)
  define s1 where "s1 = setTextDatum 1 (setTextSize 3 (setTextColor 0xFFE0 s0))"
  have s1: "panel_tft (fst s1)" using \<open>panel_tft (fst s0)\<close> by (simp add: s1_def)
  define s2 where "s2 = setTextDatum 0 (snd (drawString ''CYD Control'' (cdiv (tf_w (fst s1)) 2) 14 s1))"
  have "panel_tft (fst s2)" using s1 pure_draw_string [OF panel_tft_buf [OF s1]] by (simp add: s2_def)
  from draw_buttons_returns [OF assms(3) this] obtain s3 where
    s3: "draw_buttons (ct_buttons (w_ext w)) s2 = Some s3" "panel_tft (fst s3)" by blast
  have "cydtft_setup w = say ''cyd_tft: ready'' (put_tft s3 (say ''cyd_tft: booting'' w))"
    by (simp add: cydtft_setup_def Let_def e s0_def [symmetric] s1_def [symmetric] s2_def [symmetric] s3)
  then show ?thesis using s3(2) by (simp add: e put_tft_def)
qed

text \<open>
  Property C14. Each tap toggles what it hits, once: booted under its name, and then tapped at any
  points of the screen, the panel has a button on exactly when it was on before and hit an even
  number of times, or off and hit an odd number of times. A held touch is polled several times and
  acted on at its press edge only; every outline drawn on the way returns.
\<close>

theorem panel_toggles_once:
  assumes "sim_target ''cyd_tft'' (s_reg S) = Some i" and "s_reg S ! i = cydtft_target"
    and "tf_buf (ct_tft (w_ext w)) = None" and "\<not> tf_is_sprite (ct_tft (w_ext w))"
    and "\<forall>b \<in> set (ct_buttons (w_ext w)). button_ok b" and "\<not> ct_was_touched (w_ext w)"
    and "\<forall>(x, y) \<in> set ps. on_screen x y"
  shows "\<exists>w0. sim_boot (s_reg S) hooks ''cyd_tft'' w = (True, w0) \<and>
    map bt_on (ct_buttons (w_ext (tap_all S ps w0)))
      = map (\<lambda>b. bt_on b \<noteq> odd (length (filter (\<lambda>(x, y). is_hit x y b) ps))) (ct_buttons (w_ext w))"
proof -
  let ?b = "boot_state (s_reg S) hooks i w"
  have b: "w_active ?b = Some i" "w_ext ?b = w_ext w" by (simp_all add: boot_state_keeps)
  note p = panel_setup [of ?b, unfolded b, OF assms(3-5)]
  have "panel_runs S (cydtft_setup ?b)"
    using p sim_target_Some [OF assms(1)] assms(2,5) by (auto simp: panel_runs_def)
  moreover have "sim_boot (s_reg S) hooks ''cyd_tft'' w = (True, cydtft_setup ?b)"
    by (simp add: sim_boot_def assms(1,2) Let_def cydtft_target_def)
  ultimately show ?thesis
    using panel_taps [OF _ _ assms(7), of S "cydtft_setup ?b"] p assms(6) by (auto simp: toggles_state)
qed

definition demo_panel :: "statics sim" where
  "demo_panel = \<lparr>s_reg = [cyd_target, cydtft_target], s_hooks = [], s_slots = initial_slots [cyd_target, cydtft_target] [],
     s_rx_valid = (\<lambda>_. True), s_rx_search = (\<lambda>text rx. str_find rx text \<noteq> None)\<rparr>"

theorem panel_toggles_once_witness:
  "\<exists>w0. sim_boot [cyd_target, cydtft_target] [HookInput] ''cyd_tft''
      (demo_fw\<lparr>w_ext := demo_statics\<lparr>ct_buttons := panel_buttons\<rparr>\<rparr>) = (True, w0) \<and>
    map bt_on (ct_buttons (w_ext (tap_all demo_panel [(30, 80), (200, 100), (40, 90), (200, 200)] w0)))
      = [False, True, True]"
proof -
  let ?w = "demo_fw\<lparr>w_ext := demo_statics\<lparr>ct_buttons := panel_buttons\<rparr>\<rparr>"
  have t: "sim_target ''cyd_tft'' (s_reg demo_panel) = Some 1" "s_reg demo_panel ! 1 = cydtft_target"
    by (simp_all add: demo_panel_def cyd_target_def cydtft_target_def)
  have p: "\<forall>(x, y) \<in> set [(30, 80), (200, 100), (40, 90), (200, 200)]. on_screen x y" by (simp add: on_screen_def)
  have w: "tf_buf (ct_tft (w_ext ?w)) = None" "\<not> tf_is_sprite (ct_tft (w_ext ?w))"
    "\<forall>b \<in> set (ct_buttons (w_ext ?w)). button_ok b" "\<not> ct_was_touched (w_ext ?w)"
    by (simp_all add: demo_fw_def demo_statics_def tft_new_def panel_buttons_def button_ok_def)
  from panel_toggles_once [OF t w p, of "[HookInput]"] show ?thesis
    by (simp add: demo_panel_def panel_buttons_def is_hit_def)
qed

end
