(* ===== verification/GuestApps.thy ===== *)
theory GuestApps
  imports GuestAgent Tft
begin

text \<open>
  Firmware of the emulated boards: the display demo \<^verbatim>\<open>tools/qemu/rgb_demo\<close> with its HTTP handler,
  the touch driver \<^verbatim>\<open>esp_lcd_touch_esprite.c\<close>, and the input callbacks of \<^verbatim>\<open>lvgl_demo\<close>. They poll
  the state that the agent of \<open>GuestAgent\<close> injects; the last section runs the agent, the HTTP
  handler and the demo's render loop together. ESP-IDF, cJSON and LVGL are not in the repository:
  the panel is the last frame handed to it, the JSON parser a parameter.
\<close>

section \<open>The HTTP handler (\<^verbatim>\<open>rgb_net.c\<close>)\<close>

record net_marker =
  nm_color :: int   \<comment> \<open>\<^verbatim>\<open>g_marker_color\<close>\<close>
  nm_events :: int  \<comment> \<open>\<^verbatim>\<open>g_marker_events\<close>\<close>

datatype http_reply = Http_ok | Http_400 string

text \<open>
  \<open>color\<close> stands for \<^verbatim>\<open>cJSON_Parse\<close>, \<^verbatim>\<open>cJSON_GetObjectItem\<close> and \<^verbatim>\<open>cJSON_IsNumber\<close>: the number
  under \<^verbatim>\<open>"color"\<close>, if there is one. \<open>body\<close> is what one \<^verbatim>\<open>httpd_req_recv\<close> delivers, cut at the
  buffer; an empty one stands for an error too.
\<close>

definition snapshot_post :: "(string \<Rightarrow> int option) \<Rightarrow> string \<Rightarrow> net_marker \<Rightarrow> http_reply \<times> net_marker" where
  "snapshot_post color body m =
     (let body = take 255 body
      in if body = [] then (Http_400 ''empty body'', m)
         else (case color (c_str body) of
             None \<Rightarrow> (Http_400 (''need {'' @ [CHR 0x22] @ ''color'' @ [CHR 0x22] @ '': 0..65535}''), m)
           | Some v \<Rightarrow>
               if v < 0 \<or> v > 0xFFFF
               then (Http_400 (''need {'' @ [CHR 0x22] @ ''color'' @ [CHR 0x22] @ '': 0..65535}''), m)
               else (Http_ok, \<lparr>nm_color = v, nm_events = nm_events m + 1\<rparr>)))"

section \<open>The display demo (\<^verbatim>\<open>rgb_demo.c\<close>)\<close>

abbreviation PW :: int where "PW \<equiv> 320"
abbreviation PH :: int where "PH \<equiv> 240"

definition BTN_PIN :: int where
  "BTN_PIN = 9"

record rgb_demo =
  rd_fb :: "16 word list"              \<comment> \<open>\<^verbatim>\<open>static uint16_t fb[W * H]\<close>\<close>
  rd_inv :: int
  rd_events_seen :: int
  rd_have_sq :: bool
  rd_sq_x :: int
  rd_sq_y :: int
  rd_marker_seen :: int
  rd_have_marker :: bool
  rd_marker :: "16 word"
  rd_touch_seen :: int
  rd_drawn_once :: bool
  rd_panel :: "16 word list option"    \<comment> \<open>the last frame given to \<^verbatim>\<open>esp_lcd_panel_draw_bitmap\<close>\<close>

definition rgb_start :: rgb_demo where
  "rgb_start = \<lparr>rd_fb = replicate 76800 0, rd_inv = 0, rd_events_seen = 0, rd_have_sq = False, rd_sq_x = 0,
     rd_sq_y = 0, rd_marker_seen = 0, rd_have_marker = False, rd_marker = 0, rd_touch_seen = 0,
     rd_drawn_once = False, rd_panel = None\<rparr>"

definition px_store :: "int \<Rightarrow> int \<Rightarrow> 16 word \<Rightarrow> 16 word list \<Rightarrow> 16 word list" where
  "px_store x y c f = f[nat (y * PW + x) := c]"

text \<open>The two inner loops of the frame: the quadrants, and a square of side \<open>2 * half\<close> clipped to the panel.\<close>

definition fill_quadrants :: "int \<Rightarrow> 16 word list \<Rightarrow> 16 word list" where
  "fill_quadrants i f =
     (let tl = (if i \<noteq> 0 then 0x07E0 else 0xF800); tr = (if i \<noteq> 0 then 0xF800 else 0x07E0);
          bl = (if i \<noteq> 0 then 0xFFFF else 0x001F); br = (if i \<noteq> 0 then 0x001F else 0xFFFF)
      in for_upto PH (\<lambda>y. for_upto PW (\<lambda>x. px_store x y
           (if y < PH div 2 then (if x < PW div 2 then tl else tr) else (if x < PW div 2 then bl else br)))) f)"

definition fill_square :: "int \<Rightarrow> int \<Rightarrow> int \<Rightarrow> 16 word \<Rightarrow> 16 word list \<Rightarrow> 16 word list" where
  "fill_square cx cy half c f =
     fold (\<lambda>y. fold (\<lambda>x f. if x \<ge> 0 \<and> x < PW \<and> y \<ge> 0 \<and> y < PH then px_store x y c f else f)
       [cx - half..cx + half - 1]) [cy - half..cy + half - 1] f"

definition draw_frame :: "rgb_demo \<Rightarrow> 16 word list" where
  "draw_frame d =
     (let f = fill_quadrants (rd_inv d) (rd_fb d);
          f = (if rd_have_sq d then fill_square (rd_sq_x d) (rd_sq_y d) 10 0 f else f)
      in if rd_have_marker d then fill_square 240 60 20 (rd_marker d) f else f)"

text \<open>One round of the render loop against the injected state \<open>g\<close> and the marker \<open>m\<close>.\<close>

definition rgb_poll :: "guest_input \<Rightarrow> net_marker \<Rightarrow> rgb_demo \<Rightarrow> rgb_demo" where
  "rgb_poll g m d =
     (let events = esprite_agent_gpio_events BTN_PIN g;
          (dirty, d) = (if events \<noteq> rd_events_seen d
             then (True, d\<lparr>rd_inv := (rd_inv d + (events - rd_events_seen d)) mod 2, rd_events_seen := events\<rparr>)
             else (False, d));
          (touches, tx, ty) = esprite_agent_touch_events g;
          (dirty, d) = (if touches \<noteq> rd_touch_seen d
             then (True, d\<lparr>rd_touch_seen := touches, rd_have_sq := True, rd_sq_x := tx, rd_sq_y := ty\<rparr>)
             else (dirty, d));
          (dirty, d) = (if nm_events m \<noteq> rd_marker_seen d
             then (True, d\<lparr>rd_marker_seen := nm_events m, rd_have_marker := True,
                          rd_marker := word_of_int (nm_color m)\<rparr>)
             else (dirty, d))
      in if dirty \<or> \<not> rd_drawn_once d
         then d\<lparr>rd_drawn_once := True, rd_fb := draw_frame d, rd_panel := Some (draw_frame d)\<rparr>
         else d)"

section \<open>The touch driver (\<^verbatim>\<open>esp_lcd_touch_esprite.c\<close>)\<close>

record lcd_touch =
  lt_x_max :: int
  lt_y_max :: int
  lt_points :: nat
  lt_x :: "16 word"          \<comment> \<open>\<^verbatim>\<open>coords[0]\<close>\<close>
  lt_y :: "16 word"
  lt_strength :: "16 word"

datatype esp_err = ESP_OK | ESP_ERR_INVALID_ARG | ESP_ERR_NO_MEM

definition touch_read_data :: "guest_input \<Rightarrow> lcd_touch \<Rightarrow> esp_err \<times> lcd_touch" where
  "touch_read_data g tp =
     (case esprite_agent_touch g of
        None \<Rightarrow> (ESP_OK, tp\<lparr>lt_points := 0\<rparr>)
      | Some (x, y) \<Rightarrow>
          (let x = (if x > lt_x_max tp then lt_x_max tp else x);
               y = (if y > lt_y_max tp then lt_y_max tp else y)
           in (ESP_OK, tp\<lparr>lt_points := 1, lt_x := word_of_int x, lt_y := word_of_int y, lt_strength := 1\<rparr>)))"

text \<open>The points copied out, at most one as the driver never stores more.\<close>

definition touch_get_xy :: "nat \<Rightarrow> lcd_touch \<Rightarrow> bool \<times> (16 word \<times> 16 word \<times> 16 word) list \<times> lcd_touch" where
  "touch_get_xy max_points tp =
     (let n = (if lt_points tp > max_points then max_points else lt_points tp)
      in (n > 0, replicate n (lt_x tp, lt_y tp, lt_strength tp), tp\<lparr>lt_points := 0\<rparr>))"

text \<open>A null argument is \<^const>\<open>None\<close>; \<open>mem\<close> says whether \<^verbatim>\<open>calloc\<close> succeeds.\<close>

definition esp_lcd_touch_new_esprite :: "(int \<times> int) option \<Rightarrow> bool \<Rightarrow> bool \<Rightarrow> esp_err \<times> lcd_touch option" where
  "esp_lcd_touch_new_esprite config has_out mem =
     (case config of
        None \<Rightarrow> (ESP_ERR_INVALID_ARG, None)
      | Some (xm, ym) \<Rightarrow>
          if \<not> has_out then (ESP_ERR_INVALID_ARG, None)
          else if \<not> mem then (ESP_ERR_NO_MEM, None)
          else (ESP_OK, Some \<lparr>lt_x_max = xm, lt_y_max = ym, lt_points = 0, lt_x = 0, lt_y = 0, lt_strength = 0\<rparr>))"

section \<open>The input side of the LVGL demo (\<^verbatim>\<open>lvgl_demo.c\<close>)\<close>

text \<open>The pointer state given to LVGL: the pressed point, or \<^const>\<open>None\<close> for released.\<close>

definition touch_read_cb :: "guest_input \<Rightarrow> lcd_touch \<Rightarrow> (int \<times> int) option \<times> lcd_touch" where
  "touch_read_cb g tp =
     (let tp = snd (touch_read_data g tp)
      in case touch_get_xy 1 tp of (got, ps, tp) \<Rightarrow>
           (if got \<and> ps \<noteq> [] then (case hd ps of (x, y, s) \<Rightarrow> (Some (uint x, uint y), tp)) else (None, tp)))"

datatype demo_screen = Scr_control | Scr_about

record demo_ui =
  ui_seen :: int                \<comment> \<open>\<^verbatim>\<open>static int seen\<close>\<close>
  ui_screen :: demo_screen      \<comment> \<open>\<^verbatim>\<open>lv_screen_active()\<close>\<close>
  ui_indicator :: int           \<comment> \<open>background of \<^verbatim>\<open>s_indicator\<close>, \<open>0xRRGGBB\<close>\<close>
  ui_level_blue :: "8 word"     \<comment> \<open>blue channel of \<^verbatim>\<open>s_level_box\<close>\<close>

definition power_switch_cb :: "bool \<Rightarrow> demo_ui \<Rightarrow> demo_ui" where
  "power_switch_cb on u = u\<lparr>ui_indicator := (if on then 0x00FF00 else 0xFF0000)\<rparr>"

definition level_slider_cb :: "int \<Rightarrow> demo_ui \<Rightarrow> demo_ui" where
  "level_slider_cb v u = u\<lparr>ui_level_blue := word_of_int v\<rparr>"

definition boot_button_timer_cb :: "guest_input \<Rightarrow> demo_ui \<Rightarrow> demo_ui" where
  "boot_button_timer_cb g u =
     (let events = esprite_agent_gpio_events 9 g
      in if events \<noteq> ui_seen u
         then u\<lparr>ui_seen := events, ui_screen := (if ui_screen u = Scr_control then Scr_about else Scr_control)\<rparr>
         else u)"

text \<open>LVGL sees a press exactly while the agent holds one, at the agent's point clamped to the panel.\<close>

lemma touch_read_cb_point:
  assumes "guest_ok g" "0 \<le> lt_x_max tp" "lt_x_max tp < 65536" "0 \<le> lt_y_max tp" "lt_y_max tp < 65536"
  shows "fst (touch_read_cb g tp) =
    map_option (\<lambda>(x, y). (min x (lt_x_max tp), min y (lt_y_max tp))) (esprite_agent_touch g)"
proof (cases "esprite_agent_touch g")
  case (Some p)
  obtain x y where p: "p = (x, y)" by force
  have "0 \<le> x" "0 \<le> y" using assms(1) Some p by (auto simp: guest_ok_def esprite_agent_touch_def split: if_splits)
  then have "uint (word_of_int (min x (lt_x_max tp)) :: 16 word) = min x (lt_x_max tp)"
    "uint (word_of_int (min y (lt_y_max tp)) :: 16 word) = min y (lt_y_max tp)"
    using assms by (simp_all add: unsigned_of_int take_bit_int_eq_self)
  moreover have "(if x > lt_x_max tp then lt_x_max tp else x) = min x (lt_x_max tp)"
    "(if y > lt_y_max tp then lt_y_max tp else y) = min y (lt_y_max tp)" by auto
  ultimately show ?thesis
    unfolding touch_read_cb_def touch_read_data_def touch_get_xy_def Some p by (simp add: Let_def)
qed (simp add: touch_read_cb_def touch_read_data_def touch_get_xy_def Let_def)

section \<open>The pixels of a frame\<close>

definition px_at :: "16 word list \<Rightarrow> int \<Rightarrow> int \<Rightarrow> 16 word" where
  "px_at f x y = f ! nat (y * PW + x)"

definition on_panel :: "int \<Rightarrow> int \<Rightarrow> bool" where
  "on_panel x y \<longleftrightarrow> 0 \<le> x \<and> x < PW \<and> 0 \<le> y \<and> y < PH"

definition px_put :: "int \<Rightarrow> int \<Rightarrow> 16 word \<Rightarrow> 16 word list \<Rightarrow> 16 word list" where
  "px_put x y c f = (if on_panel x y then px_store x y c f else f)"

text \<open>The frame array is a drawing surface like the simulator's own.\<close>

abbreviation as_fb :: "16 word list \<Rightarrow> Framebuffer" where
  "as_fb f \<equiv> \<lparr>fb_w = PW, fb_h = PH, fb_px = f\<rparr>"

lemma px_as_fb:
  "on_panel u v \<longleftrightarrow> fb_inside (as_fb f) u v" "as_fb (px_put x y c f) = fb_put x y c (as_fb f)"
  "on_panel u v \<Longrightarrow> px_at f u v = fb_pixel (as_fb f) u v" "length f = 76800 \<longleftrightarrow> fb_ok (as_fb f)"
  by (auto simp: on_panel_def fb_inside_def px_put_def px_store_def fb_put_def fb_store_def px_at_def
      fb_pixel_def fb_ok_def)

interpretation rgb: pixel_sink px_put px_at "\<lambda>f. on_panel" "\<lambda>f. length f = 76800"
proof
  fix f :: "16 word list" and x y u v c
  assume "length f = 76800" and uv: "on_panel u v"
  then have "fb_ok (as_fb f)" "fb_inside (as_fb f) u v" using px_as_fb by blast+
  from fb.get_put [OF this, of x y c]
  show "px_at (px_put x y c f) u v = (if u = x \<and> v = y then c else px_at f u v)"
    by (simp only: px_as_fb(3) [OF uv] px_as_fb(2))
qed (simp_all add: px_put_def px_store_def)

lemma set_grid: "(u, v) \<in> set (concat (map (\<lambda>y. map (\<lambda>x. (x, y)) [a..b]) [c..d]))
    \<longleftrightarrow> a \<le> u \<and> u \<le> b \<and> c \<le> v \<and> v \<le> d"
  by (auto intro!: bexI [of _ v])

lemma fold_px_put:
  "length f = 76800 \<Longrightarrow>
     length (fold (\<lambda>(x, y). px_put x y (col x y)) pts f) = 76800 \<and>
     (on_panel u v \<longrightarrow> px_at (fold (\<lambda>(x, y). px_put x y (col x y)) pts f) u v
        = (if (u, v) \<in> set pts then col u v else px_at f u v))"
proof (induction pts arbitrary: f)
  case (Cons p pts)
  obtain x y where p: "p = (x, y)" by force
  have "length (px_put x y (col x y) f) = 76800" using Cons.prems by (rule rgb.put_ok)
  from Cons.IH [OF this] show ?case using Cons.prems by (auto simp: p rgb.get_put)
qed simp

lemma px_store_put: "on_panel x y \<Longrightarrow> px_store x y c f = px_put x y c f"
  by (simp add: px_put_def)

definition quadrant_color :: "bool \<Rightarrow> int \<Rightarrow> int \<Rightarrow> 16 word" where
  "quadrant_color inverted x y =
     (if y < 120 then (if (x < 160) = inverted then 0x07E0 else 0xF800)
      else (if (x < 160) = inverted then 0xFFFF else 0x001F))"

lemma fill_quadrants_pixels:
  assumes "length f = 76800"
  shows "length (fill_quadrants i f) = 76800"
    "on_panel u v \<Longrightarrow> px_at (fill_quadrants i f) u v = quadrant_color (i \<noteq> 0) u v"
proof -
  let ?col = "quadrant_color (i \<noteq> 0)"
  let ?pts = "concat (map (\<lambda>y. map (\<lambda>x. (x, y)) [0..319]) [0..239])"
  have q: "(if y < PH div 2
        then (if x < PW div 2 then (if i \<noteq> 0 then 0x07E0 else 0xF800) else (if i \<noteq> 0 then 0xF800 else 0x07E0))
        else (if x < PW div 2 then (if i \<noteq> 0 then 0xFFFF else 0x001F) else (if i \<noteq> 0 then 0x001F else 0xFFFF)))
      = ?col x y" for x y
    by (simp add: quadrant_color_def)
  have row: "fold (\<lambda>x. px_store x y (?col x y)) xs f = fold (\<lambda>(x, y). px_put x y (?col x y)) (map (\<lambda>x. (x, y)) xs) f"
    if "set xs \<subseteq> {0..319}" "y \<in> {0..239}" for xs y f
    using that
  proof (induction xs arbitrary: f)
    case (Cons x xs)
    then have "on_panel x y" by (simp add: on_panel_def)
    then show ?case using Cons by (simp add: px_put_def)
  qed simp
  have rows: "fold (\<lambda>y. fold (\<lambda>x. px_store x y (?col x y)) [0..319]) ys f
      = fold (\<lambda>(x, y). px_put x y (?col x y)) (concat (map (\<lambda>y. map (\<lambda>x. (x, y)) [0..319]) ys)) f"
    if "set ys \<subseteq> {0..239}" for ys f
    using that
  proof (induction ys arbitrary: f)
    case (Cons y ys)
    then show ?case using row [of "[0..319]" y] by simp
  qed simp
  have eq: "fill_quadrants i f = fold (\<lambda>(x, y). px_put x y (?col x y)) ?pts f"
    unfolding fill_quadrants_def Let_def q for_upto_def using rows [of "[0..239]"] by simp
  show "length (fill_quadrants i f) = 76800" unfolding eq using fold_px_put [OF assms] by blast
  show "px_at (fill_quadrants i f) u v = ?col u v" if "on_panel u v"
    unfolding eq using that fold_px_put [OF assms, of ?col ?pts u v] unfolding set_grid by (simp add: on_panel_def)
qed

lemma fill_square_pixels:
  assumes "length f = 76800"
  shows "length (fill_square cx cy h c f) = 76800"
    "on_panel u v \<Longrightarrow> px_at (fill_square cx cy h c f) u v
      = (if cx - h \<le> u \<and> u < cx + h \<and> cy - h \<le> v \<and> v < cy + h then c else px_at f u v)"
proof -
  let ?pts = "concat (map (\<lambda>y. map (\<lambda>x. (x, y)) [cx - h..cx + h - 1]) [cy - h..cy + h - 1])"
  have row: "fold (\<lambda>x f. if x \<ge> 0 \<and> x < PW \<and> y \<ge> 0 \<and> y < PH then px_store x y c f else f) xs f
      = paint px_put (map (\<lambda>x. (x, y)) xs) c f" for xs y f
    by (induction xs arbitrary: f) (auto simp: px_put_def on_panel_def)
  have eq: "fill_square cx cy h c f = paint px_put ?pts c f"
    unfolding fill_square_def by (rule fold_paint) (rule row)
  show "length (fill_square cx cy h c f) = 76800" unfolding eq by (rule rgb.paint_ok [OF assms])
  show "on_panel u v \<Longrightarrow> px_at (fill_square cx cy h c f) u v
      = (if cx - h \<le> u \<and> u < cx + h \<and> cy - h \<le> v \<and> v < cy + h then c else px_at f u v)"
    unfolding eq by (subst rgb.get_paint [OF assms]) (auto simp only: set_grid, auto)
qed

section \<open>Agent, handler and render loop together\<close>

text \<open>
  What the panel has to show of the agent's counters and the marker: the quadrants, inverted when
  the button was pressed an odd number of times, the last touch, and the marker on top.
\<close>

definition rgb_spec :: "guest_input \<Rightarrow> net_marker \<Rightarrow> int \<Rightarrow> int \<Rightarrow> 16 word" where
  "rgb_spec g m u v =
     (if nm_events m \<noteq> 0 \<and> 220 \<le> u \<and> u < 260 \<and> 40 \<le> v \<and> v < 80 then word_of_int (nm_color m)
      else if g_touches g \<noteq> 0 \<and> g_x g - 10 \<le> u \<and> u < g_x g + 10 \<and> g_y g - 10 \<le> v \<and> v < g_y g + 10 then 0
      else quadrant_color (odd (esprite_agent_gpio_events BTN_PIN g)) u v)"

text \<open>
  A run: the agent gets bytes, and while a line makes it wait the render loop may poll the held
  state any number of times; the handler gets posts; the loop polls.
\<close>

inductive demo_run :: "(string \<Rightarrow> int option) \<Rightarrow> agent_task \<Rightarrow> net_marker \<Rightarrow> rgb_demo \<Rightarrow> bool" for color where
  start: "demo_run color agent_start \<lparr>nm_color = 0, nm_events = 0\<rparr> rgb_start"
| byte: "demo_run color t m d \<Longrightarrow>
    demo_run color (agent_byte c t) m
      (fold (\<lambda>(g, ms). rgb_poll g m ^^ n) (drop (length (gt_holds t)) (gt_holds (agent_byte c t))) d)"
| post: "demo_run color t m d \<Longrightarrow> demo_run color t (snd (snapshot_post color body m)) d"
| poll: "demo_run color t m d \<Longrightarrow> demo_run color t m (rgb_poll (gt_in t) m d)"

text \<open>Counters only grow, and while the touch counter stands the touch point does too.\<close>

definition later :: "guest_input \<Rightarrow> guest_input \<Rightarrow> bool" where
  "later g g' \<longleftrightarrow> g_touches g \<le> g_touches g' \<and>
     (g_touches g' = g_touches g \<longrightarrow> g_x g' = g_x g \<and> g_y g' = g_y g)"

definition demo_inv :: "guest_input \<Rightarrow> net_marker \<Rightarrow> rgb_demo \<Rightarrow> bool" where
  "demo_inv g m d \<longleftrightarrow> length (rd_fb d) = 76800 \<and> rd_inv d = rd_events_seen d mod 2 \<and>
     0 \<le> rd_touch_seen d \<and> rd_touch_seen d \<le> g_touches g \<and> rd_have_sq d = (rd_touch_seen d \<noteq> 0) \<and>
     (rd_touch_seen d = g_touches g \<longrightarrow> rd_have_sq d \<longrightarrow> rd_sq_x d = g_x g \<and> rd_sq_y d = g_y g) \<and>
     0 \<le> rd_marker_seen d \<and> rd_marker_seen d \<le> nm_events m \<and> rd_have_marker d = (rd_marker_seen d \<noteq> 0) \<and>
     (rd_marker_seen d = nm_events m \<longrightarrow> rd_have_marker d \<longrightarrow> rd_marker d = word_of_int (nm_color m)) \<and>
     (rd_drawn_once d \<longrightarrow> (\<exists>f. length f = 76800 \<and> rd_panel d = Some (draw_frame (d\<lparr>rd_fb := f\<rparr>))))"

lemma draw_frame_pixels:
  assumes "length (rd_fb d) = 76800"
  shows "length (draw_frame d) = 76800"
    "on_panel u v \<Longrightarrow> px_at (draw_frame d) u v =
      (if rd_have_marker d \<and> 220 \<le> u \<and> u < 260 \<and> 40 \<le> v \<and> v < 80 then rd_marker d
       else if rd_have_sq d \<and> rd_sq_x d - 10 \<le> u \<and> u < rd_sq_x d + 10 \<and> rd_sq_y d - 10 \<le> v \<and> v < rd_sq_y d + 10 then 0
       else quadrant_color (rd_inv d \<noteq> 0) u v)"
  using fill_quadrants_pixels [OF assms]
  by (simp_all add: draw_frame_def Let_def fill_square_pixels)

lemma later_refl [simp]: "later g g"
  by (simp add: later_def)

lemma demo_inv_later: "demo_inv g m d \<Longrightarrow> later g g' \<Longrightarrow> demo_inv g' m d"
  by (auto simp: demo_inv_def later_def)

text \<open>The variables of the loop after it has looked, before it draws, and whether it draws.\<close>

definition rgb_look :: "guest_input \<Rightarrow> net_marker \<Rightarrow> rgb_demo \<Rightarrow> rgb_demo" where
  "rgb_look g m d =
     (let n = esprite_agent_gpio_events BTN_PIN g;
          d = (if n \<noteq> rd_events_seen d
               then d\<lparr>rd_inv := (rd_inv d + (n - rd_events_seen d)) mod 2, rd_events_seen := n\<rparr> else d);
          d = (if g_touches g \<noteq> rd_touch_seen d
               then d\<lparr>rd_touch_seen := g_touches g, rd_have_sq := True, rd_sq_x := g_x g, rd_sq_y := g_y g\<rparr> else d)
      in if nm_events m \<noteq> rd_marker_seen d
         then d\<lparr>rd_marker_seen := nm_events m, rd_have_marker := True, rd_marker := word_of_int (nm_color m)\<rparr> else d)"

definition rgb_dirty :: "guest_input \<Rightarrow> net_marker \<Rightarrow> rgb_demo \<Rightarrow> bool" where
  "rgb_dirty g m d \<longleftrightarrow> esprite_agent_gpio_events BTN_PIN g \<noteq> rd_events_seen d \<or>
     g_touches g \<noteq> rd_touch_seen d \<or> nm_events m \<noteq> rd_marker_seen d \<or> \<not> rd_drawn_once d"

lemma rgb_poll_look:
  "rgb_poll g m d = (let d' = rgb_look g m d in if rgb_dirty g m d
     then d'\<lparr>rd_drawn_once := True, rd_fb := draw_frame d', rd_panel := Some (draw_frame d')\<rparr> else d')"
  by (auto simp: rgb_poll_def rgb_look_def rgb_dirty_def esprite_agent_touch_events_def Let_def)

lemma rgb_look_vars:
  assumes "demo_inv g m d"
  defines "d' \<equiv> rgb_look g m d"
  shows "rd_inv d' = esprite_agent_gpio_events BTN_PIN g mod 2" "rd_events_seen d' = esprite_agent_gpio_events BTN_PIN g"
    "rd_touch_seen d' = g_touches g" "rd_have_sq d' = (g_touches g \<noteq> 0)"
    "rd_have_sq d' \<Longrightarrow> rd_sq_x d' = g_x g \<and> rd_sq_y d' = g_y g"
    "rd_marker_seen d' = nm_events m" "rd_have_marker d' = (nm_events m \<noteq> 0)"
    "rd_have_marker d' \<Longrightarrow> rd_marker d' = word_of_int (nm_color m)"
    "rd_fb d' = rd_fb d" "\<not> rgb_dirty g m d \<Longrightarrow> d' = d"
proof -
  have e: "(rd_events_seen d mod 2 + (n - rd_events_seen d)) mod 2 = n mod 2" for n
    by (simp add: mod_add_left_eq)
  have i: "rd_inv d = rd_events_seen d mod 2" "rd_have_sq d = (rd_touch_seen d \<noteq> 0)"
    "rd_have_marker d = (rd_marker_seen d \<noteq> 0)" "0 \<le> rd_touch_seen d" "rd_touch_seen d \<le> g_touches g"
    "0 \<le> rd_marker_seen d" "rd_marker_seen d \<le> nm_events m"
    "rd_touch_seen d = g_touches g \<Longrightarrow> rd_have_sq d \<Longrightarrow> rd_sq_x d = g_x g \<and> rd_sq_y d = g_y g"
    "rd_marker_seen d = nm_events m \<Longrightarrow> rd_have_marker d \<Longrightarrow> rd_marker d = word_of_int (nm_color m)"
    using assms(1) by (simp_all add: demo_inv_def)
  show "rd_inv d' = esprite_agent_gpio_events BTN_PIN g mod 2" "rd_events_seen d' = esprite_agent_gpio_events BTN_PIN g"
    "rd_touch_seen d' = g_touches g" "rd_marker_seen d' = nm_events m" "rd_fb d' = rd_fb d"
    by (simp_all add: d'_def rgb_look_def Let_def i(1) e)
  show "rd_have_sq d' = (g_touches g \<noteq> 0)" "rd_have_marker d' = (nm_events m \<noteq> 0)"
    using i(2-7) by (simp_all add: d'_def rgb_look_def Let_def)
  show "rd_have_sq d' \<Longrightarrow> rd_sq_x d' = g_x g \<and> rd_sq_y d' = g_y g"
    using i(8) by (auto simp: d'_def rgb_look_def Let_def split: if_splits)
  show "rd_have_marker d' \<Longrightarrow> rd_marker d' = word_of_int (nm_color m)"
    using i(9) by (auto simp: d'_def rgb_look_def Let_def split: if_splits)
  show "\<not> rgb_dirty g m d \<Longrightarrow> d' = d" by (simp add: d'_def rgb_look_def rgb_dirty_def Let_def)
qed

lemma draw_frame_cong:
  "rd_fb a = rd_fb b \<Longrightarrow> rd_inv a = rd_inv b \<Longrightarrow> rd_have_sq a = rd_have_sq b \<Longrightarrow> rd_sq_x a = rd_sq_x b \<Longrightarrow>
   rd_sq_y a = rd_sq_y b \<Longrightarrow> rd_have_marker a = rd_have_marker b \<Longrightarrow> rd_marker a = rd_marker b \<Longrightarrow>
   draw_frame a = draw_frame b"
  by (simp add: draw_frame_def Let_def)

lemma rgb_poll_shows:
  assumes "demo_inv g m d"
  shows "demo_inv g m (rgb_poll g m d) \<and>
    (\<exists>f. rd_panel (rgb_poll g m d) = Some f \<and> (\<forall>u v. on_panel u v \<longrightarrow> px_at f u v = rgb_spec g m u v))"
proof -
  let ?d = "rgb_look g m d"
  note v = rgb_look_vars [OF assms]
  have fb: "length (rd_fb d) = 76800" "0 \<le> g_touches g" "0 \<le> nm_events m" using assms by (auto simp: demo_inv_def)
  have spec: "px_at (draw_frame (?d\<lparr>rd_fb := f\<rparr>)) u w = rgb_spec g m u w"
    if "length f = 76800" "on_panel u w" for f u w
    using draw_frame_pixels(2) [of "?d\<lparr>rd_fb := f\<rparr>" u w] that v(1,4,5,7,8)
    by (auto simp: rgb_spec_def odd_iff_mod_2_eq_one)
  have len: "length (draw_frame ?d) = 76800" using draw_frame_pixels(1) [of ?d] fb(1) v(9) by simp
  show ?thesis
  proof (cases "rgb_dirty g m d")
    case True
    let ?e = "?d\<lparr>rd_drawn_once := True, rd_fb := draw_frame ?d, rd_panel := Some (draw_frame ?d)\<rparr>"
    have e: "rgb_poll g m d = ?e" using True by (simp add: rgb_poll_look Let_def)
    have "demo_inv g m ?e"
      unfolding demo_inv_def
    proof (intro conjI impI exI)
      show "length (rd_fb d) = 76800" by (rule fb(1))
      show "rd_panel ?e = Some (draw_frame (?e\<lparr>rd_fb := rd_fb d\<rparr>))"
        using draw_frame_cong [of ?d "?e\<lparr>rd_fb := rd_fb d\<rparr>"] v(9) by simp
    qed (use v fb len in simp_all)
    moreover have "px_at (draw_frame ?d) u w = rgb_spec g m u w" if "on_panel u w" for u w
      using spec [of "rd_fb ?d" u w] draw_frame_cong [of "?d\<lparr>rd_fb := rd_fb ?d\<rparr>" ?d] fb(1) v(9) that by simp
    ultimately show ?thesis unfolding e by simp
  next
    case False
    then have e: "rgb_poll g m d = d" "?d = d" using v(10) by (simp_all add: rgb_poll_look Let_def)
    have "rd_drawn_once d" using False by (simp add: rgb_dirty_def)
    then obtain f where "length f = 76800" "rd_panel d = Some (draw_frame (d\<lparr>rd_fb := f\<rparr>))"
      using assms by (auto simp: demo_inv_def)
    then show ?thesis using assms spec unfolding e by simp
  qed
qed

text \<open>What a byte does to the injected state, seen between any two of its stages.\<close>

lemma later_trans: "later a b \<Longrightarrow> later b c \<Longrightarrow> later a c"
  by (auto simp: later_def)

lemma later_effects [simp]:
  "later g (set_level pin v g)" "later g (count_event pin g)" "later g (press_touch x y g)" "later g (g\<lparr>g_held := b\<rparr>)"
  by (simp_all add: later_def set_level_def count_event_def press_touch_def)

definition later_chain :: "guest_input \<Rightarrow> served \<Rightarrow> bool" where
  "later_chain g r = (case r of (l, g', hs) \<Rightarrow> (\<forall>(h, ms) \<in> set hs. later g h \<and> later h g') \<and> later g g' \<and> length hs \<le> 1)"

lemma later_gpio: "later_chain g (do_gpio s g)"
  using later_trans [OF later_effects(2) later_effects(1)]
  by (auto simp: do_gpio_def later_chain_def split: option.splits)

lemma later_pulse: "later_chain g (do_pulse s g)"
  using later_trans [OF later_effects(1) later_effects(2)] later_trans [OF later_effects(1) later_trans [OF later_effects(1) later_effects(2)]]
  by (auto simp: do_pulse_def later_chain_def Let_def split: option.splits)

lemma later_touch: "later_chain g (do_touch s g)"
  by (auto simp: do_touch_def later_chain_def split: option.splits)

lemma later_tap: "later_chain g (do_tap s g)"
  using later_trans [OF later_effects(3) later_effects(4)]
  by (auto simp: do_tap_def later_chain_def Let_def split: option.splits)

lemma later_line: "later_chain g (handle_line line g)"
proof (cases "strtok (c_str line)")
  case (Some p)
  obtain cmd s where "p = (cmd, s)" by force
  moreover have "later_chain g (r, g, [])" "later_chain g (r, g\<lparr>g_held := b\<rparr>, [])" for r b
    by (simp_all add: later_chain_def)
  ultimately show ?thesis using Some later_gpio later_pulse later_touch later_tap by (simp add: handle_line_def)
qed (simp add: handle_line_def later_chain_def)

lemma later_byte:
  "\<exists>hs. gt_holds (agent_byte c t) = gt_holds t @ hs \<and> later (gt_in t) (gt_in (agent_byte c t)) \<and> length hs \<le> 1 \<and>
    (\<forall>(h, ms) \<in> set hs. later (gt_in t) h \<and> later h (gt_in (agent_byte c t)))"
proof -
  obtain r g hs where h: "handle_line (gt_line t) (gt_in t) = (r, g, hs)" by (metis prod_cases3)
  show ?thesis
    using later_line [of "gt_in t" "gt_line t"] h
    by (auto simp: agent_byte_def run_line_def reply_def later_chain_def)
qed

lemma demo_inv_polls: "demo_inv g m d \<Longrightarrow> demo_inv g m ((rgb_poll g m ^^ n) d)"
  by (induction n) (use rgb_poll_shows in auto)

lemma demo_inv_post: "demo_inv g m d \<Longrightarrow> demo_inv g (snd (snapshot_post color body m)) d"
  by (auto simp: snapshot_post_def Let_def demo_inv_def split: option.splits)

lemma demo_run_inv: "demo_run color t m d \<Longrightarrow> demo_inv (gt_in t) m d"
proof (induction rule: demo_run.induct)
  case start
  show ?case by (simp add: demo_inv_def rgb_start_def agent_start_def reply_def guest_init_def)
next
  case (byte t m d c n)
  obtain hs where hs: "gt_holds (agent_byte c t) = gt_holds t @ hs" "later (gt_in t) (gt_in (agent_byte c t))"
    "length hs \<le> 1" "\<forall>(h, ms) \<in> set hs. later (gt_in t) h \<and> later h (gt_in (agent_byte c t))"
    using later_byte by blast
  show ?case
  proof (cases hs)
    case Nil
    then show ?thesis using byte.IH hs by (simp add: demo_inv_later)
  next
    case (Cons p ps)
    obtain h ms where p: "p = (h, ms)" by force
    then have "hs = [(h, ms)]" "later (gt_in t) h" "later h (gt_in (agent_byte c t))" using Cons hs by auto
    note s = this
    have "demo_inv h m ((rgb_poll h m ^^ n) d)"
      by (rule demo_inv_polls [OF demo_inv_later [OF byte.IH s(2)]])
    then have "demo_inv (gt_in (agent_byte c t)) m ((rgb_poll h m ^^ n) d)"
      using s(3) by (rule demo_inv_later)
    then show ?thesis using hs(1) s(1) by simp
  qed
next
  case (post t m d body)
  from post.IH show ?case by (rule demo_inv_post)
next
  case (poll t m d)
  then show ?case using rgb_poll_shows by blast
qed

text \<open>
  Property C6. The panel shows what was injected: whatever bytes the agent got and whatever was posted,
  however the render loop was scheduled in between, held states included, after its next round the
  frame on the panel is, at every pixel, the quadrants inverted for an odd number of button presses,
  the last touch as a black square clipped to the panel, and the last valid colour posted.
\<close>

theorem panel_shows_injected:
  assumes "demo_run color t m d"
  shows "\<exists>f. rd_panel (rgb_poll (gt_in t) m d) = Some f \<and>
    (\<forall>u v. on_panel u v \<longrightarrow> px_at f u v = rgb_spec (gt_in t) m u v)"
  using rgb_poll_shows [OF demo_run_inv [OF assms]] by blast

lemma demo_run_bytes: "demo_run color t m d \<Longrightarrow> \<exists>d'. demo_run color (agent_bytes s t) m d'"
proof (induction s arbitrary: t d)
  case (Cons c s)
  from demo_run.byte [OF Cons.prems, of c 0] Cons.IH show ?case by fastforce
qed auto

theorem panel_shows_injected_witness:
  "\<exists>m d f. demo_run (\<lambda>_. Some 5) (agent_bytes (''tap 100 50 20'' @ [nl]) agent_start) m d \<and>
     rd_panel (rgb_poll (gt_in (agent_bytes (''tap 100 50 20'' @ [nl]) agent_start)) m d) = Some f \<and>
     px_at f 109 59 = 0 \<and> px_at f 110 59 = 0xF800 \<and> px_at f 240 60 = 5"
proof -
  let ?t = "agent_bytes (''tap 100 50 20'' @ [nl]) agent_start"
  have line: "cmd_text (Tap 100 50 20) = ''tap 100 50 20''" by code_simp
  have "gt_in ?t = (press_touch 100 50 guest_init)\<lparr>g_held := False\<rparr>"
    using serve_cmd [of "Tap 100 50 20" agent_start] unfolding line by (simp add: agent_start_def reply_def)
  then have t: "g_touches (gt_in ?t) = 1" "g_x (gt_in ?t) = 100" "g_y (gt_in ?t) = 50"
    "esprite_agent_gpio_events BTN_PIN (gt_in ?t) = 0"
    by (simp_all add: press_touch_def guest_init_def esprite_agent_gpio_events_def BTN_PIN_def MAX_PIN_def)
  obtain d where d: "demo_run (\<lambda>_. Some 5) ?t \<lparr>nm_color = 0, nm_events = 0\<rparr> d"
    using demo_run_bytes [OF demo_run.start] by blast
  let ?m = "snd (snapshot_post (\<lambda>_. Some 5) ''x'' \<lparr>nm_color = 0, nm_events = 0\<rparr>)"
  have m: "nm_color ?m = 5" "nm_events ?m = 1" by (simp_all add: snapshot_post_def Let_def)
  have r: "demo_run (\<lambda>_. Some 5) ?t ?m d" using d by (rule demo_run.post)
  obtain f where f: "rd_panel (rgb_poll (gt_in ?t) ?m d) = Some f"
    "\<forall>u v. on_panel u v \<longrightarrow> px_at f u v = rgb_spec (gt_in ?t) ?m u v"
    using panel_shows_injected [OF r] by blast
  have "px_at f 109 59 = 0" "px_at f 110 59 = 0xF800" "px_at f 240 60 = 5"
    using f(2) t m by (simp_all add: on_panel_def rgb_spec_def quadrant_color_def)
  with r f(1) show ?thesis by blast
qed

end
