(* ===== verification/BoardHal.thy ===== *)
theory BoardHal
  imports Actions
begin

text \<open>
  The hardware layer that the simulator gives to a firmware: the agentgauge HAL
  (\<^verbatim>\<open>firmwares/agentgauge/board_sim\<close>) with the board it runs on, the LVGL display glue
  (\<^verbatim>\<open>peripherals/lvgl/lvgl_display.cpp\<close>), and the Wi-Fi and OTA stubs (\<^verbatim>\<open>shims/net\<close>,
  \<^verbatim>\<open>shims/esp\<close>). All of it reads and writes the world of \<open>Runtime\<close>.
\<close>

section \<open>What the board is\<close>

record BoardCaps =
  bc_width :: "16 word"
  bc_height :: "16 word"
  bc_has_battery :: bool
  bc_button_count :: "8 word"

definition board_caps :: "'e sim \<Rightarrow> 'e world \<Rightarrow> BoardCaps" where
  "board_caps S w =
     (case active_board S w of
        None \<Rightarrow> \<lparr>bc_width = 0, bc_height = 0, bc_has_battery = False, bc_button_count = 0\<rparr>
      | Some b \<Rightarrow> \<lparr>bc_width = word_of_int (bd_width b), bc_height = word_of_int (bd_height b),
          bc_has_battery = bd_has_battery b,
          bc_button_count = fold (\<lambda>btn n. if b_action btn = ACT_PRIMARY \<or> b_action btn = ACT_SECONDARY
                                         then n + 1 else n) (bd_buttons b) 0\<rparr>)"

definition waveshare_board :: BoardDesc where
  "waveshare_board = \<lparr>bd_name = ''Waveshare ESP32-S3-Touch-AMOLED-1.8'', bd_width = 480, bd_height = 480,
     bd_has_rotation = False, bd_has_battery = True, bd_has_imu = True,
     bd_buttons = [
       \<lparr>b_label = ''PRIMARY'', b_action = ACT_PRIMARY, b_gpio = 0, b_key = CHR '' '', b_edge = EDGE_RIGHT,
         b_pos = 3 / 10, b_active_low = False\<rparr>,
       \<lparr>b_label = ''PWR'', b_action = ACT_PWR, b_gpio = 0, b_key = CHR ''p'', b_edge = EDGE_RIGHT,
         b_pos = 1 / 2, b_active_low = False\<rparr>,
       \<lparr>b_label = ''SECONDARY'', b_action = ACT_SECONDARY, b_gpio = 0, b_key = CHR 0x09, b_edge = EDGE_RIGHT,
         b_pos = 7 / 10, b_active_low = False\<rparr>]\<rparr>"

text \<open>The firmware itself is not in the repository: its entry points are parameters.\<close>

definition waveshare_target :: "('w \<Rightarrow> 'w) \<Rightarrow> ('w \<Rightarrow> 'w) \<Rightarrow> 'w SimTarget" where
  "waveshare_target agentgauge_setup agentgauge_loop = \<lparr>t_key = ''waveshare_amoled_18'',
     t_description = ''Waveshare ESP32-S3-Touch-AMOLED-1.8 (480x480) running the agentgauge firmware'',
     t_setup = Some agentgauge_setup, t_loop = Some agentgauge_loop, t_board = Some waveshare_board,
     t_backend = BACKEND_NATIVE, t_qemu = None\<rparr>"

section \<open>Display and power\<close>

definition display_hal_init :: "'e sim \<Rightarrow> 'e world \<Rightarrow> bool \<times> 'e world" where
  "display_hal_init S w =
     (let c = board_caps S w
      in (True, w\<lparr>w_fb := fb_init (uint (bc_width c)) (uint (bc_height c)) (w_fb w)\<rparr>))"

definition display_hal_blit :: "int \<Rightarrow> int \<Rightarrow> int \<Rightarrow> int \<Rightarrow> 16 word list \<Rightarrow> 'e world \<Rightarrow> 'e world" where
  "display_hal_blit x1 y1 bw bh pixels w = w\<lparr>w_fb := fb_blit x1 y1 bw bh pixels (w_fb w)\<rparr>"

definition power_hal_init :: bool where
  "power_hal_init = True"

definition power_hal_battery_present :: "'e sim \<Rightarrow> 'e world \<Rightarrow> bool" where
  "power_hal_battery_present S w = bc_has_battery (board_caps S w)"

definition power_hal_battery_pct :: "'e sim \<Rightarrow> 'e world \<Rightarrow> 8 word" where
  "power_hal_battery_pct S w =
     (if \<not> bc_has_battery (board_caps S w) then 0
      else (let pct = battery_pct (w_input w); pct = (if pct < 0 then 0 else pct); pct = (if pct > 100 then 100 else pct)
            in word_of_int pct))"

definition power_hal_is_charging :: "'e world \<Rightarrow> bool" where
  "power_hal_is_charging w = charging (w_input w)"

text \<open>\<^verbatim>\<open>touch_hal_init\<close> and \<^verbatim>\<open>input_hal_init\<close> have nothing to set up.\<close>

definition board_init :: "'e sim \<Rightarrow> 'e world \<Rightarrow> bool \<times> 'e world" where
  "board_init S w =
     (if \<not> power_hal_init then (False, w)
      else (case display_hal_init S w of (ok, w) \<Rightarrow> if \<not> ok then (False, w) else (True, w)))"

section \<open>The LVGL display glue\<close>

record lv_glue =
  lg_inited :: bool
  lg_disp :: "(int \<times> int) option"        \<comment> \<open>the one display LVGL has, by its resolution\<close>
  lg_buffers :: "(nat \<times> nat) option"     \<comment> \<open>pixels of \<^verbatim>\<open>b1\<close> and \<^verbatim>\<open>b2\<close>\<close>
  lg_created :: nat                      \<comment> \<open>calls of \<^verbatim>\<open>lv_display_create\<close>\<close>

definition lv_glue_start :: lv_glue where
  "lv_glue_start = \<lparr>lg_inited = False, lg_disp = None, lg_buffers = None, lg_created = 0\<rparr>"

definition lv_flush_cb :: "int \<Rightarrow> int \<Rightarrow> int \<Rightarrow> int \<Rightarrow> 16 word list \<Rightarrow> Framebuffer \<Rightarrow> Framebuffer" where
  "lv_flush_cb x1 y1 x2 y2 px fb =
     (let fw = x2 - x1 + 1; fh = y2 - y1 + 1 in fb_blit x1 y1 fw fh px fb)"

definition lvgl_bind_framebuffer :: "int \<Rightarrow> int \<Rightarrow> lv_glue \<times> Framebuffer \<Rightarrow> lv_glue \<times> Framebuffer" where
  "lvgl_bind_framebuffer bw bh = (\<lambda>(g, fb).
     let fb = fb_init bw bh fb;
         g = (if \<not> lg_inited g then g\<lparr>lg_inited := True\<rparr> else g);
         g = (case lg_disp g of
                None \<Rightarrow> g\<lparr>lg_disp := Some (bw, bh), lg_created := lg_created g + 1\<rparr>
              | Some _ \<Rightarrow> g\<lparr>lg_disp := Some (bw, bh)\<rparr>);
         n = size_mul bw 40
     in (g\<lparr>lg_buffers := Some (n, n)\<rparr>, fb))"

section \<open>Wi-Fi and OTA stubs\<close>

definition WL_CONNECTED :: int where "WL_CONNECTED = 3"
definition WL_DISCONNECTED :: int where "WL_DISCONNECTED = 6"

definition WiFi_status :: "'e world \<Rightarrow> int" where
  "WiFi_status w = (if w_wifi w then WL_CONNECTED else WL_DISCONNECTED)"

definition WiFi_reconnect :: "'e world \<Rightarrow> 'e world" where
  "WiFi_reconnect w = w"

definition WiFi_disconnect :: "'e world \<Rightarrow> 'e world" where
  "WiFi_disconnect w = w\<lparr>w_wifi := False\<rparr>"

record 'w WiFiManager =
  wm_ap_cb :: "('w \<Rightarrow> 'w) option"
  wm_portal_enabled :: bool

definition wifi_manager_new :: "'w WiFiManager" where
  "wifi_manager_new = \<lparr>wm_ap_cb = None, wm_portal_enabled = True\<rparr>"

definition setEnableConfigPortal :: "bool \<Rightarrow> 'w WiFiManager \<Rightarrow> 'w WiFiManager" where
  "setEnableConfigPortal enable m = m\<lparr>wm_portal_enabled := enable\<rparr>"

definition setAPCallback :: "('w \<Rightarrow> 'w) option \<Rightarrow> 'w WiFiManager \<Rightarrow> 'w WiFiManager" where
  "setAPCallback cb m = m\<lparr>wm_ap_cb := cb\<rparr>"

text \<open>\<open>portal\<close> is the environment variable \<^verbatim>\<open>ESPRITE_WIFI_PORTAL\<close>.\<close>

definition autoConnect :: "string option \<Rightarrow> 'w WiFiManager \<Rightarrow> 'w \<Rightarrow> bool \<times> 'w" where
  "autoConnect portal m w =
     (case (portal, wm_ap_cb m) of
        (Some p, Some cb) \<Rightarrow>
          if wm_portal_enabled m \<and> p \<noteq> [] \<and> hd p = CHR ''1'' then (False, cb w) else (True, w)
      | _ \<Rightarrow> (True, w))"

definition startConfigPortal :: "'w WiFiManager \<Rightarrow> 'w \<Rightarrow> bool \<times> 'w" where
  "startConfigPortal m w = (True, case wm_ap_cb m of None \<Rightarrow> w | Some cb \<Rightarrow> cb w)"

datatype esp_ota_img_states_t = ESP_OTA_IMG_NEW | ESP_OTA_IMG_PENDING_VERIFY | ESP_OTA_IMG_VALID
  | ESP_OTA_IMG_INVALID | ESP_OTA_IMG_ABORTED | ESP_OTA_IMG_UNDEFINED

definition esp_ota_get_state_partition :: "int \<times> esp_ota_img_states_t" where
  "esp_ota_get_state_partition = (0, ESP_OTA_IMG_VALID)"

definition esp_ota_mark_app_valid_cancel_rollback :: int where
  "esp_ota_mark_app_valid_cancel_rollback = 0"

definition esp_ota_mark_app_invalid_rollback_and_reboot :: int where
  "esp_ota_mark_app_invalid_rollback_and_reboot = -1"

section \<open>What the firmware reads is what was injected\<close>

lemma battery_pct_range: "uint (power_hal_battery_pct S w) \<le> 100"
  by (simp add: power_hal_battery_pct_def Let_def unsigned_of_int take_bit_int_eq_self)

lemma battery_pct_reads:
  assumes "bc_has_battery (board_caps S w)" "0 \<le> battery_pct (w_input w)" "battery_pct (w_input w) \<le> 100"
  shows "uint (power_hal_battery_pct S w) = battery_pct (w_input w)"
  using assms by (simp add: power_hal_battery_pct_def Let_def unsigned_of_int take_bit_int_eq_self)

text \<open>A firmware that leaves the input bus, the active target and the radio alone.\<close>

definition polls_only :: "'e sim \<Rightarrow> bool" where
  "polls_only S \<longleftrightarrow> (\<forall>t \<in> set (s_reg S). \<forall>f. t_loop t = Some f \<longrightarrow>
     (\<forall>w. w_input (f w) = w_input w \<and> w_active (f w) = w_active w \<and> w_wifi (f w) = w_wifi w))"

lemma polls_only_steps:
  assumes "polls_only S" "active_ok S w"
  shows "w_input (steps S n w) = w_input w \<and> w_active (steps S n w) = w_active w \<and> w_wifi (steps S n w) = w_wifi w"
proof -
  let ?P = "\<lambda>v. w_input v = w_input w \<and> w_active v = w_active w \<and> w_wifi v = w_wifi w"
  have "?P v \<Longrightarrow> ?P (sim_step (s_reg S) v)" for v
  proof -
    assume v: "?P v"
    show "?P (sim_step (s_reg S) v)"
    proof (cases "active_loop (s_reg S) v")
      case (Some f)
      then obtain i where i: "w_active v = Some i" "t_loop (s_reg S ! i) = Some f"
        by (auto simp: active_loop_def split: option.splits)
      then have "s_reg S ! i \<in> set (s_reg S)" using v assms(2) by (auto simp: active_ok_def)
      with assms(1) i(2) have "w_input (f v) = w_input v \<and> w_active (f v) = w_active v \<and> w_wifi (f v) = w_wifi v"
        by (auto simp: polls_only_def)
      with v Some show ?thesis by (simp add: sim_step_def)
    qed (use v in \<open>simp add: sim_step_def\<close>)
  qed
  from run_steps_inv [where P = ?P, OF this] show ?thesis by blast
qed

lemma active_board_cong: "w_active v = w_active w \<Longrightarrow> active_board S v = active_board S w \<and> board_caps S v = board_caps S w"
  by (simp add: active_board_def active_target_def board_caps_def)

text \<open>
  With a firmware that only polls, an accepted battery action makes the power HAL report that
  percentage and charging state, and an accepted Wi-Fi action sets the Wi-Fi status.
\<close>

lemma hal_reads_injected:
  assumes "polls_only S" and "active_ok S w" and "fst (apply_battery pct (Some c) vb S w) = None"
  shows "power_hal_battery_present S (snd (apply_battery pct (Some c) vb S w)) \<and>
    uint (power_hal_battery_pct S (snd (apply_battery pct (Some c) vb S w))) = pct \<and>
    power_hal_is_charging (snd (apply_battery pct (Some c) vb S w)) = c"
proof -
  obtain b where b: "active_board S w = Some b" "bd_has_battery b" "0 \<le> pct" "pct \<le> 100"
    using assms(3) by (auto simp: apply_battery_def split: if_splits option.splits)
  define i where "i = (case vb of None \<Rightarrow> (w_input w)\<lparr>battery_pct := pct, charging := c\<rparr>
    | Some v \<Rightarrow> (w_input w)\<lparr>battery_pct := pct, charging := c, vbus := v\<rparr>)"
  have a: "snd (apply_battery pct (Some c) vb S w) = steps S 5 (w\<lparr>w_input := i\<rparr>)"
    using b by (simp add: apply_battery_def Let_def i_def split: option.split)
  have s: "w_input (steps S 5 (w\<lparr>w_input := i\<rparr>)) = i" "w_active (steps S 5 (w\<lparr>w_input := i\<rparr>)) = w_active w"
    using polls_only_steps [OF assms(1), of "w\<lparr>w_input := i\<rparr>"] assms(2) by simp_all
  have i: "battery_pct i = pct" "charging i = c" by (simp_all add: i_def split: option.split)
  have caps: "bc_has_battery (board_caps S (steps S 5 (w\<lparr>w_input := i\<rparr>)))"
    using active_board_cong [OF s(2)] b(1,2) by (simp add: board_caps_def)
  show ?thesis
    using battery_pct_reads [OF caps] b(3,4) caps
    by (simp add: a s i power_hal_battery_present_def power_hal_is_charging_def)
qed

lemma wifi_reads_injected:
  assumes "polls_only S" "active_ok S w" "fst (apply_wifi state S w) = None"
  shows "WiFi_status (snd (apply_wifi state S w)) = (if state = ''up'' then WL_CONNECTED else WL_DISCONNECTED)"
proof -
  have "snd (apply_wifi state S w) = steps S 5 (w\<lparr>w_wifi := (state = ''up'')\<rparr>)"
    using assms(3) by (auto simp: apply_wifi_def split: if_splits)
  moreover have "active_ok S (w\<lparr>w_wifi := (state = ''up'')\<rparr>)" using assms(2) by (simp add: active_ok_def)
  ultimately show ?thesis
    using polls_only_steps [OF assms(1), of "w\<lparr>w_wifi := (state = ''up'')\<rparr>"] by (simp add: WiFi_status_def)
qed

text \<open>Wi-Fi taken down stays down whatever the firmware's own retry does.\<close>

lemma wifi_stays_down: "WiFi_status (WiFi_reconnect (WiFi_disconnect w)) = WL_DISCONNECTED"
  by (simp add: WiFi_status_def WiFi_reconnect_def WiFi_disconnect_def)

text \<open>However often the framebuffer is bound again there is one display, of the last size.\<close>

lemma one_display:
  "bs \<noteq> [] \<Longrightarrow> case fold (\<lambda>(bw, bh). lvgl_bind_framebuffer bw bh) bs (lv_glue_start, fb) of (g, fb') \<Rightarrow>
     lg_created g = 1 \<and> lg_disp g = Some (last bs) \<and> fb_w fb' = fst (last bs) \<and> fb_h fb' = snd (last bs)"
proof (induction bs rule: rev_induct)
  case (snoc b bs)
  obtain bw bh where b: "b = (bw, bh)" by force
  show ?case
  proof (cases "bs = []")
    case True
    then show ?thesis by (simp add: b lvgl_bind_framebuffer_def lv_glue_start_def Let_def fb_init_def)
  next
    case False
    with snoc show ?thesis by (auto simp: b lvgl_bind_framebuffer_def Let_def fb_init_def split: prod.splits)
  qed
qed simp

end
