(* ===== verification/ArduinoString.thy ===== *)
theory ArduinoString
  imports Prelude
begin

text \<open>
  The rest of the Arduino core's surface (\<^verbatim>\<open>shims/arduino/Arduino.h\<close>, \<^verbatim>\<open>Wire.h\<close>): the \<open>String\<close>
  class over \<^verbatim>\<open>std::string\<close>, the \<^verbatim>\<open>strlcpy\<close> for platforms without one, and the inert I2C bus. A
  C string argument is the characters before its terminator, or \<^const>\<open>None\<close> for a null pointer.
\<close>

section \<open>String\<close>

type_synonym String = string

definition String_of_cstr :: "string option \<Rightarrow> String" where
  "String_of_cstr p = (case p of None \<Rightarrow> [] | Some s \<Rightarrow> s)"

text \<open>Through a buffer of sixteen bytes, the terminator included.\<close>

definition String_of_int :: "int \<Rightarrow> String" where
  "String_of_int v = take 15 (int_to_string v)"

definition String_of_unsigned :: "32 word \<Rightarrow> String" where
  "String_of_unsigned v = take 15 (nat_to_string (unat v))"

definition String_c_str :: "String \<Rightarrow> string" where
  "String_c_str s = c_str s"

definition String_length :: "String \<Rightarrow> nat" where
  "String_length s = length s"

definition String_plus :: "String \<Rightarrow> String \<Rightarrow> String" where
  "String_plus s t = s @ t"

definition concat_cstr :: "string option \<Rightarrow> String \<Rightarrow> bool \<times> String" where
  "concat_cstr p s = (True, s @ (case p of None \<Rightarrow> [] | Some t \<Rightarrow> t))"

definition concat_char :: "char \<Rightarrow> String \<Rightarrow> bool \<times> String" where
  "concat_char c s = (True, s @ [c])"

definition startsWith :: "string option \<Rightarrow> String \<Rightarrow> bool" where
  "startsWith p s = (case p of None \<Rightarrow> False | Some p \<Rightarrow> starts_with p s)"

definition indexOf_char :: "char \<Rightarrow> String \<Rightarrow> int" where
  "indexOf_char c s = (case str_find [c] s of None \<Rightarrow> - 1 | Some n \<Rightarrow> int n)"

definition indexOf :: "string option \<Rightarrow> String \<Rightarrow> int" where
  "indexOf p s = (case p of None \<Rightarrow> - 1
   | Some p \<Rightarrow> (case str_find p s of None \<Rightarrow> - 1 | Some n \<Rightarrow> int n))"

section \<open>strlcpy\<close>

text \<open>\<open>dst\<close>: the bytes of the destination, at least \<open>sz\<close> of them.\<close>

definition strlcpy :: "string \<Rightarrow> string \<Rightarrow> nat \<Rightarrow> nat \<times> string" where
  "strlcpy dst src sz =
     (let len = length src
      in (len, if sz = 0 then dst
               else (let n = (if len < sz - 1 then len else sz - 1)
                     in take n src @ [CHR 0x00] @ drop (n + 1) dst)))"

section \<open>The I2C bus and the constants\<close>

definition analogRead :: "int \<Rightarrow> int" where
  "analogRead pin = 0"

definition getFreeHeap :: "32 word" where
  "getFreeHeap = 200000"

definition Wire_begin :: bool where
  "Wire_begin = True"

definition Wire_endTransmission :: "8 word" where
  "Wire_endTransmission = 0"

definition Wire_write :: "string \<Rightarrow> nat" where
  "Wire_write buf = length buf"

definition Wire_requestFrom :: "8 word \<Rightarrow> 8 word \<Rightarrow> 8 word" where
  "Wire_requestFrom addr n = 0"

definition Wire_available :: int where
  "Wire_available = 0"

definition Wire_read :: int where
  "Wire_read = - 1"

section \<open>Lemmas\<close>

text \<open>Numbers of their C types always fit the buffer, and read back.\<close>

lemma String_of_int_fits:
  assumes "- (2 ^ 31) \<le> v" and "v < 2 ^ 31"
  shows "String_of_int v = int_to_string v" and "c_strtol (String_of_int v) = Some (v, [])"
proof -
  have "length (nat_to_string (nat \<bar>v\<bar>)) \<le> 10" by (rule length_nat_to_string) (use assms in simp_all)
  then have "length (int_to_string v) \<le> 15" by (auto simp: int_to_string_def abs_if split: if_splits)
  then show s: "String_of_int v = int_to_string v" by (simp add: String_of_int_def)
  show "c_strtol (String_of_int v) = Some (v, [])" unfolding s using c_strtol_int [of "[]" v] by simp
qed

lemma String_of_unsigned_fits: "String_of_unsigned v = nat_to_string (unat v)"
proof -
  have "unat v < 10 ^ 10" by (rule order_less_le_trans [OF unsigned_less]) simp
  then have "length (nat_to_string (unat v)) \<le> 10" by (rule length_nat_to_string) simp
  then show ?thesis by (simp add: String_of_unsigned_def)
qed

text \<open>\<^verbatim>\<open>startsWith\<close> and \<^verbatim>\<open>indexOf\<close> agree, and a hit is the first one.\<close>

lemma startsWith_indexOf: "startsWith (Some p) s \<longleftrightarrow> indexOf (Some p) s = 0"
  using str_find_Some [of p s 0] by (auto simp: startsWith_def indexOf_def split: option.splits)

lemma indexOf_first:
  "indexOf (Some p) s = int n \<longleftrightarrow> n \<le> length s \<and> starts_with p (drop n s) \<and> (\<forall>m < n. \<not> starts_with p (drop m s))"
  "indexOf (Some p) s = - 1 \<longleftrightarrow> (\<forall>n \<le> length s. \<not> starts_with p (drop n s))"
  by (auto simp: indexOf_def str_find_Some [symmetric] str_find_None [symmetric] split: option.splits)

lemma indexOf_char_mem: "indexOf_char c s = - 1 \<longleftrightarrow> c \<notin> set s"
proof (induction s)
  case (Cons d s)
  then show ?case by (auto simp: indexOf_char_def split: option.splits)
qed (simp add: indexOf_char_def)

text \<open>The copy is a terminated prefix that stays within the size given; the result tells the truncation.\<close>

lemma strlcpy_prefix:
  assumes "0 < sz" and "sz \<le> length dst" and "CHR 0x00 \<notin> set src" and "strlcpy dst src sz = (r, dst')"
  shows "c_str dst' = take (sz - 1) src \<and> length dst' = length dst \<and> drop sz dst' = drop sz dst \<and>
    (r < sz \<longleftrightarrow> c_str dst' = src)"
proof -
  let ?n = "min (length src) (sz - 1)"
  have d: "dst' = take ?n src @ [CHR 0x00] @ drop (?n + 1) dst" and r: "r = length src"
    using assms(1,4) by (auto simp: strlcpy_def Let_def min_def split: if_splits)
  have "CHR 0x00 \<notin> set (take ?n src)" using assms(3) by (auto dest: in_set_takeD)
  then have c: "c_str dst' = take ?n src"
    unfolding d c_str_def by (subst takeWhile_append2) auto
  have t: "take ?n src = take (sz - 1) src" by (simp add: min_def)
  have "drop sz dst' = drop sz dst"
  proof -
    have "drop sz dst' = drop (sz - (?n + 1)) (drop (?n + 1) dst)" using assms(1) by (auto simp: d drop_Cons')
    also have "\<dots> = drop (sz - (?n + 1) + (?n + 1)) dst" by (rule drop_drop)
    also have "sz - (?n + 1) + (?n + 1) = sz" using assms(1) by simp
    finally show ?thesis .
  qed
  moreover have "length dst' = length dst" using assms(1,2) by (simp add: d min_def)
  moreover have "r < sz \<longleftrightarrow> take ?n src = src" unfolding r t using assms(1) by auto
  ultimately show ?thesis unfolding c t by simp
qed

end
