(* ===== verification/Spec2Isabelle.thy ===== *)
theory Spec2Isabelle
  imports Prelude Target Shims Input Ble Framebuffer Screendump Tft TftShapes Gfx Wire AgentLink BleBridge Qmp
    QemuProcess QemuBoard QemuBackend Preferences CliText Lvgl WebServer Runtime Actions Float32 WindowLayout SimWindow WindowSession WindowDraw Dialects Scenario Session GuestAgent OneShot CliMain Lifetime Signals Sketches Panel GuestApps BoardHal ArduinoString
begin

text \<open>
  esprite runs ESP32 firmware on a desktop: the firmware is compiled against host shims of
  the Arduino libraries and drives a virtual board, or its flash image runs in a child QEMU.
  A command line, a JSON session and a window inject inputs and look at the screen. This
  library models that simulator and proves what its parts promise each other.

  \<^bold>\<open>How the program fits together, and where each part is modelled.\<close>

  \<^item> \<open>Target\<close> (\<^verbatim>\<open>core/target.*\<close>): boards, buttons and the target registry, a list in the order of
    registration; pointers to targets are indices.
  \<^item> \<open>Shims\<close>, \<open>ArduinoString\<close> (\<^verbatim>\<open>shims/arduino\<close>), \<open>Input\<close> (\<^verbatim>\<open>peripherals/input\<close>, the agentgauge readers), \<open>Ble\<close>
    (\<^verbatim>\<open>peripherals/ble\<close>): the global state of one peripheral each, as a record, and its
    operations as functions on that record.
  \<^item> \<open>Framebuffer\<close>, \<open>Screendump\<close>, \<open>Tft\<close>, \<open>TftShapes\<close>, \<open>Gfx\<close> (\<^verbatim>\<open>peripherals/display, tft_espi, gfx\<close>,
    \<^verbatim>\<open>backends/qemu/screendump.cpp\<close>): the screen, what draws on it and what reads it.
  \<^item> \<open>Preferences\<close>, \<open>WebServer\<close> (\<^verbatim>\<open>shims/esp\<close>, \<^verbatim>\<open>shims/net\<close>): the settings file and the HTTP server.
  \<^item> \<open>Lvgl\<close> (\<^verbatim>\<open>peripherals/lvgl\<close>): the widget snapshot and its references.
  \<^item> \<open>Runtime\<close> (\<^verbatim>\<open>core/runtime.cpp, core/backend.*\<close>): the \<open>world\<close> record of all process state, boot,
    stepping, settling, and the backend interface as a record of operations.
  \<^item> \<open>Wire\<close>, \<open>AgentLink\<close>, \<open>Qmp\<close>, \<open>BleBridge\<close>, \<open>QemuProcess\<close>, \<open>QemuBoard\<close>, \<open>QemuBackend\<close>
    (\<^verbatim>\<open>backends/qemu\<close>, \<^verbatim>\<open>cli/ble_bridge.cpp\<close>): the protocols with the child, its life cycle, and
    the backend made of them. \<open>QemuBackend\<close> is the extension of the world.
  \<^item> \<open>Float32\<close>, \<open>WindowLayout\<close>, \<open>SimWindow\<close>, \<open>WindowSession\<close>, \<open>WindowDraw\<close> (\<^verbatim>\<open>peripherals/display/window_layout.*\<close>,
    \<^verbatim>\<open>sim_window.cpp\<close>): single-precision arithmetic on rationals, the geometry of the device
    window, its event handlers, what a whole session guarantees, and the frame it paints, as the
    list of its renderer calls.
  \<^item> \<open>CliText\<close>, \<open>Actions\<close> (\<^verbatim>\<open>cli/cli_internal.h, cli/cli.cpp, cli/actions.cpp\<close>): the text layer of the
    command line and the injection actions all three dialects share.
  \<^item> \<open>Dialects\<close>, \<open>Scenario\<close>, \<open>OneShot\<close>, \<open>Session\<close>, \<open>CliMain\<close> (\<^verbatim>\<open>cli/cli.cpp, cli/scenario.cpp\<close>): the
    three spellings of an action (flags, scenario steps, session events), the one-shot commands,
    the run loop and the serve requests with what they reply and when they settle, and the
    dispatch of \<^verbatim>\<open>main\<close>. \<open>Lifetime\<close> follows a child process through all of that, and \<open>Signals\<close> is
    the interrupt handler with the pipe it writes, as a step relation of two threads.
  \<^item> \<open>GuestAgent\<close>, \<open>GuestApps\<close> (\<^verbatim>\<open>tools/qemu\<close>): the firmware's half of the agent link, the two
    panel demos, the touch driver and the LVGL demo's callbacks; a demo is a run of polls of
    the shared injection page.
  \<^item> \<open>Sketches\<close>, \<open>Panel\<close>, \<open>BoardHal\<close> (\<^verbatim>\<open>targets, shims, peripherals/lvgl/lvgl_display.cpp\<close>): the
    bundled sketches and boards as programs over the shims, and the hardware layer agentgauge
    is linked with.

  \<^bold>\<open>How the code is read.\<close> A struct is a record, an enumeration a datatype, a class's methods are
  functions that take and return its record. \<open>uint8_t\<close> to \<open>uint32_t\<close> are words, \<open>int\<close> and the
  narrower signed types are integers, reduced (\<open>s16\<close>, \<open>s32\<close>) where a conversion or a counter can
  wrap. \<open>std::string\<close> is a list of characters. A function that fills \<open>*err\<close> and returns false
  gives the error text in an option or on the left of a sum.

  \<^bold>\<open>What is outside.\<close> Each answer of the operating system is an argument: a socket or pipe is a
  list of events (\<open>net_event\<close> for reads, \<open>send_event\<close> for writes), so any way of cutting,
  delaying or breaking the traffic is one such list; a clock that ends a loop is the length of
  its list or a number of rounds. The JSON library, the regular expressions of \<open>serial expect\<close>
  and LVGL are parameters. No theorem assumes more of them than its statement says.

  \<^bold>\<open>Loops.\<close> \<open>drawLine\<close> and \<open>drawCircle\<close> have no evident bound and are partial functions proved to
  return (\<open>drawLine_path\<close>, \<open>drawCircle_outline\<close>); the 16-bit loops of \<open>Gfx\<close> are partial and do
  diverge in one case (\<open>gfx_fillCircle_diverges\<close>). All other functions are total.

  \<^bold>\<open>Not one step after another.\<close> Where the order is not the program's to choose, steps are an
  inductive relation and the theorems speak of every run: a Bluetooth host against the firmware
  (\<open>Ble\<close>), a signal against the loop it interrupts (\<open>Signals\<close>), injections against a demo's polls
  (\<open>GuestApps\<close>).

  \<^bold>\<open>The interfaces.\<close> \<open>pixel_sink\<close> (in \<open>Framebuffer\<close>) is what every drawing primitive needs of the pixel
  store; the framebuffer, the rotated TFT, the 16-bit shim and the frame array of the panel
  demos are its instances. \<open>line_reader\<close>
  (in \<open>Wire\<close>) is what a line client promises however its input is cut; QMP and the agent link
  are instances. \<open>fifo\<close> and \<open>store\<close> (in \<open>Prelude\<close>) are a queue and a
  keyed table; \<open>backend_contract\<close> (in \<open>Runtime\<close>) is what the
  CLI relies on of a backend, and both backends meet it.

  \<^bold>\<open>Not modelled.\<close> The PNG encoder (vendored), the text of the JSON schemas and of the help pages,
  what is logged to standard error, what SDL makes of the calls the window paints with, and of
  the guest programs whatever talks to the chip: UART set-up, the ESP-IDF start-up and network
  bring-up, and the construction of the LVGL screen. The constant stubs of \<^verbatim>\<open>shims/net\<close> are
  modelled in \<open>BoardHal\<close> as far as a caller can observe them. The agentgauge firmware is not part
  of the repository. No theorem speaks of these.
\<close>

end
